(* ===== verification/Prelude.thy ===== *)
theory Prelude
  imports Main "HOL-Library.Word" "HOL-Library.AList"
begin

unbundle bit_operations_syntax

text \<open>
  Shared vocabulary of the development: Go's byte slices, fixed-size buffers and
  \<open>copy\<close>, big-endian integers (\<open>encoding/binary\<close>), maps, times and durations,
  and the generic lemmas about them that the components use.

  Conventions. A Go \<open>[]byte\<close> and a Go \<open>string\<close> are both \<open>bytes\<close>; a
  Go map is an association list with distinct keys (\<open>mget\<close>, \<open>mput\<close>,
  \<open>mdel\<close>), so that \<open>len(m)\<close> is its length; a \<open>(T, error)\<close> result is a
  sum with \<open>Inl\<close> for the error.
\<close>

named_theorems map_laws \<open>lookup, update and deletion in Go maps\<close>
named_theorems buf_laws \<open>lengths and contents of buffers\<close>

section \<open>Bytes\<close>

type_synonym byte = "8 word"
type_synonym bytes = "byte list"
type_synonym u16 = "16 word"
type_synonym u64 = "64 word"

text \<open>The bytes of an ASCII literal, \<open>[]byte("...")\<close>.\<close>

definition ascii :: "string \<Rightarrow> bytes" where
  "ascii s = map of_char s"

definition zeros :: "nat \<Rightarrow> bytes" where
  "zeros n = replicate n 0"

definition all_zero :: "bytes \<Rightarrow> bool" where
  "all_zero b = list_all (\<lambda>x. x = 0) b"

text \<open>
  The content of a fresh \<open>n\<close>-byte buffer after \<open>copy(buf, src)\<close>: \<open>copy\<close>
  writes \<open>min n (len src)\<close> bytes and leaves the rest zero.
\<close>

definition go_copy :: "nat \<Rightarrow> bytes \<Rightarrow> bytes" where
  "go_copy n src = take n src @ zeros (n - length src)"

lemma length_ascii [simp, buf_laws]: "length (ascii s) = length s"
  by (simp add: ascii_def)

lemma length_zeros [simp, buf_laws]: "length (zeros n) = n"
  by (simp add: zeros_def)

lemma all_zero_zeros [simp, buf_laws]: "all_zero (zeros n)"
  by (simp add: zeros_def all_zero_def list_all_iff)

lemma length_go_copy [simp, buf_laws]: "length (go_copy n src) = n"
  by (simp add: go_copy_def)

lemma go_copy_exact [simp, buf_laws]: "length src = n \<Longrightarrow> go_copy n src = src"
  by (simp add: go_copy_def zeros_def)

section \<open>Big-endian integers (encoding/binary)\<close>

text \<open>
  \<open>put_be n v\<close> is what \<open>binary.BigEndian.PutUintX\<close> writes into \<open>n\<close> bytes,
  \<open>get_be\<close> what \<open>binary.BigEndian.UintX\<close> reads, as the shift-and-or loop that the
  viewer also spells out by hand.
\<close>

primrec put_be :: "nat \<Rightarrow> 'a::len word \<Rightarrow> bytes" where
  "put_be 0 v = []"
| "put_be (Suc n) v = put_be n (drop_bit 8 v) @ [ucast v]"

definition get_be :: "bytes \<Rightarrow> 'a::len word" where
  "get_be bs = foldl (\<lambda>acc b. push_bit 8 acc OR ucast b) 0 bs"

lemma length_put_be [simp, buf_laws]: "length (put_be n v) = n"
  by (induction n arbitrary: v) auto

lemma get_be_Nil [simp]: "get_be [] = 0"
  by (simp add: get_be_def)

lemma get_be_snoc: "get_be (bs @ [b]) = push_bit 8 (get_be bs) OR ucast b"
  by (simp add: get_be_def)

lemma get_be_put_be: "get_be (put_be n v) = take_bit (8 * n) (v :: 'a::len word)"
proof (induction n arbitrary: v)
  case 0
  then show ?case by simp
next
  case (Suc n)
  have "push_bit 8 (take_bit (8 * n) (drop_bit 8 v)) OR ucast (ucast v :: byte)
      = take_bit (8 * Suc n) v"
    by (rule bit_eqI) (auto simp: bit_simps)
  then show ?case by (simp add: Suc get_be_snoc)
qed

lemma get_be_put_be_id [simp]:
  "LENGTH('a) \<le> 8 * n \<Longrightarrow> get_be (put_be n v) = (v :: 'a::len word)"
  by (simp add: get_be_put_be take_bit_word_eq_self)

lemma put_be_inject:
  "LENGTH('a) \<le> 8 * n \<Longrightarrow> put_be n v = put_be n w \<longleftrightarrow> v = (w :: 'a::len word)"
  by (metis get_be_put_be_id)

lemma bit_get_be: "bit (get_be bs :: 'a::len word) k \<Longrightarrow> k < 8 * length bs"
proof (induction bs arbitrary: k rule: rev_induct)
  case Nil
  then show ?case by simp
next
  case (snoc b bs)
  from snoc.prems consider "8 \<le> k" "bit (get_be bs :: 'a word) (k - 8)" | "bit b k"
    by (auto simp: get_be_snoc bit_simps)
  then show ?case
  proof cases
    case 1
    with snoc.IH [of "k - 8"] show ?thesis by simp
  next
    case 2
    then show ?thesis by (auto dest: bit_imp_le_length)
  qed
qed

lemma put_be_get_be:
  "8 * length bs \<le> LENGTH('a) \<Longrightarrow> put_be (length bs) (get_be bs :: 'a::len word) = bs"
proof (induction bs rule: rev_induct)
  case Nil
  then show ?case by simp
next
  case (snoc b bs)
  let ?g = "get_be bs :: 'a word"
  have top: "8 + k < LENGTH('a)" if "bit ?g k" for k
    using bit_get_be [OF that] snoc.prems by simp
  have "drop_bit 8 (push_bit 8 ?g OR ucast b) = ?g"
    by (rule bit_eqI) (use top in \<open>auto simp: bit_simps dest: bit_imp_le_length\<close>)
  moreover have "ucast (push_bit 8 ?g OR ucast b) = b"
    by (rule bit_eqI) (use snoc.prems in \<open>auto simp: bit_simps dest: bit_imp_le_length\<close>)
  ultimately show ?case using snoc by (simp add: get_be_snoc)
qed

section \<open>Go maps\<close>

type_synonym ('k, 'v) gomap = "('k \<times> 'v) list"

abbreviation mget :: "('k, 'v) gomap \<Rightarrow> 'k \<Rightarrow> 'v option" where
  "mget m k \<equiv> map_of m k"

abbreviation mput :: "'k \<Rightarrow> 'v \<Rightarrow> ('k, 'v) gomap \<Rightarrow> ('k, 'v) gomap" where
  "mput k v m \<equiv> AList.update k v m"

abbreviation mdel :: "'k \<Rightarrow> ('k, 'v) gomap \<Rightarrow> ('k, 'v) gomap" where
  "mdel k m \<equiv> AList.delete k m"

abbreviation keys :: "('k, 'v) gomap \<Rightarrow> 'k list" where
  "keys m \<equiv> map fst m"

text \<open>
  Go does not fix the order in which \<open>range\<close> visits a map. An iteration whose order
  matters takes the order as an argument: a list of the map's keys, each once
  (\<open>range_order\<close>). \<open>go_range\<close> pairs it with the values.
\<close>

definition range_order :: "('k, 'v) gomap \<Rightarrow> 'k list \<Rightarrow> bool" where
  "range_order m ks \<longleftrightarrow> distinct ks \<and> set ks = fst ` set m"

definition go_range :: "('k, 'v) gomap \<Rightarrow> 'k list \<Rightarrow> ('k \<times> 'v) list" where
  "go_range m ks = List.map_filter (\<lambda>k. map_option (Pair k) (mget m k)) ks"

lemma mget_mput [simp, map_laws]: "mget (mput k v m) k' = (if k' = k then Some v else mget m k')"
  by (simp add: update_conv')

lemma mget_mdel [simp, map_laws]: "mget (mdel k m) k' = (if k' = k then None else mget m k')"
  by (simp add: delete_conv')

lemma set_keys_mput [simp, map_laws]: "fst ` set (mput k v m) = insert k (fst ` set m)"
  by (simp add: dom_update)

lemma set_keys_mdel [simp, map_laws]: "fst ` set (mdel k m) = fst ` set m - {k}"
  by (metis delete_conv' dom_fun_upd dom_map_of_conv_image_fst)

lemma mget_None_iff: "mget m k = None \<longleftrightarrow> k \<notin> fst ` set m"
  by (simp add: map_of_eq_None_iff)

lemma mget_in_keys: "mget m k = Some v \<Longrightarrow> k \<in> fst ` set m"
  by (metis mget_None_iff option.distinct(1))

lemma distinct_keys_mput [simp, map_laws]: "distinct (keys m) \<Longrightarrow> distinct (keys (mput k v m))"
  by (rule distinct_update)

lemma distinct_keys_mdel [simp, map_laws]: "distinct (keys m) \<Longrightarrow> distinct (keys (mdel k m))"
  by (rule distinct_delete)

lemma mput_new: "k \<notin> fst ` set m \<Longrightarrow> mput k v m = m @ [(k, v)]"
  by (induction m) auto

lemma mdel_filter: "mdel k m = filter (\<lambda>(k', _). k \<noteq> k') m"
  by (induction m) auto

lemma set_mdel_subset: "set (mdel k m) \<subseteq> set m"
  by (auto simp: mdel_filter)

lemma set_mput_subset: "set (mput k v m) \<subseteq> insert (k, v) (set m)"
  by (induction m) auto

text \<open>\<open>len(m)\<close> under the three map operations.\<close>

lemma length_keys: "distinct (keys m) \<Longrightarrow> length m = card (fst ` set m)"
  by (metis distinct_card length_map list.set_map)

lemma length_mput_new [map_laws]:
  "distinct (keys m) \<Longrightarrow> mget m k = None \<Longrightarrow> length (mput k v m) = Suc (length m)"
  by (simp add: length_keys mget_None_iff)

lemma length_mput_le [map_laws]: "distinct (keys m) \<Longrightarrow> length (mput k v m) \<le> Suc (length m)"
  by (simp add: length_keys card_insert_if)

lemma length_mdel_le [map_laws]: "length (mdel k m) \<le> length m"
  by (rule length_delete_le)

lemma go_range_Nil [simp]: "go_range m [] = []"
  by (simp add: go_range_def)

lemma go_range_Cons [simp]:
  "go_range m (k # ks) = (case mget m k of None \<Rightarrow> go_range m ks | Some v \<Rightarrow> (k, v) # go_range m ks)"
  by (simp add: go_range_def split: option.split)

lemma set_go_range: "set (go_range m ks) = {(k, v). k \<in> set ks \<and> mget m k = Some v}"
  by (induction ks) (auto split: option.split)

lemma keys_go_range: "set ks \<subseteq> fst ` set m \<Longrightarrow> keys (go_range m ks) = ks"
proof (induction ks)
  case (Cons k ks)
  then obtain v where "mget m k = Some v"
    by (metis list.set_intros(1) mget_None_iff not_None_eq subsetD)
  with Cons show ?case by simp
qed simp

lemma range_order_keys: "distinct (keys m) \<Longrightarrow> range_order m (keys m)"
  by (simp add: range_order_def)

section \<open>Time\<close>

text \<open>
  A \<open>time.Time\<close> is the number of nanoseconds since Go's zero time (January 1, year 1,
  UTC), so that \<open>IsZero\<close> is comparison with 0; a \<open>time.Duration\<close> is a number of
  nanoseconds. \<open>Sub\<close> saturates at the ends of the signed 64-bit range.
\<close>

type_synonym time = int
type_synonym duration = int

definition second :: duration where
  "second = 1000000000"

definition time_sub :: "time \<Rightarrow> time \<Rightarrow> duration" where
  "time_sub t u = max (- (2 ^ 63)) (min (2 ^ 63 - 1) (t - u))"

text \<open>\<open>Time.Unix()\<close>: whole seconds since January 1, 1970 (62135596800 s after the zero time).\<close>

definition unix :: "time \<Rightarrow> int" where
  "unix t = t div second - 62135596800"

lemma time_sub_ge_iff: "0 < d \<Longrightarrow> d < 2 ^ 63 \<Longrightarrow> d \<le> time_sub t u \<longleftrightarrow> u + d \<le> t"
  by (auto simp: time_sub_def max_def min_def)

lemma time_sub_less_iff: "0 < d \<Longrightarrow> d < 2 ^ 63 \<Longrightarrow> time_sub t u < d \<longleftrightarrow> t < u + d"
  using time_sub_ge_iff [of d t u] by linarith

lemma time_sub_le_iff: "0 \<le> d \<Longrightarrow> d < 2 ^ 63 - 1 \<Longrightarrow> time_sub t u \<le> d \<longleftrightarrow> t \<le> u + d"
  by (auto simp: time_sub_def max_def min_def)

section \<open>The relay connection (the RelayConn interface)\<close>

text \<open>
  What \<open>Recv\<close> returns to the two clients; with an error, whether the context is done. The
  result of a \<open>Send\<close> is an error text or \<open>None\<close>.
\<close>

datatype recv_result = Got bytes | RecvFailed string bool

end
