(* ===== verification/Protocol.thy ===== *)
theory Protocol
  imports Prelude
begin

text \<open>
  The constants of \<open>internal/protocol/constants.go\<close>, under their Go names: key and
  nonce lengths, wire message types, control subtypes, limits and durations. The numeric
  ones are simplification rules, so a guard of the code reads as a comparison with a number.
  (\<open>ViewerBufferLimitBytes\<close>, \<open>IPCSocketSuffix\<close> and \<open>IPCPIDFile\<close> are not used by
  any Go code and have no counterpart.)
\<close>

section \<open>Key derivation labels\<close>

definition SessionIDArgonSalt :: "bytes" where
  "SessionIDArgonSalt = ascii ''lockwire-session-id-v1''"

definition EpochKeyInfoPrefix :: "bytes" where
  "EpochKeyInfoPrefix = ascii ''lw-epoch-''"

definition AuthKeyInfo :: "bytes" where
  "AuthKeyInfo = ascii ''lw-auth-key''"

definition SPAKE2AssociatedData :: "bytes" where
  "SPAKE2AssociatedData = ascii ''lockwire-v1''"

section \<open>Lengths\<close>

definition KeyLen :: "nat" where [simp]:
  "KeyLen = 32"

definition SessionIDLen :: "nat" where [simp]:
  "SessionIDLen = 16"

definition NonceLen :: "nat" where [simp]:
  "NonceLen = 12"

definition ViewerIDLen :: "nat" where [simp]:
  "ViewerIDLen = 6"

definition GCMTagLen :: "nat" where [simp]:
  "GCMTagLen = 16"

definition CodeWordCount :: "nat" where [simp]:
  "CodeWordCount = 6"

definition SessionIDArgonTime :: "nat" where [simp]:
  "SessionIDArgonTime = 1"

definition SessionIDArgonMemory :: "nat" where [simp]:
  "SessionIDArgonMemory = 64 * 1024"

definition SessionIDArgonThreads :: "nat" where [simp]:
  "SessionIDArgonThreads = 1"

section \<open>Client types, epochs, identifiers\<close>

definition ClientTypeCLI :: "string" where
  "ClientTypeCLI = ''cli''"

definition ClientTypeBrowser :: "string" where
  "ClientTypeBrowser = ''browser''"

definition ClientByteCLI :: "byte" where [simp]:
  "ClientByteCLI = 1"

definition ClientByteBrowser :: "byte" where [simp]:
  "ClientByteBrowser = 2"

definition EpochDurationSec :: "nat" where [simp]:
  "EpochDurationSec = 60"

definition EpochGracePeriodSec :: "nat" where [simp]:
  "EpochGracePeriodSec = 5"

definition ViewerIDCharset :: "bytes" where
  "ViewerIDCharset = ascii ''abcdefghijklmnopqrstuvwxyz0123456789''"

section \<open>Wire message types\<close>

definition MsgTypeSPAKE2 :: "byte" where [simp]:
  "MsgTypeSPAKE2 = 1"

definition MsgTypeStream :: "byte" where [simp]:
  "MsgTypeStream = 2"

definition MsgTypeUnicast :: "byte" where [simp]:
  "MsgTypeUnicast = 3"

definition MsgTypeHeartbeat :: "byte" where [simp]:
  "MsgTypeHeartbeat = 4"

definition MsgTypePong :: "byte" where [simp]:
  "MsgTypePong = 5"

definition MsgTypeControl :: "byte" where [simp]:
  "MsgTypeControl = 6"

definition MsgTypeTermSize :: "byte" where [simp]:
  "MsgTypeTermSize = 7"

section \<open>Control subtypes\<close>

definition CtrlRegistrationAck :: "byte" where [simp]:
  "CtrlRegistrationAck = 1"

definition CtrlJoinAck :: "byte" where [simp]:
  "CtrlJoinAck = 2"

definition CtrlSessionNotFound :: "byte" where [simp]:
  "CtrlSessionNotFound = 3"

definition CtrlSessionEnded :: "byte" where [simp]:
  "CtrlSessionEnded = 4"

definition CtrlSessionFull :: "byte" where [simp]:
  "CtrlSessionFull = 5"

definition CtrlSessionIDConflict :: "byte" where [simp]:
  "CtrlSessionIDConflict = 6"

definition CtrlViewerDisconnected :: "byte" where [simp]:
  "CtrlViewerDisconnected = 7"

section \<open>Control socket\<close>

definition IPCSocketPrefix :: "string" where
  "IPCSocketPrefix = ''lw-''"

definition IPCCommandList :: "string" where
  "IPCCommandList = ''list''"

definition IPCCommandRevoke :: "string" where
  "IPCCommandRevoke = ''revoke''"

definition IPCCommandStop :: "string" where
  "IPCCommandStop = ''stop''"

section \<open>Limits\<close>

definition ViewerRevocationFailureThreshold :: "nat" where [simp]:
  "ViewerRevocationFailureThreshold = 10"

definition DefaultMaxViewers :: "nat" where [simp]:
  "DefaultMaxViewers = 20"

definition SharerTimeoutSec :: "nat" where [simp]:
  "SharerTimeoutSec = 10"

definition ViewerTimeoutSec :: "nat" where [simp]:
  "ViewerTimeoutSec = 30"

definition HeartbeatIntervalSec :: "nat" where [simp]:
  "HeartbeatIntervalSec = 5"

section \<open>Rate limits\<close>

definition DefaultConnectionRateLimit :: "int" where [simp]:
  "DefaultConnectionRateLimit = 20"

definition DefaultConnectionRateWindow :: "int" where [simp]:
  "DefaultConnectionRateWindow = 60"

definition DefaultHandshakeRateLimit :: "int" where [simp]:
  "DefaultHandshakeRateLimit = 5"

definition DefaultHandshakeRateWindow :: "int" where [simp]:
  "DefaultHandshakeRateWindow = 600"

definition DefaultRegistrationRateLimit :: "int" where [simp]:
  "DefaultRegistrationRateLimit = 5"

definition DefaultRegistrationRateWindow :: "int" where [simp]:
  "DefaultRegistrationRateWindow = 60"

definition RateLimitBanMultiplier :: "int" where [simp]:
  "RateLimitBanMultiplier = 3"

definition RateLimitViolationBanCount :: "nat" where [simp]:
  "RateLimitViolationBanCount = 3"

definition RateLimitViolationWindow :: "int" where [simp]:
  "RateLimitViolationWindow = 3600"

definition BanDurationFirst :: "int" where [simp]:
  "BanDurationFirst = 3600"

definition BanDurationSecond :: "int" where [simp]:
  "BanDurationSecond = 86400"

end
