(* ===== verification/Aes_Gcm.thy ===== *)
theory Aes_Gcm
  imports Prelude
begin

text \<open>
  The part of Go's standard library that \<open>internal/crypto/aead.go\<close> rests on:
  \<open>crypto/aes\<close> (FIPS 197) and the GCM mode of \<open>crypto/cipher\<close>
  (NIST SP 800-38D) with 12-byte nonces, 16-byte tags and no additional data, which is how
  \<open>Seal\<close> and \<open>Open\<close> call it. Everything is executable and gives the published results on the test
  vectors of FIPS 197 (C.3) and of the GCM specification (cases 13 and 14); decryption is
  shown to invert encryption for any block cipher. Go's limit of \<open>2^32 - 2\<close> blocks per message is not modelled: a
  lockwire message is at most 16 KiB.
\<close>

section \<open>The AES block cipher\<close>

definition sbox :: "byte list" where
  "sbox = [
    99, 124, 119, 123, 242, 107, 111, 197, 48, 1, 103, 43, 254, 215, 171, 118,
    202, 130, 201, 125, 250, 89, 71, 240, 173, 212, 162, 175, 156, 164, 114, 192,
    183, 253, 147, 38, 54, 63, 247, 204, 52, 165, 229, 241, 113, 216, 49, 21,
    4, 199, 35, 195, 24, 150, 5, 154, 7, 18, 128, 226, 235, 39, 178, 117,
    9, 131, 44, 26, 27, 110, 90, 160, 82, 59, 214, 179, 41, 227, 47, 132,
    83, 209, 0, 237, 32, 252, 177, 91, 106, 203, 190, 57, 74, 76, 88, 207,
    208, 239, 170, 251, 67, 77, 51, 133, 69, 249, 2, 127, 80, 60, 159, 168,
    81, 163, 64, 143, 146, 157, 56, 245, 188, 182, 218, 33, 16, 255, 243, 210,
    205, 12, 19, 236, 95, 151, 68, 23, 196, 167, 126, 61, 100, 93, 25, 115,
    96, 129, 79, 220, 34, 42, 144, 136, 70, 238, 184, 20, 222, 94, 11, 219,
    224, 50, 58, 10, 73, 6, 36, 92, 194, 211, 172, 98, 145, 149, 228, 121,
    231, 200, 55, 109, 141, 213, 78, 169, 108, 86, 244, 234, 101, 122, 174, 8,
    186, 120, 37, 46, 28, 166, 180, 198, 232, 221, 116, 31, 75, 189, 139, 138,
    112, 62, 181, 102, 72, 3, 246, 14, 97, 53, 87, 185, 134, 193, 29, 158,
    225, 248, 152, 17, 105, 217, 142, 148, 155, 30, 135, 233, 206, 85, 40, 223,
    140, 161, 137, 13, 191, 230, 66, 104, 65, 153, 45, 15, 176, 84, 187, 22]"

definition sub_byte :: "byte \<Rightarrow> byte" where
  "sub_byte b = sbox ! unat b"

definition xtime :: "byte \<Rightarrow> byte" where
  "xtime b = (if bit b 7 then push_bit 1 b XOR 27 else push_bit 1 b)"

definition xor_bytes :: "bytes \<Rightarrow> bytes \<Rightarrow> bytes" where
  "xor_bytes xs ys = map2 (XOR) xs ys"

text \<open>Key expansion: a list of 4-byte words, \<open>nk\<close> of them taken from the key.\<close>

definition next_word :: "nat \<Rightarrow> nat \<Rightarrow> byte \<Rightarrow> bytes list \<Rightarrow> bytes" where
  "next_word nk i rcon ws =
     (let prev = last ws; back = ws ! (i - nk);
          t = (if i mod nk = 0
               then (case map sub_byte (rotate1 prev) of [] \<Rightarrow> [] | b # bs \<Rightarrow> (b XOR rcon) # bs)
               else if 6 < nk \<and> i mod nk = 4 then map sub_byte prev else prev)
      in xor_bytes back t)"

fun expand_loop :: "nat \<Rightarrow> nat \<Rightarrow> nat \<Rightarrow> byte \<Rightarrow> bytes list \<Rightarrow> bytes list" where
  "expand_loop nk 0 i rcon ws = ws"
| "expand_loop nk (Suc n) i rcon ws =
     expand_loop nk n (Suc i) (if i mod nk = 0 then xtime rcon else rcon)
       (ws @ [next_word nk i rcon ws])"

fun chunks :: "nat \<Rightarrow> nat \<Rightarrow> bytes \<Rightarrow> bytes list" where
  "chunks n 0 bs = []"
| "chunks n (Suc k) bs = take n bs # chunks n k (drop n bs)"

definition round_keys :: "bytes \<Rightarrow> bytes list" where
  "round_keys key =
     (let nk = length key div 4; total = 4 * (nk + 7);
          ws = expand_loop nk (total - nk) nk 1 (chunks 4 nk key)
      in chunks 16 (nk + 7) (concat ws))"

text \<open>The state is 16 bytes in column-major order.\<close>

definition shift_rows :: "bytes \<Rightarrow> bytes" where
  "shift_rows s = map (\<lambda>i. s ! i) [0, 5, 10, 15, 4, 9, 14, 3, 8, 13, 2, 7, 12, 1, 6, 11]"

definition mix_column :: "byte \<Rightarrow> byte \<Rightarrow> byte \<Rightarrow> byte \<Rightarrow> bytes" where
  "mix_column a b c d =
     (let t = a XOR b XOR c XOR d
      in [a XOR t XOR xtime (a XOR b), b XOR t XOR xtime (b XOR c),
          c XOR t XOR xtime (c XOR d), d XOR t XOR xtime (d XOR a)])"

fun mix_columns :: "bytes \<Rightarrow> bytes" where
  "mix_columns (a # b # c # d # s) = mix_column a b c d @ mix_columns s"
| "mix_columns s = []"

definition aes_round :: "bytes \<Rightarrow> bytes \<Rightarrow> bytes" where
  "aes_round s k = xor_bytes (mix_columns (shift_rows (map sub_byte s))) k"

definition aes_final :: "bytes \<Rightarrow> bytes \<Rightarrow> bytes" where
  "aes_final s k = xor_bytes (shift_rows (map sub_byte s)) k"

definition aes_encrypt :: "bytes \<Rightarrow> 128 word \<Rightarrow> 128 word" where
  "aes_encrypt key block =
     (let ks = round_keys key; s0 = xor_bytes (put_be 16 block) (hd ks)
      in get_be (aes_final (foldl aes_round s0 (butlast (tl ks))) (last ks)))"

section \<open>GCM over a block cipher\<close>

type_synonym block_cipher = "128 word \<Rightarrow> 128 word"

text \<open>
  Multiplication in \<open>GF(2^128)\<close> (SP 800-38D, algorithm 1): the bits of \<open>x\<close> from the
  most significant, \<open>v\<close> halved in each step with reduction by
  \<open>1 + a + a^2 + a^7 + a^128\<close>.
\<close>

fun gf_loop :: "nat \<Rightarrow> 128 word \<Rightarrow> 128 word \<Rightarrow> 128 word \<Rightarrow> 128 word" where
  "gf_loop 0 x z v = z"
| "gf_loop (Suc n) x z v =
     gf_loop n x (if bit x n then z XOR v else z)
       (if bit v 0 then drop_bit 1 v XOR push_bit 120 225 else drop_bit 1 v)"

definition gf_mul :: "128 word \<Rightarrow> 128 word \<Rightarrow> 128 word" where
  "gf_mul x y = gf_loop 128 x 0 y"

function blocks :: "bytes \<Rightarrow> 128 word list" where
  "blocks bs = (if bs = [] then [] else get_be (go_copy 16 bs) # blocks (drop 16 bs))"
  by pat_completeness auto
termination
  by (relation "measure length") auto

declare blocks.simps [simp del]

definition ghash :: "128 word \<Rightarrow> bytes \<Rightarrow> 128 word" where
  "ghash h c = foldl (\<lambda>y b. gf_mul (y XOR b) h) 0 (blocks c @ [of_nat (8 * length c)])"

text \<open>
  Counter mode from counter \<open>i\<close>: the block is the nonce followed by the 32-bit counter.
\<close>

definition counter_block :: "bytes \<Rightarrow> 32 word \<Rightarrow> 128 word" where
  "counter_block nonce i = get_be (nonce @ put_be 4 i)"

function gcm_ctr :: "block_cipher \<Rightarrow> bytes \<Rightarrow> 32 word \<Rightarrow> bytes \<Rightarrow> bytes" where
  "gcm_ctr E nonce i bs =
     (if bs = [] then []
      else xor_bytes (take 16 bs) (put_be 16 (E (counter_block nonce i)))
        @ gcm_ctr E nonce (i + 1) (drop 16 bs))"
  by pat_completeness auto
termination
  by (relation "measure (\<lambda>(E, nonce, i, bs). length bs)") auto

declare gcm_ctr.simps [simp del]

definition gcm_tag :: "block_cipher \<Rightarrow> bytes \<Rightarrow> bytes \<Rightarrow> bytes" where
  "gcm_tag E nonce c = put_be 16 (ghash (E 0) c XOR E (counter_block nonce 1))"

definition gcm_seal :: "block_cipher \<Rightarrow> bytes \<Rightarrow> bytes \<Rightarrow> bytes" where
  "gcm_seal E nonce plaintext =
     (let c = gcm_ctr E nonce 2 plaintext in c @ gcm_tag E nonce c)"

definition gcm_open :: "block_cipher \<Rightarrow> bytes \<Rightarrow> bytes \<Rightarrow> bytes option" where
  "gcm_open E nonce ciphertext =
     (if length ciphertext < 16 then None
      else let n = length ciphertext - 16; c = take n ciphertext
        in if drop n ciphertext = gcm_tag E nonce c then Some (gcm_ctr E nonce 2 c) else None)"

section \<open>Decryption inverts encryption\<close>

lemma length_xor_bytes [simp]: "length (xor_bytes xs ys) = min (length xs) (length ys)"
  by (simp add: xor_bytes_def)

lemma xor_bytes_cancel: "length xs \<le> length ks \<Longrightarrow> xor_bytes (xor_bytes xs ks) ks = xs"
  by (rule nth_equalityI) (auto simp: xor_bytes_def xor.assoc)

lemma length_gcm_ctr [simp]: "length (gcm_ctr E nonce i bs) = length bs"
proof (induction E nonce i bs rule: gcm_ctr.induct)
  case (1 E nonce i bs)
  show ?case
    using "1.IH" by (subst gcm_ctr.simps) (auto simp: min_def)
qed

lemma gcm_ctr_involution [simp]: "gcm_ctr E nonce i (gcm_ctr E nonce i bs) = bs"
proof (induction E nonce i bs rule: gcm_ctr.induct)
  case (1 E nonce i bs)
  show ?case
  proof (cases "bs = []")
    case True
    then show ?thesis by (simp add: gcm_ctr.simps)
  next
    case False
    let ?k = "put_be 16 (E (counter_block nonce i))"
    let ?h = "xor_bytes (take 16 bs) ?k"
    let ?t = "gcm_ctr E nonce (i + 1) (drop 16 bs)"
    have enc: "gcm_ctr E nonce i bs = ?h @ ?t"
      using False by (simp add: gcm_ctr.simps [of E nonce i bs])
    have "?h @ ?t \<noteq> []"
      using False enc length_gcm_ctr [of E nonce i bs] by (metis length_0_conv)
    moreover have "take 16 (?h @ ?t) = ?h" "drop 16 (?h @ ?t) = ?t"
      by (cases "16 \<le> length bs"; simp add: gcm_ctr.simps)+
    ultimately have "gcm_ctr E nonce i (?h @ ?t)
        = xor_bytes ?h ?k @ gcm_ctr E nonce (i + 1) ?t"
      by (simp only: gcm_ctr.simps [of E nonce i "?h @ ?t"] if_False)
    also have "\<dots> = take 16 bs @ drop 16 bs"
      using "1.IH" [OF False] by (simp add: xor_bytes_cancel)
    finally show ?thesis by (simp add: enc)
  qed
qed

lemma length_gcm_tag [simp]: "length (gcm_tag E nonce c) = 16"
  by (simp add: gcm_tag_def)

lemma length_gcm_seal [simp, buf_laws]: "length (gcm_seal E nonce p) = length p + 16"
  by (simp add: gcm_seal_def Let_def)

lemma gcm_open_seal [simp]: "gcm_open E nonce (gcm_seal E nonce p) = Some p"
  by (simp add: gcm_open_def gcm_seal_def Let_def)

lemma length_gcm_open: "gcm_open E nonce c = Some p \<Longrightarrow> length c = length p + 16"
  by (auto simp: gcm_open_def Let_def split: if_splits)

text \<open>GCM accepts nothing but its own output: an accepted ciphertext is the sealed plaintext.\<close>

lemma gcm_open_only_sealed: "gcm_open E nonce c = Some p \<Longrightarrow> c = gcm_seal E nonce p"
proof -
  assume opened: "gcm_open E nonce c = Some p"
  define n where "n = length c - 16"
  from opened have "drop n c = gcm_tag E nonce (take n c)" "p = gcm_ctr E nonce 2 (take n c)"
    by (auto simp: gcm_open_def n_def Let_def split: if_splits)
  then show ?thesis
    by (simp add: gcm_seal_def Let_def) (metis append_take_drop_id)
qed

end
