(* ===== verification/Crypto.thy ===== *)
theory Crypto
  imports Protocol Aes_Gcm
begin

text \<open>
  \<open>internal/crypto\<close>: authenticated encryption (\<open>aead.go\<close>), secure buffers
  (\<open>memsec.go\<close>), the nonce counter (\<open>nonce.go\<close>), key derivation (\<open>authkey.go\<close>,
  \<open>epochkey.go\<close>), stream keys, viewer IDs, session IDs and the SPAKE2 wrapper.

  Keys live in buffers that the code zeroes in place, so the memory is explicit: a list of
  buffers (\<open>mem\<close>), a slice being its index (\<open>addr\<close>). HKDF-SHA256 and Argon2id
  (\<open>golang.org/x/crypto\<close>) and SPAKE2 (\<open>backkem/spake2-go\<close>) are not part of the
  repository: they are arguments. Random numbers are arguments too.
\<close>

datatype crypto_error =
    BadKeyLength nat
  | BadNonceLength nat
  | AesKeySize nat
  | DecryptionFailed
  | BufferSize int
  | RandFailed
  | KdfFailed
  | EmptyCode
  | SpakeError string

section \<open>Authenticated encryption (aead.go)\<close>

text \<open>\<open>aes.NewCipher\<close> takes 16, 24 or 32 bytes; the cipher is its block function.\<close>

definition newGCM :: "bytes \<Rightarrow> crypto_error + block_cipher" where
  "newGCM key =
     (if length key = 16 \<or> length key = 24 \<or> length key = 32 then Inr (aes_encrypt key)
      else Inl (AesKeySize (length key)))"

definition Seal :: "bytes \<Rightarrow> bytes \<Rightarrow> bytes \<Rightarrow> crypto_error + bytes" where
  "Seal key nonce plaintext =
     (if length key \<noteq> KeyLen then Inl (BadKeyLength (length key))
      else if length nonce \<noteq> NonceLen then Inl (BadNonceLength (length nonce))
      else case newGCM key of
        Inl e \<Rightarrow> Inl e
      | Inr gcm \<Rightarrow> Inr (gcm_seal gcm nonce plaintext))"

definition Open :: "bytes \<Rightarrow> bytes \<Rightarrow> bytes \<Rightarrow> crypto_error + bytes" where
  "Open key nonce ciphertext =
     (if length key \<noteq> KeyLen then Inl (BadKeyLength (length key))
      else if length nonce \<noteq> NonceLen then Inl (BadNonceLength (length nonce))
      else case newGCM key of
        Inl e \<Rightarrow> Inl e
      | Inr gcm \<Rightarrow>
          (case gcm_open gcm nonce ciphertext of
             None \<Rightarrow> Inl DecryptionFailed
           | Some plaintext \<Rightarrow> Inr plaintext))"

lemma Seal_cases:
  "Seal key nonce p =
     (if length key \<noteq> 32 then Inl (BadKeyLength (length key))
      else if length nonce \<noteq> 12 then Inl (BadNonceLength (length nonce))
      else Inr (gcm_seal (aes_encrypt key) nonce p))"
  by (simp add: Seal_def newGCM_def)

lemma Open_cases:
  "Open key nonce c =
     (if length key \<noteq> 32 then Inl (BadKeyLength (length key))
      else if length nonce \<noteq> 12 then Inl (BadNonceLength (length nonce))
      else case gcm_open (aes_encrypt key) nonce c of
        None \<Rightarrow> Inl DecryptionFailed | Some p \<Rightarrow> Inr p)"
  by (simp add: Open_def newGCM_def)

lemma Seal_ok: "length key = 32 \<Longrightarrow> length nonce = 12
    \<Longrightarrow> Seal key nonce p = Inr (gcm_seal (aes_encrypt key) nonce p)"
  by (simp add: Seal_cases)

lemma Seal_Inr_iff: "Seal key nonce p = Inr c
    \<longleftrightarrow> length key = 32 \<and> length nonce = 12 \<and> c = gcm_seal (aes_encrypt key) nonce p"
  by (auto simp: Seal_cases)

lemma Open_Seal: "Seal key nonce p = Inr c \<Longrightarrow> Open key nonce c = Inr p"
  by (auto simp: Seal_Inr_iff Open_cases)

lemma Open_Inr_iff: "Open key nonce c = Inr p \<longleftrightarrow> Seal key nonce p = Inr c"
  by (auto simp: Seal_cases Open_cases dest: gcm_open_only_sealed split: option.splits)

lemma length_Seal: "Seal key nonce p = Inr c \<Longrightarrow> length c = length p + 16"
  by (auto simp: Seal_Inr_iff)

section \<open>Secure buffers (memsec.go)\<close>

type_synonym addr = nat
type_synonym mem = "bytes list"

definition ZeroBytes :: "bytes \<Rightarrow> bytes" where
  "ZeroBytes b = map (\<lambda>_. 0) b"

definition zero_at :: "addr \<Rightarrow> mem \<Rightarrow> mem" where
  "zero_at a m = m[a := ZeroBytes (m ! a)]"

text \<open>A failing \<open>mlock\<close> is only logged, so it leaves no trace in the result.\<close>

definition NewSecureBuffer :: "int \<Rightarrow> mem \<Rightarrow> (crypto_error + addr) \<times> mem" where
  "NewSecureBuffer n m =
     (if n \<le> 0 then (Inl (BufferSize n), m)
      else (Inr (length m), m @ [zeros (nat n)]))"

lemma length_ZeroBytes [simp, buf_laws]: "length (ZeroBytes b) = length b"
  by (simp add: ZeroBytes_def)

lemma all_zero_ZeroBytes [simp, buf_laws]: "all_zero (ZeroBytes b)"
  by (simp add: ZeroBytes_def all_zero_def list_all_iff)

lemma length_zero_at [simp, buf_laws]: "length (zero_at a m) = length m"
  by (simp add: zero_at_def)

lemma zero_at_same [simp, buf_laws]: "a < length m \<Longrightarrow> zero_at a m ! a = ZeroBytes (m ! a)"
  by (simp add: zero_at_def)

lemma zero_at_other [simp, buf_laws]: "a \<noteq> b \<Longrightarrow> zero_at a m ! b = m ! b"
  by (simp add: zero_at_def)

lemma length_zero_at_buf [simp, buf_laws]: "length (zero_at a m ! b) = length (m ! b)"
  by (cases "a < length m"; cases "a = b") (auto simp: zero_at_def list_update_beyond)

text \<open>
  \<open>clean m L\<close>: every buffer but those at the addresses \<open>L\<close> is zeroed. With \<open>L\<close> the
  buffers a component still refers to, it says that no key material was left behind.
\<close>

definition clean :: "mem \<Rightarrow> addr set \<Rightarrow> bool" where
  "clean m L \<longleftrightarrow> (\<forall>a < length m. a \<notin> L \<longrightarrow> all_zero (m ! a))"

lemma cleanD: "clean m L \<Longrightarrow> a < length m \<Longrightarrow> a \<notin> L \<Longrightarrow> all_zero (m ! a)"
  by (simp add: clean_def)

lemma clean_Nil [simp]: "clean [] L"
  by (simp add: clean_def)

lemma clean_mono: "clean m L \<Longrightarrow> L \<subseteq> L' \<Longrightarrow> clean m L'"
  by (auto simp: clean_def)

lemma clean_append: "clean m L \<Longrightarrow> clean (m @ [b]) (insert (length m) L)"
  by (auto simp: clean_def nth_append less_Suc_eq)

lemma clean_append_zero: "clean m L \<Longrightarrow> all_zero b \<Longrightarrow> clean (m @ [b]) L"
  by (auto simp: clean_def nth_append less_Suc_eq)

lemma clean_zero_at: "clean m L \<Longrightarrow> clean (zero_at a m) (L - {a})"
  by (simp add: clean_def) (metis all_zero_ZeroBytes zero_at_other zero_at_same)

lemma clean_all_zero: "clean m {} \<longleftrightarrow> list_all all_zero m"
  by (simp add: clean_def list_all_length)

text \<open>Zeroing a list of buffers, as \<open>Close\<close> and \<open>zeroKeys\<close> do.\<close>

lemma length_fold_zero_at [simp, buf_laws]: "length (fold zero_at as m) = length m"
  by (induction as arbitrary: m) auto

lemma clean_fold_zero_at: "clean m L \<Longrightarrow> clean (fold zero_at as m) (L - set as)"
proof (induction as arbitrary: m L)
  case Nil
  then show ?case by simp
next
  case (Cons a as)
  from Cons.IH [OF clean_zero_at [OF Cons.prems, of a]] show ?case
    by (simp add: Diff_insert [symmetric] Diff_insert2 [symmetric])
qed

text \<open>
  The contract of a component that owns key buffers: a set of live buffers, and a wipe that
  zeroes the live ones. What it buys: after the wipe, memory that was clean but for the live
  buffers holds no key material at all.
\<close>

locale key_owner =
  fixes mem_of :: "'s \<Rightarrow> mem"
    and live_of :: "'s \<Rightarrow> addr list"
    and wipe :: "'s \<Rightarrow> 's"
  assumes wipe_mem: "mem_of (wipe s) = fold zero_at (live_of s) (mem_of s)"
begin

lemma wipe_leaves_nothing:
  assumes "clean (mem_of s) (set (live_of s))"
  shows "list_all all_zero (mem_of (wipe s))"
  using clean_fold_zero_at [OF assms, of "live_of s"]
  by (simp add: wipe_mem flip: clean_all_zero)

lemma wipe_keeps_shape: "length (mem_of (wipe s)) = length (mem_of s)"
  by (simp add: wipe_mem)

end

section \<open>The nonce counter (nonce.go)\<close>

text \<open>
  \<open>NonceCounter\<close> is an atomic 64-bit counter; \<open>Next\<close> adds one (wrapping at
  \<open>2^64\<close>) and writes it big-endian into the last 8 of 12 bytes.
\<close>

type_synonym NonceCounter = u64

definition NewNonceCounter :: NonceCounter where
  "NewNonceCounter = 0"

definition Next :: "NonceCounter \<Rightarrow> bytes \<times> NonceCounter" where
  "Next nc = (let v = nc + 1 in (zeros (NonceLen - 8) @ put_be 8 v, v))"

definition Current :: "NonceCounter \<Rightarrow> u64" where
  "Current nc = nc"

text \<open>The number a nonce carries, as the viewer reads it back (bytes 4 to 11).\<close>

definition nonce_val :: "bytes \<Rightarrow> u64" where
  "nonce_val nonce = get_be (take 8 (drop 4 nonce))"

lemma length_Next [simp, buf_laws]: "length (fst (Next nc)) = 12"
  by (simp add: Next_def Let_def)

lemma Next_state [simp]: "snd (Next nc) = nc + 1"
  by (simp add: Next_def Let_def)

lemma nonce_val_Next [simp]: "nonce_val (fst (Next nc)) = nc + 1"
  by (simp add: Next_def nonce_val_def Let_def)

text \<open>
  The contract of a source of nonces: each draw carries a number one above the last, up to a
  capacity. What it buys: as long as the capacity is not used up, no number comes twice.
\<close>

locale nonce_source =
  fixes draw1 :: "'c \<Rightarrow> 'o \<times> 'c"
    and pos :: "'c \<Rightarrow> nat"
    and tag :: "'o \<Rightarrow> nat"
    and cap :: nat
  assumes draw1_pos: "pos c < cap \<Longrightarrow> pos (snd (draw1 c)) = Suc (pos c)"
    and draw1_tag: "pos c < cap \<Longrightarrow> tag (fst (draw1 c)) = Suc (pos c)"
begin

primrec draws :: "nat \<Rightarrow> 'c \<Rightarrow> 'o list" where
  "draws 0 c = []"
| "draws (Suc n) c = fst (draw1 c) # draws n (snd (draw1 c))"

primrec after_draws :: "nat \<Rightarrow> 'c \<Rightarrow> 'c" where
  "after_draws 0 c = c"
| "after_draws (Suc n) c = after_draws n (snd (draw1 c))"

lemma draws_add: "draws (m + n) c = draws m c @ draws n (after_draws m c)"
  by (induction m arbitrary: c) auto

lemma after_draws_add: "after_draws (m + n) c = after_draws n (after_draws m c)"
  by (induction m arbitrary: c) auto

lemma pos_after_draws: "pos c + n \<le> cap \<Longrightarrow> pos (after_draws n c) = pos c + n"
  by (induction n arbitrary: c) (auto simp: draw1_pos)

lemma tags_of_draws: "pos c + n \<le> cap \<Longrightarrow> map tag (draws n c) = [Suc (pos c)..<Suc (pos c + n)]"
proof (induction n arbitrary: c)
  case 0
  then show ?case by simp
next
  case (Suc n)
  then have "map tag (draws n (snd (draw1 c))) = [Suc (Suc (pos c))..<Suc (Suc (pos c) + n)]"
    by (simp add: draw1_pos)
  with Suc.prems show ?case by (simp add: draw1_tag upt_conv_Cons del: upt_Suc)
qed

lemma distinct_draws: "pos c + n \<le> cap \<Longrightarrow> distinct (draws n c)"
  using tags_of_draws [of c n] by (metis distinct_map distinct_upt)

end

interpretation nc: nonce_source Next unat "\<lambda>n. unat (nonce_val n)" "2 ^ 64 - 1"
proof unfold_locales
  fix c :: u64
  assume "unat c < 2 ^ 64 - 1"
  then show "unat (snd (Next c)) = Suc (unat c)" "unat (nonce_val (fst (Next c))) = Suc (unat c)"
    by (simp_all add: unat_word_ariths unat_of_nat)
qed

section \<open>Random material (streamkey.go, viewerid.go)\<close>

text \<open>
  \<open>rand.Read\<close> delivers bytes or fails (\<open>None\<close>). \<open>rand.Int(rand.Reader, max)\<close> delivers
  a number below \<open>max\<close> or fails: the raw draw is reduced to that range, so every draw is a
  possible outcome and every outcome has a draw.
\<close>

definition rand_int :: "nat \<Rightarrow> nat option \<Rightarrow> crypto_error + nat" where
  "rand_int bound r =
     (case r of None \<Rightarrow> Inl RandFailed | Some x \<Rightarrow> Inr (x mod bound))"

definition GenerateStreamKey :: "bytes option \<Rightarrow> mem \<Rightarrow> (crypto_error + addr) \<times> mem" where
  "GenerateStreamKey rand m =
     (case NewSecureBuffer (int KeyLen) m of
        (Inl e, m1) \<Rightarrow> (Inl e, m1)
      | (Inr k, m1) \<Rightarrow>
          (case rand of
             None \<Rightarrow> (Inl RandFailed, zero_at k m1)
           | Some bs \<Rightarrow> (Inr k, m1[k := go_copy KeyLen bs])))"

text \<open>The loop of \<open>GenerateViewerID\<close>: \<open>n\<close> characters still to draw.\<close>

fun viewer_id_loop :: "nat \<Rightarrow> nat option list \<Rightarrow> crypto_error + bytes" where
  "viewer_id_loop 0 rs = Inr []"
| "viewer_id_loop (Suc n) [] = Inl RandFailed"
| "viewer_id_loop (Suc n) (r # rs) =
     (case rand_int (length ViewerIDCharset) r of
        Inl e \<Rightarrow> Inl e
      | Inr i \<Rightarrow> (case viewer_id_loop n rs of
            Inl e \<Rightarrow> Inl e
          | Inr cs \<Rightarrow> Inr (ViewerIDCharset ! i # cs)))"

definition GenerateViewerID :: "nat option list \<Rightarrow> crypto_error + bytes" where
  "GenerateViewerID rs = viewer_id_loop ViewerIDLen rs"

lemma GenerateStreamKey_cases:
  "GenerateStreamKey rand m =
     (case rand of
        None \<Rightarrow> (Inl RandFailed, m @ [zeros 32])
      | Some bs \<Rightarrow> (Inr (length m), m @ [go_copy 32 bs]))"
  by (simp add: GenerateStreamKey_def NewSecureBuffer_def zero_at_def ZeroBytes_def zeros_def
      split: option.split)

lemma ViewerIDCharset_nonempty [simp]: "ViewerIDCharset \<noteq> []"
  by (simp add: ViewerIDCharset_def ascii_def)

lemma rand_int_Inr: "rand_int bound r = Inr i \<Longrightarrow> 0 < bound \<Longrightarrow> i < bound"
  by (auto simp: rand_int_def split: option.splits)

lemma viewer_id_loop_Inr:
  "viewer_id_loop n rs = Inr w \<Longrightarrow> length w = n \<and> set w \<subseteq> set ViewerIDCharset"
proof (induction n rs arbitrary: w rule: viewer_id_loop.induct)
  case (3 n r rs)
  from "3.prems" obtain i cs where i: "rand_int (length ViewerIDCharset) r = Inr i"
    and cs: "viewer_id_loop n rs = Inr cs" and w: "w = ViewerIDCharset ! i # cs"
    by (simp split: sum.splits)
  have "ViewerIDCharset ! i \<in> set ViewerIDCharset"
    using rand_int_Inr [OF i] by simp
  with "3.IH" [OF i cs] w show ?case by simp
qed simp_all

lemma GenerateViewerID_Inr:
  "GenerateViewerID rs = Inr w \<Longrightarrow> length w = 6 \<and> set w \<subseteq> set ViewerIDCharset"
  by (simp add: GenerateViewerID_def viewer_id_loop_Inr)

section \<open>Key derivation (authkey.go, epochkey.go)\<close>

text \<open>
  \<open>kdf secret info n\<close> is what \<open>io.ReadFull\<close> gets when it reads \<open>n\<close> bytes from
  \<open>hkdf.New(sha256.New, secret, nil, info)\<close>, \<open>None\<close> for an error.
\<close>

type_synonym kdf = "bytes \<Rightarrow> bytes \<Rightarrow> nat \<Rightarrow> bytes option"

definition derive_key :: "kdf \<Rightarrow> bytes \<Rightarrow> bytes \<Rightarrow> mem \<Rightarrow> (crypto_error + addr) \<times> mem" where
  "derive_key kdf secret info m =
     (case NewSecureBuffer (int KeyLen) m of
        (Inl e, m1) \<Rightarrow> (Inl e, m1)
      | (Inr k, m1) \<Rightarrow>
          (case kdf secret info KeyLen of
             None \<Rightarrow> (Inl KdfFailed, zero_at k m1)
           | Some bs \<Rightarrow> (Inr k, m1[k := go_copy KeyLen bs])))"

definition DeriveAuthKey :: "kdf \<Rightarrow> bytes \<Rightarrow> mem \<Rightarrow> (crypto_error + addr) \<times> mem" where
  "DeriveAuthKey kdf spakeSecret m = derive_key kdf spakeSecret AuthKeyInfo m"

definition epoch_info :: "u64 \<Rightarrow> bytes" where
  "epoch_info epoch = EpochKeyInfoPrefix @ put_be 8 epoch"

definition DeriveEpochKey :: "kdf \<Rightarrow> bytes \<Rightarrow> u64 \<Rightarrow> mem \<Rightarrow> (crypto_error + addr) \<times> mem" where
  "DeriveEpochKey kdf k epoch m = derive_key kdf k (epoch_info epoch) m"

text \<open>The 32 bytes a derivation leaves in its buffer.\<close>

definition epoch_key :: "kdf \<Rightarrow> bytes \<Rightarrow> u64 \<Rightarrow> bytes option" where
  "epoch_key kdf k epoch = map_option (go_copy 32) (kdf k (epoch_info epoch) 32)"

definition auth_key :: "kdf \<Rightarrow> bytes \<Rightarrow> bytes option" where
  "auth_key kdf secret = map_option (go_copy 32) (kdf secret AuthKeyInfo 32)"

lemma derive_key_cases:
  "derive_key kdf secret info m =
     (case kdf secret info 32 of
        None \<Rightarrow> (Inl KdfFailed, m @ [zeros 32])
      | Some bs \<Rightarrow> (Inr (length m), m @ [go_copy 32 bs]))"
  by (simp add: derive_key_def NewSecureBuffer_def zero_at_def ZeroBytes_def zeros_def
      split: option.split)

lemma DeriveEpochKey_cases:
  "DeriveEpochKey kdf k epoch m =
     (case epoch_key kdf k epoch of
        None \<Rightarrow> (Inl KdfFailed, m @ [zeros 32])
      | Some ek \<Rightarrow> (Inr (length m), m @ [ek]))"
  by (simp add: DeriveEpochKey_def derive_key_cases epoch_key_def split: option.split)

lemma DeriveAuthKey_cases:
  "DeriveAuthKey kdf secret m =
     (case auth_key kdf secret of
        None \<Rightarrow> (Inl KdfFailed, m @ [zeros 32])
      | Some ak \<Rightarrow> (Inr (length m), m @ [ak]))"
  by (simp add: DeriveAuthKey_def derive_key_cases auth_key_def split: option.split)

lemma length_epoch_key [buf_laws]: "epoch_key kdf k epoch = Some ek \<Longrightarrow> length ek = 32"
  by (auto simp: epoch_key_def)

lemma length_auth_key [buf_laws]: "auth_key kdf secret = Some ak \<Longrightarrow> length ak = 32"
  by (auto simp: auth_key_def)

text \<open>Distinct epochs give distinct HKDF labels, and none of them is the auth-key label.\<close>

lemma epoch_info_inj: "epoch_info e = epoch_info e' \<Longrightarrow> e = e'"
  by (simp add: epoch_info_def put_be_inject)

lemma epoch_info_not_auth: "epoch_info e \<noteq> AuthKeyInfo"
proof
  assume "epoch_info e = AuthKeyInfo"
  then have "length (epoch_info e) = length AuthKeyInfo" by simp
  then show False by (simp add: epoch_info_def EpochKeyInfoPrefix_def AuthKeyInfo_def)
qed

section \<open>Session IDs (sessionid.go)\<close>

text \<open>\<open>encoding/hex\<close>: lower-case digits out, digits of either case in.\<close>

definition hex_digit :: "nat \<Rightarrow> byte" where
  "hex_digit n = (of_nat (if n < 10 then 48 + n else 87 + n))"

definition hex_encode :: "bytes \<Rightarrow> bytes" where
  "hex_encode bs = concat (map (\<lambda>b. [hex_digit (unat b div 16), hex_digit (unat b mod 16)]) bs)"

definition is_hex :: "byte \<Rightarrow> bool" where
  "is_hex c \<longleftrightarrow> 48 \<le> c \<and> c \<le> 57 \<or> 97 \<le> c \<and> c \<le> 102 \<or> 65 \<le> c \<and> c \<le> 70"

text \<open>\<open>hex.DecodeString\<close> fails on a character that is no digit and on an odd length.\<close>

definition hex_decodes :: "bytes \<Rightarrow> bool" where
  "hex_decodes s \<longleftrightarrow> list_all is_hex s \<and> even (length s)"

text \<open>\<open>argon2 password salt time memory threads keyLen\<close>.\<close>

type_synonym argon2 = "bytes \<Rightarrow> bytes \<Rightarrow> nat \<Rightarrow> nat \<Rightarrow> nat \<Rightarrow> nat \<Rightarrow> bytes"

definition DeriveSessionID :: "argon2 \<Rightarrow> bytes \<Rightarrow> bytes" where
  "DeriveSessionID argon2 code =
     hex_encode (argon2 code SessionIDArgonSalt SessionIDArgonTime SessionIDArgonMemory
       SessionIDArgonThreads SessionIDLen)"

lemma length_hex_encode [simp]: "length (hex_encode bs) = 2 * length bs"
  by (induction bs) (auto simp: hex_encode_def)

lemma is_hex_digit: "n < 16 \<Longrightarrow> is_hex (hex_digit n)"
  by (simp add: is_hex_def hex_digit_def word_le_nat_alt unat_of_nat flip: of_nat_add)

lemma hex_encode_digits: "list_all is_hex (hex_encode bs)"
proof (induction bs)
  case Nil
  then show ?case by (simp add: hex_encode_def)
next
  case (Cons b bs)
  have "unat b < 256" using unsigned_less [of b] by simp
  then have "is_hex (hex_digit (unat b div 16))" "is_hex (hex_digit (unat b mod 16))"
    by (auto intro!: is_hex_digit)
  with Cons show ?case by (simp add: hex_encode_def)
qed

section \<open>The SPAKE2 wrapper (spake2.go)\<close>

text \<open>
  The library is an argument: how it makes a state for each role from password and
  associated data, and its operations on that state. \<open>lib_wipe\<close> is the state after the
  bytes \<open>SharedKey\<close> returned were overwritten with zeros.
\<close>

record 'sp spake_lib =
  lib_client :: "bytes \<Rightarrow> bytes \<Rightarrow> 'sp"
  lib_server :: "bytes \<Rightarrow> bytes \<Rightarrow> 'sp"
  lib_start :: "'sp \<Rightarrow> (string + bytes) \<times> 'sp"
  lib_exchange :: "'sp \<Rightarrow> bytes \<Rightarrow> (string + bytes) \<times> 'sp"
  lib_finish :: "'sp \<Rightarrow> bytes \<Rightarrow> (string + bytes) \<times> 'sp"
  lib_confirm :: "'sp \<Rightarrow> bytes \<Rightarrow> (string + bytes) \<times> 'sp"
  lib_verify :: "'sp \<Rightarrow> bytes \<Rightarrow> string option \<times> 'sp"
  lib_key :: "'sp \<Rightarrow> string + bytes"
  lib_wipe :: "'sp \<Rightarrow> 'sp"

definition newHandshake :: "(bytes \<Rightarrow> bytes \<Rightarrow> 'sp) \<Rightarrow> bytes \<Rightarrow> crypto_error + 'sp" where
  "newHandshake newFn code =
     (if length code = 0 then Inl EmptyCode else Inr (newFn code SPAKE2AssociatedData))"

definition NewSPAKE2Sharer :: "'sp spake_lib \<Rightarrow> bytes \<Rightarrow> crypto_error + 'sp" where
  "NewSPAKE2Sharer L code = newHandshake (lib_client L) code"

definition NewSPAKE2Viewer :: "'sp spake_lib \<Rightarrow> bytes \<Rightarrow> crypto_error + 'sp" where
  "NewSPAKE2Viewer L code = newHandshake (lib_server L) code"

text \<open>The methods of a handshake hand their calls on to the library.\<close>

definition spake_Start :: "'sp spake_lib \<Rightarrow> 'sp \<Rightarrow> (string + bytes) \<times> 'sp" where [simp]:
  "spake_Start L h = lib_start L h"

definition spake_Exchange :: "'sp spake_lib \<Rightarrow> 'sp \<Rightarrow> bytes \<Rightarrow> (string + bytes) \<times> 'sp" where [simp]:
  "spake_Exchange L h clientMessage = lib_exchange L h clientMessage"

definition spake_Finish :: "'sp spake_lib \<Rightarrow> 'sp \<Rightarrow> bytes \<Rightarrow> (string + bytes) \<times> 'sp" where [simp]:
  "spake_Finish L h serverMessage = lib_finish L h serverMessage"

definition spake_Confirm :: "'sp spake_lib \<Rightarrow> 'sp \<Rightarrow> bytes \<Rightarrow> (string + bytes) \<times> 'sp" where [simp]:
  "spake_Confirm L h clientConfirmation = lib_confirm L h clientConfirmation"

definition spake_Verify :: "'sp spake_lib \<Rightarrow> 'sp \<Rightarrow> bytes \<Rightarrow> string option \<times> 'sp" where [simp]:
  "spake_Verify L h serverConfirmation = lib_verify L h serverConfirmation"

definition spake_SessionKey :: "'sp spake_lib \<Rightarrow> 'sp \<Rightarrow> string + bytes" where [simp]:
  "spake_SessionKey L h = lib_key L h"

definition spake_Destroy :: "'sp spake_lib \<Rightarrow> 'sp \<Rightarrow> 'sp" where
  "spake_Destroy L h = (case lib_key L h of Inl e \<Rightarrow> h | Inr k \<Rightarrow> lib_wipe L h)"

text \<open>
  A sample library for the witnesses: its messages are fixed bytes, its key is the password.
\<close>

definition ex_spake :: "bytes spake_lib" where
  "ex_spake = \<lparr>lib_client = (\<lambda>pw aad. pw), lib_server = (\<lambda>pw aad. pw),
     lib_start = (\<lambda>h. (Inr [65], h)), lib_exchange = (\<lambda>h m. (Inr [66], h)), lib_finish = (\<lambda>h m. (Inr [67], h)),
     lib_confirm = (\<lambda>h m. (Inr [68], h)), lib_verify = (\<lambda>h m. (None, h)), lib_key = (\<lambda>h. Inr h),
     lib_wipe = (\<lambda>h. ZeroBytes h)\<rparr>"

end
