(* ===== verification/Session_State.thy ===== *)
theory Session_State
  imports Crypto
begin

text \<open>
  \<open>internal/session/session.go\<close>: the sharer's session. Its state is the stream key, the
  nonce counter, the table of viewers with their retained auth keys, and the record of
  revoked IDs. Keys are addresses into \<open>s_mem\<close>, so that zeroing and aliasing are visible.
  The mutex makes every method one atomic step. The clock, the random source and the order
  in which Go visits the viewer map are arguments.
\<close>

section \<open>State\<close>

datatype session_error =
    ErrViewerNotFound bytes
  | ErrSessionClosed
  | CreatingSession crypto_error
  | GeneratingViewerID crypto_error
  | AllocatingAuthKey crypto_error
  | EncryptingStreamKey crypto_error
  | GeneratingStreamKey crypto_error
  | EncryptingRekey bytes crypto_error
  | DerivingEpochKey crypto_error
  | EncryptingFrame crypto_error

record viewer =
  v_id :: bytes
  v_authKey :: addr
  v_joinTime :: time
  v_clientType :: string

record ViewerInfo =
  vi_ID :: bytes
  vi_JoinTime :: time
  vi_ClientType :: string

record EncryptedPayload =
  ep_Nonce :: bytes
  ep_Ciphertext :: bytes

record session =
  s_mem :: mem
  s_streamKey :: addr
  s_sessionID :: bytes
  s_nonce :: NonceCounter
  s_viewers :: "(bytes, viewer) gomap"
  s_revokedIDs :: "(bytes, bool) gomap"
  s_closed :: bool

text \<open>The bytes of the stream key and of a viewer's auth key.\<close>

definition stream_key :: "session \<Rightarrow> bytes" where
  "stream_key s = s_mem s ! s_streamKey s"

definition auth_key_of :: "session \<Rightarrow> viewer \<Rightarrow> bytes" where
  "auth_key_of s v = s_mem s ! v_authKey v"

section \<open>Operations\<close>

definition NewSession :: "argon2 \<Rightarrow> bytes \<Rightarrow> bytes option \<Rightarrow> session_error + session" where
  "NewSession argon2 code rand =
     (case GenerateStreamKey rand [] of
        (Inl e, m) \<Rightarrow> Inl (CreatingSession e)
      | (Inr k, m) \<Rightarrow>
          Inr \<lparr>s_mem = m, s_streamKey = k, s_sessionID = DeriveSessionID argon2 code,
               s_nonce = NewNonceCounter, s_viewers = [], s_revokedIDs = [],
               s_closed = False\<rparr>)"

definition SessionID :: "session \<Rightarrow> bytes" where
  "SessionID s = s_sessionID s"

definition RegisterViewer ::
  "session \<Rightarrow> bytes \<Rightarrow> string \<Rightarrow> nat option list \<Rightarrow> time
    \<Rightarrow> (session_error + ViewerInfo \<times> EncryptedPayload) \<times> session" where
  "RegisterViewer s authKey clientType rand now =
     (if s_closed s then (Inl ErrSessionClosed, s)
      else case GenerateViewerID rand of
        Inl e \<Rightarrow> (Inl (GeneratingViewerID e), s)
      | Inr i \<Rightarrow>
      (case NewSecureBuffer (int (length authKey)) (s_mem s) of
        (Inl e, m) \<Rightarrow> (Inl (AllocatingAuthKey e), s\<lparr>s_mem := m\<rparr>)
      | (Inr secureCopy, m) \<Rightarrow>
          (let m1 = m[secureCopy := go_copy (length authKey) authKey];
               (nonce, nc) = Next (s_nonce s)
           in case Seal authKey nonce (m1 ! s_streamKey s) of
             Inl e \<Rightarrow> (Inl (EncryptingStreamKey e),
                       s\<lparr>s_mem := zero_at secureCopy m1, s_nonce := nc\<rparr>)
           | Inr ct \<Rightarrow>
               (Inr (\<lparr>vi_ID = i, vi_JoinTime = now, vi_ClientType = clientType\<rparr>,
                     \<lparr>ep_Nonce = nonce, ep_Ciphertext = ct\<rparr>),
                s\<lparr>s_mem := m1, s_nonce := nc,
                  s_viewers := mput i \<lparr>v_id = i, v_authKey = secureCopy, v_joinTime = now,
                                       v_clientType = clientType\<rparr> (s_viewers s)\<rparr>))))"

definition ListViewers :: "session \<Rightarrow> bytes list \<Rightarrow> ViewerInfo list" where
  "ListViewers s ord =
     map (\<lambda>(k, v). \<lparr>vi_ID = v_id v, vi_JoinTime = v_joinTime v, vi_ClientType = v_clientType v\<rparr>)
       (go_range (s_viewers s) ord)"

text \<open>
  The loop of \<open>RevokeViewer\<close> over the remaining viewers: the auth keys are read from the
  memory, the counter is threaded, the payloads are collected.
\<close>

fun rekey_loop ::
  "mem \<Rightarrow> bytes \<Rightarrow> (bytes \<times> viewer) list \<Rightarrow> NonceCounter \<Rightarrow> (bytes, EncryptedPayload) gomap
    \<Rightarrow> (session_error + (bytes, EncryptedPayload) gomap) \<times> NonceCounter" where
  "rekey_loop m kPrime [] nc rekeys = (Inr rekeys, nc)"
| "rekey_loop m kPrime ((i, v) # vs) nc rekeys =
     (let (nonce, nc1) = Next nc
      in case Seal (m ! v_authKey v) nonce kPrime of
        Inl e \<Rightarrow> (Inl (EncryptingRekey i e), nc1)
      | Inr ct \<Rightarrow> rekey_loop m kPrime vs nc1
            (mput i \<lparr>ep_Nonce = nonce, ep_Ciphertext = ct\<rparr> rekeys))"

definition RevokeViewer ::
  "session \<Rightarrow> bytes \<Rightarrow> bytes option \<Rightarrow> bytes list
    \<Rightarrow> (session_error + (bytes, EncryptedPayload) gomap) \<times> session" where
  "RevokeViewer s viewerID rand ord =
     (if s_closed s then (Inl ErrSessionClosed, s)
      else case mget (s_viewers s) viewerID of
        None \<Rightarrow> (Inl (ErrViewerNotFound viewerID), s)
      | Some revoked \<Rightarrow>
          (let m1 = zero_at (v_authKey revoked) (s_mem s);
               s1 = s\<lparr>s_mem := m1, s_viewers := mdel viewerID (s_viewers s),
                      s_revokedIDs := mput viewerID True (s_revokedIDs s)\<rparr>
           in case GenerateStreamKey rand m1 of
             (Inl e, m2) \<Rightarrow> (Inl (GeneratingStreamKey e), s1\<lparr>s_mem := m2\<rparr>)
           | (Inr kPrime, m2) \<Rightarrow>
               (case rekey_loop m2 (m2 ! kPrime) (go_range (s_viewers s1) ord) (s_nonce s1) [] of
                  (Inl e, nc) \<Rightarrow>
                    (Inl e, s1\<lparr>s_mem := zero_at kPrime m2, s_nonce := nc\<rparr>)
                | (Inr rekeys, nc) \<Rightarrow>
                    (Inr rekeys,
                     s1\<lparr>s_mem := zero_at (s_streamKey s1) m2, s_nonce := nc,
                        s_streamKey := kPrime\<rparr>))))"

definition RemoveViewer :: "session \<Rightarrow> bytes \<Rightarrow> session" where
  "RemoveViewer s viewerID =
     (case mget (s_viewers s) viewerID of
        None \<Rightarrow> s
      | Some v \<Rightarrow> s\<lparr>s_mem := zero_at (v_authKey v) (s_mem s),
                    s_viewers := mdel viewerID (s_viewers s)\<rparr>)"

definition NextNonce :: "session \<Rightarrow> bytes \<times> session" where
  "NextNonce s = (let (nonce, nc) = Next (s_nonce s) in (nonce, s\<lparr>s_nonce := nc\<rparr>))"

text \<open>\<open>uint64(clock().Unix()) / EpochDurationSec\<close>.\<close>

definition epoch_at :: "time \<Rightarrow> u64" where
  "epoch_at now = word_of_int (unix now) div of_nat EpochDurationSec"

definition CurrentEpoch :: "session \<Rightarrow> time \<Rightarrow> u64" where
  "CurrentEpoch s now = epoch_at now"

record Frame =
  f_ciphertext :: bytes
  f_nonce :: bytes
  f_epoch :: u64

definition EncryptFrame ::
  "kdf \<Rightarrow> session \<Rightarrow> bytes \<Rightarrow> time \<Rightarrow> (session_error + Frame) \<times> session" where
  "EncryptFrame kdf s plaintext now =
     (if s_closed s then (Inl ErrSessionClosed, s)
      else let epoch = epoch_at now
      in case DeriveEpochKey kdf (stream_key s) epoch (s_mem s) of
        (Inl e, m) \<Rightarrow> (Inl (DerivingEpochKey e), s\<lparr>s_mem := m\<rparr>)
      | (Inr epochKey, m) \<Rightarrow>
          (let (nonce, nc) = Next (s_nonce s);
               s1 = s\<lparr>s_mem := zero_at epochKey m, s_nonce := nc\<rparr>
           in case Seal (m ! epochKey) nonce plaintext of
             Inl e \<Rightarrow> (Inl (EncryptingFrame e), s1)
           | Inr ct \<Rightarrow> (Inr \<lparr>f_ciphertext = ct, f_nonce = nonce, f_epoch = epoch\<rparr>, s1)))"

definition WasRevoked :: "session \<Rightarrow> bytes \<Rightarrow> bool" where
  "WasRevoked s viewerID = (mget (s_revokedIDs s) viewerID = Some True)"

definition Close :: "session \<Rightarrow> session" where
  "Close s =
     (if s_closed s then s
      else s\<lparr>s_mem := fold zero_at (s_streamKey s # map (\<lambda>(k, v). v_authKey v) (s_viewers s)) (s_mem s),
             s_viewers := [], s_closed := True\<rparr>)"

section \<open>The operations on every branch\<close>

text \<open>
  The functional behaviour in closed form, with the calls into \<open>crypto\<close> resolved: what an
  operation returns and the state it leaves.
\<close>

lemma RegisterViewer_closed: "s_closed s \<Longrightarrow> RegisterViewer s ak ct rand now = (Inl ErrSessionClosed, s)"
  by (simp add: RegisterViewer_def)

lemma RegisterViewer_open:
  assumes "\<not> s_closed s" "length ak = 32" "GenerateViewerID rand = Inr i"
    and "s_streamKey s < length (s_mem s)"
  shows "RegisterViewer s ak ct rand now =
    (let nonce = fst (Next (s_nonce s))
     in (Inr (\<lparr>vi_ID = i, vi_JoinTime = now, vi_ClientType = ct\<rparr>,
              \<lparr>ep_Nonce = nonce,
               ep_Ciphertext = gcm_seal (aes_encrypt ak) nonce (stream_key s)\<rparr>),
         s\<lparr>s_mem := s_mem s @ [ak], s_nonce := s_nonce s + 1,
           s_viewers := mput i \<lparr>v_id = i, v_authKey = length (s_mem s), v_joinTime = now,
                                v_clientType = ct\<rparr> (s_viewers s)\<rparr>))"
  using assms
  by (simp add: RegisterViewer_def NewSecureBuffer_def Let_def split_beta Seal_ok nth_append
      stream_key_def)

lemma RegisterViewer_bad_key:
  assumes "\<not> s_closed s" "length ak \<noteq> 32" "length ak \<noteq> 0" "GenerateViewerID rand = Inr i"
  shows "RegisterViewer s ak ct rand now =
    (Inl (EncryptingStreamKey (BadKeyLength (length ak))),
     s\<lparr>s_mem := s_mem s @ [zeros (length ak)], s_nonce := s_nonce s + 1\<rparr>)"
  using assms
  by (simp add: RegisterViewer_def NewSecureBuffer_def Let_def split_beta Seal_cases zero_at_def
      ZeroBytes_def zeros_def map_replicate_const)

text \<open>What the rekey loop collects when every auth key has the right length.\<close>

primrec rekey_payloads ::
  "mem \<Rightarrow> bytes \<Rightarrow> (bytes \<times> viewer) list \<Rightarrow> NonceCounter \<Rightarrow> (bytes, EncryptedPayload) gomap" where
  "rekey_payloads m kPrime [] nc = []"
| "rekey_payloads m kPrime (x # vs) nc =
     (fst x, \<lparr>ep_Nonce = fst (Next nc),
              ep_Ciphertext = gcm_seal (aes_encrypt (m ! v_authKey (snd x))) (fst (Next nc)) kPrime\<rparr>)
     # rekey_payloads m kPrime vs (nc + 1)"

lemma keys_rekey_payloads [simp]: "keys (rekey_payloads m kPrime vs nc) = keys vs"
  by (induction vs arbitrary: nc) auto

lemma rekey_loop_ok:
  assumes "\<And>i v. (i, v) \<in> set vs \<Longrightarrow> length (m ! v_authKey v) = 32"
    and "distinct (keys acc @ keys vs)"
  shows "rekey_loop m kPrime vs nc acc
    = (Inr (acc @ rekey_payloads m kPrime vs nc), nc + of_nat (length vs))"
  using assms
proof (induction vs arbitrary: nc acc)
  case Nil
  then show ?case by simp
next
  case (Cons x vs)
  obtain i v where x: "x = (i, v)" by (cases x)
  let ?p = "\<lparr>ep_Nonce = fst (Next nc),
    ep_Ciphertext = gcm_seal (aes_encrypt (m ! v_authKey v)) (fst (Next nc)) kPrime\<rparr>"
  have seal: "Seal (m ! v_authKey v) (fst (Next nc)) kPrime = Inr (ep_Ciphertext ?p)"
    using Cons.prems(1) [of i v] x by (simp add: Seal_ok)
  have new: "mput i ?p acc = acc @ [(i, ?p)]"
    using Cons.prems(2) x by (simp add: mput_new)
  have "rekey_loop m kPrime vs (nc + 1) (acc @ [(i, ?p)])
      = (Inr ((acc @ [(i, ?p)]) @ rekey_payloads m kPrime vs (nc + 1)), nc + 1 + of_nat (length vs))"
    by (rule Cons.IH) (use Cons.prems x in auto)
  with seal new x show ?case by (simp add: split_beta Let_def add.assoc)
qed

lemma rekey_payloads_open:
  assumes "mget (rekey_payloads m kPrime vs nc) i = Some p"
    and "\<And>i v. (i, v) \<in> set vs \<Longrightarrow> length (m ! v_authKey v) = 32"
  shows "\<exists>v. (i, v) \<in> set vs \<and> Open (m ! v_authKey v) (ep_Nonce p) (ep_Ciphertext p) = Inr kPrime"
  using assms
proof (induction vs arbitrary: nc)
  case Nil
  then show ?case by simp
next
  case (Cons x vs)
  show ?case
  proof (cases "i = fst x")
    case True
    with Cons.prems have "p = \<lparr>ep_Nonce = fst (Next nc),
        ep_Ciphertext = gcm_seal (aes_encrypt (m ! v_authKey (snd x))) (fst (Next nc)) kPrime\<rparr>"
      by simp
    moreover have "length (m ! v_authKey (snd x)) = 32"
      using Cons.prems(2) [of "fst x" "snd x"] by simp
    ultimately have "Open (m ! v_authKey (snd x)) (ep_Nonce p) (ep_Ciphertext p) = Inr kPrime"
      by (simp add: Open_cases)
    with True show ?thesis by (intro exI [of _ "snd x"]) simp
  next
    case False
    with Cons.prems(1) have "mget (rekey_payloads m kPrime vs (nc + 1)) i = Some p" by simp
    from Cons.IH [OF this] Cons.prems(2) show ?thesis by auto
  qed
qed

section \<open>Well-formedness and where keys live\<close>

text \<open>
  The buffers the session refers to: the stream key and one auth key per viewer, none once it
  is closed. In a well-formed session these are distinct 32-byte buffers, the table has one
  entry per ID and each entry carries its own ID.
\<close>

definition live :: "session \<Rightarrow> addr list" where
  "live s = (if s_closed s then []
             else s_streamKey s # map (\<lambda>(k, v). v_authKey v) (s_viewers s))"

definition key_buf :: "mem \<Rightarrow> addr \<Rightarrow> bool" where
  "key_buf m a \<longleftrightarrow> a < length m \<and> length (m ! a) = 32"

definition viewer_entry_ok :: "bytes \<times> viewer \<Rightarrow> bool" where
  "viewer_entry_ok e \<longleftrightarrow> v_id (snd e) = fst e"

definition sess_wf :: "session \<Rightarrow> bool" where
  "sess_wf s \<longleftrightarrow>
     distinct (keys (s_viewers s)) \<and> list_all viewer_entry_ok (s_viewers s)
     \<and> distinct (live s) \<and> list_all (key_buf (s_mem s)) (live s)
     \<and> (s_closed s \<longrightarrow> s_viewers s = [])"

text \<open>
  Every buffer outside the live ones and \<open>E\<close> is zeroed; \<open>E\<close> names buffers that a caller of the
  session still holds.
\<close>

definition clean_but :: "addr set \<Rightarrow> session \<Rightarrow> bool" where
  "clean_but E s \<longleftrightarrow> clean (s_mem s) (set (live s) \<union> E)"

abbreviation sess_clean :: "session \<Rightarrow> bool" where
  "sess_clean s \<equiv> clean_but {} s"

text \<open>\<open>Close\<close> is the wipe of a key owner.\<close>

interpretation closing: key_owner s_mem live Close
  by unfold_locales (simp add: Close_def live_def)

lemma key_buf_append [intro]: "key_buf m a \<Longrightarrow> key_buf (m @ [b]) a"
  by (simp add: key_buf_def nth_append)

lemma key_buf_new [intro]: "length b = 32 \<Longrightarrow> key_buf (m @ [b]) (length m)"
  by (simp add: key_buf_def)

lemma key_buf_zero_at [simp]: "key_buf (zero_at b m) a \<longleftrightarrow> key_buf m a"
  by (simp add: key_buf_def)

lemma key_buf_lt: "key_buf m a \<Longrightarrow> a < length m"
  by (simp add: key_buf_def)

lemma list_all_mdel: "list_all P m \<Longrightarrow> list_all P (mdel k m)"
  by (auto simp: list_all_iff mdel_filter)

lemma list_all_mput: "list_all P m \<Longrightarrow> P (k, v) \<Longrightarrow> list_all P (mput k v m)"
  by (induction m) auto

lemma addrs_mput_subset:
  "set (map (\<lambda>(k, v). v_authKey v) (mput k v m))
    \<subseteq> insert (v_authKey v) (set (map (\<lambda>(k, v). v_authKey v) m))"
  by (induction m) auto

lemma distinct_addrs_mput:
  "distinct (map (\<lambda>(k, v). v_authKey v) m)
    \<Longrightarrow> v_authKey v \<notin> set (map (\<lambda>(k, v). v_authKey v) m)
    \<Longrightarrow> distinct (map (\<lambda>(k, v). v_authKey v) (mput k v m))"
proof (induction m)
  case (Cons x m)
  then show ?case
    using addrs_mput_subset [of k v m] by (auto simp: split_beta)
qed simp

lemma addrs_mdel_subset:
  "set (map (\<lambda>(k, v). v_authKey v) (mdel k m)) \<subseteq> set (map (\<lambda>(k, v). v_authKey v) m)"
  by (auto simp: mdel_filter)

lemma distinct_addrs_mdel:
  "distinct (map (\<lambda>(k, v). v_authKey v) m) \<Longrightarrow> distinct (map (\<lambda>(k, v). v_authKey v) (mdel k m))"
  by (simp add: mdel_filter distinct_map_filter)

lemma addr_mdel_gone:
  assumes "distinct (map (\<lambda>(k, v). v_authKey v) m)" "distinct (keys m)" "mget m k = Some v"
  shows "set (map (\<lambda>(k, v). v_authKey v) (mdel k m)) = set (map (\<lambda>(k, v). v_authKey v) m) - {v_authKey v}"
  using assms
proof (induction m)
  case (Cons x m)
  obtain i w where x: "x = (i, w)" by (cases x)
  show ?case
  proof (cases "i = k")
    case True
    with Cons.prems x have "k \<notin> fst ` set m" "w = v" by auto
    with True Cons.prems x show ?thesis by simp
  next
    case False
    with Cons.prems x have get: "mget m k = Some v" by simp
    then have "(k, v) \<in> set m" by (rule map_of_SomeD)
    with Cons.prems(1) x have "v_authKey w \<noteq> v_authKey v" by force
    with Cons.IH Cons.prems get False x show ?thesis by auto
  qed
qed simp

lemma live_mem [simp]: "live (s\<lparr>s_mem := m\<rparr>) = live s"
  by (simp add: live_def)

lemma live_nonce [simp]: "live (s\<lparr>s_nonce := n\<rparr>) = live s"
  by (simp add: live_def)

lemma live_revokedIDs [simp]: "live (s\<lparr>s_revokedIDs := r\<rparr>) = live s"
  by (simp add: live_def)

lemma key_bufs_append: "list_all (key_buf m) as \<Longrightarrow> list_all (key_buf (m @ [b])) as"
  by (auto simp: list_all_iff)

lemma sess_wfD:
  assumes "sess_wf s"
  shows "distinct (keys (s_viewers s))" "list_all viewer_entry_ok (s_viewers s)"
    "distinct (live s)" "list_all (key_buf (s_mem s)) (live s)"
  using assms by (simp_all add: sess_wf_def)

lemma sess_wf_stream_key:
  "sess_wf s \<Longrightarrow> \<not> s_closed s \<Longrightarrow> key_buf (s_mem s) (s_streamKey s)"
  by (simp add: sess_wf_def live_def)

lemma sess_wf_viewer:
  "sess_wf s \<Longrightarrow> (i, v) \<in> set (s_viewers s) \<Longrightarrow> key_buf (s_mem s) (v_authKey v) \<and> v_id v = i"
  by (cases "s_closed s") (auto simp: sess_wf_def live_def list_all_iff viewer_entry_ok_def)

section \<open>Every operation keeps the session well-formed\<close>

lemma sess_wf_NewSession: "NewSession argon2 code rand = Inr s \<Longrightarrow> sess_wf s \<and> sess_clean s"
  by (auto simp: NewSession_def GenerateStreamKey_cases sess_wf_def live_def key_buf_def
      clean_but_def clean_def split: option.splits)

text \<open>Changes of the memory that keep the live buffers, and of the counter.\<close>

lemma sess_wf_append: "sess_wf s \<Longrightarrow> sess_wf (s\<lparr>s_mem := s_mem s @ [b]\<rparr>)"
  by (simp add: sess_wf_def key_bufs_append)

lemma sess_wf_zero_at: "sess_wf (s\<lparr>s_mem := zero_at a m\<rparr>) \<longleftrightarrow> sess_wf (s\<lparr>s_mem := m\<rparr>)"
  by (simp add: sess_wf_def list_all_iff)

lemma sess_wf_nonce [simp]: "sess_wf (s\<lparr>s_nonce := n\<rparr>) \<longleftrightarrow> sess_wf s"
  by (simp add: sess_wf_def)

lemma sess_clean_append:
  "clean_but E s \<Longrightarrow> all_zero b \<Longrightarrow> clean_but E (s\<lparr>s_mem := s_mem s @ [b]\<rparr>)"
  by (simp add: clean_but_def clean_append_zero)

lemma sess_clean_nonce [simp]: "clean_but E (s\<lparr>s_nonce := n\<rparr>) \<longleftrightarrow> clean_but E s"
  by (simp add: clean_but_def)

text \<open>A scratch buffer that is zeroed before the operation returns.\<close>

lemma clean_scratch: "clean m L \<Longrightarrow> clean (zero_at (length m) (m @ [b])) L"
  using clean_zero_at [OF clean_append [of m L b], of "length m"]
  by (rule clean_mono) auto

text \<open>
  \<open>RegisterViewer\<close>. A fresh ID is needed for cleanliness only: an ID already in the table
  is overwritten, and the auth key of the viewer it belonged to stays in memory.
\<close>

definition fresh_id :: "session \<Rightarrow> nat option list \<Rightarrow> bool" where
  "fresh_id s rand \<longleftrightarrow> (case GenerateViewerID rand of
      Inl e \<Rightarrow> True | Inr i \<Rightarrow> mget (s_viewers s) i = None)"

lemma RegisterViewer_cases:
  assumes "sess_wf s"
  obtains (closed) "s_closed s" "RegisterViewer s ak ct rand now = (Inl ErrSessionClosed, s)"
  | (no_id) e where "GenerateViewerID rand = Inl e"
      "RegisterViewer s ak ct rand now = (Inl (GeneratingViewerID e), s)"
  | (empty_key) "length ak = 0"
      "RegisterViewer s ak ct rand now = (Inl (AllocatingAuthKey (BufferSize 0)), s)"
  | (bad_key) "length ak \<noteq> 32" "RegisterViewer s ak ct rand now =
      (Inl (EncryptingStreamKey (BadKeyLength (length ak))),
       s\<lparr>s_mem := s_mem s @ [zeros (length ak)], s_nonce := s_nonce s + 1\<rparr>)"
  | (ok) i where "\<not> s_closed s" "length ak = 32" "GenerateViewerID rand = Inr i"
      "RegisterViewer s ak ct rand now =
        (let nonce = fst (Next (s_nonce s))
         in (Inr (\<lparr>vi_ID = i, vi_JoinTime = now, vi_ClientType = ct\<rparr>,
                  \<lparr>ep_Nonce = nonce,
                   ep_Ciphertext = gcm_seal (aes_encrypt ak) nonce (stream_key s)\<rparr>),
             s\<lparr>s_mem := s_mem s @ [ak], s_nonce := s_nonce s + 1,
               s_viewers := mput i \<lparr>v_id = i, v_authKey = length (s_mem s), v_joinTime = now,
                                    v_clientType = ct\<rparr> (s_viewers s)\<rparr>))"
proof (cases "s_closed s")
  case True
  with closed show ?thesis by (simp add: RegisterViewer_closed)
next
  case open_: False
  show ?thesis
  proof (cases "GenerateViewerID rand")
    case (Inl e)
    with open_ no_id show ?thesis by (simp add: RegisterViewer_def)
  next
    case (Inr i)
    consider "length ak = 0" | "length ak \<noteq> 32" "length ak \<noteq> 0" | "length ak = 32" by linarith
    then show ?thesis
    proof cases
      case 1
      with open_ Inr empty_key show ?thesis
        by (simp add: RegisterViewer_def NewSecureBuffer_def)
    next
      case 2
      with open_ Inr bad_key show ?thesis by (simp add: RegisterViewer_bad_key)
    next
      case 3
      have "s_streamKey s < length (s_mem s)"
        using assms open_ by (simp add: sess_wf_stream_key key_buf_lt)
      with open_ Inr 3 ok show ?thesis by (simp add: RegisterViewer_open)
    qed
  qed
qed

lemma live_mput:
  "\<not> s_closed s \<Longrightarrow> set (live (s\<lparr>s_mem := m, s_nonce := n, s_viewers := mput i v (s_viewers s)\<rparr>))
    \<subseteq> insert (v_authKey v) (set (live s))"
  using addrs_mput_subset [of i v "s_viewers s"] by (auto simp: live_def)

lemma live_mput_new:
  "\<not> s_closed s \<Longrightarrow> mget (s_viewers s) i = None
    \<Longrightarrow> set (live (s\<lparr>s_mem := m, s_nonce := n, s_viewers := mput i v (s_viewers s)\<rparr>))
      = insert (v_authKey v) (set (live s))"
  by (simp add: live_def mget_None_iff mput_new insert_commute)

lemma sess_wf_RegisterViewer:
  assumes wf: "sess_wf s"
  shows "sess_wf (snd (RegisterViewer s ak ct rand now))"
  using assms
proof (cases rule: RegisterViewer_cases [where ak = ak and ct = ct and rand = rand and now = now])
  case (ok i)
  let ?v = "\<lparr>v_id = i, v_authKey = length (s_mem s), v_joinTime = now, v_clientType = ct\<rparr>"
  let ?s = "s\<lparr>s_mem := s_mem s @ [ak], s_nonce := s_nonce s + 1, s_viewers := mput i ?v (s_viewers s)\<rparr>"
  have fresh: "length (s_mem s) \<notin> set (live s)"
    using sess_wfD(4) [OF wf] by (auto simp: list_all_iff key_buf_def)
  have "distinct (live ?s)"
    using sess_wfD(3) [OF wf] fresh ok(1) addrs_mput_subset [of i ?v "s_viewers s"]
      distinct_addrs_mput [of "s_viewers s" ?v i]
    by (auto simp: live_def simp del: set_map)
  moreover have "list_all (key_buf (s_mem s @ [ak])) (live ?s)"
  proof -
    have "key_buf (s_mem s @ [ak]) a" if "a \<in> insert (length (s_mem s)) (set (live s))" for a
      using that ok(2) sess_wfD(4) [OF wf] by (auto simp: list_all_iff)
    with live_mput [OF ok(1), where m = "s_mem s @ [ak]" and n = "s_nonce s + 1" and i = i and v = ?v] show ?thesis
      by (auto simp: list_all_iff)
  qed
  moreover have "list_all viewer_entry_ok (mput i ?v (s_viewers s))"
    using sess_wfD(2) [OF wf] by (simp add: list_all_mput viewer_entry_ok_def)
  ultimately have "sess_wf ?s"
    using sess_wfD(1) [OF wf] ok(1) by (simp add: sess_wf_def)
  with ok show ?thesis by (simp add: Let_def)
qed (use assms sess_wf_append [OF wf] in \<open>simp_all\<close>)

lemma sess_clean_RegisterViewer:
  assumes "sess_wf s" "clean_but E s" "fresh_id s rand"
  shows "clean_but E (snd (RegisterViewer s ak ct rand now))"
  using assms(1)
proof (cases rule: RegisterViewer_cases [where ak = ak and ct = ct and rand = rand and now = now])
  case (ok i)
  with assms(3) have "mget (s_viewers s) i = None" by (simp add: fresh_id_def)
  with ok assms(2) live_mput_new [OF ok(1)] show ?thesis
    by (simp add: Let_def clean_but_def clean_append)
qed (use assms sess_clean_append in \<open>simp_all\<close>)

text \<open>\<open>RemoveViewer\<close>.\<close>

lemma live_mdel_gone:
  assumes "sess_wf s" "mget (s_viewers s) i = Some v"
  shows "set (live (s\<lparr>s_mem := m, s_viewers := mdel i (s_viewers s)\<rparr>)) = set (live s) - {v_authKey v}"
proof -
  have op: "\<not> s_closed s" using assms by (auto simp: sess_wf_def)
  have dist: "distinct (s_streamKey s # map (\<lambda>(k, v). v_authKey v) (s_viewers s))"
    using sess_wfD(3) [OF assms(1)] op by (simp add: live_def)
  have "v_authKey v \<in> set (map (\<lambda>(k, v). v_authKey v) (s_viewers s))"
    using map_of_SomeD [OF assms(2)] by force
  with dist have "s_streamKey s \<noteq> v_authKey v" by auto
  with addr_mdel_gone [OF _ sess_wfD(1) [OF assms(1)] assms(2)] dist op show ?thesis
    by (simp add: live_def insert_Diff_if)
qed

lemma distinct_live_mdel:
  "sess_wf s \<Longrightarrow> distinct (live (s\<lparr>s_mem := m, s_viewers := mdel i (s_viewers s)\<rparr>))"
  using addrs_mdel_subset [of i "s_viewers s"]
  by (auto simp: sess_wf_def live_def distinct_addrs_mdel simp del: set_map)

lemma sess_wf_drop:
  assumes "sess_wf s"
  shows "sess_wf (s\<lparr>s_mem := zero_at a (s_mem s), s_viewers := mdel i (s_viewers s)\<rparr>)"
proof -
  let ?s = "s\<lparr>s_mem := zero_at a (s_mem s), s_viewers := mdel i (s_viewers s)\<rparr>"
  have "set (live ?s) \<subseteq> set (live s)"
    using addrs_mdel_subset [of i "s_viewers s"] by (auto simp: live_def)
  then have "list_all (key_buf (s_mem ?s)) (live ?s)"
    using sess_wfD(4) [OF assms] by (auto simp: list_all_iff)
  then show ?thesis
    using assms distinct_live_mdel [OF assms] by (simp add: sess_wf_def list_all_mdel)
qed

lemma sess_clean_drop:
  assumes "sess_wf s" "clean_but E s" "mget (s_viewers s) i = Some v"
  shows "clean_but E (s\<lparr>s_mem := zero_at (v_authKey v) (s_mem s), s_viewers := mdel i (s_viewers s)\<rparr>)"
proof -
  have "clean (zero_at (v_authKey v) (s_mem s)) (set (live s) \<union> E - {v_authKey v})"
    using assms(2) by (simp add: clean_but_def clean_zero_at)
  moreover have "set (live s) \<union> E - {v_authKey v} \<subseteq> (set (live s) - {v_authKey v}) \<union> E"
    by blast
  ultimately have "clean (zero_at (v_authKey v) (s_mem s)) ((set (live s) - {v_authKey v}) \<union> E)"
    by (rule clean_mono)
  then show ?thesis using assms(1,3) by (simp add: clean_but_def live_mdel_gone)
qed

lemma sess_wf_RemoveViewer: "sess_wf s \<Longrightarrow> sess_wf (RemoveViewer s i)"
  by (simp add: RemoveViewer_def sess_wf_drop split: option.split)

lemma sess_clean_RemoveViewer: "sess_wf s \<Longrightarrow> clean_but E s \<Longrightarrow> clean_but E (RemoveViewer s i)"
  by (simp add: RemoveViewer_def sess_clean_drop split: option.split)

text \<open>\<open>EncryptFrame\<close>, \<open>NextNonce\<close> and \<open>Close\<close>.\<close>

lemma EncryptFrame_open:
  assumes "\<not> s_closed s"
  shows "EncryptFrame kdf s p now =
    (case epoch_key kdf (stream_key s) (epoch_at now) of
       None \<Rightarrow> (Inl (DerivingEpochKey KdfFailed), s\<lparr>s_mem := s_mem s @ [zeros 32]\<rparr>)
     | Some ek \<Rightarrow>
         (Inr \<lparr>f_ciphertext = gcm_seal (aes_encrypt ek) (fst (Next (s_nonce s))) p,
               f_nonce = fst (Next (s_nonce s)), f_epoch = epoch_at now\<rparr>,
          s\<lparr>s_mem := zero_at (length (s_mem s)) (s_mem s @ [ek]), s_nonce := s_nonce s + 1\<rparr>))"
  using assms
  by (simp add: EncryptFrame_def DeriveEpochKey_cases Let_def split_beta Seal_ok length_epoch_key
      split: option.split)

lemma EncryptFrame_closed: "s_closed s \<Longrightarrow> EncryptFrame kdf s p now = (Inl ErrSessionClosed, s)"
  by (simp add: EncryptFrame_def)

lemma sess_wf_EncryptFrame: "sess_wf s \<Longrightarrow> sess_wf (snd (EncryptFrame kdf s p now))"
  by (cases "s_closed s")
    (simp_all add: EncryptFrame_closed EncryptFrame_open sess_wf_zero_at sess_wf_append
      split: option.split)

lemma sess_clean_EncryptFrame: "clean_but E s \<Longrightarrow> clean_but E (snd (EncryptFrame kdf s p now))"
  by (cases "s_closed s")
    (simp_all add: EncryptFrame_closed EncryptFrame_open clean_but_def clean_scratch
      clean_append_zero split: option.split)

lemma NextNonce_eq: "NextNonce s = (fst (Next (s_nonce s)), s\<lparr>s_nonce := s_nonce s + 1\<rparr>)"
  by (simp add: NextNonce_def split_beta Let_def)

lemma sess_wf_Close: "sess_wf s \<Longrightarrow> sess_wf (Close s)"
  by (auto simp: Close_def sess_wf_def live_def)

lemma sess_clean_Close: "sess_clean s \<Longrightarrow> sess_clean (Close s)"
  using closing.wipe_leaves_nothing [of s]
  by (auto simp: clean_but_def Close_def live_def simp flip: clean_all_zero)

text \<open>
  \<open>RevokeViewer\<close>. In a well-formed session only the random source can fail once the
  viewer is found: the loop seals for every remaining viewer.
\<close>

lemma rekey_payloads_cong:
  "(\<And>i v. (i, v) \<in> set vs \<Longrightarrow> m ! v_authKey v = m' ! v_authKey v)
    \<Longrightarrow> rekey_payloads m k vs nc = rekey_payloads m' k vs nc"
proof (induction vs arbitrary: nc)
  case (Cons x vs)
  from Cons.prems [of "fst x" "snd x"] have "m ! v_authKey (snd x) = m' ! v_authKey (snd x)"
    by simp
  with Cons show ?case by auto
qed simp

lemma RevokeViewer_missing:
  "\<not> s_closed s \<Longrightarrow> mget (s_viewers s) i = None
    \<Longrightarrow> RevokeViewer s i rand ord = (Inl (ErrViewerNotFound i), s)"
  by (simp add: RevokeViewer_def)

lemma RevokeViewer_closed: "s_closed s \<Longrightarrow> RevokeViewer s i rand ord = (Inl ErrSessionClosed, s)"
  by (simp add: RevokeViewer_def)

definition revoked_state :: "session \<Rightarrow> bytes \<Rightarrow> viewer \<Rightarrow> session" where
  "revoked_state s i v =
     s\<lparr>s_mem := zero_at (v_authKey v) (s_mem s), s_viewers := mdel i (s_viewers s),
       s_revokedIDs := mput i True (s_revokedIDs s)\<rparr>"

lemma RevokeViewer_rand_fails:
  "\<not> s_closed s \<Longrightarrow> mget (s_viewers s) i = Some v
    \<Longrightarrow> RevokeViewer s i None ord =
      (Inl (GeneratingStreamKey RandFailed),
       (revoked_state s i v)\<lparr>s_mem := zero_at (v_authKey v) (s_mem s) @ [zeros 32]\<rparr>)"
  by (simp add: RevokeViewer_def GenerateStreamKey_cases Let_def revoked_state_def)

lemma other_auth_key_addr:
  assumes "sess_wf s" "mget (s_viewers s) i = Some v" "(j, w) \<in> set (mdel i (s_viewers s))"
  shows "v_authKey w \<noteq> v_authKey v \<and> v_authKey w < length (s_mem s) \<and> v_authKey w \<noteq> s_streamKey s"
proof -
  have w: "(j, w) \<in> set (s_viewers s)"
    using assms(3) set_mdel_subset [of i "s_viewers s"] by blast
  have op: "\<not> s_closed s" using assms by (auto simp: sess_wf_def)
  have "v_authKey w \<in> set (map (\<lambda>(k, v). v_authKey v) (mdel i (s_viewers s)))"
    using assms(3) by force
  then have "v_authKey w \<noteq> v_authKey v"
    using addr_mdel_gone [OF _ sess_wfD(1) [OF assms(1)] assms(2)] sess_wfD(3) [OF assms(1)] op
    by (simp add: live_def)
  moreover have "v_authKey w < length (s_mem s)"
    using sess_wf_viewer [OF assms(1) w] by (simp add: key_buf_lt)
  moreover have "v_authKey w \<noteq> s_streamKey s"
    using sess_wfD(3) [OF assms(1)] op w by (force simp: live_def)
  ultimately show ?thesis by simp
qed

lemma RevokeViewer_ok:
  assumes wf: "sess_wf s" and get: "mget (s_viewers s) i = Some v"
    and ord: "range_order (mdel i (s_viewers s)) ord"
  shows "RevokeViewer s i (Some bs) ord =
    (Inr (rekey_payloads (s_mem s) (go_copy 32 bs) (go_range (mdel i (s_viewers s)) ord) (s_nonce s)),
     (revoked_state s i v)
       \<lparr>s_mem := zero_at (s_streamKey s) (zero_at (v_authKey v) (s_mem s) @ [go_copy 32 bs]),
        s_nonce := s_nonce s + of_nat (length ord), s_streamKey := length (s_mem s)\<rparr>)"
proof -
  let ?vs = "mdel i (s_viewers s)" and ?m = "zero_at (v_authKey v) (s_mem s) @ [go_copy 32 bs]"
  let ?r = "go_range ?vs ord"
  have op: "\<not> s_closed s" using wf get by (auto simp: sess_wf_def)
  have in_vs: "(j, w) \<in> set ?vs" if "(j, w) \<in> set ?r" for j w
    using that by (auto simp: set_go_range simp del: mget_mdel dest: map_of_SomeD)
  have same: "?m ! v_authKey w = s_mem s ! v_authKey w" if "(j, w) \<in> set ?r" for j w
    using other_auth_key_addr [OF wf get in_vs [OF that]] by (simp add: nth_append)
  have len: "length (?m ! v_authKey w) = 32" if "(j, w) \<in> set ?r" for j w
  proof -
    have "(j, w) \<in> set (s_viewers s)"
      using in_vs [OF that] set_mdel_subset [of i "s_viewers s"] by blast
    from sess_wf_viewer [OF wf this] show ?thesis
      by (simp add: same [OF that] key_buf_def)
  qed
  have ks: "keys ?r = ord"
    using ord by (simp add: keys_go_range range_order_def)
  then have "length ?r = length ord" "distinct (keys [] @ keys ?r)"
    using ord by (auto simp: range_order_def simp flip: length_map [of fst])
  with rekey_loop_ok [OF len, where acc = "[]" and kPrime = "go_copy 32 bs" and nc = "s_nonce s"]
  have "rekey_loop ?m (go_copy 32 bs) ?r (s_nonce s) []
      = (Inr (rekey_payloads ?m (go_copy 32 bs) ?r (s_nonce s)), s_nonce s + of_nat (length ord))"
    by simp
  moreover have "rekey_payloads ?m (go_copy 32 bs) ?r (s_nonce s)
      = rekey_payloads (s_mem s) (go_copy 32 bs) ?r (s_nonce s)"
    by (rule rekey_payloads_cong) (rule same)
  ultimately show ?thesis
    using op get
    by (simp add: RevokeViewer_def GenerateStreamKey_cases Let_def revoked_state_def)
qed

lemma sess_wf_revoked_state: "sess_wf s \<Longrightarrow> sess_wf (revoked_state s i v)"
  using sess_wf_drop [where s = s and a = "v_authKey v" and i = i]
  by (auto simp: revoked_state_def sess_wf_def live_def)

lemma sess_clean_revoked_state:
  "sess_wf s \<Longrightarrow> clean_but E s \<Longrightarrow> mget (s_viewers s) i = Some v
    \<Longrightarrow> clean_but E (revoked_state s i v)"
  using sess_clean_drop [where s = s and i = i and v = v] by (auto simp: revoked_state_def clean_but_def live_def)

text \<open>Replacing the stream key by the newest buffer.\<close>

definition rekeyed :: "session \<Rightarrow> bytes \<Rightarrow> NonceCounter \<Rightarrow> session" where
  "rekeyed s b n = s\<lparr>s_mem := zero_at (s_streamKey s) (s_mem s @ [b]), s_nonce := n,
                    s_streamKey := length (s_mem s)\<rparr>"

lemma sess_wf_rekeyed:
  assumes wf: "sess_wf s" and op: "\<not> s_closed s" and b: "length b = 32"
  shows "sess_wf (rekeyed s b n)"
proof -
  have "list_all (\<lambda>a. a < length (s_mem s)) (live s)"
    using sess_wfD(4) [OF wf] by (auto simp: list_all_iff key_buf_def)
  then have "distinct (live (rekeyed s b n))"
    using sess_wfD(3) [OF wf] op by (auto simp: rekeyed_def live_def list_all_iff)
  moreover have "list_all (key_buf (s_mem (rekeyed s b n))) (live (rekeyed s b n))"
    using sess_wfD(4) [OF wf] op b
    by (auto simp: rekeyed_def live_def list_all_iff)
  ultimately show ?thesis
    using wf op by (simp add: sess_wf_def rekeyed_def)
qed

lemma sess_clean_rekeyed:
  assumes wf: "sess_wf s" and cl: "clean_but E s" and op: "\<not> s_closed s"
  shows "clean_but E (rekeyed s b n)"
proof -
  have "clean (zero_at (s_streamKey s) (s_mem s @ [b]))
      (insert (length (s_mem s)) (set (live s) \<union> E) - {s_streamKey s})"
    using cl by (auto simp: clean_but_def intro: clean_zero_at clean_append)
  moreover have "insert (length (s_mem s)) (set (live s) \<union> E) - {s_streamKey s}
      \<subseteq> set (live (rekeyed s b n)) \<union> E"
    using op by (auto simp: rekeyed_def live_def)
  ultimately have "clean (zero_at (s_streamKey s) (s_mem s @ [b])) (set (live (rekeyed s b n)) \<union> E)"
    by (rule clean_mono)
  then show ?thesis by (simp add: clean_but_def rekeyed_def)
qed

lemma RevokeViewer_cases:
  assumes "sess_wf s"
  obtains (closed) "s_closed s" "RevokeViewer s i rand ord = (Inl ErrSessionClosed, s)"
  | (missing) "\<not> s_closed s" "mget (s_viewers s) i = None"
      "RevokeViewer s i rand ord = (Inl (ErrViewerNotFound i), s)"
  | (no_rand) v where "\<not> s_closed s" "mget (s_viewers s) i = Some v" "rand = None"
      "RevokeViewer s i rand ord =
        (Inl (GeneratingStreamKey RandFailed),
         (revoked_state s i v)\<lparr>s_mem := s_mem (revoked_state s i v) @ [zeros 32]\<rparr>)"
  | (found) v bs where "\<not> s_closed s" "mget (s_viewers s) i = Some v" "rand = Some bs"
proof (cases "s_closed s")
  case True
  with closed show ?thesis by (simp add: RevokeViewer_closed)
next
  case op: False
  show ?thesis
  proof (cases "mget (s_viewers s) i")
    case None
    with op missing show ?thesis by (simp add: RevokeViewer_missing)
  next
    case (Some v)
    with op no_rand found show ?thesis
      by (cases rand) (simp_all add: RevokeViewer_rand_fails revoked_state_def)
  qed
qed

lemma RevokeViewer_rotates:
  assumes "sess_wf s" "mget (s_viewers s) i = Some v" "range_order (mdel i (s_viewers s)) ord"
  shows "RevokeViewer s i (Some bs) ord =
    (Inr (rekey_payloads (s_mem s) (go_copy 32 bs) (go_range (mdel i (s_viewers s)) ord) (s_nonce s)),
     rekeyed (revoked_state s i v) (go_copy 32 bs) (s_nonce s + of_nat (length ord)))"
  using RevokeViewer_ok [OF assms] by (simp add: rekeyed_def revoked_state_def)

lemma sess_wf_RevokeViewer:
  assumes "sess_wf s" "range_order (mdel i (s_viewers s)) ord"
  shows "sess_wf (snd (RevokeViewer s i rand ord))"
  using assms(1)
proof (cases rule: RevokeViewer_cases [where i = i and rand = rand and ord = ord])
  case (no_rand v)
  then show ?thesis
    using sess_wf_append [OF sess_wf_revoked_state [OF assms(1), of i v]] by simp
next
  case (found v bs)
  then show ?thesis
    using RevokeViewer_rotates [OF assms(1) found(2) assms(2)] sess_wf_revoked_state [OF assms(1)]
    by (simp add: sess_wf_rekeyed revoked_state_def)
qed (use assms in simp_all)

lemma sess_clean_RevokeViewer:
  assumes "sess_wf s" "clean_but E s" "range_order (mdel i (s_viewers s)) ord"
  shows "clean_but E (snd (RevokeViewer s i rand ord))"
  using assms(1)
proof (cases rule: RevokeViewer_cases [where i = i and rand = rand and ord = ord])
  case (no_rand v)
  then show ?thesis
    using sess_clean_append [OF sess_clean_revoked_state [OF assms(1,2), of i v]] by simp
next
  case (found v bs)
  have "\<not> s_closed (revoked_state s i v)" using found by (simp add: revoked_state_def)
  with found show ?thesis
    using RevokeViewer_rotates [OF assms(1) found(2) assms(3)] sess_wf_revoked_state [OF assms(1)]
      sess_clean_revoked_state [OF assms(1,2) found(2)]
    by (simp add: sess_clean_rekeyed)
qed (use assms in simp_all)

section \<open>Runs of a session\<close>

text \<open>
  The methods as operations on the session, in any order. \<open>sess_step\<close> also returns the nonces
  that left the session: of a key delivery, of each rekey payload, of a frame, of \<open>NextNonce\<close>.
\<close>

datatype session_op =
    Op_Register bytes string "nat option list" time
  | Op_Revoke bytes "bytes option" "bytes list"
  | Op_Remove bytes
  | Op_NextNonce
  | Op_Encrypt bytes time
  | Op_Close

fun sess_step :: "kdf \<Rightarrow> session \<Rightarrow> session_op \<Rightarrow> bytes list \<times> session" where
  "sess_step kdf s (Op_Register ak ct rand now) =
     (case RegisterViewer s ak ct rand now of
        (Inl e, s') \<Rightarrow> ([], s') | (Inr (info, enc), s') \<Rightarrow> ([ep_Nonce enc], s'))"
| "sess_step kdf s (Op_Revoke i rand ord) =
     (case RevokeViewer s i rand ord of
        (Inl e, s') \<Rightarrow> ([], s') | (Inr rekeys, s') \<Rightarrow> (map (ep_Nonce \<circ> snd) rekeys, s'))"
| "sess_step kdf s (Op_Remove i) = ([], RemoveViewer s i)"
| "sess_step kdf s Op_NextNonce = (case NextNonce s of (n, s') \<Rightarrow> ([n], s'))"
| "sess_step kdf s (Op_Encrypt p now) =
     (case EncryptFrame kdf s p now of
        (Inl e, s') \<Rightarrow> ([], s') | (Inr f, s') \<Rightarrow> ([f_nonce f], s'))"
| "sess_step kdf s Op_Close = ([], Close s)"

fun sess_run :: "kdf \<Rightarrow> session \<Rightarrow> session_op list \<Rightarrow> bytes list \<times> session" where
  "sess_run kdf s [] = ([], s)"
| "sess_run kdf s (op # ops) =
     (let (ns, s1) = sess_step kdf s op; (ms, s2) = sess_run kdf s1 ops in (ns @ ms, s2))"

text \<open>
  What the runtime guarantees (a \<open>range\<close> visits each key of the map once) and what the random
  source makes overwhelmingly likely (a drawn viewer ID is not in use).
\<close>

fun op_range_ok :: "session \<Rightarrow> session_op \<Rightarrow> bool" where
  "op_range_ok s (Op_Revoke i rand ord) = range_order (mdel i (s_viewers s)) ord"
| "op_range_ok s op = True"

fun op_fresh :: "session \<Rightarrow> session_op \<Rightarrow> bool" where
  "op_fresh s (Op_Register ak ct rand now) = fresh_id s rand"
| "op_fresh s op = True"

fun ops_hold :: "(session \<Rightarrow> session_op \<Rightarrow> bool) \<Rightarrow> kdf \<Rightarrow> session \<Rightarrow> session_op list \<Rightarrow> bool" where
  "ops_hold P kdf s [] = True"
| "ops_hold P kdf s (op # ops) = (P s op \<and> ops_hold P kdf (snd (sess_step kdf s op)) ops)"

text \<open>How many nonces an operation can draw.\<close>

fun op_cost :: "session \<Rightarrow> session_op \<Rightarrow> nat" where
  "op_cost s (Op_Register ak ct rand now) = 1"
| "op_cost s (Op_Revoke i rand ord) = length ord"
| "op_cost s (Op_Remove i) = 0"
| "op_cost s Op_NextNonce = 1"
| "op_cost s (Op_Encrypt p now) = 1"
| "op_cost s Op_Close = 0"

fun run_cost :: "kdf \<Rightarrow> session \<Rightarrow> session_op list \<Rightarrow> nat" where
  "run_cost kdf s [] = 0"
| "run_cost kdf s (op # ops) = op_cost s op + run_cost kdf (snd (sess_step kdf s op)) ops"

lemma sess_run_Cons:
  "sess_run kdf s (op # ops) =
    (fst (sess_step kdf s op) @ fst (sess_run kdf (snd (sess_step kdf s op)) ops),
     snd (sess_run kdf (snd (sess_step kdf s op)) ops))"
  by (simp add: split_beta Let_def)

lemma snd_sess_step:
  "snd (sess_step kdf s (Op_Register ak ct rand now)) = snd (RegisterViewer s ak ct rand now)"
  "snd (sess_step kdf s (Op_Revoke i r ord)) = snd (RevokeViewer s i r ord)"
  "snd (sess_step kdf s Op_NextNonce) = snd (NextNonce s)"
  "snd (sess_step kdf s (Op_Encrypt p now)) = snd (EncryptFrame kdf s p now)"
  by (simp_all split: prod.splits sum.splits)

lemma sess_wf_step: "sess_wf s \<Longrightarrow> op_range_ok s op \<Longrightarrow> sess_wf (snd (sess_step kdf s op))"
  by (cases op)
    (simp_all add: snd_sess_step sess_wf_RegisterViewer sess_wf_RevokeViewer sess_wf_RemoveViewer
      sess_wf_EncryptFrame sess_wf_Close NextNonce_eq del: sess_step.simps(1,2,4,5))

lemma sess_clean_step:
  "sess_wf s \<Longrightarrow> sess_clean s \<Longrightarrow> op_range_ok s op \<Longrightarrow> op_fresh s op
    \<Longrightarrow> sess_clean (snd (sess_step kdf s op))"
  by (cases op)
    (simp_all add: snd_sess_step sess_clean_RegisterViewer sess_clean_RevokeViewer
      sess_clean_RemoveViewer sess_clean_EncryptFrame sess_clean_Close NextNonce_eq
      del: sess_step.simps(1,2,4,5))

lemma sess_wf_run:
  "sess_wf s \<Longrightarrow> ops_hold op_range_ok kdf s ops \<Longrightarrow> sess_wf (snd (sess_run kdf s ops))"
  by (induction ops arbitrary: s) (simp_all add: sess_run_Cons sess_wf_step del: sess_run.simps(2))

lemma sess_clean_run:
  "sess_wf s \<Longrightarrow> sess_clean s \<Longrightarrow> ops_hold op_range_ok kdf s ops \<Longrightarrow> ops_hold op_fresh kdf s ops
    \<Longrightarrow> sess_clean (snd (sess_run kdf s ops))"
  by (induction ops arbitrary: s)
    (simp_all add: sess_run_Cons sess_wf_step sess_clean_step del: sess_run.simps(2))

text \<open>
  The nonces of one operation are consecutive draws from the counter, or none (when the
  operation fails after it has drawn one).
\<close>

lemma nonces_rekey_payloads:
  "map (ep_Nonce \<circ> snd) (rekey_payloads m k vs nc) = nc.draws (length vs) nc"
  by (induction vs arbitrary: nc) auto

lemma after_draws_add_of_nat: "nc.after_draws n c = c + of_nat n"
  by (induction n arbitrary: c) (auto simp: algebra_simps)

lemma length_go_range: "range_order m ord \<Longrightarrow> length (go_range m ord) = length ord"
  by (metis equalityD1 keys_go_range length_map range_order_def)

lemma sess_step_draws:
  assumes "sess_wf s" "op_range_ok s op"
  shows "\<exists>n \<le> op_cost s op. s_nonce (snd (sess_step kdf s op)) = nc.after_draws n (s_nonce s)
    \<and> (fst (sess_step kdf s op) = nc.draws n (s_nonce s) \<or> fst (sess_step kdf s op) = [])"
proof (cases op)
  case (Op_Register ak ct rand now)
  from assms(1) show ?thesis
  proof (cases rule: RegisterViewer_cases [where ak = ak and ct = ct and rand = rand and now = now])
    case (ok i)
    with Op_Register show ?thesis by (intro exI [of _ 1]) (simp add: Let_def)
  next
    case bad_key
    with Op_Register show ?thesis by (intro exI [of _ 1]) simp
  qed (use Op_Register in \<open>auto intro!: exI [of _ 0]\<close>)
next
  case (Op_Revoke i rand ord)
  from assms(1) show ?thesis
  proof (cases rule: RevokeViewer_cases [where i = i and rand = rand and ord = ord])
    case (found v bs)
    have ord: "range_order (mdel i (s_viewers s)) ord" using assms(2) Op_Revoke by simp
    from RevokeViewer_rotates [OF assms(1) found(2) ord] Op_Revoke found show ?thesis
      by (intro exI [of _ "length ord"])
        (simp add: nonces_rekey_payloads length_go_range [OF ord] after_draws_add_of_nat rekeyed_def
          flip: o_def)
  qed (use Op_Revoke in \<open>auto intro!: exI [of _ 0] simp: revoked_state_def\<close>)
next
  case (Op_Remove i)
  then show ?thesis by (auto simp: RemoveViewer_def split: option.split intro!: exI [of _ 0])
next
  case Op_NextNonce
  then show ?thesis by (auto simp: NextNonce_eq intro!: exI [of _ 1])
next
  case (Op_Encrypt p now)
  show ?thesis
  proof (cases "s_closed s \<or> epoch_key kdf (stream_key s) (epoch_at now) = None")
    case True
    with Op_Encrypt show ?thesis
      by (cases "s_closed s") (auto simp: EncryptFrame_closed EncryptFrame_open intro!: exI [of _ 0])
  next
    case False
    with Op_Encrypt show ?thesis
      by (intro exI [of _ 1]) (auto simp: EncryptFrame_open)
  qed
next
  case Op_Close
  then show ?thesis by (auto simp: Close_def intro!: exI [of _ 0])
qed

lemma sess_run_nonces:
  assumes "sess_wf s" "ops_hold op_range_ok kdf s ops"
    and "unat (s_nonce s) + run_cost kdf s ops \<le> 2 ^ 64 - 1"
  shows "sorted_wrt (<) (map (\<lambda>n. unat (nonce_val n)) (fst (sess_run kdf s ops)))
    \<and> (\<forall>n \<in> set (fst (sess_run kdf s ops)). unat (s_nonce s) < unat (nonce_val n))"
  using assms
proof (induction ops arbitrary: s)
  case Nil
  then show ?case by simp
next
  case (Cons op ops)
  let ?s1 = "snd (sess_step kdf s op)" and ?ns = "fst (sess_step kdf s op)"
  let ?ms = "fst (sess_run kdf ?s1 ops)" and ?p = "unat (s_nonce s)"
  from Cons.prems have wf: "sess_wf s" and ok: "op_range_ok s op" by simp_all
  from sess_step_draws [OF wf ok, of kdf] obtain n where
    n: "n \<le> op_cost s op" "s_nonce ?s1 = nc.after_draws n (s_nonce s)"
    and ns: "?ns = nc.draws n (s_nonce s) \<or> ?ns = []" by blast
  have p1: "unat (s_nonce ?s1) = ?p + n"
    using nc.pos_after_draws [of "s_nonce s" n] n Cons.prems(3) by simp
  have IH: "sorted_wrt (<) (map (\<lambda>n. unat (nonce_val n)) ?ms)
      \<and> (\<forall>m \<in> set ?ms. ?p + n < unat (nonce_val m))"
    using Cons.IH [OF sess_wf_step [OF wf ok, of kdf]] Cons.prems n(1) by (simp add: p1)
  have tags: "map (\<lambda>n. unat (nonce_val n)) (nc.draws n (s_nonce s)) = [Suc ?p..<Suc (?p + n)]"
    using nc.tags_of_draws [of "s_nonce s" n] n(1) Cons.prems(3) by simp
  have "sorted_wrt (<) (map (\<lambda>n. unat (nonce_val n)) ?ns)
      \<and> (\<forall>m \<in> set ?ns. ?p < unat (nonce_val m) \<and> unat (nonce_val m) \<le> ?p + n)"
    using ns
  proof
    assume eq: "?ns = nc.draws n (s_nonce s)"
    have "unat (nonce_val m) \<in> set [Suc ?p..<Suc (?p + n)]" if "m \<in> set ?ns" for m
      using that unfolding eq tags [symmetric] by simp
    then have "\<forall>m \<in> set ?ns. ?p < unat (nonce_val m) \<and> unat (nonce_val m) \<le> ?p + n"
      by fastforce
    then show ?thesis unfolding eq tags by (simp add: sorted_wrt_upt del: upt_Suc)
  qed simp
  with IH show ?case
    by (fastforce simp: sess_run_Cons sorted_wrt_append simp del: sess_run.simps(2))
qed

section \<open>Properties\<close>

text \<open>
  C16. The nonces that leave a session, in key deliveries, rekeys, frames and through
  \<open>NextNonce\<close>, strictly increase over any sequence of method calls, across stream key
  rotations, for as long as the 64-bit counter does not run out. So no (key, nonce) pair of
  AES-GCM is ever used twice, and a viewer that demands increasing nonces never has to reject
  a frame that arrives in order.
\<close>

theorem session_nonces_increase:
  assumes "sess_wf s" and "ops_hold op_range_ok kdf s ops"
    and "unat (s_nonce s) + run_cost kdf s ops < 2 ^ 64"
  shows "sorted_wrt (<) (s_nonce s # map nonce_val (fst (sess_run kdf s ops)))"
  using sess_run_nonces [OF assms(1,2)] assms(3)
  by (simp add: sorted_wrt_map word_less_nat_alt)

text \<open>Sample inputs for the witnesses: an HKDF stand-in and a session with two viewers.\<close>

definition ex_kdf :: kdf where
  "ex_kdf secret info n = Some (go_copy n (info @ secret))"

definition ex_viewer :: "bytes \<Rightarrow> addr \<Rightarrow> viewer" where
  "ex_viewer i a = \<lparr>v_id = i, v_authKey = a, v_joinTime = 0, v_clientType = ClientTypeCLI\<rparr>"

definition ex_session :: session where
  "ex_session =
     \<lparr>s_mem = [replicate 32 7, replicate 32 8, replicate 32 9], s_streamKey = 0,
      s_sessionID = replicate 32 48, s_nonce = 5,
      s_viewers = [(replicate 6 97, ex_viewer (replicate 6 97) 1),
                   (replicate 6 98, ex_viewer (replicate 6 98) 2)],
      s_revokedIDs = [], s_closed = False\<rparr>"

lemma ex_session_wf: "sess_wf ex_session"
  by (simp add: ex_session_def ex_viewer_def sess_wf_def live_def viewer_entry_ok_def key_buf_def
      numeral_eq_Suc)

lemma ex_session_clean: "sess_clean ex_session"
  by (auto simp: ex_session_def ex_viewer_def clean_but_def live_def clean_def less_Suc_eq
      numeral_eq_Suc)

theorem session_nonces_increase_witness:
  "sorted_wrt (<) (s_nonce ex_session
    # map nonce_val (fst (sess_run ex_kdf ex_session
        [Op_NextNonce, Op_Revoke (replicate 6 97) (Some [1]) [replicate 6 98], Op_Encrypt [1, 2] 0])))"
proof (rule session_nonces_increase [OF ex_session_wf])
  show "ops_hold op_range_ok ex_kdf ex_session
      [Op_NextNonce, Op_Revoke (replicate 6 97) (Some [1]) [replicate 6 98], Op_Encrypt [1, 2] 0]"
    by (simp add: NextNonce_eq range_order_def ex_session_def numeral_eq_Suc)
  show "unat (s_nonce ex_session) + run_cost ex_kdf ex_session
      [Op_NextNonce, Op_Revoke (replicate 6 97) (Some [1]) [replicate 6 98], Op_Encrypt [1, 2] 0]
      < 2 ^ 64"
    by (simp add: ex_session_def)
qed

text \<open>
  C9. Key hygiene. From \<open>NewSession\<close> on, whatever methods are called in whatever order,
  every buffer that ever held a key and is not the stream key or the auth key of a listed
  viewer has been zeroed; and after \<open>Close\<close> every such buffer of the session's life is zero,
  provided that no drawn viewer ID was in use.
\<close>

theorem session_keys_wiped:
  assumes "NewSession argon2 code rand = Inr s"
    and "ops_hold op_range_ok kdf s ops" and "ops_hold op_fresh kdf s ops"
  shows "sess_clean (snd (sess_run kdf s ops))
    \<and> list_all all_zero (s_mem (Close (snd (sess_run kdf s ops))))"
  using sess_clean_run [OF _ _ assms(2,3)] sess_wf_NewSession [OF assms(1)]
  by (simp add: closing.wipe_leaves_nothing clean_but_def)

theorem session_keys_wiped_witness:
  "\<exists>s. NewSession (\<lambda>_ _ _ _ _ n. zeros n) [1] (Some [3]) = Inr s
    \<and> list_all all_zero (s_mem (Close (snd (sess_run ex_kdf s
        [Op_Register (replicate 32 1) ClientTypeCLI [Some 0, Some 1, Some 2, Some 3, Some 4, Some 5] 0,
         Op_Encrypt [1, 2] 0]))))"
proof -
  obtain s where s: "NewSession (\<lambda>_ _ _ _ _ n. zeros n) [1] (Some [3]) = Inr s"
    by (simp add: NewSession_def GenerateStreamKey_cases)
  then have "s_viewers s = []" by (auto simp: NewSession_def GenerateStreamKey_cases)
  then have "fresh_id s rand" for rand by (simp add: fresh_id_def split: sum.split)
  with session_keys_wiped [OF s, of ex_kdf
      "[Op_Register (replicate 32 1) ClientTypeCLI [Some 0, Some 1, Some 2, Some 3, Some 4, Some 5] 0,
        Op_Encrypt [1, 2] 0]"]
  show ?thesis using s by (auto simp del: sess_run.simps sess_step.simps)
qed

definition rekeys_others :: "session \<Rightarrow> bytes \<Rightarrow> (bytes, EncryptedPayload) gomap \<Rightarrow> bytes \<Rightarrow> bool" where
  "rekeys_others s i rekeys k \<longleftrightarrow>
     fst ` set rekeys = fst ` set (s_viewers s) - {i}
     \<and> (\<forall>j p. mget rekeys j = Some p \<longrightarrow> (\<exists>w. mget (s_viewers s) j = Some w
          \<and> Open (auth_key_of s w) (ep_Nonce p) (ep_Ciphertext p) = Inr k))"

definition keeps_others :: "session \<Rightarrow> bytes \<Rightarrow> session \<Rightarrow> bool" where
  "keeps_others s i s' \<longleftrightarrow>
     (\<forall>j w. j \<noteq> i \<longrightarrow> mget (s_viewers s) j = Some w
        \<longrightarrow> mget (s_viewers s') j = Some w \<and> auth_key_of s' w = auth_key_of s w)"

lemma keys_rekeys: "range_order m ord \<Longrightarrow> fst ` set (rekey_payloads k b (go_range m ord) n) = fst ` set m"
  by (metis equalityD1 keys_go_range keys_rekey_payloads list.set_map range_order_def)

lemma rekey_payloads_others:
  assumes wf: "sess_wf s" and ord: "range_order (mdel i (s_viewers s)) ord"
  shows "rekeys_others s i (rekey_payloads (s_mem s) k (go_range (mdel i (s_viewers s)) ord) n) k"
proof -
  let ?r = "go_range (mdel i (s_viewers s)) ord"
  have get: "mget (s_viewers s) j = Some w" if "(j, w) \<in> set ?r" for j w
    using that by (auto simp: set_go_range split: if_splits)
  have len: "length (s_mem s ! v_authKey w) = 32" if "(j, w) \<in> set ?r" for j w
    using sess_wf_viewer [OF wf map_of_SomeD [OF get [OF that]]] by (simp add: key_buf_def)
  have "\<exists>w. mget (s_viewers s) j = Some w
      \<and> Open (auth_key_of s w) (ep_Nonce p) (ep_Ciphertext p) = Inr k"
    if "mget (rekey_payloads (s_mem s) k ?r n) j = Some p" for j p
  proof -
    from rekey_payloads_open [OF that] len obtain w where "(j, w) \<in> set ?r"
      "Open (s_mem s ! v_authKey w) (ep_Nonce p) (ep_Ciphertext p) = Inr k" by blast
    with get show ?thesis by (auto simp: auth_key_of_def)
  qed
  then show ?thesis
    using keys_rekeys [OF ord, of "s_mem s" k n] by (simp add: rekeys_others_def)
qed

text \<open>
  Revocation. Revoking a listed viewer returns one payload for each other viewer and none
  for the revoked one; each payload opens, with the auth key that viewer negotiated, to the new
  stream key. The new stream key is the fresh random one, the old stream key and the revoked
  viewer's auth key are zeroed, the viewer is unlisted and recorded as revoked, and the other
  viewers keep their entries and keys.
\<close>

theorem revoke_rekeys_the_others:
  assumes wf: "sess_wf s" and get: "mget (s_viewers s) i = Some v"
    and ord: "range_order (mdel i (s_viewers s)) ord"
  shows "case RevokeViewer s i (Some bs) ord of
      (Inl e, s') \<Rightarrow> False
    | (Inr rekeys, s') \<Rightarrow>
        rekeys_others s i rekeys (stream_key s') \<and> stream_key s' = go_copy 32 bs
        \<and> all_zero (s_mem s' ! s_streamKey s) \<and> all_zero (s_mem s' ! v_authKey v)
        \<and> mget (s_viewers s') i = None \<and> WasRevoked s' i
        \<and> keeps_others s i s' \<and> SessionID s' = SessionID s"
proof -
  have op: "\<not> s_closed s" using wf get by (auto simp: sess_wf_def)
  have k: "s_streamKey s < length (s_mem s)"
    using sess_wf_stream_key [OF wf op] by (rule key_buf_lt)
  have a: "v_authKey v < length (s_mem s)" "v_authKey v \<noteq> s_streamKey s"
    using sess_wf_viewer [OF wf map_of_SomeD [OF get]] sess_wfD(3) [OF wf] op map_of_SomeD [OF get]
    by (force simp: live_def key_buf_def)+
  have "auth_key_of (rekeyed (revoked_state s i v) b n) w = auth_key_of s w"
    if "j \<noteq> i" "mget (s_viewers s) j = Some w" for j w b n
  proof -
    from that have "mget (mdel i (s_viewers s)) j = Some w" by simp
    from other_auth_key_addr [OF wf get map_of_SomeD [OF this]] show ?thesis
      by (simp add: auth_key_of_def rekeyed_def revoked_state_def nth_append)
  qed
  with RevokeViewer_rotates [OF wf get ord, of bs] rekey_payloads_others [OF wf ord] k a show ?thesis
    by (simp add: stream_key_def rekeyed_def revoked_state_def WasRevoked_def keeps_others_def
        SessionID_def nth_append)
qed

theorem revoke_rekeys_the_others_witness:
  "case RevokeViewer ex_session (replicate 6 97) (Some [1]) [replicate 6 98] of
      (Inl e, s') \<Rightarrow> False
    | (Inr rekeys, s') \<Rightarrow> rekeys_others ex_session (replicate 6 97) rekeys (go_copy 32 [1])"
proof -
  have get: "mget (s_viewers ex_session) (replicate 6 97) = Some (ex_viewer (replicate 6 97) 1)"
    by (simp add: ex_session_def)
  have ord: "range_order (mdel (replicate 6 97) (s_viewers ex_session)) [replicate 6 98]"
    by (simp add: ex_session_def range_order_def numeral_eq_Suc)
  from revoke_rekeys_the_others [OF ex_session_wf get ord, of "[1]"] show ?thesis
    by (auto split: prod.splits sum.splits)
qed

text \<open>
  Registration. A viewer registered on an open session with a 32-byte auth key gets the drawn
  ID and a payload that opens with its auth key to the current stream key; it is listed with
  its join time and client type, its auth key is retained for later rekeys, and the stream key
  does not change.
\<close>

theorem register_delivers_stream_key:
  assumes wf: "sess_wf s" and op: "\<not> s_closed s" and len: "length ak = 32"
    and i: "GenerateViewerID rand = Inr i"
  shows "case RegisterViewer s ak ct rand now of
      (Inl e, s') \<Rightarrow> False
    | (Inr (info, enc), s') \<Rightarrow>
        info = \<lparr>vi_ID = i, vi_JoinTime = now, vi_ClientType = ct\<rparr>
        \<and> Open ak (ep_Nonce enc) (ep_Ciphertext enc) = Inr (stream_key s)
        \<and> stream_key s' = stream_key s
        \<and> ListViewers s' [i] = [info]
        \<and> map_option (auth_key_of s') (mget (s_viewers s') i) = Some ak"
proof -
  have k: "s_streamKey s < length (s_mem s)"
    using sess_wf_stream_key [OF wf op] by (rule key_buf_lt)
  with RegisterViewer_open [OF op len i k] len show ?thesis
    by (simp add: Let_def Open_cases stream_key_def nth_append ListViewers_def auth_key_of_def)
qed

theorem register_delivers_stream_key_witness:
  "case RegisterViewer ex_session (replicate 32 1) ClientTypeBrowser (replicate 6 (Some 2)) 9 of
      (Inl e, s') \<Rightarrow> False
    | (Inr (info, enc), s') \<Rightarrow> Open (replicate 32 1) (ep_Nonce enc) (ep_Ciphertext enc) = Inr (replicate 32 7)"
proof -
  have i: "GenerateViewerID (replicate 6 (Some 2)) = Inr (replicate 6 99)"
    by code_simp
  have "\<not> s_closed ex_session" "stream_key ex_session = replicate 32 7"
    by (simp_all add: ex_session_def stream_key_def)
  with register_delivers_stream_key [OF ex_session_wf _ _ i, where ak = "replicate 32 1"
      and ct = ClientTypeBrowser and now = 9]
  show ?thesis by (auto split: prod.splits sum.splits)
qed

fun not_nonce :: "session_op \<Rightarrow> bool" where
  "not_nonce Op_NextNonce = False"
| "not_nonce op = True"

lemma sess_step_closed:
  "sess_wf s \<Longrightarrow> s_closed s \<Longrightarrow> not_nonce op \<Longrightarrow> sess_step kdf s op = ([], s)"
  by (cases op)
    (simp_all add: RegisterViewer_closed RevokeViewer_closed EncryptFrame_closed RemoveViewer_def
      Close_def sess_wf_def)

text \<open>
  A closed session stays closed: whatever methods are called afterwards (\<open>NextNonce\<close>
  aside, which does not look at the flag), no payload and no frame leaves it, and its state,
  all keys zeroed, does not change.
\<close>

theorem closed_session_is_final:
  assumes "sess_wf s" and "list_all not_nonce ops"
  shows "sess_run kdf (Close s) ops = ([], Close s)"
proof -
  have "s_closed (Close s)" by (simp add: Close_def)
  with assms(2) show ?thesis
    by (induction ops) (simp_all add: sess_step_closed [OF sess_wf_Close [OF assms(1)]])
qed

theorem closed_session_is_final_witness:
  "sess_run ex_kdf (Close ex_session) [Op_Encrypt [1] 0, Op_Remove [2], Op_Close]
    = ([], Close ex_session)"
  using closed_session_is_final [OF ex_session_wf, of "[Op_Encrypt [1] 0, Op_Remove [2], Op_Close]"]
  by simp

text \<open>
  Viewer IDs are not checked for uniqueness. When the ID drawn for a new viewer is already
  in use, registration succeeds, the earlier viewer loses its entry (it can neither be listed,
  nor rekeyed, nor revoked any more), and its auth key outlives \<open>Close\<close> in memory.
\<close>

theorem id_collision_leaks_auth_key:
  assumes wf: "sess_wf s" and get: "mget (s_viewers s) i = Some v"
    and i: "GenerateViewerID rand = Inr i" and len: "length ak = 32"
  shows "case RegisterViewer s ak ct rand now of
      (Inl e, s') \<Rightarrow> False
    | (Inr info, s') \<Rightarrow>
        v \<notin> snd ` set (s_viewers s') \<and> length (s_viewers s') = length (s_viewers s)
        \<and> s_mem (Close s') ! v_authKey v = auth_key_of s v"
proof -
  let ?w = "\<lparr>v_id = i, v_authKey = length (s_mem s), v_joinTime = now, v_clientType = ct\<rparr>"
  let ?m = "mput i ?w (s_viewers s)"
  have op: "\<not> s_closed s" using wf get by (auto simp: sess_wf_def)
  have k: "s_streamKey s < length (s_mem s)"
    using sess_wf_stream_key [OF wf op] by (rule key_buf_lt)
  have a: "v_authKey v < length (s_mem s)" "v_authKey v \<noteq> s_streamKey s"
    using sess_wf_viewer [OF wf map_of_SomeD [OF get]] sess_wfD(3) [OF wf] op map_of_SomeD [OF get]
    by (force simp: live_def key_buf_def)+
  have dist: "distinct (keys ?m)" using sess_wfD(1) [OF wf] by simp
  have others: "v_authKey w \<noteq> v_authKey v" if "(j, w) \<in> set ?m" for j w
  proof (cases "j = i")
    case True
    with that dist have "w = ?w" by (metis map_of_is_SomeI mget_mput option.inject)
    with a show ?thesis by simp
  next
    case False
    have "mget ?m j = Some w" by (rule map_of_is_SomeI [OF dist that])
    with False have "mget (mdel i (s_viewers s)) j = Some w" by simp
    from other_auth_key_addr [OF wf get map_of_SomeD [OF this]] show ?thesis by simp
  qed
  have keep: "fold zero_at as m ! b = m ! b" if "b \<notin> set as" for as m and b :: addr
    using that by (induction as arbitrary: m) auto
  have nin: "v_authKey v \<notin> set (map (\<lambda>(k, v). v_authKey v) ?m)"
    using others by (auto simp del: set_map) (auto dest: others)
  have "s_mem (Close (s\<lparr>s_mem := s_mem s @ [ak], s_nonce := s_nonce s + 1, s_viewers := ?m\<rparr>))
      ! v_authKey v = auth_key_of s v"
    using op a keep [OF nin, of "zero_at (s_streamKey s) (s_mem s @ [ak])"]
    by (simp add: Close_def auth_key_of_def nth_append)
  moreover have "v \<notin> snd ` set ?m" using others by force
  moreover have "length ?m = length (s_viewers s)"
    using sess_wfD(1) [OF wf] dist mget_in_keys [OF get] by (simp add: length_keys insert_absorb)
  ultimately show ?thesis
    using RegisterViewer_open [OF op len i k] by (simp add: Let_def)
qed

theorem id_collision_leaks_auth_key_witness:
  "case RegisterViewer ex_session (replicate 32 1) ClientTypeCLI (replicate 6 (Some 0)) 9 of
      (Inl e, s') \<Rightarrow> False
    | (Inr info, s') \<Rightarrow> s_mem (Close s') ! 1 = replicate 32 8"
proof -
  have get: "mget (s_viewers ex_session) (replicate 6 97) = Some (ex_viewer (replicate 6 97) 1)"
    by (simp add: ex_session_def)
  have i: "GenerateViewerID (replicate 6 (Some 0)) = Inr (replicate 6 97)"
    by code_simp
  have "v_authKey (ex_viewer (replicate 6 97) 1) = 1"
    "auth_key_of ex_session (ex_viewer (replicate 6 97) 1) = replicate 32 8"
    by (simp_all add: ex_viewer_def auth_key_of_def ex_session_def)
  with id_collision_leaks_auth_key [OF ex_session_wf get i, where ak = "replicate 32 1"
      and ct = ClientTypeCLI and now = 9]
  show ?thesis by (auto split: prod.splits sum.splits)
qed

end
