(* ===== verification/Sharer.thy ===== *)
theory Sharer
  imports Session_State
begin

text \<open>
  \<open>internal/sharer/sharer.go\<close>: the sharer's side of the relay connection. It answers the SPAKE2
  handshakes of viewers, streams encrypted frames and terminal sizes, and revokes viewers. It
  owns a session (\<open>Session_State\<close>); the auth key a handshake derives is a buffer of that
  session's memory until the deferred \<open>ZeroBytes\<close>. Messages sent and probe calls are logged;
  clock, random source, range orders and the results of \<open>Send\<close> are arguments.

  Two goroutines of a sharer meet in the last step of a handshake: between the key delivery and
  the entry of the viewer in \<open>viewerIDMap\<close> the lock is free, so that a revocation can run. The
  handler is cut there: \<open>confirm_register\<close> leaves the half-joined viewer in \<open>sh_joining\<close> and
  \<open>confirm_finish\<close> goes on from it.
\<close>

section \<open>State\<close>

datatype sharer_error =
    CreatingSharerSPAKE2 crypto_error
  | SPAKE2Start string
  | SPAKE2Finish string
  | SPAKE2Verify string
  | SPAKE2SessionKey string
  | DerivingSharerAuthKey crypto_error
  | RegisteringViewer session_error
  | SendingMsgA string
  | SendingConfirmA string
  | SendingKeyDelivery string
  | RevokingViewer session_error
  | DeliveringRekey bytes string
  | EncryptingTermSize session_error
  | BroadcastingTermSize string
  | EncryptingOutput session_error
  | SendingStreamFrame string
  | ReadingOutput string
  | ReadingRelay string

datatype sharer_probe =
    RelayConnected
  | ViewerJoined bytes string
  | ViewerLeft bytes
  | ViewerRevoked bytes
  | FrameStreamed u64 nat
  | SessionTerminated string
  | SharerHandshakeFailed bytes sharer_error
  | SharerHeartbeatSent
  | TerminalSizeBroadcast u16 u16

datatype handshakeState = hsWaitInit | hsWaitMsgB | hsWaitConfirmB | hsComplete

record 'sp handshakeCtx =
  hs_state :: handshakeState
  hs_spake :: 'sp
  hs_viewerID :: bytes
  hs_clientType :: string

text \<open>
  \<open>sh_dropped\<close> lists the SPAKE2 states that left the table of handshakes, as \<open>Destroy\<close> left
  them. \<open>sh_joining\<close> holds relay ID, session ID and auth-key buffer of a half-joined viewer.
\<close>

record 'sp Sharer =
  sh_sess :: session
  sh_code :: bytes
  sh_handshakes :: "(bytes, 'sp handshakeCtx) gomap"
  sh_viewerIDMap :: "(bytes, bytes) gomap"
  sh_termCols :: u16
  sh_termRows :: u16
  sh_joining :: "(bytes \<times> bytes \<times> addr) option"
  sh_dropped :: "'sp list"
  sh_sent :: "bytes list"
  sh_probes :: "sharer_probe list"

definition NewSharer :: "session \<Rightarrow> bytes \<Rightarrow> 'sp Sharer" where
  "NewSharer sess code =
     \<lparr>sh_sess = sess, sh_code = code, sh_handshakes = [], sh_viewerIDMap = [],
      sh_termCols = 0, sh_termRows = 0, sh_joining = None, sh_dropped = [], sh_sent = [],
      sh_probes = []\<rparr>"

definition sharer_call :: "sharer_probe \<Rightarrow> 'sp Sharer \<Rightarrow> 'sp Sharer" where
  "sharer_call p s = s\<lparr>sh_probes := sh_probes s @ [p]\<rparr>"

definition sess_zero :: "addr \<Rightarrow> session \<Rightarrow> session" where
  "sess_zero a ss = ss\<lparr>s_mem := zero_at a (s_mem ss)\<rparr>"

section \<open>Messages\<close>

definition sharer_send :: "string option \<Rightarrow> bytes \<Rightarrow> 'sp Sharer \<Rightarrow> string option \<times> 'sp Sharer" where
  "sharer_send err msg s =
     (case err of Some e \<Rightarrow> (Some e, s) | None \<Rightarrow> (None, s\<lparr>sh_sent := sh_sent s @ [msg]\<rparr>))"

definition unicast_msg :: "bytes \<Rightarrow> bytes \<Rightarrow> bytes" where
  "unicast_msg viewerID payload = MsgTypeUnicast # go_copy ViewerIDLen viewerID @ payload"

definition sendUnicast :: "string option \<Rightarrow> bytes \<Rightarrow> bytes \<Rightarrow> 'sp Sharer \<Rightarrow> string option \<times> 'sp Sharer" where
  "sendUnicast err viewerID payload s = sharer_send err (unicast_msg viewerID payload) s"

definition buildKeyDelivery :: "bytes \<Rightarrow> EncryptedPayload \<Rightarrow> bytes" where
  "buildKeyDelivery sessionViewerID enc =
     go_copy ViewerIDLen sessionViewerID @ go_copy NonceLen (ep_Nonce enc) @ ep_Ciphertext enc"

definition buildStreamFrame :: "bytes \<Rightarrow> bytes \<Rightarrow> u64 \<Rightarrow> bytes" where
  "buildStreamFrame ciphertext nonce epoch =
     MsgTypeStream # put_be 8 epoch @ go_copy NonceLen nonce @ ciphertext"

definition buildTermSizeFrame :: "bytes \<Rightarrow> bytes \<Rightarrow> u64 \<Rightarrow> bytes" where
  "buildTermSizeFrame ciphertext nonce epoch =
     MsgTypeTermSize # put_be 8 epoch @ go_copy NonceLen nonce @ ciphertext"

definition clientTypeFromByte :: "bytes \<Rightarrow> string" where
  "clientTypeFromByte payload =
     (if 0 < length payload \<and> payload ! 0 = ClientByteBrowser then ClientTypeBrowser
      else ClientTypeCLI)"

section \<open>Terminal sizes\<close>

definition broadcastTermSize ::
  "kdf \<Rightarrow> time \<Rightarrow> string option \<Rightarrow> u16 \<Rightarrow> u16 \<Rightarrow> 'sp Sharer \<Rightarrow> sharer_error option \<times> 'sp Sharer" where
  "broadcastTermSize kdf now err cols rows s =
     (case EncryptFrame kdf (sh_sess s) (put_be 2 cols @ put_be 2 rows) now of
        (Inl e, ss) \<Rightarrow> (Some (EncryptingTermSize e), s\<lparr>sh_sess := ss\<rparr>)
      | (Inr f, ss) \<Rightarrow>
          (case sharer_send err (buildTermSizeFrame (f_ciphertext f) (f_nonce f) (f_epoch f))
                  (s\<lparr>sh_sess := ss\<rparr>) of
             (Some e, s1) \<Rightarrow> (Some (BroadcastingTermSize e), s1)
           | (None, s1) \<Rightarrow> (None, sharer_call (TerminalSizeBroadcast cols rows) s1)))"

definition SetTermSize ::
  "kdf \<Rightarrow> time \<Rightarrow> string option \<Rightarrow> u16 \<Rightarrow> u16 \<Rightarrow> 'sp Sharer \<Rightarrow> sharer_error option \<times> 'sp Sharer" where
  "SetTermSize kdf now err cols rows s =
     broadcastTermSize kdf now err cols rows (s\<lparr>sh_termCols := cols, sh_termRows := rows\<rparr>)"

section \<open>Handshakes\<close>

definition set_hs :: "bytes \<Rightarrow> 'sp handshakeCtx \<Rightarrow> 'sp Sharer \<Rightarrow> 'sp Sharer" where
  "set_hs relayID hs s = s\<lparr>sh_handshakes := mput relayID hs (sh_handshakes s)\<rparr>"

definition cleanupHandshake :: "'sp spake_lib \<Rightarrow> bytes \<Rightarrow> 'sp Sharer \<Rightarrow> 'sp Sharer" where
  "cleanupHandshake L relayID s =
     (case mget (sh_handshakes s) relayID of
        None \<Rightarrow> s
      | Some hs \<Rightarrow> s\<lparr>sh_dropped := sh_dropped s @ [spake_Destroy L (hs_spake hs)],
                     sh_handshakes := mdel relayID (sh_handshakes s)\<rparr>)"

text \<open>The iteration order does not matter: each context is destroyed and deleted.\<close>

definition destroyPendingHandshakes :: "'sp spake_lib \<Rightarrow> 'sp Sharer \<Rightarrow> 'sp Sharer" where
  "destroyPendingHandshakes L s =
     fold (\<lambda>(relayID, hs) s. s\<lparr>sh_dropped := sh_dropped s @ [spake_Destroy L (hs_spake hs)],
                               sh_handshakes := mdel relayID (sh_handshakes s)\<rparr>)
       (sh_handshakes s) s"

text \<open>The first part of \<open>handleSPAKE2\<close>: the context of the handshake, made when there is none.\<close>

definition get_handshake ::
  "'sp spake_lib \<Rightarrow> bytes \<Rightarrow> bytes \<Rightarrow> 'sp Sharer \<Rightarrow> (sharer_error + 'sp handshakeCtx) \<times> 'sp Sharer" where
  "get_handshake L relayID payload s =
     (case mget (sh_handshakes s) relayID of
        Some hs \<Rightarrow> (Inr hs, s)
      | None \<Rightarrow>
          (case NewSPAKE2Sharer L (sh_code s) of
             Inl e \<Rightarrow> (Inl (CreatingSharerSPAKE2 e), s)
           | Inr h \<Rightarrow>
               let hs = \<lparr>hs_state = hsWaitInit, hs_spake = h, hs_viewerID = relayID,
                         hs_clientType = clientTypeFromByte payload\<rparr>
               in (Inr hs, set_hs relayID hs s)))"

definition wait_init ::
  "'sp spake_lib \<Rightarrow> string option \<Rightarrow> bytes \<Rightarrow> 'sp handshakeCtx \<Rightarrow> 'sp Sharer
    \<Rightarrow> sharer_error option \<times> 'sp Sharer" where
  "wait_init L err relayID hs s =
     (case spake_Start L (hs_spake hs) of
        (Inl e, h) \<Rightarrow> (Some (SPAKE2Start e), set_hs relayID (hs\<lparr>hs_spake := h\<rparr>) s)
      | (Inr msgA, h) \<Rightarrow>
          (case sendUnicast err relayID msgA (set_hs relayID (hs\<lparr>hs_spake := h\<rparr>) s) of
             (Some e, s1) \<Rightarrow> (Some (SendingMsgA e), s1)
           | (None, s1) \<Rightarrow>
               (None, set_hs relayID (hs\<lparr>hs_spake := h, hs_state := hsWaitMsgB\<rparr>) s1)))"

definition wait_msg_b ::
  "'sp spake_lib \<Rightarrow> string option \<Rightarrow> bytes \<Rightarrow> bytes \<Rightarrow> 'sp handshakeCtx \<Rightarrow> 'sp Sharer
    \<Rightarrow> sharer_error option \<times> 'sp Sharer" where
  "wait_msg_b L err relayID payload hs s =
     (case spake_Finish L (hs_spake hs) payload of
        (Inl e, h) \<Rightarrow>
          (Some (SPAKE2Finish e), cleanupHandshake L relayID (set_hs relayID (hs\<lparr>hs_spake := h\<rparr>) s))
      | (Inr confirmA, h) \<Rightarrow>
          (case sendUnicast err relayID confirmA (set_hs relayID (hs\<lparr>hs_spake := h\<rparr>) s) of
             (Some e, s1) \<Rightarrow> (Some (SendingConfirmA e), s1)
           | (None, s1) \<Rightarrow>
               (None, set_hs relayID (hs\<lparr>hs_spake := h, hs_state := hsWaitConfirmB\<rparr>) s1)))"

text \<open>
  The confirmation step up to the key delivery. The deferred calls zero the auth key and the
  bytes \<open>SessionKey\<close> returned; when the handshake was cleaned up its state is gone already, and
  wiping it twice is wiping it once.
\<close>

definition confirm_register ::
  "'sp spake_lib \<Rightarrow> kdf \<Rightarrow> nat option list \<Rightarrow> time \<Rightarrow> string option \<Rightarrow> bytes \<Rightarrow> bytes
    \<Rightarrow> 'sp handshakeCtx \<Rightarrow> 'sp Sharer \<Rightarrow> sharer_error option \<times> 'sp Sharer" where
  "confirm_register L kdf rand now err relayID payload hs s =
     (case spake_Verify L (hs_spake hs) payload of
        (Some e, h) \<Rightarrow>
          (Some (SPAKE2Verify e), cleanupHandshake L relayID (set_hs relayID (hs\<lparr>hs_spake := h\<rparr>) s))
      | (None, h) \<Rightarrow>
      (let s1 = set_hs relayID (hs\<lparr>hs_spake := h\<rparr>) s; ss = sh_sess s in
      case spake_SessionKey L h of
        Inl e \<Rightarrow> (Some (SPAKE2SessionKey e), cleanupHandshake L relayID s1)
      | Inr spakeSecret \<Rightarrow>
      (case DeriveAuthKey kdf spakeSecret (s_mem ss) of
        (Inl e, m) \<Rightarrow>
          (Some (DerivingSharerAuthKey e),
           cleanupHandshake L relayID (s1\<lparr>sh_sess := ss\<lparr>s_mem := m\<rparr>\<rparr>))
      | (Inr ak, m) \<Rightarrow>
      (case RegisterViewer (ss\<lparr>s_mem := m\<rparr>) (m ! ak) (hs_clientType hs) rand now of
        (Inl e, ss1) \<Rightarrow>
          (Some (RegisteringViewer e),
           cleanupHandshake L relayID (s1\<lparr>sh_sess := sess_zero ak ss1\<rparr>))
      | (Inr (info, encPayload), ss1) \<Rightarrow>
      (case sendUnicast err relayID (buildKeyDelivery (vi_ID info) encPayload) (s1\<lparr>sh_sess := ss1\<rparr>) of
        (Some e, s2) \<Rightarrow>
          (Some (SendingKeyDelivery e),
           set_hs relayID (hs\<lparr>hs_spake := lib_wipe L h\<rparr>) (s2\<lparr>sh_sess := sess_zero ak ss1\<rparr>))
      | (None, s2) \<Rightarrow> (None, s2\<lparr>sh_joining := Some (relayID, vi_ID info, ak)\<rparr>))))))"

text \<open>
  The rest: the context is complete, the viewer is entered and reported, and the terminal size
  is sent to everybody when it is known. Then the deferred calls run.
\<close>

definition confirm_finish ::
  "'sp spake_lib \<Rightarrow> kdf \<Rightarrow> time \<Rightarrow> string option \<Rightarrow> 'sp Sharer \<Rightarrow> 'sp Sharer" where
  "confirm_finish L kdf now err s =
     (case sh_joining s of
        None \<Rightarrow> s
      | Some (relayID, i, ak) \<Rightarrow>
      (case mget (sh_handshakes s) relayID of
        None \<Rightarrow> s
      | Some hs \<Rightarrow>
          (let s1 = set_hs relayID (hs\<lparr>hs_state := hsComplete\<rparr>) s;
               s2 = sharer_call (ViewerJoined i (hs_clientType hs))
                      (s1\<lparr>sh_viewerIDMap := mput i relayID (sh_viewerIDMap s1)\<rparr>);
               s3 = (if 0 < sh_termCols s2 \<and> 0 < sh_termRows s2
                     then snd (broadcastTermSize kdf now err (sh_termCols s2) (sh_termRows s2) s2)
                     else s2)
           in set_hs relayID (hs\<lparr>hs_state := hsComplete, hs_spake := lib_wipe L (hs_spake hs)\<rparr>)
                (s3\<lparr>sh_sess := sess_zero ak (sh_sess s3), sh_joining := None\<rparr>))))"

text \<open>What a call of \<open>handleSPAKE2\<close> takes from outside; \<open>en_send\<close> gives the results of its sends.\<close>

record spake_env =
  en_rand :: "nat option list"
  en_now :: time
  en_send :: "string option"

definition handleSPAKE2 ::
  "'sp spake_lib \<Rightarrow> kdf \<Rightarrow> spake_env \<Rightarrow> bytes \<Rightarrow> bytes \<Rightarrow> 'sp Sharer \<Rightarrow> sharer_error option \<times> 'sp Sharer" where
  "handleSPAKE2 L kdf en relayID payload s =
     (case get_handshake L relayID payload s of
        (Inl e, s1) \<Rightarrow> (Some e, s1)
      | (Inr hs, s1) \<Rightarrow>
          (case hs_state hs of
             hsWaitInit \<Rightarrow> wait_init L (en_send en) relayID hs s1
           | hsWaitMsgB \<Rightarrow> wait_msg_b L (en_send en) relayID payload hs s1
           | hsWaitConfirmB \<Rightarrow>
               confirm_register L kdf (en_rand en) (en_now en) (en_send en) relayID payload hs s1
           | hsComplete \<Rightarrow> (None, s1)))"

section \<open>Viewers that leave, revocation\<close>

definition handleViewerDisconnect :: "bytes \<Rightarrow> bytes list \<Rightarrow> 'sp Sharer \<Rightarrow> 'sp Sharer" where
  "handleViewerDisconnect relayID ord s =
     (case List.find (\<lambda>(sid, rid). rid = relayID) (go_range (sh_viewerIDMap s) ord) of
        None \<Rightarrow> s
      | Some (sid, _) \<Rightarrow>
          if sid = [] then s
          else sharer_call (ViewerLeft sid)
                 (s\<lparr>sh_viewerIDMap := mdel sid (sh_viewerIDMap s),
                    sh_sess := RemoveViewer (sh_sess s) sid\<rparr>))"

text \<open>The loop of \<open>Revoke\<close> over the payloads; \<open>errs\<close> gives the results of its sends in order.\<close>

fun deliver_rekeys ::
  "(nat \<Rightarrow> string option) \<Rightarrow> (bytes \<times> EncryptedPayload) list \<Rightarrow> 'sp Sharer \<Rightarrow> sharer_error option \<times> 'sp Sharer" where
  "deliver_rekeys errs [] s = (None, s)"
| "deliver_rekeys errs ((sid, enc) # rs) s =
     (case mget (sh_viewerIDMap s) sid of
        None \<Rightarrow> deliver_rekeys errs rs s
      | Some relayID \<Rightarrow>
          (case sendUnicast (errs 0) relayID (buildKeyDelivery sid enc) s of
             (Some e, s1) \<Rightarrow> (Some (DeliveringRekey sid e), s1)
           | (None, s1) \<Rightarrow> deliver_rekeys (errs \<circ> Suc) rs s1))"

definition Revoke ::
  "(nat \<Rightarrow> string option) \<Rightarrow> bytes \<Rightarrow> bytes option \<Rightarrow> bytes list \<Rightarrow> bytes list \<Rightarrow> 'sp Sharer
    \<Rightarrow> sharer_error option \<times> 'sp Sharer" where
  "Revoke errs viewerID rand ord_viewers ord_rekeys s =
     (case RevokeViewer (sh_sess s) viewerID rand ord_viewers of
        (Inl e, ss) \<Rightarrow> (Some (RevokingViewer e), s\<lparr>sh_sess := ss\<rparr>)
      | (Inr rekeys, ss) \<Rightarrow>
          (case deliver_rekeys errs (go_range rekeys ord_rekeys)
                  (s\<lparr>sh_sess := ss, sh_viewerIDMap := mdel viewerID (sh_viewerIDMap s)\<rparr>) of
             (Some e, s1) \<Rightarrow> (Some e, s1)
           | (None, s1) \<Rightarrow> (None, sharer_call (ViewerRevoked viewerID) s1)))"

section \<open>The loops\<close>

text \<open>One turn of each loop; \<open>Ended\<close> with what the loop returns.\<close>

datatype sharer_turn = Going | Ended "sharer_error option"

definition relay_turn ::
  "'sp spake_lib \<Rightarrow> kdf \<Rightarrow> spake_env \<Rightarrow> bytes list \<Rightarrow> recv_result \<Rightarrow> 'sp Sharer \<Rightarrow> sharer_turn \<times> 'sp Sharer" where
  "relay_turn L kdf en ord r s =
     (case r of
        RecvFailed e done \<Rightarrow> (Ended (if done then None else Some (ReadingRelay e)), s)
      | Got data \<Rightarrow>
          if length data = 0 then (Going, s)
          else if data ! 0 = MsgTypeSPAKE2 then
            (if length data < 1 + ViewerIDLen then (Going, s)
             else
               let viewerID = take ViewerIDLen (drop 1 data);
                   payload = drop (1 + ViewerIDLen) data
               in case handleSPAKE2 L kdf en viewerID payload s of
                    (Some e, s1) \<Rightarrow> (Going, sharer_call (SharerHandshakeFailed viewerID e) s1)
                  | (None, s1) \<Rightarrow> (Going, s1))
          else if data ! 0 = MsgTypeControl \<and> 2 \<le> length data then
            (if data ! 1 = CtrlRegistrationAck then (Going, sharer_call RelayConnected s)
             else if data ! 1 = CtrlViewerDisconnected \<and> 2 + ViewerIDLen \<le> length data
             then (Going, handleViewerDisconnect (take ViewerIDLen (drop 2 data)) ord s)
             else (Going, s))
          else (Going, s))"

text \<open>
  \<open>output.Read\<close> returned \<open>data\<close> and an error: \<open>Some None\<close> is \<open>io.EOF\<close>. The two booleans say
  whether the context is done where the loop asks.
\<close>

definition output_turn ::
  "kdf \<Rightarrow> time \<Rightarrow> string option \<Rightarrow> bool \<Rightarrow> bytes \<Rightarrow> string option option \<Rightarrow> bool \<Rightarrow> 'sp Sharer
    \<Rightarrow> sharer_turn \<times> 'sp Sharer" where
  "output_turn kdf now send_err send_done data read_err read_done s =
     (let after_read = (\<lambda>s1. (case read_err of
            None \<Rightarrow> (Going, s1)
          | Some None \<Rightarrow> (Ended None, s1)
          | Some (Some e) \<Rightarrow> (Ended (if read_done then None else Some (ReadingOutput e)), s1)))
      in if length data = 0 then after_read s
      else case EncryptFrame kdf (sh_sess s) data now of
        (Inl e, ss) \<Rightarrow> (Ended (Some (EncryptingOutput e)), s\<lparr>sh_sess := ss\<rparr>)
      | (Inr f, ss) \<Rightarrow>
          (case sharer_send send_err (buildStreamFrame (f_ciphertext f) (f_nonce f) (f_epoch f))
                  (s\<lparr>sh_sess := ss\<rparr>) of
             (Some e, s1) \<Rightarrow> (Ended (if send_done then None else Some (SendingStreamFrame e)), s1)
           | (None, s1) \<Rightarrow> after_read (sharer_call (FrameStreamed (f_epoch f) (length data)) s1)))"

definition sharer_heartbeat :: "string option \<Rightarrow> 'sp Sharer \<Rightarrow> bool \<times> 'sp Sharer" where
  "sharer_heartbeat err s =
     (case sharer_send err [MsgTypeHeartbeat] s of
        (Some e, s1) \<Rightarrow> (False, s1)
      | (None, s1) \<Rightarrow> (True, sharer_call SharerHeartbeatSent s1))"

text \<open>
  A context made by \<open>context.WithCancel\<close>: \<open>Err\<close> is set once it, or its parent, was cancelled.
  \<open>Run\<close> shadows its argument by such a context, waits for one loop to end with \<open>first\<close>, cancels
  the context, waits for the other, and then asks for \<open>ctx.Err\<close>.
\<close>

record context_state =
  cx_cancelled :: bool

definition context_cancel :: "context_state \<Rightarrow> context_state" where
  "context_cancel cx = cx\<lparr>cx_cancelled := True\<rparr>"

definition Run_end ::
  "'sp spake_lib \<Rightarrow> context_state \<Rightarrow> sharer_error option \<Rightarrow> 'sp Sharer
    \<Rightarrow> (sharer_error option \<times> context_state) \<times> 'sp Sharer" where
  "Run_end L cx first s =
     (let cx1 = context_cancel cx
      in if cx_cancelled cx1
         then ((None, cx1), destroyPendingHandshakes L (sharer_call (SessionTerminated ''cancelled'') s))
         else ((first, cx1), destroyPendingHandshakes L s))"

end
