(* ===== verification/Sharer_Inv.thy ===== *)
theory Sharer_Inv
  imports Sharer
begin

text \<open>
  What every run of a sharer keeps. The goroutines of a sharer are the relay loop, the output
  loop, the heartbeat, and the callers of \<open>Revoke\<close> and \<open>SetTermSize\<close>; a run is any interleaving
  of their steps. The invariant says where secrets are and what the two tables hold.
\<close>

section \<open>Runs\<close>

datatype sharer_action =
    OnRelay spake_env "bytes list" recv_result
  | FinishJoin time "string option"
  | OnOutput time "string option" bool bytes "string option option" bool
  | OnHeartbeat "string option"
  | OnRevoke "nat \<Rightarrow> string option" bytes "bytes option" "bytes list" "bytes list"
  | OnSize time "string option" u16 u16

text \<open>While a viewer is half-joined the relay loop is inside its handler and takes no message.\<close>

fun sharer_act :: "'sp spake_lib \<Rightarrow> kdf \<Rightarrow> sharer_action \<Rightarrow> 'sp Sharer \<Rightarrow> 'sp Sharer" where
  "sharer_act L kdf (OnRelay en ord r) s =
     (if sh_joining s = None then snd (relay_turn L kdf en ord r s) else s)"
| "sharer_act L kdf (FinishJoin now err) s = confirm_finish L kdf now err s"
| "sharer_act L kdf (OnOutput now send_err send_done data read_err read_done) s =
     snd (output_turn kdf now send_err send_done data read_err read_done s)"
| "sharer_act L kdf (OnHeartbeat err) s = snd (sharer_heartbeat err s)"
| "sharer_act L kdf (OnRevoke errs i rand ord_viewers ord_rekeys) s =
     snd (Revoke errs i rand ord_viewers ord_rekeys s)"
| "sharer_act L kdf (OnSize now err cols rows) s = snd (SetTermSize kdf now err cols rows s)"

text \<open>
  The inputs that a run assumes: range orders are orders of the maps, and a viewer ID drawn for a
  new viewer is not in use.
\<close>

fun inputs_ok :: "sharer_action \<Rightarrow> 'sp Sharer \<Rightarrow> bool" where
  "inputs_ok (OnRelay en ord r) s \<longleftrightarrow>
     range_order (sh_viewerIDMap s) ord \<and> fresh_id (sh_sess s) (en_rand en)"
| "inputs_ok (OnRevoke errs i rand ord_viewers ord_rekeys) s \<longleftrightarrow>
     range_order (mdel i (s_viewers (sh_sess s))) ord_viewers"
| "inputs_ok _ s \<longleftrightarrow> True"

fun sharer_runs :: "'sp spake_lib \<Rightarrow> kdf \<Rightarrow> sharer_action list \<Rightarrow> 'sp Sharer \<Rightarrow> 'sp Sharer option" where
  "sharer_runs L kdf [] s = Some s"
| "sharer_runs L kdf (a # as) s =
     (if inputs_ok a s then sharer_runs L kdf as (sharer_act L kdf a s) else None)"

inductive sharer_reachable :: "'sp spake_lib \<Rightarrow> kdf \<Rightarrow> 'sp Sharer \<Rightarrow> bool" for L kdf where
  created: "NewSession argon2 code rand = Inr sess \<Longrightarrow> sharer_reachable L kdf (NewSharer sess code)"
| acted: "sharer_reachable L kdf s \<Longrightarrow> inputs_ok a s \<Longrightarrow> sharer_reachable L kdf (sharer_act L kdf a s)"

inductive_cases sharer_reachableE: "sharer_reachable L kdf s"

lemma sharer_runs_reachable:
  "sharer_runs L kdf as s = Some s' \<Longrightarrow> sharer_reachable L kdf s \<Longrightarrow> sharer_reachable L kdf s'"
  by (induction as arbitrary: s) (auto split: if_splits intro: acted)

section \<open>The invariant\<close>

text \<open>The state holds no session key any more, or only zeros.\<close>

definition spent :: "'sp spake_lib \<Rightarrow> 'sp \<Rightarrow> bool" where
  "spent L h \<longleftrightarrow> (case lib_key L h of Inl e \<Rightarrow> True | Inr k \<Rightarrow> all_zero k)"

text \<open>
  The library returns the bytes of its own state from \<open>SharedKey\<close>: after they were overwritten, it
  returns zeros.
\<close>

definition wiping_lib :: "'sp spake_lib \<Rightarrow> bool" where
  "wiping_lib L \<longleftrightarrow> (\<forall>h. spent L (lib_wipe L h))"

lemma spent_Destroy: "wiping_lib L \<Longrightarrow> spent L (spake_Destroy L h)"
  by (cases "lib_key L h") (simp_all add: wiping_lib_def spake_Destroy_def, simp add: spent_def)

definition joining_buf :: "'sp Sharer \<Rightarrow> addr set" where
  "joining_buf s = (case sh_joining s of None \<Rightarrow> {} | Some (r, i, ak) \<Rightarrow> {ak})"

definition in_state :: "handshakeState \<Rightarrow> 'sp Sharer \<Rightarrow> bytes \<Rightarrow> bool" where
  "in_state st s r \<longleftrightarrow> (\<exists>hs. mget (sh_handshakes s) r = Some hs \<and> hs_state hs = st)"

definition secrets_ok :: "'sp spake_lib \<Rightarrow> 'sp Sharer \<Rightarrow> bool" where
  "secrets_ok L s \<longleftrightarrow> sess_wf (sh_sess s) \<and> clean_but (joining_buf s) (sh_sess s)
     \<and> list_all (spent L) (sh_dropped s)
     \<and> (\<forall>r hs. mget (sh_handshakes s) r = Some hs \<longrightarrow> hs_state hs = hsComplete \<longrightarrow> spent L (hs_spake hs))"

definition tables_ok :: "'sp Sharer \<Rightarrow> bool" where
  "tables_ok s \<longleftrightarrow> distinct (keys (sh_viewerIDMap s)) \<and> distinct (map snd (sh_viewerIDMap s))
     \<and> list_all (in_state hsComplete s) (map snd (sh_viewerIDMap s))
     \<and> (case sh_joining s of None \<Rightarrow> True
        | Some (r, i, ak) \<Rightarrow> in_state hsWaitConfirmB s r
            \<and> ak < length (s_mem (sh_sess s)) \<and> ak \<notin> set (live (sh_sess s)))"

definition sharer_ok :: "'sp spake_lib \<Rightarrow> 'sp Sharer \<Rightarrow> bool" where
  "sharer_ok L s \<longleftrightarrow> secrets_ok L s \<and> tables_ok s"

lemma sharer_call_simps [simp]:
  "sh_sess (sharer_call p s) = sh_sess s" "sh_code (sharer_call p s) = sh_code s"
  "sh_handshakes (sharer_call p s) = sh_handshakes s"
  "sh_viewerIDMap (sharer_call p s) = sh_viewerIDMap s"
  "sh_joining (sharer_call p s) = sh_joining s" "sh_dropped (sharer_call p s) = sh_dropped s"
  "sh_sent (sharer_call p s) = sh_sent s" "sh_termCols (sharer_call p s) = sh_termCols s"
  "sh_termRows (sharer_call p s) = sh_termRows s"
  by (simp_all add: sharer_call_def)

lemma set_hs_simps [simp]:
  "sh_sess (set_hs r hs s) = sh_sess s" "sh_handshakes (set_hs r hs s) = mput r hs (sh_handshakes s)"
  "sh_viewerIDMap (set_hs r hs s) = sh_viewerIDMap s" "sh_joining (set_hs r hs s) = sh_joining s"
  "sh_dropped (set_hs r hs s) = sh_dropped s" "sh_sent (set_hs r hs s) = sh_sent s"
  "sh_termCols (set_hs r hs s) = sh_termCols s" "sh_termRows (set_hs r hs s) = sh_termRows s"
  by (simp_all add: set_hs_def)

text \<open>Sending, probing and resizing leave what the invariant reads.\<close>

lemma sharer_ok_cong:
  assumes "sh_sess s' = sh_sess s" "sh_handshakes s' = sh_handshakes s"
    "sh_viewerIDMap s' = sh_viewerIDMap s" "sh_joining s' = sh_joining s" "sh_dropped s' = sh_dropped s"
  shows "sharer_ok L s' = sharer_ok L s"
proof -
  have "in_state st s' = in_state st s" for st by (rule ext) (simp add: in_state_def assms)
  then show ?thesis
    by (cases "sh_joining s")
      (simp_all add: sharer_ok_def secrets_ok_def tables_ok_def joining_buf_def assms split: prod.split)
qed

lemma sharer_ok_call [simp]: "sharer_ok L (sharer_call p s) = sharer_ok L s"
  by (rule sharer_ok_cong) simp_all

lemma sharer_send_cases:
  obtains (failed) e where "err = Some e" "sharer_send err msg s = (Some e, s)"
  | (sent) "err = None" "sharer_send err msg s = (None, s\<lparr>sh_sent := sh_sent s @ [msg]\<rparr>)"
  by (cases err) (simp_all add: sharer_send_def)

lemma sharer_send_fields:
  assumes "sharer_send err msg s = (e, s')"
  shows "sh_sess s' = sh_sess s" "sh_handshakes s' = sh_handshakes s"
    "sh_viewerIDMap s' = sh_viewerIDMap s" "sh_joining s' = sh_joining s" "sh_dropped s' = sh_dropped s"
  using assms by (cases err; auto simp: sharer_send_def)+

lemma sharer_ok_send: "sharer_send err msg s = (e, s') \<Longrightarrow> sharer_ok L s' = sharer_ok L s"
  by (rule sharer_ok_cong) (simp_all add: sharer_send_fields)

section \<open>The session under a sharer's operations\<close>

text \<open>
  \<open>grows s s'\<close>: memory only grows, and a buffer that became live is a new one; a buffer held by a
  handler stays out of the session's own.
\<close>

definition grows :: "session \<Rightarrow> session \<Rightarrow> bool" where
  "grows s s' \<longleftrightarrow> length (s_mem s) \<le> length (s_mem s')
     \<and> (\<forall>a \<in> set (live s'). a \<in> set (live s) \<or> length (s_mem s) \<le> a)"

lemma grows_held:
  "grows s s' \<Longrightarrow> a < length (s_mem s) \<Longrightarrow> a \<notin> set (live s)
    \<Longrightarrow> a < length (s_mem s') \<and> a \<notin> set (live s')"
  by (auto simp: grows_def)

lemma grows_refl [simp]: "grows s s"
  by (simp add: grows_def)

lemma grows_EncryptFrame: "grows s (snd (EncryptFrame kdf s p now))"
  by (cases "s_closed s")
    (simp_all add: EncryptFrame_closed EncryptFrame_open grows_def split: option.split)

lemma grows_RegisterViewer: "sess_wf s \<Longrightarrow> grows s (snd (RegisterViewer s ak ct rand now))"
  by (rule RegisterViewer_cases [where s = s and ak = ak and ct = ct and rand = rand and now = now])
    (auto simp: grows_def Let_def dest!: live_mput [THEN subsetD])

lemma grows_RevokeViewer:
  assumes "sess_wf s" "range_order (mdel i (s_viewers s)) ord"
  shows "grows s (snd (RevokeViewer s i rand ord))"
  using assms(1)
proof (cases rule: RevokeViewer_cases [where i = i and rand = rand and ord = ord])
  case (no_rand v)
  then show ?thesis
    using addrs_mdel_subset [of i "s_viewers s"] by (auto simp: grows_def revoked_state_def live_def)
next
  case (found v bs)
  then show ?thesis
    using RevokeViewer_rotates [OF assms(1) found(2) assms(2)] addrs_mdel_subset [of i "s_viewers s"]
    by (auto simp: grows_def rekeyed_def revoked_state_def live_def)
qed simp_all

lemma sess_zero_simps [simp]:
  "live (sess_zero a s) = live s" "length (s_mem (sess_zero a s)) = length (s_mem s)"
  "s_viewers (sess_zero a s) = s_viewers s" "s_closed (sess_zero a s) = s_closed s"
  "s_nonce (sess_zero a s) = s_nonce s" "s_streamKey (sess_zero a s) = s_streamKey s"
  by (simp_all add: sess_zero_def)

lemma sess_wf_sess_zero [simp]: "sess_wf (sess_zero a s) = sess_wf s"
  using sess_wf_zero_at [where s = s and a = a and m = "s_mem s"] by (simp add: sess_zero_def)

lemma clean_sess_zero:
  assumes "clean_but (insert a E) s"
  shows "clean_but E (sess_zero a s)"
proof -
  have "clean (zero_at a (s_mem s)) (set (live s) \<union> insert a E - {a})"
    by (rule clean_zero_at) (use assms in \<open>simp add: clean_but_def\<close>)
  then have "clean (zero_at a (s_mem s)) (set (live s) \<union> E)"
    by (rule clean_mono) auto
  then show ?thesis by (simp add: clean_but_def sess_zero_def)
qed

lemma clean_but_hold: "clean_but E s \<Longrightarrow> clean_but (insert (length (s_mem s)) E) (s\<lparr>s_mem := s_mem s @ [b]\<rparr>)"
  using clean_append [of "s_mem s" "set (live s) \<union> E" b] by (simp add: clean_but_def)

text \<open>A new session for the sharer that is as well-formed and as clean as the one it replaces.\<close>

lemma sharer_ok_sess:
  assumes "sharer_ok L s" "sess_wf ss" "clean_but (joining_buf s) ss" "grows (sh_sess s) ss"
  shows "sharer_ok L (s\<lparr>sh_sess := ss\<rparr>)"
proof -
  have "in_state st (s\<lparr>sh_sess := ss\<rparr>) = in_state st s" for st by (rule ext) (simp add: in_state_def)
  moreover have "joining_buf (s\<lparr>sh_sess := ss\<rparr>) = joining_buf s" by (simp add: joining_buf_def)
  ultimately show ?thesis
    using assms grows_held [OF assms(4)]
    by (auto simp: sharer_ok_def secrets_ok_def tables_ok_def split: option.splits)
qed

lemma sharer_ok_wf: "sharer_ok L s \<Longrightarrow> sess_wf (sh_sess s)"
  and sharer_ok_clean: "sharer_ok L s \<Longrightarrow> clean_but (joining_buf s) (sh_sess s)"
  by (simp_all add: sharer_ok_def secrets_ok_def)

lemma sharer_ok_EncryptFrame:
  "sharer_ok L s \<Longrightarrow> sharer_ok L (s\<lparr>sh_sess := snd (EncryptFrame kdf (sh_sess s) p now)\<rparr>)"
  by (rule sharer_ok_sess)
    (simp_all add: sharer_ok_wf sharer_ok_clean sess_wf_EncryptFrame sess_clean_EncryptFrame grows_EncryptFrame)

section \<open>Every step keeps the invariant\<close>

lemma EncryptFrame_snd: "EncryptFrame kdf s p now = (r, ss) \<Longrightarrow> ss = snd (EncryptFrame kdf s p now)"
  by simp

lemma sharer_ok_broadcast:
  assumes "sharer_ok L s"
  shows "sharer_ok L (snd (broadcastTermSize kdf now err cols rows s))"
  using sharer_ok_EncryptFrame [OF assms]
  by (auto simp: broadcastTermSize_def sharer_ok_send dest: EncryptFrame_snd
      split: prod.split sum.split option.split)

lemma broadcast_fields:
  "sh_handshakes (snd (broadcastTermSize kdf now err cols rows s)) = sh_handshakes s"
  "sh_viewerIDMap (snd (broadcastTermSize kdf now err cols rows s)) = sh_viewerIDMap s"
  "sh_joining (snd (broadcastTermSize kdf now err cols rows s)) = sh_joining s"
  "sh_dropped (snd (broadcastTermSize kdf now err cols rows s)) = sh_dropped s"
  "sh_sess (snd (broadcastTermSize kdf now err cols rows s))
    = snd (EncryptFrame kdf (sh_sess s) (put_be 2 cols @ put_be 2 rows) now)"
  by (auto simp: broadcastTermSize_def sharer_send_fields
      split: prod.split sum.split option.split)

lemma sharer_ok_SetTermSize:
  "sharer_ok L s \<Longrightarrow> sharer_ok L (snd (SetTermSize kdf now err cols rows s))"
  unfolding SetTermSize_def by (rule sharer_ok_broadcast) (simp cong: sharer_ok_cong)

lemma sharer_ok_output:
  assumes "sharer_ok L s"
  shows "sharer_ok L (snd (output_turn kdf now send_err send_done data read_err read_done s))"
  using assms sharer_ok_EncryptFrame [OF assms]
  by (auto simp: output_turn_def Let_def sharer_ok_send dest: EncryptFrame_snd
      split: prod.split sum.split option.split)

lemma sharer_ok_heartbeat: "sharer_ok L s \<Longrightarrow> sharer_ok L (snd (sharer_heartbeat err s))"
  by (auto simp: sharer_heartbeat_def sharer_ok_send split: prod.split option.split)

text \<open>
  Changing one handshake. A context that is not complete may be replaced by any other, a complete
  one by a spent one.
\<close>

lemma sharer_ok_set_hs:
  assumes "sharer_ok L s" "\<not> in_state hsComplete s r" "hs_state hs \<noteq> hsComplete"
    and "case sh_joining s of None \<Rightarrow> True | Some (q, i, ak) \<Rightarrow> q \<noteq> r"
  shows "sharer_ok L (set_hs r hs s)"
proof -
  have "in_state hsComplete (set_hs r hs s) q" if "in_state hsComplete s q" for q
    using that assms(2) by (auto simp: in_state_def)
  moreover have "in_state hsWaitConfirmB (set_hs r hs s) q \<longleftrightarrow> in_state hsWaitConfirmB s q" if "q \<noteq> r" for q
    using that by (simp add: in_state_def)
  moreover have "joining_buf (set_hs r hs s) = joining_buf s" by (simp add: joining_buf_def)
  ultimately show ?thesis
    using assms
    by (auto simp: sharer_ok_def secrets_ok_def tables_ok_def list_all_iff split: option.splits)
qed

lemma sharer_ok_cleanup:
  assumes ok: "sharer_ok L s" and lib: "wiping_lib L" and "\<not> in_state hsComplete s r"
    and "sh_joining s = None"
  shows "sharer_ok L (cleanupHandshake L r s)"
proof (cases "mget (sh_handshakes s) r")
  case None
  with ok show ?thesis by (simp add: cleanupHandshake_def)
next
  case (Some hs)
  let ?s = "s\<lparr>sh_dropped := sh_dropped s @ [spake_Destroy L (hs_spake hs)],
              sh_handshakes := mdel r (sh_handshakes s)\<rparr>"
  have "in_state hsComplete ?s q" if "in_state hsComplete s q" for q
    using that assms(3) by (auto simp: in_state_def)
  then show ?thesis
    using ok Some assms(4) spent_Destroy [OF lib]
    by (auto simp: cleanupHandshake_def sharer_ok_def secrets_ok_def tables_ok_def list_all_iff
        joining_buf_def)
qed

text \<open>The steps of a handshake; \<open>open_hs\<close> says that the handler may work on it.\<close>

definition open_hs :: "'sp Sharer \<Rightarrow> bytes \<Rightarrow> bool" where
  "open_hs s r \<longleftrightarrow> sh_joining s = None \<and> \<not> in_state hsComplete s r"

lemma open_hs_set: "open_hs s r \<Longrightarrow> hs_state hs \<noteq> hsComplete \<Longrightarrow> open_hs (set_hs r hs s) r"
  by (simp add: open_hs_def in_state_def)

lemma ok_open_set:
  "sharer_ok L s \<Longrightarrow> open_hs s r \<Longrightarrow> hs_state hs \<noteq> hsComplete
    \<Longrightarrow> sharer_ok L (set_hs r hs s) \<and> open_hs (set_hs r hs s) r"
  using sharer_ok_set_hs [of L s r hs] by (simp add: open_hs_set) (simp add: open_hs_def)

lemma ok_open_send:
  assumes "sharer_send err msg s = (e, s')" "sharer_ok L s \<and> open_hs s r"
  shows "sharer_ok L s' \<and> open_hs s' r"
  using assms sharer_send_fields [OF assms(1)] by (simp add: sharer_ok_send open_hs_def in_state_def)

lemma ok_open_cleanup:
  "wiping_lib L \<Longrightarrow> sharer_ok L s \<and> open_hs s r \<Longrightarrow> sharer_ok L (cleanupHandshake L r s)"
  by (rule sharer_ok_cleanup) (simp_all add: open_hs_def)

lemma get_handshake_ok:
  assumes "sharer_ok L s" "sh_joining s = None" "get_handshake L r payload s = (Inr hs, s1)"
  shows "sharer_ok L s1 \<and> sh_joining s1 = None \<and> mget (sh_handshakes s1) r = Some hs
    \<and> sh_sess s1 = sh_sess s"
proof (cases "mget (sh_handshakes s) r")
  case (Some h)
  with assms show ?thesis by (simp add: get_handshake_def)
next
  case None
  with assms obtain h where "s1 = set_hs r hs s" "hs_state hs = hsWaitInit"
    by (auto simp: get_handshake_def Let_def split: sum.splits)
  moreover from None assms(2) have "open_hs s r" by (simp add: open_hs_def in_state_def)
  ultimately show ?thesis
    using ok_open_set [OF assms(1)] assms(2) by simp
qed

lemma get_handshake_fails: "get_handshake L r payload s = (Inl e, s1) \<Longrightarrow> s1 = s"
  by (auto simp: get_handshake_def Let_def split: option.splits sum.splits)

lemma ok_open_unicast:
  assumes "sharer_ok L s \<and> open_hs s r" "sendUnicast err r msg s = (e, s')"
  shows "sharer_ok L s'" "hs_state hs \<noteq> hsComplete \<Longrightarrow> sharer_ok L (set_hs r hs s')"
  using ok_open_send [OF assms(2) [unfolded sendUnicast_def] assms(1)]
    ok_open_set [of L s' r hs] by simp_all

lemma sharer_ok_wait_init:
  assumes "sharer_ok L s" "open_hs s r" "hs_state hs = hsWaitInit"
  shows "sharer_ok L (snd (wait_init L err r hs s))"
proof -
  obtain x h where x: "lib_start L (hs_spake hs) = (x, h)" by fastforce
  let ?s = "set_hs r (hs\<lparr>hs_spake := h\<rparr>) s"
  have step: "sharer_ok L ?s \<and> open_hs ?s r"
    using assms by (intro ok_open_set) simp_all
  show ?thesis
  proof (cases x)
    case (Inl e)
    with x step show ?thesis by (simp add: wait_init_def)
  next
    case (Inr msgA)
    obtain e s1 where u: "sendUnicast err r msgA ?s = (e, s1)" by fastforce
    with ok_open_unicast [OF step u] x Inr show ?thesis
      by (cases e) (simp_all add: wait_init_def)
  qed
qed

lemma sharer_ok_wait_msg_b:
  assumes "sharer_ok L s" "wiping_lib L" "open_hs s r" "hs_state hs = hsWaitMsgB"
  shows "sharer_ok L (snd (wait_msg_b L err r payload hs s))"
proof -
  obtain x h where x: "lib_finish L (hs_spake hs) payload = (x, h)" by fastforce
  let ?s = "set_hs r (hs\<lparr>hs_spake := h\<rparr>) s"
  have step: "sharer_ok L ?s \<and> open_hs ?s r"
    using assms by (intro ok_open_set) simp_all
  show ?thesis
  proof (cases x)
    case (Inl e)
    with x ok_open_cleanup [OF assms(2) step] show ?thesis by (simp add: wait_msg_b_def)
  next
    case (Inr confirmA)
    obtain e s1 where u: "sendUnicast err r confirmA ?s = (e, s1)" by fastforce
    with ok_open_unicast [OF step u] x Inr show ?thesis
      by (cases e) (simp_all add: wait_msg_b_def)
  qed
qed

text \<open>
  The confirmation step. The auth key is a new buffer; the session keeps it out of its own until
  the registration copies it.
\<close>

lemma held_register:
  assumes wf: "sess_wf ss" and cl: "sess_clean ss" and fresh: "fresh_id ss rand"
    and reg: "RegisterViewer (ss\<lparr>s_mem := s_mem ss @ [k]\<rparr>) ak ct rand now = (x, ss1)"
  shows "sess_wf ss1" "clean_but {length (s_mem ss)} ss1" "grows ss ss1"
    "length (s_mem ss) < length (s_mem ss1)" "length (s_mem ss) \<notin> set (live ss1)"
proof -
  let ?ss = "ss\<lparr>s_mem := s_mem ss @ [k]\<rparr>" and ?a = "length (s_mem ss)"
  have ss1: "ss1 = snd (RegisterViewer ?ss ak ct rand now)" using reg by simp
  have wf': "sess_wf ?ss" using wf by (rule sess_wf_append)
  then show "sess_wf ss1" unfolding ss1 by (rule sess_wf_RegisterViewer)
  have "clean_but {?a} ?ss" using clean_but_hold [OF cl] by simp
  moreover have "fresh_id ?ss rand" using fresh by (simp add: fresh_id_def split: sum.splits)
  ultimately show "clean_but {?a} ss1"
    unfolding ss1 using wf' by (intro sess_clean_RegisterViewer)
  have g: "grows ?ss ss1" unfolding ss1 using wf' by (rule grows_RegisterViewer)
  have new: "?a \<notin> set (live ss)"
    using sess_wfD(4) [OF wf] by (auto simp: list_all_iff key_buf_def)
  from grows_held [OF g, of ?a] new show "?a < length (s_mem ss1)" "?a \<notin> set (live ss1)"
    by simp_all
  from g show "grows ss ss1" by (auto simp: grows_def)
qed

lemma joining_buf_None: "sh_joining s = None \<Longrightarrow> joining_buf s = {}"
  by (simp add: joining_buf_def)

lemma ok_open_sess:
  assumes "sharer_ok L s \<and> open_hs s r" "sess_wf ss" "sess_clean ss" "grows (sh_sess s) ss"
  shows "sharer_ok L (s\<lparr>sh_sess := ss\<rparr>) \<and> open_hs (s\<lparr>sh_sess := ss\<rparr>) r"
  using assms sharer_ok_sess [of L s ss] by (simp add: open_hs_def in_state_def joining_buf_None)

lemma DeriveAuthKey_Inl: "DeriveAuthKey kdf secret m = (Inl e, m') \<Longrightarrow> m' = m @ [zeros 32]"
  and DeriveAuthKey_Inr: "DeriveAuthKey kdf secret m = (Inr a, m')
    \<Longrightarrow> a = length m \<and> (\<exists>k. auth_key kdf secret = Some k \<and> m' = m @ [k])"
  by (auto simp: DeriveAuthKey_cases split: option.splits)

lemma sharer_ok_confirm:
  assumes ok: "sharer_ok L s" and lib: "wiping_lib L" and open_s: "open_hs s r"
    and hs: "mget (sh_handshakes s) r = Some hs" "hs_state hs = hsWaitConfirmB"
    and fresh: "fresh_id (sh_sess s) rand"
  shows "sharer_ok L (snd (confirm_register L kdf rand now err r payload hs s))"
proof -
  obtain x h where x: "lib_verify L (hs_spake hs) payload = (x, h)" by fastforce
  let ?s = "set_hs r (hs\<lparr>hs_spake := h\<rparr>) s" and ?ss = "sh_sess s"
  have step: "sharer_ok L ?s \<and> open_hs ?s r"
    using ok open_s hs by (intro ok_open_set) simp_all
  have wf: "sess_wf ?ss" and cl: "sess_clean ?ss"
    using sharer_ok_wf [OF ok] sharer_ok_clean [OF ok] open_s by (simp_all add: open_hs_def joining_buf_None)
  show ?thesis
  proof (cases x)
    case (Some e)
    with x ok_open_cleanup [OF lib step] show ?thesis by (simp add: confirm_register_def)
  next
    case verified: None
    show ?thesis
    proof (cases "lib_key L h")
      case (Inl e)
      with x verified ok_open_cleanup [OF lib step] show ?thesis
        by (simp add: confirm_register_def Let_def)
    next
      case secret: (Inr secret)
      obtain d m where d: "DeriveAuthKey kdf secret (s_mem ?ss) = (d, m)" by fastforce
      show ?thesis
      proof (cases d)
        case (Inl e)
        with d have m: "m = s_mem ?ss @ [zeros 32]" by (auto dest: DeriveAuthKey_Inl)
        have "sharer_ok L (?s\<lparr>sh_sess := ?ss\<lparr>s_mem := m\<rparr>\<rparr>) \<and> open_hs (?s\<lparr>sh_sess := ?ss\<lparr>s_mem := m\<rparr>\<rparr>) r"
          unfolding m using wf cl
          by (intro ok_open_sess [OF step]) (simp_all add: sess_wf_append sess_clean_append grows_def)
        from ok_open_cleanup [OF lib this] x verified secret d Inl show ?thesis
          by (simp add: confirm_register_def Let_def)
      next
        case derived: (Inr ak)
        with d obtain k where ak: "ak = length (s_mem ?ss)" "m = s_mem ?ss @ [k]"
          by (auto dest: DeriveAuthKey_Inr)
        obtain y ss1 where y: "RegisterViewer (?ss\<lparr>s_mem := m\<rparr>) (m ! ak) (hs_clientType hs) rand now = (y, ss1)"
          by fastforce
        note held = held_register [OF wf cl fresh y [unfolded ak(2)]]
        have zeroed: "sharer_ok L (?s\<lparr>sh_sess := sess_zero ak ss1\<rparr>) \<and> open_hs (?s\<lparr>sh_sess := sess_zero ak ss1\<rparr>) r"
          using held ak clean_sess_zero [of ak "{}" ss1]
          by (intro ok_open_sess [OF step]) (simp_all add: grows_def)
        have kept: "sharer_ok L (?s\<lparr>sh_sess := ss1, sh_sent := q, sh_joining := Some (r, i, ak)\<rparr>)" for i q
          using step held ak hs
          by (auto simp: sharer_ok_def secrets_ok_def tables_ok_def in_state_def joining_buf_def list_all_iff)
        show ?thesis
        proof (cases y)
          case (Inl e)
          with x verified secret d derived y ok_open_cleanup [OF lib zeroed] show ?thesis
            by (simp add: confirm_register_def Let_def)
        next
          case (Inr p)
          obtain info enc where p: "p = (info, enc)" by (cases p)
          from ok_open_set [OF zeroed [THEN conjunct1] zeroed [THEN conjunct2], of "hs\<lparr>hs_spake := lib_wipe L h\<rparr>"] hs
          have "sharer_ok L (set_hs r (hs\<lparr>hs_spake := lib_wipe L h\<rparr>) (?s\<lparr>sh_sess := sess_zero ak ss1\<rparr>))" by simp
          with kept x verified secret d derived y Inr p show ?thesis
            by (cases err) (simp_all add: confirm_register_def Let_def sendUnicast_def sharer_send_def)
        qed
      qed
    qed
  qed
qed

text \<open>Entering the viewer. Its relay ID is new to the map because its handshake was not complete.\<close>

lemma vals_mput_subset: "set (map snd (mput k v m)) \<subseteq> insert v (set (map snd m))"
  by (induction m) auto

lemma distinct_vals_mput:
  "distinct (map snd m) \<Longrightarrow> v \<notin> set (map snd m) \<Longrightarrow> distinct (map snd (mput k v m))"
proof (induction m)
  case (Cons x m)
  then show ?case using vals_mput_subset [of k v m] by (auto simp: split_beta)
qed simp

lemma distinct_vals_mdel: "distinct (map snd m) \<Longrightarrow> distinct (map snd (mdel k m))"
  by (simp add: mdel_filter distinct_map_filter)

lemma vals_mdel_subset: "set (map snd (mdel k m)) \<subseteq> set (map snd m)"
  by (auto simp: mdel_filter)

text \<open>What a join sends besides the key: the terminal size, once, when it is known.\<close>

abbreviation sizes_only :: "bytes list \<Rightarrow> bool" where
  "sizes_only fs \<equiv> length fs \<le> 1 \<and> list_all (\<lambda>m. m \<noteq> [] \<and> hd m = MsgTypeTermSize) fs"

lemma confirm_finish_eq:
  assumes "sh_joining s = Some (r, i, ak)" "mget (sh_handshakes s) r = Some hs"
  obtains ss pr st fs where "ss = sh_sess s \<or> (\<exists>p. ss = snd (EncryptFrame kdf (sh_sess s) p now))"
    and "st = sh_sent s @ fs" and "sizes_only fs"
    and "confirm_finish L kdf now err s =
      s\<lparr>sh_handshakes := mput r (hs\<lparr>hs_state := hsComplete, hs_spake := lib_wipe L (hs_spake hs)\<rparr>)
            (mput r (hs\<lparr>hs_state := hsComplete\<rparr>) (sh_handshakes s)),
        sh_viewerIDMap := mput i r (sh_viewerIDMap s), sh_sess := sess_zero ak ss,
        sh_joining := None, sh_sent := st, sh_probes := pr\<rparr>"
proof -
  let ?s1 = "set_hs r (hs\<lparr>hs_state := hsComplete\<rparr>) s"
  let ?s2 = "sharer_call (ViewerJoined i (hs_clientType hs))
               (?s1\<lparr>sh_viewerIDMap := mput i r (sh_viewerIDMap ?s1)\<rparr>)"
  define s3 where "s3 = (if 0 < sh_termCols ?s2 \<and> 0 < sh_termRows ?s2
      then snd (broadcastTermSize kdf now err (sh_termCols ?s2) (sh_termRows ?s2) ?s2) else ?s2)"
  have sess: "sh_sess s3 = sh_sess s \<or> (\<exists>p. sh_sess s3 = snd (EncryptFrame kdf (sh_sess s) p now))"
    by (auto simp: s3_def broadcast_fields)
  have "\<exists>fs. sh_sent (snd (broadcastTermSize kdf now err c w q)) = sh_sent q @ fs
      \<and> sizes_only fs" for c w and q :: "'a Sharer"
    by (auto simp: broadcastTermSize_def sharer_send_def buildTermSizeFrame_def
        split: prod.split sum.split option.split)
  from this [of "sh_termCols ?s2" "sh_termRows ?s2" ?s2] obtain fs
    where fs: "sh_sent s3 = sh_sent s @ fs" "sizes_only fs"
    by (cases "0 < sh_termCols ?s2 \<and> 0 < sh_termRows ?s2") (auto simp: s3_def)
  have "s3 = ?s2\<lparr>sh_sess := sh_sess s3, sh_sent := sh_sent s3, sh_probes := sh_probes s3\<rparr>"
    by (auto simp: s3_def broadcastTermSize_def sharer_send_def sharer_call_def
        split: prod.split sum.split option.split)
  then obtain ss st pr where s3: "s3 = ?s2\<lparr>sh_sess := ss, sh_sent := st, sh_probes := pr\<rparr>" by blast
  have "confirm_finish L kdf now err s =
      set_hs r (hs\<lparr>hs_state := hsComplete, hs_spake := lib_wipe L (hs_spake hs)\<rparr>)
        (s3\<lparr>sh_sess := sess_zero ak (sh_sess s3), sh_joining := None\<rparr>)"
    unfolding s3_def using assms by (simp only: confirm_finish_def Let_def option.case prod.case)
  then have fin: "confirm_finish L kdf now err s =
      s\<lparr>sh_handshakes := mput r (hs\<lparr>hs_state := hsComplete, hs_spake := lib_wipe L (hs_spake hs)\<rparr>)
            (mput r (hs\<lparr>hs_state := hsComplete\<rparr>) (sh_handshakes s)),
        sh_viewerIDMap := mput i r (sh_viewerIDMap s), sh_sess := sess_zero ak ss,
        sh_joining := None, sh_sent := st, sh_probes := pr\<rparr>"
    unfolding s3 by (simp add: set_hs_def sharer_call_def)
  from sess fs(1) s3 have "ss = sh_sess s \<or> (\<exists>p. ss = snd (EncryptFrame kdf (sh_sess s) p now))"
    "st = sh_sent s @ fs" by simp_all
  from that [OF this fs(2) fin] show ?thesis .
qed

lemma sharer_ok_finish:
  assumes ok: "sharer_ok L s" and lib: "wiping_lib L"
  shows "sharer_ok L (confirm_finish L kdf now err s)"
proof (cases "sh_joining s")
  case None
  with ok show ?thesis by (simp add: confirm_finish_def)
next
  case (Some t)
  obtain r i ak where j: "sh_joining s = Some (r, i, ak)" using Some by (cases t) auto
  with ok obtain hs where hs: "mget (sh_handshakes s) r = Some hs" "hs_state hs = hsWaitConfirmB"
    by (auto simp: sharer_ok_def tables_ok_def in_state_def)
  obtain ss pr st fs where ss: "ss = sh_sess s \<or> (\<exists>p. ss = snd (EncryptFrame kdf (sh_sess s) p now))"
    and fin: "confirm_finish L kdf now err s =
      s\<lparr>sh_handshakes := mput r (hs\<lparr>hs_state := hsComplete, hs_spake := lib_wipe L (hs_spake hs)\<rparr>)
            (mput r (hs\<lparr>hs_state := hsComplete\<rparr>) (sh_handshakes s)),
        sh_viewerIDMap := mput i r (sh_viewerIDMap s), sh_sess := sess_zero ak ss,
        sh_joining := None, sh_sent := st, sh_probes := pr\<rparr>" (is "_ = ?F")
    by (rule confirm_finish_eq [OF j hs(1)])
  have wf: "sess_wf (sess_zero ak ss)"
    using ss sharer_ok_wf [OF ok] by (auto simp: sess_wf_EncryptFrame)
  have "clean_but {ak} ss"
    using ss sharer_ok_clean [OF ok] j by (auto simp: joining_buf_def sess_clean_EncryptFrame)
  then have cl: "sess_clean (sess_zero ak ss)" by (rule clean_sess_zero)
  have sec: "secrets_ok L ?F"
    using ok wf cl lib by (auto simp: sharer_ok_def secrets_ok_def joining_buf_def wiping_lib_def)
  have "r \<notin> set (map snd (sh_viewerIDMap s))"
    using ok hs by (auto simp: sharer_ok_def tables_ok_def list_all_iff in_state_def)
  then have "distinct (map snd (mput i r (sh_viewerIDMap s)))"
    using ok by (simp add: sharer_ok_def tables_ok_def distinct_vals_mput)
  moreover have "in_state hsComplete ?F q" if "q \<in> set (map snd (mput i r (sh_viewerIDMap s)))" for q
  proof -
    from that vals_mput_subset [of i r "sh_viewerIDMap s"]
    have "q = r \<or> q \<in> set (map snd (sh_viewerIDMap s))" by blast
    then have "q = r \<or> in_state hsComplete s q"
      using ok by (auto simp: sharer_ok_def tables_ok_def list_all_iff)
    then show ?thesis by (auto simp: in_state_def)
  qed
  ultimately have "tables_ok ?F"
    using ok by (auto simp: sharer_ok_def tables_ok_def list_all_iff)
  with sec fin show ?thesis by (simp add: sharer_ok_def)
qed

text \<open>Viewers that leave, and revocation.\<close>

lemma tables_ok_mdel:
  assumes "tables_ok s" "sh_viewerIDMap s' = mdel i (sh_viewerIDMap s)"
    and "sh_handshakes s' = sh_handshakes s" "sh_joining s' = sh_joining s"
    and "grows (sh_sess s) (sh_sess s')"
  shows "tables_ok s'"
proof -
  have st: "in_state st s' = in_state st s" for st by (rule ext) (simp add: in_state_def assms(3))
  have vals: "list_all P (map snd (mdel i m))" if "list_all P (map snd m)" for P and m :: "(bytes, bytes) gomap"
    using that vals_mdel_subset [of i m] unfolding list_all_iff by blast
  show ?thesis
    using assms(1) grows_held [OF assms(5)] vals
    by (cases "sh_joining s")
      (auto simp: tables_ok_def assms(2-4) st distinct_vals_mdel simp del: set_map)
qed

lemma grows_RemoveViewer: "grows s (RemoveViewer s i)"
  using addrs_mdel_subset [of i "s_viewers s"]
  by (auto simp: RemoveViewer_def grows_def live_def split: option.split)

lemma sharer_ok_disconnect:
  assumes "sharer_ok L s" "sh_joining s = None"
  shows "sharer_ok L (handleViewerDisconnect r ord s)"
proof -
  have "sharer_ok L (s\<lparr>sh_viewerIDMap := mdel i (sh_viewerIDMap s),
      sh_sess := RemoveViewer (sh_sess s) i\<rparr>)" (is "sharer_ok L ?s") for i
  proof -
    have "tables_ok ?s"
      using assms by - (rule tables_ok_mdel [where s = s and i = i], simp_all add: sharer_ok_def grows_RemoveViewer)
    moreover have "secrets_ok L ?s"
      using assms sharer_ok_wf [OF assms(1)] sharer_ok_clean [OF assms(1)]
      by (simp add: sharer_ok_def secrets_ok_def joining_buf_def sess_wf_RemoveViewer sess_clean_RemoveViewer)
    ultimately show ?thesis by (simp add: sharer_ok_def)
  qed
  with assms show ?thesis
    by (simp add: handleViewerDisconnect_def split: option.split prod.split)
qed

lemma deliver_rekeys_fields:
  "deliver_rekeys errs rs s = (e, s') \<Longrightarrow>
    sh_sess s' = sh_sess s \<and> sh_handshakes s' = sh_handshakes s \<and> sh_viewerIDMap s' = sh_viewerIDMap s
    \<and> sh_joining s' = sh_joining s \<and> sh_dropped s' = sh_dropped s"
proof (induction errs rs s rule: deliver_rekeys.induct)
  case (2 errs sid enc rs s)
  show ?case
  proof (cases "mget (sh_viewerIDMap s) sid")
    case None
    with 2 show ?thesis by simp
  next
    case (Some q)
    with 2 show ?thesis
      by (cases "errs 0") (simp_all add: sendUnicast_def sharer_send_def comp_def)
  qed
qed simp

lemma sharer_ok_deliver:
  assumes "sharer_ok L s"
  shows "sharer_ok L (snd (deliver_rekeys errs rs s))"
proof -
  obtain e s' where d: "deliver_rekeys errs rs s = (e, s')" by fastforce
  from deliver_rekeys_fields [OF this] have "sharer_ok L s' = sharer_ok L s"
    by (intro sharer_ok_cong) simp_all
  with d assms show ?thesis by simp
qed

lemma sharer_ok_Revoke:
  assumes ok: "sharer_ok L s" and ord: "range_order (mdel i (s_viewers (sh_sess s))) ord"
  shows "sharer_ok L (snd (Revoke errs i rand ord ord' s))"
proof -
  obtain x ss where x: "RevokeViewer (sh_sess s) i rand ord = (x, ss)" by fastforce
  then have ss: "ss = snd (RevokeViewer (sh_sess s) i rand ord)" by simp
  have wf: "sess_wf ss" "clean_but (joining_buf s) ss" "grows (sh_sess s) ss"
    unfolding ss using ord sharer_ok_wf [OF ok] sharer_ok_clean [OF ok]
    by (simp_all add: sess_wf_RevokeViewer sess_clean_RevokeViewer grows_RevokeViewer)
  let ?s = "s\<lparr>sh_sess := ss, sh_viewerIDMap := mdel i (sh_viewerIDMap s)\<rparr>"
  have "sharer_ok L (s\<lparr>sh_sess := ss\<rparr>)"
    using wf by (rule sharer_ok_sess [OF ok])
  moreover have "sharer_ok L ?s"
  proof -
    have "tables_ok ?s"
      using ok wf by - (rule tables_ok_mdel [where s = s and i = i], simp_all add: sharer_ok_def)
    moreover have "secrets_ok L ?s"
      using ok wf by (simp add: sharer_ok_def secrets_ok_def joining_buf_def)
    ultimately show ?thesis by (simp add: sharer_ok_def)
  qed
  ultimately show ?thesis
    using x sharer_ok_deliver [of L ?s]
    by (cases x) (simp_all add: Revoke_def split_beta split: option.split)
qed

lemma sharer_ok_handle:
  assumes ok: "sharer_ok L s" and lib: "wiping_lib L" and j: "sh_joining s = None"
    and fresh: "fresh_id (sh_sess s) (en_rand en)"
  shows "sharer_ok L (snd (handleSPAKE2 L kdf en r payload s))"
proof -
  obtain x s1 where x: "get_handshake L r payload s = (x, s1)" by fastforce
  show ?thesis
  proof (cases x)
    case (Inl e)
    with x ok get_handshake_fails [of L r payload s e s1] show ?thesis by (simp add: handleSPAKE2_def)
  next
    case (Inr hs)
    with get_handshake_ok [OF ok j] x
    have s1: "sharer_ok L s1" "sh_joining s1 = None" "mget (sh_handshakes s1) r = Some hs"
      "sh_sess s1 = sh_sess s" by auto
    have open_s: "open_hs s1 r" if "hs_state hs \<noteq> hsComplete"
      using that s1 by (simp add: open_hs_def in_state_def)
    show ?thesis
      using x Inr s1 open_s fresh sharer_ok_wait_init [OF s1(1)] sharer_ok_wait_msg_b [OF s1(1) lib]
        sharer_ok_confirm [OF s1(1) lib]
      by (cases "hs_state hs") (simp_all add: handleSPAKE2_def)
  qed
qed

lemma relay_turn_cases:
  obtains (idle) "snd (relay_turn L kdf en ord r s) = s"
  | (spake) data where "r = Got data" "snd (relay_turn L kdf en ord r s) =
      (case handleSPAKE2 L kdf en (take ViewerIDLen (drop 1 data)) (drop (1 + ViewerIDLen) data) s of
         (Some e, s1) \<Rightarrow> sharer_call (SharerHandshakeFailed (take ViewerIDLen (drop 1 data)) e) s1
       | (None, s1) \<Rightarrow> s1)" "1 + ViewerIDLen \<le> length data"
  | (connected) "snd (relay_turn L kdf en ord r s) = sharer_call RelayConnected s"
  | (left) data where "r = Got data"
      "snd (relay_turn L kdf en ord r s) = handleViewerDisconnect (take ViewerIDLen (drop 2 data)) ord s"
proof (cases r)
  case (RecvFailed e d)
  with idle show ?thesis by (simp add: relay_turn_def)
next
  case (Got data)
  show ?thesis
  proof (cases "data = [] \<or> data ! 0 \<noteq> MsgTypeSPAKE2 \<or> length data < 1 + ViewerIDLen")
    case False
    with Got show ?thesis
      by (intro spake [of data]) (simp_all add: relay_turn_def Let_def split: prod.split option.split)
  next
    case True
    then have "snd (relay_turn L kdf en ord r s) = s
        \<or> snd (relay_turn L kdf en ord r s) = sharer_call RelayConnected s
        \<or> snd (relay_turn L kdf en ord r s) = handleViewerDisconnect (take ViewerIDLen (drop 2 data)) ord s"
      by (auto simp: Got relay_turn_def)
    with idle connected left [OF Got] show ?thesis by blast
  qed
qed

lemma sharer_ok_relay:
  assumes "sharer_ok L s" "wiping_lib L" "sh_joining s = None" "fresh_id (sh_sess s) (en_rand en)"
  shows "sharer_ok L (snd (relay_turn L kdf en ord r s))"
proof (cases rule: relay_turn_cases [where L = L and kdf = kdf and en = en and ord = ord and r = r and s = s])
  case (spake data)
  have "sharer_ok L (snd (handleSPAKE2 L kdf en q payload s))" for q payload
    by (rule sharer_ok_handle [OF assms])
  with spake show ?thesis by (simp add: split_beta split: option.split)
qed (simp_all add: assms sharer_ok_disconnect)

lemma sharer_ok_act:
  assumes "sharer_ok L s" "wiping_lib L" "inputs_ok a s"
  shows "sharer_ok L (sharer_act L kdf a s)"
  using assms
  by (cases a) (simp_all add: sharer_ok_relay sharer_ok_finish sharer_ok_output sharer_ok_heartbeat
      sharer_ok_Revoke sharer_ok_SetTermSize)

lemma sharer_ok_NewSharer: "NewSession argon2 code rand = Inr sess \<Longrightarrow> sharer_ok L (NewSharer sess code)"
  using sess_wf_NewSession [of argon2 code rand sess]
  by (simp add: sharer_ok_def secrets_ok_def tables_ok_def NewSharer_def joining_buf_def)

lemma sharer_reachable_ok:
  assumes "sharer_reachable L kdf s" "wiping_lib L"
  shows "sharer_ok L s"
  using assms by (induction rule: sharer_reachable.induct) (simp_all add: sharer_ok_NewSharer sharer_ok_act)

end
