(* ===== verification/Sharer_Props.thy ===== *)
theory Sharer_Props
  imports Sharer_Inv
begin

text \<open>
  The properties of the sharer (\<open>internal/sharer/sharer.go\<close>): who is admitted, who is told of a
  revocation, who is removed, and that no secret is left behind. The samples for the witnesses
  use a SPAKE2 library whose messages are fixed and whose keys are the hash-free sum of the code,
  and the key derivation of the session's samples.
\<close>

section \<open>Ending a run\<close>

lemma destroy_fold:
  "fold (\<lambda>(r, hs) s. s\<lparr>sh_dropped := sh_dropped s @ [spake_Destroy L (hs_spake hs)],
                        sh_handshakes := mdel r (sh_handshakes s)\<rparr>) hss s
    = s\<lparr>sh_dropped := sh_dropped s @ map (\<lambda>(r, hs). spake_Destroy L (hs_spake hs)) hss,
        sh_handshakes := filter (\<lambda>(r, hs). r \<notin> fst ` set hss) (sh_handshakes s)\<rparr>"
proof (induction hss arbitrary: s)
  case (Cons x hss)
  obtain a b where x: "x = (a, b)" by (cases x)
  have flip: "(a \<noteq> q) = (q \<noteq> a)" for q by auto
  show ?case
    using Cons.IH by (simp add: x mdel_filter split_beta flip)
qed (simp add: split_beta)

lemma destroyPendingHandshakes_eq:
  "destroyPendingHandshakes L s =
    s\<lparr>sh_dropped := sh_dropped s @ map (\<lambda>(r, hs). spake_Destroy L (hs_spake hs)) (sh_handshakes s),
      sh_handshakes := []\<rparr>"
proof -
  have "filter (\<lambda>(r, hs). r \<notin> fst ` set (sh_handshakes s)) (sh_handshakes s) = []"
    by (force simp: filter_empty_conv)
  then show ?thesis by (simp add: destroyPendingHandshakes_def destroy_fold)
qed

lemma Run_end_fields:
  "sh_sess (snd (Run_end L cx e s)) = sh_sess s" "sh_handshakes (snd (Run_end L cx e s)) = []"
  "sh_dropped (snd (Run_end L cx e s))
    = sh_dropped s @ map (\<lambda>(r, hs). spake_Destroy L (hs_spake hs)) (sh_handshakes s)"
  by (simp_all add: Run_end_def Let_def destroyPendingHandshakes_eq context_cancel_def)

section \<open>Admission\<close>

definition listed :: "'sp Sharer \<Rightarrow> bytes set" where
  "listed s = fst ` set (s_viewers (sh_sess s))"

text \<open>
  The message is the confirmation of a handshake that waited for it, the library accepted it, and
  \<open>ak\<close> is the auth key derived from the key both ends agreed on.
\<close>

definition verified_by :: "'sp spake_lib \<Rightarrow> kdf \<Rightarrow> bytes \<Rightarrow> 'sp Sharer \<Rightarrow> bytes \<Rightarrow> bool" where
  "verified_by L kdf data s ak \<longleftrightarrow>
     (\<exists>hs h secret. mget (sh_handshakes s) (take ViewerIDLen (drop 1 data)) = Some hs
        \<and> hs_state hs = hsWaitConfirmB
        \<and> lib_verify L (hs_spake hs) (drop (1 + ViewerIDLen) data) = (None, h)
        \<and> lib_key L h = Inr secret \<and> auth_key kdf secret = Some ak)"

lemma cleanup_sess [simp]: "sh_sess (cleanupHandshake L r s) = sh_sess s"
  by (simp add: cleanupHandshake_def split: option.split)

lemma listed_simps [simp]:
  "listed (sharer_call p s) = listed s" "listed (set_hs r hs s) = listed s"
  "listed (cleanupHandshake L r s) = listed s" "listed (s\<lparr>sh_sent := ms\<rparr>) = listed s"
  "listed (s\<lparr>sh_termCols := c, sh_termRows := w\<rparr>) = listed s"
  by (simp_all add: listed_def cleanupHandshake_def split: option.split)

lemma EncryptFrame_viewers [simp]: "s_viewers (snd (EncryptFrame kdf s p now)) = s_viewers s"
  by (cases "s_closed s")
    (simp_all add: EncryptFrame_closed EncryptFrame_open split: option.split)

lemma RevokeViewer_viewers_subset:
  assumes "sess_wf s" "range_order (mdel i (s_viewers s)) ord"
  shows "fst ` set (s_viewers (snd (RevokeViewer s i rand ord))) \<subseteq> fst ` set (s_viewers s)"
  using assms(1)
proof (cases rule: RevokeViewer_cases [where i = i and rand = rand and ord = ord])
  case (found v bs)
  then show ?thesis
    using RevokeViewer_rotates [OF assms(1) found(2) assms(2)] by (auto simp: rekeyed_def revoked_state_def)
qed (auto simp: revoked_state_def)

lemma RemoveViewer_viewers_subset: "fst ` set (s_viewers (RemoveViewer s i)) \<subseteq> fst ` set (s_viewers s)"
  by (auto simp: RemoveViewer_def split: option.split)

lemma listed_cong: "sh_sess s' = sh_sess s \<Longrightarrow> listed s' = listed s"
  by (simp add: listed_def)

lemma listed_broadcast: "listed (snd (broadcastTermSize kdf now err cols rows s)) = listed s"
  by (simp add: listed_def broadcast_fields)

lemma listed_Revoke:
  assumes "sess_wf (sh_sess s)" "range_order (mdel i (s_viewers (sh_sess s))) ord"
  shows "listed (snd (Revoke errs i rand ord ord' s)) \<subseteq> listed s"
proof -
  obtain x ss where x: "RevokeViewer (sh_sess s) i rand ord = (x, ss)" by fastforce
  have sub: "fst ` set (s_viewers ss) \<subseteq> listed s"
    using RevokeViewer_viewers_subset [OF assms, of rand] by (simp add: x listed_def)
  show ?thesis
  proof (cases x)
    case (Inl e)
    with x sub show ?thesis by (simp add: Revoke_def listed_def)
  next
    case (Inr rekeys)
    let ?s = "s\<lparr>sh_sess := ss, sh_viewerIDMap := mdel i (sh_viewerIDMap s)\<rparr>"
    obtain e s1 where d: "deliver_rekeys errs (go_range rekeys ord') ?s = (e, s1)" by fastforce
    from deliver_rekeys_fields [OF this] have "listed s1 \<subseteq> listed s"
      using sub by (simp add: listed_def)
    with x Inr d show ?thesis by (cases e) (simp_all add: Revoke_def)
  qed
qed

text \<open>One step of each kind.\<close>

lemma output_turn_sess:
  "sh_sess (snd (output_turn kdf now send_err send_done data read_err read_done s))
    = (if data = [] then sh_sess s else snd (EncryptFrame kdf (sh_sess s) data now))"
proof -
  obtain x ss where x: "EncryptFrame kdf (sh_sess s) data now = (x, ss)" by fastforce
  then show ?thesis
    by (cases x; cases send_err) (auto simp: output_turn_def Let_def sharer_send_def split: option.split)
qed

lemma listed_output:
  "listed (snd (output_turn kdf now send_err send_done data read_err read_done s)) = listed s"
  by (simp add: listed_def output_turn_sess)

lemma confirm_finish_listed: "listed (confirm_finish L kdf now err s) = listed s"
proof (cases "sh_joining s")
  case None
  then show ?thesis by (simp add: confirm_finish_def)
next
  case (Some t)
  obtain r i ak where j: "sh_joining s = Some (r, i, ak)" using Some by (cases t) auto
  show ?thesis
  proof (cases "mget (sh_handshakes s) r")
    case None
    with j show ?thesis by (simp add: confirm_finish_def)
  next
    case (Some hs)
    obtain ss pr st fs where "ss = sh_sess s \<or> (\<exists>p. ss = snd (EncryptFrame kdf (sh_sess s) p now))"
      and "confirm_finish L kdf now err s =
        s\<lparr>sh_handshakes := mput r (hs\<lparr>hs_state := hsComplete, hs_spake := lib_wipe L (hs_spake hs)\<rparr>)
              (mput r (hs\<lparr>hs_state := hsComplete\<rparr>) (sh_handshakes s)),
          sh_viewerIDMap := mput i r (sh_viewerIDMap s), sh_sess := sess_zero ak ss,
          sh_joining := None, sh_sent := st, sh_probes := pr\<rparr>"
      by (rule confirm_finish_eq [OF j Some])
    then show ?thesis by (auto simp: listed_def)
  qed
qed

lemma listed_handle:
  assumes ok: "sharer_ok L s" and j: "sh_joining s = None"
    and new: "i \<in> listed (snd (handleSPAKE2 L kdf en r payload s)) - listed s"
  shows "\<exists>hs. mget (sh_handshakes s) r = Some hs \<and> hs_state hs = hsWaitConfirmB
    \<and> i \<in> listed (snd (confirm_register L kdf (en_rand en) (en_now en) (en_send en) r payload hs s))"
proof -
  obtain x s1 where x: "get_handshake L r payload s = (x, s1)" by fastforce
  have init: "listed (snd (wait_init L err r hs s1)) = listed s1" for err hs
    by (cases err; cases "lib_start L (hs_spake hs)"; cases "fst (lib_start L (hs_spake hs))")
      (simp_all add: wait_init_def sendUnicast_def sharer_send_def listed_def)
  have msg_b: "listed (snd (wait_msg_b L err r payload hs s1)) = listed s1" for err hs
    by (cases err; cases "lib_finish L (hs_spake hs) payload"; cases "fst (lib_finish L (hs_spake hs) payload)")
      (simp_all add: wait_msg_b_def sendUnicast_def sharer_send_def listed_def)
  show ?thesis
  proof (cases x)
    case (Inl e)
    with x new get_handshake_fails [of L r payload s e s1] show ?thesis by (simp add: handleSPAKE2_def)
  next
    case (Inr hs)
    with get_handshake_ok [OF ok j] x have same: "sh_sess s1 = sh_sess s" by auto
    show ?thesis
    proof (cases "mget (sh_handshakes s) r")
      case None
      with x Inr have "hs_state hs = hsWaitInit" by (auto simp: get_handshake_def Let_def split: sum.splits)
      with x Inr new init same show ?thesis by (simp add: handleSPAKE2_def listed_def)
    next
      case (Some h)
      with x Inr have "hs = h" "s1 = s" by (auto simp: get_handshake_def)
      with x Inr new init msg_b Some show ?thesis
        by (cases "hs_state h") (simp_all add: handleSPAKE2_def)
    qed
  qed
qed

text \<open>What the confirmation step adds to the table, and what it sends.\<close>

lemma confirm_admits:
  assumes ok: "sharer_ok L s" and j: "sh_joining s = None"
    and new: "i \<in> listed (snd (confirm_register L kdf rand now err r payload hs s)) - listed s"
  shows "\<exists>h secret ak. lib_verify L (hs_spake hs) payload = (None, h) \<and> lib_key L h = Inr secret
    \<and> auth_key kdf secret = Some ak \<and> GenerateViewerID rand = Inr i"
proof -
  obtain x h where x: "lib_verify L (hs_spake hs) payload = (x, h)" by fastforce
  let ?s = "set_hs r (hs\<lparr>hs_spake := h\<rparr>) s" and ?ss = "sh_sess s"
  have verified: "x = None"
    using new by (cases x) (simp_all add: confirm_register_def x)
  obtain secret where secret: "lib_key L h = Inr secret"
    using new by (cases "lib_key L h") (simp_all add: confirm_register_def x verified Let_def)
  obtain d m where d: "DeriveAuthKey kdf secret (s_mem ?ss) = (d, m)" by fastforce
  obtain a where a: "d = Inr a"
    using new by (cases d) (simp_all add: confirm_register_def x verified Let_def secret d, simp add: listed_def)
  obtain k where k: "a = length (s_mem ?ss)" "auth_key kdf secret = Some k" "m = s_mem ?ss @ [k]"
    using d a by (auto dest: DeriveAuthKey_Inr)
  obtain y ss1 where y: "RegisterViewer (?ss\<lparr>s_mem := m\<rparr>) (m ! a) (hs_clientType hs) rand now = (y, ss1)"
    by fastforce
  have wf: "sess_wf (?ss\<lparr>s_mem := m\<rparr>)"
    unfolding k(3) by (rule sess_wf_append) (rule sharer_ok_wf [OF ok])
  have "i \<in> fst ` set (s_viewers ss1)"
    using new by (cases y; cases err)
      (auto simp: confirm_register_def x verified Let_def secret d a y sendUnicast_def sharer_send_def listed_def
        split: prod.splits)
  moreover have "i \<notin> fst ` set (s_viewers ?ss)" using new by (simp add: listed_def)
  moreover from wf have "fst ` set (s_viewers ss1) \<subseteq> fst ` set (s_viewers ?ss)
      \<union> (case GenerateViewerID rand of Inl e \<Rightarrow> {} | Inr j \<Rightarrow> {j})"
  proof (cases rule: RegisterViewer_cases [where ak = "m ! a" and ct = "hs_clientType hs"
        and rand = rand and now = now])
  qed (use y in \<open>auto simp: Let_def split: sum.split\<close>)
  ultimately have "GenerateViewerID rand = Inr i" by (auto split: sum.splits)
  with x verified secret k show ?thesis by blast
qed

lemma listed_disconnect: "listed (handleViewerDisconnect r ord s) \<subseteq> listed s"
  using RemoveViewer_viewers_subset by (auto simp: handleViewerDisconnect_def listed_def split: option.split)

lemma act_admits:
  assumes ok: "sharer_ok L s" and inp: "inputs_ok a s"
    and new: "i \<in> listed (sharer_act L kdf a s) - listed s"
  shows "\<exists>en ord data ak. a = OnRelay en ord (Got data) \<and> verified_by L kdf data s ak
    \<and> GenerateViewerID (en_rand en) = Inr i"
proof (cases a)
  case (OnRelay en ord m)
  have j: "sh_joining s = None" using new OnRelay by (auto split: if_splits)
  with new OnRelay have n: "i \<in> listed (snd (relay_turn L kdf en ord m s)) - listed s" by simp
  show ?thesis
  proof (cases rule: relay_turn_cases [where L = L and kdf = kdf and en = en and ord = ord and r = m and s = s])
    case (spake data)
    let ?r = "take ViewerIDLen (drop 1 data)" and ?p = "drop (1 + ViewerIDLen) data"
    have "i \<in> listed (snd (handleSPAKE2 L kdf en ?r ?p s)) - listed s"
      using n spake(2) by (simp add: split_beta split: option.splits)
    from listed_handle [OF ok j this] obtain hs where hs: "mget (sh_handshakes s) ?r = Some hs"
      "hs_state hs = hsWaitConfirmB"
      "i \<in> listed (snd (confirm_register L kdf (en_rand en) (en_now en) (en_send en) ?r ?p hs s))" by blast
    with n have "i \<in> listed (snd (confirm_register L kdf (en_rand en) (en_now en) (en_send en) ?r ?p hs s)) - listed s"
      by simp
    from confirm_admits [OF ok j this] hs OnRelay spake(1) show ?thesis
      unfolding verified_by_def by blast
  next
    case (left data)
    with n listed_disconnect [of "take ViewerIDLen (drop 2 data)" ord s] show ?thesis by auto
  qed (use n in auto)
next
  case (OnRevoke errs j rand ord ord')
  with new inp listed_Revoke [OF sharer_ok_wf [OF ok], of j ord errs rand ord'] show ?thesis by auto
qed (use new in \<open>auto simp: confirm_finish_listed listed_output sharer_heartbeat_def sharer_send_def
      SetTermSize_def listed_broadcast split: option.splits\<close>)

section \<open>Revocation\<close>

lemma deliver_all:
  assumes "\<And>n. errs n = None"
  shows "deliver_rekeys errs rs s =
    (None, s\<lparr>sh_sent := sh_sent s @ List.map_filter (\<lambda>(j, p).
        map_option (\<lambda>r. unicast_msg r (buildKeyDelivery j p)) (mget (sh_viewerIDMap s) j)) rs\<rparr>)"
  using assms
proof (induction errs rs s rule: deliver_rekeys.induct)
  case (2 errs sid enc rs s)
  then show ?case
    by (cases "mget (sh_viewerIDMap s) sid")
      (simp_all add: sendUnicast_def sharer_send_def comp_def List.map_filter_simps)
qed (simp add: List.map_filter_simps)

text \<open>
  \<open>m\<close> tells viewer \<open>j\<close> of the key \<open>k\<close>: it goes to the relay ID \<open>j\<close> joined under, names \<open>j\<close>, and
  opens to \<open>k\<close> with the auth key of \<open>j\<close>.
\<close>

definition rekey_of :: "'sp Sharer \<Rightarrow> bytes \<Rightarrow> bytes \<Rightarrow> bytes \<Rightarrow> bool" where
  "rekey_of s k j m \<longleftrightarrow>
     (\<exists>r w p. mget (sh_viewerIDMap s) j = Some r \<and> mget (s_viewers (sh_sess s)) j = Some w
        \<and> m = unicast_msg r (buildKeyDelivery j p)
        \<and> Open (auth_key_of (sh_sess s) w) (ep_Nonce p) (ep_Ciphertext p) = Inr k)"

definition reached :: "'sp Sharer \<Rightarrow> bytes list \<Rightarrow> bytes list" where
  "reached s ord = filter (\<lambda>j. mget (sh_viewerIDMap s) j \<noteq> None) ord"

lemma rekeys_sent:
  assumes "\<And>j p. mget rekeys j = Some p \<Longrightarrow> \<exists>w. mget (s_viewers (sh_sess s)) j = Some w
      \<and> Open (auth_key_of (sh_sess s) w) (ep_Nonce p) (ep_Ciphertext p) = Inr k"
    and "\<And>j. j \<in> set ord \<Longrightarrow> mget rekeys j \<noteq> None"
    and "\<And>j. j \<in> set ord \<Longrightarrow> mget m j = mget (sh_viewerIDMap s) j"
  shows "list_all2 (rekey_of s k) (reached s ord)
    (List.map_filter (\<lambda>(j, p). map_option (\<lambda>r. unicast_msg r (buildKeyDelivery j p)) (mget m j)) (go_range rekeys ord))"
  using assms(2,3)
proof (induction ord)
  case (Cons j ord)
  then obtain p where p: "mget rekeys j = Some p" by fastforce
  from assms(1) [OF p] obtain w where "mget (s_viewers (sh_sess s)) j = Some w"
    "Open (auth_key_of (sh_sess s) w) (ep_Nonce p) (ep_Ciphertext p) = Inr k" by blast
  with Cons p show ?case
    by (auto simp: reached_def List.map_filter_simps rekey_of_def split: option.split)
qed (simp add: reached_def List.map_filter_simps)

lemma RevokeViewer_keeps:
  assumes "sess_wf ss" "mget (s_viewers ss) i = Some v" "range_order (mdel i (s_viewers ss)) ord"
    and "s_streamKey ss \<noteq> length (s_mem ss)"
  shows "s_viewers (snd (RevokeViewer ss i (Some bs) ord)) = mdel i (s_viewers ss)"
    "stream_key (snd (RevokeViewer ss i (Some bs) ord)) = go_copy 32 bs"
proof -
  note rot = RevokeViewer_rotates [OF assms(1-3), of bs]
  show "s_viewers (snd (RevokeViewer ss i (Some bs) ord)) = mdel i (s_viewers ss)"
    unfolding rot by (simp add: rekeyed_def revoked_state_def)
  have "zero_at (s_streamKey ss) (zero_at (v_authKey v) (s_mem ss) @ [go_copy 32 bs]) ! length (s_mem ss)
      = go_copy 32 bs"
    using assms(4) by (simp add: nth_append)
  then show "stream_key (snd (RevokeViewer ss i (Some bs) ord)) = go_copy 32 bs"
    unfolding rot by (simp add: rekeyed_def revoked_state_def stream_key_def)
qed

lemma Revoke_sends:
  assumes wf: "sess_wf (sh_sess s)" and get: "mget (s_viewers (sh_sess s)) i = Some v"
    and ord: "range_order (mdel i (s_viewers (sh_sess s))) ord"
    and ord': "range_order (mdel i (s_viewers (sh_sess s))) ord'"
    and sends: "\<And>n. errs n = None"
  obtains ms where "list_all2 (rekey_of s (go_copy 32 bs)) (reached s ord') ms"
    and "Revoke errs i (Some bs) ord ord' s =
      (None, sharer_call (ViewerRevoked i)
        (s\<lparr>sh_sess := snd (RevokeViewer (sh_sess s) i (Some bs) ord),
           sh_viewerIDMap := mdel i (sh_viewerIDMap s), sh_sent := sh_sent s @ ms\<rparr>))"
proof -
  let ?ss = "sh_sess s" and ?k = "go_copy 32 bs"
  let ?rk = "rekey_payloads (s_mem ?ss) ?k (go_range (mdel i (s_viewers ?ss)) ord) (s_nonce ?ss)"
  let ?m = "mdel i (sh_viewerIDMap s)"
  define ms where "ms = List.map_filter
      (\<lambda>(j, p). map_option (\<lambda>r. unicast_msg r (buildKeyDelivery j p)) (mget ?m j)) (go_range ?rk ord')"
  note rk = rekey_payloads_others [OF wf ord, of ?k "s_nonce ?ss"]
  have keys: "fst ` set ?rk = fst ` set (s_viewers ?ss) - {i}"
    using rk by (simp add: rekeys_others_def)
  have "list_all2 (rekey_of s ?k) (reached s ord') ms"
    unfolding ms_def
  proof (rule rekeys_sent)
    fix j p assume "mget ?rk j = Some p"
    with rk show "\<exists>w. mget (s_viewers ?ss) j = Some w
        \<and> Open (auth_key_of ?ss w) (ep_Nonce p) (ep_Ciphertext p) = Inr ?k"
      by (simp add: rekeys_others_def)
  next
    fix j assume j: "j \<in> set ord'"
    then have "j \<in> fst ` set ?rk" using ord' keys by (simp add: range_order_def)
    then show "mget ?rk j \<noteq> None" by (simp only: mget_None_iff not_not)
    from j ord' have "j \<noteq> i" by (auto simp: range_order_def)
    then show "mget ?m j = mget (sh_viewerIDMap s) j" by simp
  qed
  moreover have "Revoke errs i (Some bs) ord ord' s =
      (None, sharer_call (ViewerRevoked i)
        (s\<lparr>sh_sess := snd (RevokeViewer ?ss i (Some bs) ord), sh_viewerIDMap := ?m, sh_sent := sh_sent s @ ms\<rparr>))"
    by (simp add: Revoke_def RevokeViewer_rotates [OF wf get ord] deliver_all sends ms_def)
  ultimately show ?thesis by (rule that)
qed

text \<open>A revocation that reports success sent all its messages, which is as if no send could fail.\<close>

lemma deliver_succeeds:
  "deliver_rekeys errs rs s = (None, s1) \<Longrightarrow> deliver_rekeys (\<lambda>_. None) rs s = (None, s1)"
proof (induction errs rs s rule: deliver_rekeys.induct)
  case (2 errs sid enc rs s)
  then show ?case
    by (cases "errs 0") (auto simp: sendUnicast_def sharer_send_def comp_def split: option.splits)
qed simp

lemma Revoke_succeeds:
  assumes "Revoke errs i rand ord ord' s = (None, s')"
  obtains bs v where "rand = Some bs" "mget (s_viewers (sh_sess s)) i = Some v"
    "Revoke (\<lambda>_. None) i (Some bs) ord ord' s = (None, s')"
proof -
  from assms obtain rekeys ss s1 where r: "RevokeViewer (sh_sess s) i rand ord = (Inr rekeys, ss)"
    and d: "deliver_rekeys errs (go_range rekeys ord') (s\<lparr>sh_sess := ss, sh_viewerIDMap := mdel i (sh_viewerIDMap s)\<rparr>) = (None, s1)"
    and s': "s' = sharer_call (ViewerRevoked i) s1"
    by (auto simp: Revoke_def split: sum.splits prod.splits option.splits)
  from r obtain bs v where "rand = Some bs" "mget (s_viewers (sh_sess s)) i = Some v"
    by (auto simp: RevokeViewer_def Let_def GenerateStreamKey_cases split: if_splits option.splits)
  with that r deliver_succeeds [OF d] s' show ?thesis by (simp add: Revoke_def)
qed

section \<open>A viewer that joins during a revocation\<close>

lemma EncryptFrame_keeps:
  "s_streamKey (snd (EncryptFrame kdf s p now)) = s_streamKey s"
  "a < length (s_mem s) \<Longrightarrow> s_mem (snd (EncryptFrame kdf s p now)) ! a = s_mem s ! a"
  by (cases "s_closed s";
      simp add: EncryptFrame_closed EncryptFrame_open nth_append split: option.split)+

lemma unicast_msg_target:
  "length r = ViewerIDLen \<Longrightarrow> length q = ViewerIDLen \<Longrightarrow> unicast_msg r p = unicast_msg q p' \<Longrightarrow> r = q"
  by (simp add: unicast_msg_def)

lemma rekeys_avoid:
  assumes "list_all2 (rekey_of s k) js ms" "list_all (\<lambda>q. length q = ViewerIDLen) (r # map snd (sh_viewerIDMap s))"
    and "r \<notin> set (map snd (sh_viewerIDMap s))"
  shows "unicast_msg r p \<notin> set ms"
proof
  assume "unicast_msg r p \<in> set ms"
  then obtain n where n: "n < length ms" "ms ! n = unicast_msg r p" by (auto simp: in_set_conv_nth)
  with assms(1) have "rekey_of s k (js ! n) (unicast_msg r p)" by (metis list_all2_nthD2)
  then obtain q p' where q: "mget (sh_viewerIDMap s) (js ! n) = Some q" "unicast_msg r p = unicast_msg q p'"
    unfolding rekey_of_def by blast
  from map_of_SomeD [OF q(1)] have "q \<in> set (map snd (sh_viewerIDMap s))" by force
  with assms(2,3) q(2) unicast_msg_target [of r q p p'] show False by (auto simp: list_all_iff)
qed

section \<open>Viewers that leave\<close>

lemma find_relay:
  assumes "distinct (map snd m)" "mget m i = Some r" "range_order m ord"
  shows "List.find (\<lambda>(sid, rid). rid = r) (go_range m ord) = Some (i, r)"
proof -
  have in_range: "(i, r) \<in> set (go_range m ord)"
    using assms(2,3) mget_in_keys [OF assms(2)] by (simp add: set_go_range range_order_def)
  have only: "j = i" if "(j, r) \<in> set (go_range m ord)" for j
  proof -
    from that have "(j, r) \<in> set m" by (auto simp: set_go_range dest: map_of_SomeD)
    with map_of_SomeD [OF assms(2)] assms(1) have "(j, r) = (i, r)"
      unfolding distinct_map by (intro inj_onD [of snd "set m"]) auto
    then show ?thesis by simp
  qed
  show ?thesis
  proof (cases "List.find (\<lambda>(sid, rid). rid = r) (go_range m ord)")
    case None
    with in_range show ?thesis by (auto simp: find_None_iff)
  next
    case (Some x)
    then have "x \<in> set (go_range m ord)" "snd x = r"
      by (auto simp: find_Some_iff split_beta)
    with only [of "fst x"] Some show ?thesis by (cases x) auto
  qed
qed

lemma find_no_relay:
  "r \<notin> set (map snd m) \<Longrightarrow> List.find (\<lambda>(sid, rid). rid = r) (go_range m ord) = None"
  by (force simp: find_None_iff set_go_range dest: map_of_SomeD)

section \<open>A SPAKE2 message that is long enough\<close>

lemma spake_turn:
  "length r = ViewerIDLen \<Longrightarrow> sh_joining s = None \<Longrightarrow>
    sharer_act L kdf (OnRelay en ord (Got (MsgTypeSPAKE2 # r @ p))) s =
      (case handleSPAKE2 L kdf en r p s of
         (Some e, s1) \<Rightarrow> sharer_call (SharerHandshakeFailed r e) s1 | (None, s1) \<Rightarrow> s1)"
  by (simp add: relay_turn_def Let_def split_beta split: option.split)

section \<open>Samples\<close>

definition ex_A :: bytes where "ex_A = replicate 6 65"
definition ex_B :: bytes where "ex_B = replicate 6 66"

definition ex_ctx :: "handshakeState \<Rightarrow> bytes \<Rightarrow> bytes \<Rightarrow> bytes handshakeCtx" where
  "ex_ctx st h r = \<lparr>hs_state = st, hs_spake = h, hs_viewerID = r, hs_clientType = ClientTypeCLI\<rparr>"

text \<open>A sharer with two viewers.\<close>

definition ex_both :: "bytes Sharer" where
  "ex_both = (NewSharer ex_session [1])
     \<lparr>sh_viewerIDMap := [(replicate 6 97, ex_A), (replicate 6 98, ex_B)],
      sh_handshakes := [(ex_A, ex_ctx hsComplete [0] ex_A), (ex_B, ex_ctx hsComplete [0] ex_B)]\<rparr>"

lemma ex_wiping: "wiping_lib ex_spake"
  by (simp add: wiping_lib_def spent_def ex_spake_def)

lemma ex_ids [simp]: "ex_A \<noteq> ex_B" "ex_B \<noteq> ex_A" "length ex_A = 6" "length ex_B = 6"
  "replicate 6 (97 :: byte) \<noteq> replicate 6 98" "replicate 6 (97 :: byte) \<noteq> []"
  by (simp_all add: ex_A_def ex_B_def numeral_eq_Suc)

lemma ex_both_ok: "sharer_ok ex_spake ex_both"
  using ex_session_wf ex_session_clean
  by (auto simp: sharer_ok_def secrets_ok_def tables_ok_def ex_both_def NewSharer_def joining_buf_def
      in_state_def ex_ctx_def spent_def ex_spake_def all_zero_def split: if_splits)

text \<open>A run from the start: the three messages of a handshake, and the rest of its last step.\<close>

definition ex_argon :: argon2 where "ex_argon pw salt t m p n = replicate n 0"

definition ex_sess0 :: session where
  "ex_sess0 = \<lparr>s_mem = [replicate 32 7], s_streamKey = 0, s_sessionID = DeriveSessionID ex_argon [1],
     s_nonce = 0, s_viewers = [], s_revokedIDs = [], s_closed = False\<rparr>"

definition ex_env :: spake_env where
  "ex_env = \<lparr>en_rand = replicate 6 (Some 2), en_now = 0, en_send = None\<rparr>"

definition ex_msg :: "bytes \<Rightarrow> sharer_action" where
  "ex_msg p = OnRelay ex_env [] (Got (MsgTypeSPAKE2 # ex_A @ p))"

definition ex_asked :: "bytes Sharer" where
  "ex_asked = (NewSharer ex_sess0 [1])
     \<lparr>sh_handshakes := [(ex_A, ex_ctx hsWaitConfirmB [1] ex_A)],
      sh_sent := [unicast_msg ex_A [65], unicast_msg ex_A [67]]\<rparr>"

lemma ex_sess0_new: "NewSession ex_argon [1] (Some (replicate 32 7)) = Inr ex_sess0"
  by (simp add: NewSession_def GenerateStreamKey_cases ex_sess0_def NewNonceCounter_def)

lemma ex_draws: "GenerateViewerID (replicate 6 (Some 2)) = Inr (replicate 6 99)"
  by code_simp

lemmas hs_step_defs = handleSPAKE2_def get_handshake_def wait_init_def wait_msg_b_def sendUnicast_def
  sharer_send_def NewSPAKE2Sharer_def newHandshake_def clientTypeFromByte_def Let_def

lemma ex_asked_runs:
  "sharer_runs ex_spake ex_kdf [ex_msg [1], ex_msg [66]] (NewSharer ex_sess0 [1]) = Some ex_asked"
proof -
  have ok: "inputs_ok (ex_msg p) s" if "sh_viewerIDMap s = []" "s_viewers (sh_sess s) = []" for p and s :: "bytes Sharer"
    using that by (simp add: ex_msg_def ex_env_def range_order_def fresh_id_def ex_draws)
  have start: "sharer_act ex_spake ex_kdf (ex_msg [1]) (NewSharer ex_sess0 [1]) =
      (NewSharer ex_sess0 [1])\<lparr>sh_handshakes := [(ex_A, ex_ctx hsWaitMsgB [1] ex_A)],
        sh_sent := [unicast_msg ex_A [65]]\<rparr>" (is "_ = ?s1")
    unfolding ex_msg_def by (subst spake_turn) (simp_all add: NewSharer_def hs_step_defs ex_spake_def ex_env_def ex_ctx_def set_hs_def)
  have "sharer_act ex_spake ex_kdf (ex_msg [66]) ?s1 = ex_asked"
    unfolding ex_msg_def by (subst spake_turn) (simp_all add: NewSharer_def hs_step_defs ex_spake_def ex_env_def ex_ctx_def set_hs_def
        ex_asked_def)
  then show ?thesis
    using start by (simp add: ok NewSharer_def ex_sess0_def)
qed

lemma ex_asked_reachable: "sharer_reachable ex_spake ex_kdf ex_asked"
  using sharer_runs_reachable [OF ex_asked_runs sharer_reachable.created [OF ex_sess0_new]] .

definition ex_joined :: "bytes Sharer" where
  "ex_joined = sharer_act ex_spake ex_kdf (FinishJoin 0 None) (sharer_act ex_spake ex_kdf (ex_msg [68]) ex_asked)"

lemma ex_ak: "auth_key ex_kdf [1] = Some (go_copy 32 (AuthKeyInfo @ [1]))"
  by (simp add: auth_key_def ex_kdf_def)

lemma ex_confirmed:
  "sharer_act ex_spake ex_kdf (ex_msg [68]) ex_asked =
    (let ak = go_copy 32 (AuthKeyInfo @ [1]);
         enc = \<lparr>ep_Nonce = fst (Next 0), ep_Ciphertext = gcm_seal (aes_encrypt ak) (fst (Next 0)) (replicate 32 7)\<rparr>
     in ex_asked\<lparr>sh_sess := ex_sess0\<lparr>s_mem := [replicate 32 7, ak, ak], s_nonce := 1,
          s_viewers := [(replicate 6 99, \<lparr>v_id = replicate 6 99, v_authKey = 2, v_joinTime = 0, v_clientType = ClientTypeCLI\<rparr>)]\<rparr>,
        sh_sent := sh_sent ex_asked @ [unicast_msg ex_A (buildKeyDelivery (replicate 6 99) enc)],
        sh_joining := Some (ex_A, replicate 6 99, 1)\<rparr>)"
proof -
  let ?ak = "go_copy 32 (AuthKeyInfo @ [1])"
  have mem: "s_mem ex_sess0 = [replicate 32 7]" by (simp add: ex_sess0_def)
  have d: "DeriveAuthKey ex_kdf [1] [replicate 32 7] = (Inr 1, [replicate 32 7, ?ak])"
    by (simp add: DeriveAuthKey_cases ex_ak)
  have reg: "RegisterViewer (ex_sess0\<lparr>s_mem := [replicate 32 7, ?ak]\<rparr>) ?ak ClientTypeCLI (replicate 6 (Some 2)) 0 =
      (Inr (\<lparr>vi_ID = replicate 6 99, vi_JoinTime = 0, vi_ClientType = ClientTypeCLI\<rparr>,
            \<lparr>ep_Nonce = fst (Next 0), ep_Ciphertext = gcm_seal (aes_encrypt ?ak) (fst (Next 0)) (replicate 32 7)\<rparr>),
       ex_sess0\<lparr>s_mem := [replicate 32 7, ?ak, ?ak], s_nonce := 1,
          s_viewers := [(replicate 6 99, \<lparr>v_id = replicate 6 99, v_authKey = 2, v_joinTime = 0, v_clientType = ClientTypeCLI\<rparr>)]\<rparr>)"
    by (subst RegisterViewer_open) (simp_all add: ex_sess0_def ex_draws stream_key_def Let_def)
  show ?thesis
    unfolding ex_msg_def
    by (subst spake_turn) (simp_all add: ex_asked_def NewSharer_def hs_step_defs ex_spake_def ex_env_def ex_ctx_def set_hs_def
        confirm_register_def mem d reg)
qed

lemma ex_msg_ok: "sh_viewerIDMap s = [] \<Longrightarrow> s_viewers (sh_sess s) = [] \<Longrightarrow> inputs_ok (ex_msg p) s"
  by (simp add: ex_msg_def ex_env_def range_order_def fresh_id_def ex_draws)

lemma ex_asked_ok: "inputs_ok (ex_msg p) ex_asked"
  by (rule ex_msg_ok) (simp_all add: ex_asked_def NewSharer_def ex_sess0_def)

lemma ex_joined_runs:
  "sharer_runs ex_spake ex_kdf [ex_msg [1], ex_msg [66], ex_msg [68], FinishJoin 0 None] (NewSharer ex_sess0 [1])
    = Some ex_joined"
proof -
  have "sharer_runs L kdf (as @ bs) s = Some s2"
    if "sharer_runs L kdf as s = Some s1" "sharer_runs L kdf bs s1 = Some s2" for L :: "'a spake_lib" and kdf as bs s s1 s2
    using that by (induction as arbitrary: s) (auto split: if_splits)
  from this [OF ex_asked_runs, of "[ex_msg [68], FinishJoin 0 None]" ex_joined] show ?thesis
    by (simp add: ex_asked_ok ex_joined_def del: sharer_act.simps)
qed

lemma ex_joined_facts: "sh_joining ex_joined = None" "listed ex_joined = {replicate 6 99}"
  by (simp_all add: ex_joined_def confirm_finish_listed ex_confirmed Let_def)
    (simp_all add: confirm_finish_def listed_def ex_asked_def NewSharer_def Let_def ex_ctx_def set_hs_def
      sharer_call_def)

section \<open>Properties\<close>

text \<open>
  C4. Only a verified viewer is admitted. Whenever a step of the sharer adds a viewer to the
  session, it is the relay loop taking the confirmation of a handshake that waited for it, the
  SPAKE2 library accepted that confirmation, and an auth key was derived from the key it agreed
  on; no revocation, output, terminal size, disconnect or other message admits anybody.
\<close>

theorem only_verified_viewers_admitted:
  assumes "sharer_reachable L kdf s" and "wiping_lib L" and "inputs_ok a s"
    and "i \<in> listed (sharer_act L kdf a s)" and "i \<notin> listed s"
  shows "\<exists>en ord data ak. a = OnRelay en ord (Got data) \<and> verified_by L kdf data s ak
    \<and> GenerateViewerID (en_rand en) = Inr i"
  using act_admits [OF sharer_reachable_ok [OF assms(1,2)] assms(3)] assms(4,5) by simp

theorem only_verified_viewers_admitted_witness:
  "\<exists>en ord data ak. ex_msg [68] = OnRelay en ord (Got data) \<and> verified_by ex_spake ex_kdf data ex_asked ak
    \<and> GenerateViewerID (en_rand en) = Inr (replicate 6 99)"
  by (rule only_verified_viewers_admitted [OF ex_asked_reachable ex_wiping ex_asked_ok])
    (simp_all add: ex_confirmed Let_def listed_def, simp add: ex_asked_def NewSharer_def ex_sess0_def)

text \<open>
  C17. A sharer leaves no secret behind. In any run, whenever no viewer is half-joined, every key
  buffer of the session that is not its stream key or the auth key of a listed viewer is zeroed;
  and when the run ends and the session is closed, no handshake is left, every SPAKE2 state that
  was ever dropped is spent, and all buffers are zero.
\<close>

theorem sharer_leaves_no_secret:
  assumes "NewSession argon2 code rand = Inr sess"
    and "sharer_runs L kdf as (NewSharer sess code) = Some s" and "sh_joining s = None"
    and "wiping_lib L"
  shows "sess_clean (sh_sess s) \<and>
    (let s' = snd (Run_end L cx e s)
     in sh_handshakes s' = [] \<and> list_all (spent L) (sh_dropped s')
       \<and> list_all all_zero (s_mem (Close (sh_sess s'))))"
proof -
  have ok: "sharer_ok L s"
    using sharer_runs_reachable [OF assms(2) sharer_reachable.created [OF assms(1)]] assms(4)
    by (rule sharer_reachable_ok)
  from sharer_ok_clean [OF ok] have "sess_clean (sh_sess s)" by (simp add: assms(3) joining_buf_None)
  then show ?thesis
    using ok spent_Destroy [OF assms(4)] closing.wipe_leaves_nothing [of "sh_sess s"]
    by (auto simp: Let_def Run_end_fields sharer_ok_def secrets_ok_def list_all_iff clean_but_def)
qed

theorem sharer_leaves_no_secret_witness:
  "listed ex_joined = {replicate 6 99} \<and> sess_clean (sh_sess ex_joined) \<and>
    (let s' = snd (Run_end ex_spake \<lparr>cx_cancelled = False\<rparr> None ex_joined)
     in sh_handshakes s' = [] \<and> list_all (spent ex_spake) (sh_dropped s')
       \<and> list_all all_zero (s_mem (Close (sh_sess s'))))"
  using sharer_leaves_no_secret [OF ex_sess0_new ex_joined_runs ex_joined_facts(1) ex_wiping] ex_joined_facts(2)
  by blast

text \<open>
  Revoking a viewer tells every other viewer and nobody else. When the sends succeed, each
  other listed viewer that the sharer can reach gets exactly one message, addressed to it and
  opening with its auth key to the new stream key; the revoked viewer gets none, is unlisted and
  unmapped, and the session uses the new key.
\<close>

theorem revocation_reaches_the_others:
  assumes "sess_wf (sh_sess s)" and "mget (s_viewers (sh_sess s)) i = Some v"
    and "range_order (mdel i (s_viewers (sh_sess s))) ord"
    and "range_order (mdel i (s_viewers (sh_sess s))) ord'"
    and "\<And>n. errs n = None"
  shows "case Revoke errs i (Some bs) ord ord' s of (e, s') \<Rightarrow>
    e = None \<and> listed s' = listed s - {i} \<and> sh_viewerIDMap s' = mdel i (sh_viewerIDMap s)
    \<and> stream_key (sh_sess s') = go_copy 32 bs \<and> sh_probes s' = sh_probes s @ [ViewerRevoked i]
    \<and> set (reached s ord') = listed s' \<inter> fst ` set (sh_viewerIDMap s')
    \<and> (\<exists>ms. sh_sent s' = sh_sent s @ ms
         \<and> list_all2 (rekey_of s (stream_key (sh_sess s'))) (reached s ord') ms)"
proof -
  obtain ms where ms: "list_all2 (rekey_of s (go_copy 32 bs)) (reached s ord') ms"
    and rev: "Revoke errs i (Some bs) ord ord' s =
      (None, sharer_call (ViewerRevoked i)
        (s\<lparr>sh_sess := snd (RevokeViewer (sh_sess s) i (Some bs) ord),
           sh_viewerIDMap := mdel i (sh_viewerIDMap s), sh_sent := sh_sent s @ ms\<rparr>))"
    by (rule Revoke_sends [OF assms])
  have op: "\<not> s_closed (sh_sess s)" using assms(1,2) by (auto simp: sess_wf_def)
  then have "s_streamKey (sh_sess s) \<noteq> length (s_mem (sh_sess s))"
    using sess_wf_stream_key [OF assms(1)] by (auto simp: key_buf_def)
  note key = RevokeViewer_keeps [OF assms(1-3) this, of bs]
  have "set (reached s ord') = (listed s - {i}) \<inter> (fst ` set (sh_viewerIDMap s) - {i})"
    using assms(4) by (auto simp: reached_def range_order_def listed_def mget_None_iff)
  with ms rev key show ?thesis by (auto simp: listed_def sharer_call_def)
qed

text \<open>
  While a viewer is half-joined its auth key is a buffer apart from the stream key, and the end of its handshake
  changes neither the table of viewers nor the stream key.
\<close>

lemma joining_key_apart:
  assumes "sharer_ok L s" "sh_joining s = Some (r, i, ak)" "\<not> s_closed (sh_sess s)"
  obtains hs where "mget (sh_handshakes s) r = Some hs" "s_streamKey (sh_sess s) < length (s_mem (sh_sess s))"
    "s_streamKey (sh_sess s) \<noteq> ak"
proof -
  from assms(1,2) obtain hs where hs: "mget (sh_handshakes s) r = Some hs"
    and held: "ak < length (s_mem (sh_sess s))" "ak \<notin> set (live (sh_sess s))"
    unfolding sharer_ok_def tables_ok_def in_state_def by auto
  from that [OF hs] sess_wf_stream_key [of "sh_sess s"] sharer_ok_wf [OF assms(1)] assms(3) held show ?thesis
    by (auto simp: key_buf_def live_def)
qed

lemma confirm_finish_keeps:
  assumes "sh_joining s = Some (r, i, ak)" "mget (sh_handshakes s) r = Some hs"
    and "s_streamKey (sh_sess s) < length (s_mem (sh_sess s))" "s_streamKey (sh_sess s) \<noteq> ak"
  obtains fs where "s_viewers (sh_sess (confirm_finish L kdf now err s)) = s_viewers (sh_sess s)"
    "stream_key (sh_sess (confirm_finish L kdf now err s)) = stream_key (sh_sess s)"
    "sh_viewerIDMap (confirm_finish L kdf now err s) = mput i r (sh_viewerIDMap s)"
    "sh_sent (confirm_finish L kdf now err s) = sh_sent s @ fs" "sizes_only fs"
proof -
  obtain ss pr st fs where ss: "ss = sh_sess s \<or> (\<exists>p. ss = snd (EncryptFrame kdf (sh_sess s) p now))"
    and st: "st = sh_sent s @ fs" and fs: "sizes_only fs"
    and fin: "confirm_finish L kdf now err s =
      s\<lparr>sh_handshakes := mput r (hs\<lparr>hs_state := hsComplete, hs_spake := lib_wipe L (hs_spake hs)\<rparr>)
            (mput r (hs\<lparr>hs_state := hsComplete\<rparr>) (sh_handshakes s)),
        sh_viewerIDMap := mput i r (sh_viewerIDMap s), sh_sess := sess_zero ak ss,
        sh_joining := None, sh_sent := st, sh_probes := pr\<rparr>"
    by (rule confirm_finish_eq [OF assms(1,2)])
  have "s_viewers ss = s_viewers (sh_sess s)" "s_streamKey ss = s_streamKey (sh_sess s)"
    "s_mem ss ! s_streamKey (sh_sess s) = s_mem (sh_sess s) ! s_streamKey (sh_sess s)"
    using ss assms(3) by (auto simp: EncryptFrame_keeps)
  then show ?thesis
    using that [of fs] assms(4) st fs unfolding fin by (simp add: stream_key_def sess_zero_def)
qed

text \<open>
  How a viewer comes to be half-joined: the relay loop took the last message of its handshake, registered it
  and sent it the stream key, sealed with its auth key.
\<close>

lemma handle_joining:
  assumes "sh_joining s = None" and "sh_joining (snd (handleSPAKE2 L kdf en r payload s)) \<noteq> None"
  shows "\<exists>hs. mget (sh_handshakes s) r = Some hs \<and> handleSPAKE2 L kdf en r payload s =
    confirm_register L kdf (en_rand en) (en_now en) (en_send en) r payload hs s"
proof -
  have init: "sh_joining (snd (wait_init L err r hs s1)) = sh_joining s1" for err hs s1
    by (cases err; cases "lib_start L (hs_spake hs)"; cases "fst (lib_start L (hs_spake hs))")
      (simp_all add: wait_init_def sendUnicast_def sharer_send_def)
  have msg_b: "sh_joining (snd (wait_msg_b L err r payload hs s1)) = sh_joining s1" for err hs s1
    by (cases err; cases "lib_finish L (hs_spake hs) payload"; cases "fst (lib_finish L (hs_spake hs) payload)")
      (simp_all add: wait_msg_b_def sendUnicast_def sharer_send_def cleanupHandshake_def split: option.split)
  show ?thesis
  proof (cases "mget (sh_handshakes s) r")
    case None
    with assms init show ?thesis
      by (auto simp: handleSPAKE2_def get_handshake_def Let_def split: sum.splits)
  next
    case (Some hs)
    with assms init msg_b show ?thesis
      by (cases "hs_state hs") (simp_all add: handleSPAKE2_def get_handshake_def)
  qed
qed

lemma confirm_joining:
  assumes wf: "sess_wf (sh_sess s)" and none: "sh_joining s = None"
    and j: "sh_joining (snd (confirm_register L kdf rand now err r payload hs s)) = Some (r', i, ak)"
  shows "let s' = snd (confirm_register L kdf rand now err r payload hs s)
    in r' = r \<and> sh_viewerIDMap s' = sh_viewerIDMap s \<and> stream_key (sh_sess s') = stream_key (sh_sess s)
      \<and> (\<exists>p w. sh_sent s' = sh_sent s @ [unicast_msg r (buildKeyDelivery i p)]
           \<and> mget (s_viewers (sh_sess s')) i = Some w
           \<and> Open (auth_key_of (sh_sess s') w) (ep_Nonce p) (ep_Ciphertext p) = Inr (stream_key (sh_sess s)))"
proof -
  obtain x h where x: "lib_verify L (hs_spake hs) payload = (x, h)" by fastforce
  let ?ss = "sh_sess s"
  have clean: "sh_joining (cleanupHandshake L r s1) = sh_joining s1" for s1
    by (simp add: cleanupHandshake_def split: option.split)
  note defs = confirm_register_def Let_def clean none
  have verified: "x = None" using j by (cases x) (simp_all add: defs x)
  obtain secret where secret: "lib_key L h = Inr secret"
    using j by (cases "lib_key L h") (simp_all add: defs x verified)
  obtain d m where d: "DeriveAuthKey kdf secret (s_mem ?ss) = (d, m)" by fastforce
  obtain a where a: "d = Inr a" using j by (cases d) (simp_all add: defs x verified secret d)
  obtain k where k: "a = length (s_mem ?ss)" "auth_key kdf secret = Some k" "m = s_mem ?ss @ [k]"
    using d a by (auto dest: DeriveAuthKey_Inr)
  let ?s1 = "?ss\<lparr>s_mem := m\<rparr>"
  obtain y ss1 where y: "RegisterViewer ?s1 (m ! a) (hs_clientType hs) rand now = (y, ss1)" by fastforce
  obtain info enc where info: "y = Inr (info, enc)"
    using j by (cases y) (auto simp: defs x verified secret d a y)
  have err: "err = None" using j by (cases err) (simp_all add: defs x verified secret d a y info sendUnicast_def sharer_send_def)
  have wf1: "sess_wf ?s1" unfolding k(3) by (rule sess_wf_append [OF wf])
  have op: "\<not> s_closed ?s1" using y info RegisterViewer_closed [of ?s1] by auto
  have lt: "s_streamKey ?ss < length (s_mem ?ss)"
    using sess_wf_stream_key [OF wf] op by (simp add: key_buf_def)
  then have sk: "stream_key ?s1 = stream_key ?ss" by (simp add: stream_key_def k(3) nth_append)
  obtain q where q: "GenerateViewerID rand = Inr q"
    using y info op by (cases "GenerateViewerID rand") (auto simp: RegisterViewer_def Let_def split: if_splits prod.splits sum.splits)
  have "length (m ! a) = 32" using length_auth_key [OF k(2)] k by simp
  from register_delivers_stream_key [OF wf1 op this q, where ct = "hs_clientType hs" and now = now] y info
  have reg: "vi_ID info = q" "Open (m ! a) (ep_Nonce enc) (ep_Ciphertext enc) = Inr (stream_key ?s1)"
    "stream_key ss1 = stream_key ?s1" "map_option (auth_key_of ss1) (mget (s_viewers ss1) q) = Some (m ! a)" by simp_all
  have eq: "snd (confirm_register L kdf rand now err r payload hs s) = (set_hs r (hs\<lparr>hs_spake := h\<rparr>) s)
      \<lparr>sh_sess := ss1, sh_sent := sh_sent s @ [unicast_msg r (buildKeyDelivery (vi_ID info) enc)],
       sh_joining := Some (r, vi_ID info, a)\<rparr>"
    by (simp add: confirm_register_def Let_def x verified secret d a y info err sendUnicast_def sharer_send_def)
  from j have "r' = r" "i = q" unfolding eq using reg(1) by simp_all
  with reg sk show ?thesis unfolding eq by (auto simp: Let_def)
qed

lemma act_joining:
  assumes wf: "sess_wf (sh_sess s)" and none: "sh_joining s = None"
    and j: "sh_joining (sharer_act L kdf (OnRelay en ord (Got data)) s) = Some (r, i, ak)"
  shows "let s' = sharer_act L kdf (OnRelay en ord (Got data)) s
    in length r = ViewerIDLen \<and> sh_viewerIDMap s' = sh_viewerIDMap s \<and> stream_key (sh_sess s') = stream_key (sh_sess s)
      \<and> (\<exists>p w. sh_sent s' = sh_sent s @ [unicast_msg r (buildKeyDelivery i p)]
           \<and> mget (s_viewers (sh_sess s')) i = Some w
           \<and> Open (auth_key_of (sh_sess s') w) (ep_Nonce p) (ep_Ciphertext p) = Inr (stream_key (sh_sess s)))"
proof -
  have act: "sharer_act L kdf (OnRelay en ord (Got data)) s = snd (relay_turn L kdf en ord (Got data) s)"
    using none by simp
  show ?thesis
  proof (cases rule: relay_turn_cases [where L = L and kdf = kdf and en = en and ord = ord and r = "Got data" and s = s])
    case (spake data')
    let ?r = "take ViewerIDLen (drop 1 data')" and ?p = "drop (1 + ViewerIDLen) data'"
    have turn: "\<exists>ps. sharer_act L kdf (OnRelay en ord (Got data)) s = (snd (handleSPAKE2 L kdf en ?r ?p s))\<lparr>sh_probes := ps\<rparr>"
    proof (cases "handleSPAKE2 L kdf en ?r ?p s")
      case (Pair x s1)
      with spake(2) act show ?thesis
        by (cases x; intro exI [of _ "sh_probes (sharer_act L kdf (OnRelay en ord (Got data)) s)"]) (simp_all add: sharer_call_def)
    qed
    then have "sh_joining (snd (handleSPAKE2 L kdf en ?r ?p s)) = Some (r, i, ak)" using j by auto
    moreover from this handle_joining [OF none, of L kdf en ?r ?p] obtain hs where
      "handleSPAKE2 L kdf en ?r ?p s = confirm_register L kdf (en_rand en) (en_now en) (en_send en) ?r ?p hs s" by auto
    moreover have "length ?r = ViewerIDLen" using spake(3) by simp
    ultimately show ?thesis
      using confirm_joining [OF wf none, of L kdf "en_rand en" "en_now en" "en_send en" ?r ?p hs r i ak] turn
      by (auto simp: Let_def simp del: sharer_act.simps)
  next
    case (left data')
    have "sh_joining (handleViewerDisconnect q ord s) = sh_joining s" for q
      by (simp add: handleViewerDisconnect_def split: option.split)
    with left j none act show ?thesis by simp
  qed (use j none act in auto)
qed

text \<open>
  C28. A viewer that joins while another is being revoked is left behind. The relay loop takes the last message of
  a handshake, registers the viewer and sends it one message, its key delivery, which opens with its auth key
  to the stream key of that moment. When a revocation of another viewer runs, and succeeds, before the new one is
  entered in the sharer's map, the new viewer ends up listed and mapped like any other, but the session has
  drawn a new stream key, and no message was addressed to it any more: what it was delivered is the old key.
  (The invariant holds in every state the sharer can reach.)
\<close>

theorem revocation_misses_joining_viewer:
  assumes ok: "sharer_ok L s0" and lib: "wiping_lib L" and input: "inputs_ok (OnRelay en o1 (Got data)) s0"
    and lens: "list_all (\<lambda>q. length q = ViewerIDLen) (map snd (sh_viewerIDMap s0))"
    and s: "s = sharer_act L kdf (OnRelay en o1 (Got data)) s0" "sh_joining s0 = None" "sh_joining s = Some (r, i, ak)"
    and rev: "Revoke errs k rand ord ord' s = (None, s1)" "k \<noteq> i"
      "range_order (mdel k (s_viewers (sh_sess s))) ord" "range_order (mdel k (s_viewers (sh_sess s))) ord'"
    and s': "s' = confirm_finish L kdf now err s1"
  shows "\<exists>p w bs ms. sh_sent s = sh_sent s0 @ [unicast_msg r (buildKeyDelivery i p)]
    \<and> mget (s_viewers (sh_sess s)) i = Some w
    \<and> Open (auth_key_of (sh_sess s) w) (ep_Nonce p) (ep_Ciphertext p) = Inr (stream_key (sh_sess s0))
    \<and> mget (s_viewers (sh_sess s')) i = Some w \<and> mget (sh_viewerIDMap s') i = Some r
    \<and> rand = Some bs \<and> stream_key (sh_sess s') = go_copy 32 bs
    \<and> sh_sent s' = sh_sent s @ ms \<and> (\<forall>m \<in> set ms. \<not> (\<exists>q. m = unicast_msg r q))"
proof -
  have ok_s: "sharer_ok L s" unfolding s(1) by (rule sharer_ok_act [OF ok lib input])
  note wf = sharer_ok_wf [OF ok_s]
  from act_joining [OF sharer_ok_wf [OF ok] s(2), of L kdf en o1 data r i ak, folded s(1), OF s(3), unfolded Let_def]
  obtain p w where del: "length r = ViewerIDLen" "sh_viewerIDMap s = sh_viewerIDMap s0"
    "sh_sent s = sh_sent s0 @ [unicast_msg r (buildKeyDelivery i p)]" "mget (s_viewers (sh_sess s)) i = Some w"
    "Open (auth_key_of (sh_sess s) w) (ep_Nonce p) (ep_Ciphertext p) = Inr (stream_key (sh_sess s0))" by blast
  from Revoke_succeeds [OF rev(1)] obtain bs v where bs: "rand = Some bs"
    and v: "mget (s_viewers (sh_sess s)) k = Some v" and r1: "Revoke (\<lambda>_. None) k (Some bs) ord ord' s = (None, s1)" .
  let ?ss = "snd (RevokeViewer (sh_sess s) k (Some bs) ord)"
  obtain ms where ms: "list_all2 (rekey_of s (go_copy 32 bs)) (reached s ord') ms"
    and "Revoke (\<lambda>_. None) k (Some bs) ord ord' s =
      (None, sharer_call (ViewerRevoked k)
        (s\<lparr>sh_sess := ?ss, sh_viewerIDMap := mdel k (sh_viewerIDMap s), sh_sent := sh_sent s @ ms\<rparr>))"
    by (rule Revoke_sends [OF wf v rev(3,4) refl])
  with r1 have s1: "s1 = sharer_call (ViewerRevoked k)
      (s\<lparr>sh_sess := ?ss, sh_viewerIDMap := mdel k (sh_viewerIDMap s), sh_sent := sh_sent s @ ms\<rparr>)" by simp
  have op: "\<not> s_closed (sh_sess s)" using wf v by (auto simp: sess_wf_def)
  then have "s_streamKey (sh_sess s) \<noteq> length (s_mem (sh_sess s))"
    using sess_wf_stream_key [OF wf] by (auto simp: key_buf_def)
  note keeps = RevokeViewer_keeps [OF wf v rev(3) this, of bs]
  have open1: "\<not> s_closed (sh_sess s1)"
    using op by (simp add: s1 RevokeViewer_rotates [OF wf v rev(3)] rekeyed_def revoked_state_def)
  have ok1: "sharer_ok L s1" using sharer_ok_Revoke [OF ok_s rev(3), of errs rand ord'] rev(1) by simp
  have j1: "sh_joining s1 = Some (r, i, ak)" by (simp add: s1 s(3))
  obtain hs where hs: "mget (sh_handshakes s1) r = Some hs" "s_streamKey (sh_sess s1) < length (s_mem (sh_sess s1))"
    "s_streamKey (sh_sess s1) \<noteq> ak" by (rule joining_key_apart [OF ok1 j1 open1])
  have same: "sh_sess s1 = ?ss" "sh_sent s1 = sh_sent s @ ms" by (simp_all add: s1)
  obtain fs where
    fin: "s_viewers (sh_sess s') = s_viewers ?ss" "stream_key (sh_sess s') = stream_key ?ss"
      "sh_viewerIDMap s' = mput i r (sh_viewerIDMap s1)" "sh_sent s' = sh_sent s @ ms @ fs"
    and fs: "sizes_only fs"
    using confirm_finish_keeps [OF j1 hs, of L kdf now err] unfolding s' same append_assoc by blast
  have "r \<notin> set (map snd (sh_viewerIDMap s))"
    using ok_s s(3) by (auto simp: sharer_ok_def tables_ok_def in_state_def list_all_iff)
  moreover have "list_all (\<lambda>q. length q = ViewerIDLen) (r # map snd (sh_viewerIDMap s))" using lens del by simp
  ultimately have "unicast_msg r q \<notin> set (ms @ fs)" for q
    using rekeys_avoid [OF ms] fs by (auto simp: list_all_iff unicast_msg_def)
  with fin keeps del rev(2) bs show ?thesis
    by (intro exI [of _ p] exI [of _ w] exI [of _ bs] exI [of _ "ms @ fs"]) auto
qed

text \<open>A third viewer confirms to a sharer with two, of which the first is revoked in between.\<close>

definition ex_C :: bytes where "ex_C = replicate 6 67"

definition ex_third :: "bytes Sharer" where
  "ex_third = ex_both\<lparr>sh_handshakes := (ex_C, ex_ctx hsWaitConfirmB [1] ex_C) # sh_handshakes ex_both\<rparr>"

definition ex_confirms :: sharer_action where
  "ex_confirms = OnRelay ex_env [replicate 6 97, replicate 6 98] (Got (MsgTypeSPAKE2 # ex_C @ [68]))"

lemma ex_apart: "replicate 6 97 \<noteq> replicate 6 (99 :: byte)" "replicate 6 98 \<noteq> replicate 6 (99 :: byte)"
  by (simp_all add: numeral_eq_Suc)

lemma ex_third_ok: "sharer_ok ex_spake ex_third" "inputs_ok ex_confirms ex_third"
proof -
  show "sharer_ok ex_spake ex_third"
    using ex_session_wf ex_session_clean
    by (auto simp: sharer_ok_def secrets_ok_def tables_ok_def ex_third_def ex_both_def NewSharer_def joining_buf_def
        in_state_def ex_ctx_def ex_A_def ex_B_def ex_C_def numeral_eq_Suc spent_def ex_spake_def all_zero_def split: if_splits)
  show "inputs_ok ex_confirms ex_third"
    by (simp add: ex_confirms_def ex_third_def ex_both_def NewSharer_def range_order_def fresh_id_def ex_env_def ex_draws
        ex_session_def ex_apart)
qed

lemma ex_third_joining:
  "sh_joining (sharer_act ex_spake ex_kdf ex_confirms ex_third) = Some (ex_C, replicate 6 99, 3)"
  "s_viewers (sh_sess (sharer_act ex_spake ex_kdf ex_confirms ex_third)) =
    [(replicate 6 97, ex_viewer (replicate 6 97) 1), (replicate 6 98, ex_viewer (replicate 6 98) 2),
     (replicate 6 99, ex_viewer (replicate 6 99) 4)]"
proof -
  let ?ak = "go_copy 32 (AuthKeyInfo @ [1])"
  have mem: "s_mem ex_session = [replicate 32 7, replicate 32 8, replicate 32 9]" by (simp add: ex_session_def)
  have d: "DeriveAuthKey ex_kdf [1] [replicate 32 7, replicate 32 8, replicate 32 9]
      = (Inr 3, [replicate 32 7, replicate 32 8, replicate 32 9, ?ak])"
    by (simp add: DeriveAuthKey_cases ex_ak)
  have "\<exists>enc ss1. RegisterViewer (ex_session\<lparr>s_mem := [replicate 32 7, replicate 32 8, replicate 32 9, ?ak]\<rparr>) ?ak
      ClientTypeCLI (replicate 6 (Some 2)) 0
      = (Inr (\<lparr>vi_ID = replicate 6 99, vi_JoinTime = 0, vi_ClientType = ClientTypeCLI\<rparr>, enc), ss1)
    \<and> s_viewers ss1 = [(replicate 6 97, ex_viewer (replicate 6 97) 1), (replicate 6 98, ex_viewer (replicate 6 98) 2),
       (replicate 6 99, ex_viewer (replicate 6 99) 4)]"
    by (subst RegisterViewer_open [where i = "replicate 6 99"])
      (simp_all add: ex_session_def ex_draws Let_def ex_viewer_def ex_apart)
  then obtain enc ss1 where reg: "RegisterViewer (ex_session\<lparr>s_mem := [replicate 32 7, replicate 32 8, replicate 32 9, ?ak]\<rparr>) ?ak
      ClientTypeCLI (replicate 6 (Some 2)) 0
      = (Inr (\<lparr>vi_ID = replicate 6 99, vi_JoinTime = 0, vi_ClientType = ClientTypeCLI\<rparr>, enc), ss1)"
    and vs: "s_viewers ss1 = [(replicate 6 97, ex_viewer (replicate 6 97) 1), (replicate 6 98, ex_viewer (replicate 6 98) 2),
       (replicate 6 99, ex_viewer (replicate 6 99) 4)]" by blast
  have "length ex_C = ViewerIDLen" "sh_joining ex_third = None"
    by (simp_all add: ex_C_def ex_third_def ex_both_def NewSharer_def)
  note turn = spake_turn [OF this]
  show "sh_joining (sharer_act ex_spake ex_kdf ex_confirms ex_third) = Some (ex_C, replicate 6 99, 3)"
    "s_viewers (sh_sess (sharer_act ex_spake ex_kdf ex_confirms ex_third)) =
      [(replicate 6 97, ex_viewer (replicate 6 97) 1), (replicate 6 98, ex_viewer (replicate 6 98) 2),
       (replicate 6 99, ex_viewer (replicate 6 99) 4)]"
    unfolding ex_confirms_def turn
    by (simp_all add: ex_third_def ex_both_def NewSharer_def hs_step_defs ex_spake_def ex_env_def ex_ctx_def set_hs_def
        confirm_register_def mem d reg vs)
qed

theorem revocation_misses_joining_viewer_witness:
  "let s = sharer_act ex_spake ex_kdf ex_confirms ex_third;
       s' = confirm_finish ex_spake ex_kdf 0 None
         (snd (Revoke (\<lambda>_. None) (replicate 6 97) (Some [5]) [replicate 6 98, replicate 6 99] [replicate 6 98, replicate 6 99] s))
   in \<exists>p w ms. sh_sent s = [unicast_msg ex_C (buildKeyDelivery (replicate 6 99) p)]
    \<and> Open (auth_key_of (sh_sess s) w) (ep_Nonce p) (ep_Ciphertext p) = Inr (replicate 32 7)
    \<and> mget (s_viewers (sh_sess s')) (replicate 6 99) = Some w \<and> mget (sh_viewerIDMap s') (replicate 6 99) = Some ex_C
    \<and> stream_key (sh_sess s') = go_copy 32 [5]
    \<and> sh_sent s' = sh_sent s @ ms \<and> (\<forall>m \<in> set ms. \<not> (\<exists>q. m = unicast_msg ex_C q))"
proof -
  let ?s = "sharer_act ex_spake ex_kdf ex_confirms ex_third" and ?ord = "[replicate 6 98, replicate 6 (99 :: byte)]"
  have ok: "sharer_ok ex_spake ?s" by (rule sharer_ok_act [OF ex_third_ok(1) ex_wiping ex_third_ok(2)])
  have v: "mget (s_viewers (sh_sess ?s)) (replicate 6 97) = Some (ex_viewer (replicate 6 97) 1)"
    and ord: "range_order (mdel (replicate 6 97) (s_viewers (sh_sess ?s))) ?ord"
    by (simp_all add: ex_third_joining(2) range_order_def numeral_eq_Suc)
  obtain s1 where rev: "Revoke (\<lambda>_. None) (replicate 6 97) (Some [5]) ?ord ?ord ?s = (None, s1)"
    using Revoke_sends [OF sharer_ok_wf [OF ok] v ord ord, of "\<lambda>_. None" "[5]"] by blast
  have lens: "list_all (\<lambda>q. length q = ViewerIDLen) (map snd (sh_viewerIDMap ex_third))"
    and before: "sh_sent ex_third = []" "stream_key (sh_sess ex_third) = replicate 32 7" "sh_joining ex_third = None"
    by (simp_all add: ex_third_def ex_both_def NewSharer_def ex_session_def stream_key_def)
  from revocation_misses_joining_viewer [OF ex_third_ok(1) ex_wiping ex_third_ok(2) [unfolded ex_confirms_def] lens
      refl [of ?s, unfolded ex_confirms_def] before(3) ex_third_joining(1) [unfolded ex_confirms_def] rev [unfolded ex_confirms_def] ex_apart(1)
      ord [unfolded ex_confirms_def] ord [unfolded ex_confirms_def] refl, of 0 None]
  show ?thesis using before rev by (auto simp: Let_def ex_confirms_def simp del: sharer_act.simps)
qed

text \<open>
  When the relay reports that a viewer left, that viewer is removed and no other: it is
  unlisted and unmapped, its auth key is zeroed, and the report \<open>ViewerLeft\<close> is the only other
  effect. It does not matter in which order Go visits the map, and a relay ID that is not in it
  changes nothing.
\<close>

theorem disconnect_removes_its_viewer:
  assumes ok: "sharer_ok L s" and i: "mget (sh_viewerIDMap s) i = Some r" "i \<noteq> []"
    and v: "mget (s_viewers (sh_sess s)) i = Some v"
    and ord: "range_order (sh_viewerIDMap s) ord"
    and q: "q \<notin> set (map snd (sh_viewerIDMap s))"
  shows "let s' = handleViewerDisconnect r ord s
    in listed s' = listed s - {i} \<and> sh_viewerIDMap s' = mdel i (sh_viewerIDMap s)
      \<and> all_zero (s_mem (sh_sess s') ! v_authKey v) \<and> sh_sent s' = sh_sent s
      \<and> sh_probes s' = sh_probes s @ [ViewerLeft i] \<and> sh_handshakes s' = sh_handshakes s
      \<and> handleViewerDisconnect q ord s = s"
proof -
  have "distinct (map snd (sh_viewerIDMap s))" using ok by (simp add: sharer_ok_def tables_ok_def)
  from find_relay [OF this i(1) ord] i(2)
  have "handleViewerDisconnect r ord s = sharer_call (ViewerLeft i)
      (s\<lparr>sh_viewerIDMap := mdel i (sh_viewerIDMap s), sh_sess := RemoveViewer (sh_sess s) i\<rparr>)"
    by (simp add: handleViewerDisconnect_def)
  moreover have "v_authKey v < length (s_mem (sh_sess s))"
    using sess_wf_viewer [OF sharer_ok_wf [OF ok] map_of_SomeD [OF v]] by (simp add: key_buf_def)
  ultimately show ?thesis
    using find_no_relay [OF q, of ord]
    by (simp add: handleViewerDisconnect_def listed_def RemoveViewer_def v sharer_call_def)
qed

theorem disconnect_removes_its_viewer_witness:
  "let s' = handleViewerDisconnect ex_A [replicate 6 98, replicate 6 97] ex_both
    in listed s' = listed ex_both - {replicate 6 97}
      \<and> sh_viewerIDMap s' = mdel (replicate 6 97) (sh_viewerIDMap ex_both)
      \<and> all_zero (s_mem (sh_sess s') ! v_authKey (ex_viewer (replicate 6 97) 1)) \<and> sh_sent s' = sh_sent ex_both
      \<and> sh_probes s' = sh_probes ex_both @ [ViewerLeft (replicate 6 97)]
      \<and> sh_handshakes s' = sh_handshakes ex_both
      \<and> handleViewerDisconnect [1] [replicate 6 98, replicate 6 97] ex_both = ex_both"
  by (rule disconnect_removes_its_viewer [OF ex_both_ok])
    (auto simp: ex_both_def NewSharer_def ex_session_def range_order_def ex_A_def ex_B_def
      numeral_eq_Suc)

theorem revocation_reaches_the_others_witness:
  "case Revoke (\<lambda>_. None) (replicate 6 97) (Some [5]) [replicate 6 98] [replicate 6 98] ex_both of (e, s') \<Rightarrow>
    e = None \<and> listed s' = listed ex_both - {replicate 6 97}
    \<and> sh_viewerIDMap s' = mdel (replicate 6 97) (sh_viewerIDMap ex_both)
    \<and> stream_key (sh_sess s') = go_copy 32 [5]
    \<and> sh_probes s' = sh_probes ex_both @ [ViewerRevoked (replicate 6 97)]
    \<and> set (reached ex_both [replicate 6 98]) = listed s' \<inter> fst ` set (sh_viewerIDMap s')
    \<and> (\<exists>ms. sh_sent s' = sh_sent ex_both @ ms
         \<and> list_all2 (rekey_of ex_both (stream_key (sh_sess s'))) (reached ex_both [replicate 6 98]) ms)"
  by (rule revocation_reaches_the_others [OF sharer_ok_wf [OF ex_both_ok], where v = "ex_viewer (replicate 6 97) 1"])
    (simp_all add: ex_both_def NewSharer_def ex_session_def range_order_def)

end
