(* ===== verification/Viewer.thy ===== *)
theory Viewer
  imports Crypto
begin

text \<open>
  \<open>internal/viewer/viewer.go\<close>: a viewer's side of a session, from the join acknowledgement
  over the SPAKE2 handshake to the stream. What \<open>relay.Recv\<close> returns is the input, a list for a
  loop; readings of the clock and the results of \<open>relay.Send\<close> are arguments; output, probe
  calls, resize calls and sent messages are appended to logs. Keys are addresses into
  \<open>vw_mem\<close>, as in the session.
\<close>

section \<open>State\<close>

datatype viewer_error =
    ErrSessionNotFound
  | ErrSessionFull
  | ErrHandshakeTimeout
  | ErrSessionEnded
  | ErrConnectionLost
  | ErrAccessRevoked
  | ErrEpochExpired
  | WaitingForJoinAck string
  | ReceivingHandshakeMessage string
  | CreatingSPAKE2 crypto_error
  | SendFailed string string
  | SPAKE2Error string
  | SPAKE2Failed string string
  | KeyDeliveryTooShort nat
  | DerivingViewerAuthKey crypto_error
  | DecryptingStreamKey crypto_error
  | RekeyTooShort nat
  | RekeyIDMismatch bytes bytes
  | DecryptingRekey crypto_error
  | FrameTooShort nat
  | ReplayedNonce u64 u64
  | DerivingFrameKey crypto_error
  | DecryptingFrame crypto_error

datatype viewer_probe =
    Connecting
  | HandshakeCompleted bytes
  | FrameDecrypted u64 nat
  | StreamKeyRotated
  | AccessRevoked
  | SessionEnded string
  | HandshakeFailed viewer_error
  | HeartbeatSent
  | TerminalResized u16 u16

record TermSize =
  Cols :: u16
  Rows :: u16

record Viewer =
  vw_code :: bytes
  vw_streamKey :: "addr option"
  vw_authKey :: "addr option"
  vw_viewerID :: bytes
  vw_clientTypeByte :: byte
  vw_lastNonce :: u64
  vw_consecutiveFailures :: nat
  vw_sharerSize :: TermSize
  vw_hasResize :: bool
  vw_currentEpoch :: u64
  vw_epochTransitionTime :: time
  vw_epochInitialized :: bool
  vw_mem :: mem
  vw_output :: "bytes list"
  vw_probes :: "viewer_probe list"
  vw_resizes :: "(u16 \<times> u16) list"
  vw_sent :: "bytes list"

definition NewViewer :: "bytes \<Rightarrow> byte \<Rightarrow> Viewer" where
  "NewViewer code clientType =
     \<lparr>vw_code = code, vw_streamKey = None, vw_authKey = None, vw_viewerID = [],
      vw_clientTypeByte = clientType, vw_lastNonce = 0, vw_consecutiveFailures = 0,
      vw_sharerSize = \<lparr>Cols = 0, Rows = 0\<rparr>, vw_hasResize = False, vw_currentEpoch = 0,
      vw_epochTransitionTime = 0, vw_epochInitialized = False, vw_mem = [], vw_output = [],
      vw_probes = [], vw_resizes = [], vw_sent = []\<rparr>"

definition SetResizeHandler :: "Viewer \<Rightarrow> Viewer" where
  "SetResizeHandler v = v\<lparr>vw_hasResize := True\<rparr>"

definition SharerSize :: "Viewer \<Rightarrow> TermSize" where
  "SharerSize v = vw_sharerSize v"

text \<open>A nil key reads as the empty slice.\<close>

definition key_bytes :: "mem \<Rightarrow> addr option \<Rightarrow> bytes" where
  "key_bytes m k = (case k of None \<Rightarrow> [] | Some a \<Rightarrow> m ! a)"

definition probe_call :: "viewer_probe \<Rightarrow> Viewer \<Rightarrow> Viewer" where
  "probe_call p v = v\<lparr>vw_probes := vw_probes v @ [p]\<rparr>"

section \<open>The handshake\<close>

text \<open>\<open>None\<close> where the loop still waits for the next message.\<close>

fun waitForJoinAck :: "recv_result list \<Rightarrow> (viewer_error option \<times> recv_result list) option" where
  "waitForJoinAck [] = None"
| "waitForJoinAck (RecvFailed e done # ins) =
     Some (Some (if done then ErrHandshakeTimeout else WaitingForJoinAck e), ins)"
| "waitForJoinAck (Got data # ins) =
     (case data of
        b # c # _ \<Rightarrow>
          if b \<noteq> MsgTypeControl then waitForJoinAck ins
          else if c = CtrlJoinAck then Some (None, ins)
          else if c = CtrlSessionNotFound then Some (Some ErrSessionNotFound, ins)
          else if c = CtrlSessionFull then Some (Some ErrSessionFull, ins)
          else waitForJoinAck ins
      | _ \<Rightarrow> waitForJoinAck ins)"

fun recvHandshakeMsg :: "recv_result list \<Rightarrow> ((viewer_error + bytes) \<times> recv_result list) option" where
  "recvHandshakeMsg [] = None"
| "recvHandshakeMsg (RecvFailed e done # ins) =
     Some (Inl (if done then ErrHandshakeTimeout else ReceivingHandshakeMessage e), ins)"
| "recvHandshakeMsg (Got data # ins) =
     (case data of
        [] \<Rightarrow> recvHandshakeMsg ins
      | b # rest \<Rightarrow>
          if b = MsgTypeStream then recvHandshakeMsg ins
          else if b = MsgTypeTermSize then recvHandshakeMsg ins
          else if b = MsgTypePong then recvHandshakeMsg ins
          else if b = MsgTypeControl then
            (case rest of
               c # _ \<Rightarrow>
                 if c = CtrlSessionEnded then Some (Inl ErrSessionEnded, ins)
                 else if c = CtrlSessionNotFound then Some (Inl ErrSessionNotFound, ins)
                 else recvHandshakeMsg ins
             | [] \<Rightarrow> recvHandshakeMsg ins)
          else Some (Inr data, ins))"

text \<open>\<open>Send\<close> with its result: the message counts as sent when there is no error.\<close>

definition relay_send :: "string \<Rightarrow> string option \<Rightarrow> bytes \<Rightarrow> Viewer \<Rightarrow> viewer_error option \<times> Viewer" where
  "relay_send what err msg v =
     (case err of
        Some e \<Rightarrow> (Some (SendFailed what e), v)
      | None \<Rightarrow> (None, v\<lparr>vw_sent := vw_sent v @ [msg]\<rparr>))"

definition sendSPAKE2 :: "string \<Rightarrow> string option \<Rightarrow> bytes \<Rightarrow> Viewer \<Rightarrow> viewer_error option \<times> Viewer" where
  "sendSPAKE2 what err payload v = relay_send what err (MsgTypeSPAKE2 # payload) v"

text \<open>
  The bytes \<open>SessionKey\<close> returns belong to the SPAKE2 state; the deferred \<open>ZeroBytes\<close> wipes them
  there. \<open>Open\<close> returns a new buffer.
\<close>

definition processKeyDelivery ::
  "'sp spake_lib \<Rightarrow> kdf \<Rightarrow> 'sp \<Rightarrow> bytes \<Rightarrow> Viewer \<Rightarrow> viewer_error option \<times> 'sp \<times> Viewer" where
  "processKeyDelivery L kdf h delivery v =
     (if length delivery < ViewerIDLen + NonceLen + 1 then
        (Some (KeyDeliveryTooShort (length delivery)), h, v)
      else
        let v1 = v\<lparr>vw_viewerID := take ViewerIDLen delivery\<rparr>;
            nonce = take NonceLen (drop ViewerIDLen delivery);
            ciphertext = drop (ViewerIDLen + NonceLen) delivery
        in case spake_SessionKey L h of
             Inl e \<Rightarrow> (Some (SPAKE2Failed ''session key'' e), h, v1)
           | Inr spakeSecret \<Rightarrow>
               (case DeriveAuthKey kdf spakeSecret (vw_mem v1) of
                  (Inl e, m1) \<Rightarrow> (Some (DerivingViewerAuthKey e), lib_wipe L h, v1\<lparr>vw_mem := m1\<rparr>)
                | (Inr ak, m1) \<Rightarrow>
                    (case Open (m1 ! ak) nonce ciphertext of
                       Inl e \<Rightarrow> (Some (DecryptingStreamKey e), lib_wipe L h, v1\<lparr>vw_mem := zero_at ak m1\<rparr>)
                     | Inr k \<Rightarrow>
                         (None, lib_wipe L h,
                          v1\<lparr>vw_mem := m1 @ [k], vw_streamKey := Some (length m1), vw_authKey := Some ak\<rparr>))))"

text \<open>
  \<open>handshake\<close> after \<open>NewSPAKE2Viewer\<close>: the results of the three sends are the first three
  elements of \<open>errs\<close>.
\<close>

definition spake_exchange ::
  "'sp spake_lib \<Rightarrow> kdf \<Rightarrow> (nat \<Rightarrow> string option) \<Rightarrow> 'sp \<Rightarrow> Viewer \<Rightarrow> recv_result list
    \<Rightarrow> (viewer_error option \<times> 'sp \<times> Viewer \<times> recv_result list) option" where
  "spake_exchange L kdf errs h0 v0 ins0 =
     (case relay_send ''SPAKE2 init'' (errs 0) [MsgTypeSPAKE2, vw_clientTypeByte v0] v0 of
        (Some e, v1) \<Rightarrow> Some (Some e, h0, v1, ins0)
      | (None, v1) \<Rightarrow>
      (case recvHandshakeMsg ins0 of
         None \<Rightarrow> None
       | Some (Inl e, ins1) \<Rightarrow> Some (Some e, h0, v1, ins1)
       | Some (Inr msgA, ins1) \<Rightarrow>
      (case spake_Exchange L h0 msgA of
         (Inl e, h1) \<Rightarrow>
           Some (Some (SPAKE2Failed ''exchange'' e), h1,
                 probe_call (HandshakeFailed (SPAKE2Error e)) v1, ins1)
       | (Inr msgB, h1) \<Rightarrow>
      (case sendSPAKE2 ''msg_b'' (errs 1) msgB v1 of
         (Some e, v2) \<Rightarrow> Some (Some e, h1, v2, ins1)
       | (None, v2) \<Rightarrow>
      (case recvHandshakeMsg ins1 of
         None \<Rightarrow> None
       | Some (Inl e, ins2) \<Rightarrow> Some (Some e, h1, v2, ins2)
       | Some (Inr confirmA, ins2) \<Rightarrow>
      (case spake_Confirm L h1 confirmA of
         (Inl e, h2) \<Rightarrow>
           Some (Some (SPAKE2Failed ''confirm'' e), h2,
                 probe_call (HandshakeFailed (SPAKE2Error e)) v2, ins2)
       | (Inr confirmB, h2) \<Rightarrow>
      (case sendSPAKE2 ''confirm_b'' (errs 2) confirmB v2 of
         (Some e, v3) \<Rightarrow> Some (Some e, h2, v3, ins2)
       | (None, v3) \<Rightarrow>
      (case recvHandshakeMsg ins2 of
         None \<Rightarrow> None
       | Some (Inl e, ins3) \<Rightarrow> Some (Some e, h2, v3, ins3)
       | Some (Inr delivery, ins3) \<Rightarrow>
      (case processKeyDelivery L kdf h2 delivery v3 of
         (Some e, h3, v4) \<Rightarrow> Some (Some e, h3, probe_call (HandshakeFailed e) v4, ins3)
       | (None, h3, v4) \<Rightarrow>
           Some (None, h3, probe_call (HandshakeCompleted (vw_viewerID v4)) v4, ins3))))))))))"

text \<open>The whole of \<open>handshake\<close>; the SPAKE2 state, where there was one, as \<open>Destroy\<close> left it.\<close>

definition handshake ::
  "'sp spake_lib \<Rightarrow> kdf \<Rightarrow> (nat \<Rightarrow> string option) \<Rightarrow> Viewer \<Rightarrow> recv_result list
    \<Rightarrow> (viewer_error option \<times> 'sp option \<times> Viewer \<times> recv_result list) option" where
  "handshake L kdf errs v ins =
     (case waitForJoinAck ins of
        None \<Rightarrow> None
      | Some (Some e, ins1) \<Rightarrow> Some (Some e, None, v, ins1)
      | Some (None, ins1) \<Rightarrow>
          (case NewSPAKE2Viewer L (vw_code v) of
             Inl e \<Rightarrow> Some (Some (CreatingSPAKE2 e), None, v, ins1)
           | Inr h \<Rightarrow>
               (case spake_exchange L kdf errs h v ins1 of
                  None \<Rightarrow> None
                | Some (r, h1, v1, ins2) \<Rightarrow> Some (r, Some (spake_Destroy L h1), v1, ins2))))"

section \<open>The stream\<close>

definition validateEpoch :: "time \<Rightarrow> u64 \<Rightarrow> Viewer \<Rightarrow> viewer_error option \<times> Viewer" where
  "validateEpoch now epoch v =
     (if \<not> vw_epochInitialized v then
        (None, v\<lparr>vw_currentEpoch := epoch, vw_epochTransitionTime := now, vw_epochInitialized := True\<rparr>)
      else if vw_currentEpoch v \<le> epoch then
        (None, if vw_currentEpoch v < epoch
               then v\<lparr>vw_currentEpoch := epoch, vw_epochTransitionTime := now\<rparr> else v)
      else if epoch = vw_currentEpoch v - 1
           \<and> time_sub now (vw_epochTransitionTime v) \<le> int EpochGracePeriodSec * second then (None, v)
      else (Some ErrEpochExpired, v))"

definition frame_epoch :: "bytes \<Rightarrow> u64" where
  "frame_epoch frame = get_be (take 8 (drop 1 frame))"

definition frame_nonce :: "bytes \<Rightarrow> bytes" where
  "frame_nonce frame = take NonceLen (drop 9 frame)"

definition frame_ciphertext :: "bytes \<Rightarrow> bytes" where
  "frame_ciphertext frame = drop (9 + NonceLen) frame"

definition decryptAndWrite :: "kdf \<Rightarrow> time \<Rightarrow> bytes \<Rightarrow> Viewer \<Rightarrow> viewer_error option \<times> Viewer" where
  "decryptAndWrite kdf now frame v =
     (if length frame < 1 + 8 + NonceLen + GCMTagLen then (Some (FrameTooShort (length frame)), v)
      else
        let epoch = frame_epoch frame
        in case validateEpoch now epoch v of
             (Some e, v1) \<Rightarrow> (Some e, v1)
           | (None, v1) \<Rightarrow>
               let nonce = frame_nonce frame;
                   ciphertext = frame_ciphertext frame;
                   nonceVal = nonce_val nonce
               in if nonceVal \<le> vw_lastNonce v1 then (Some (ReplayedNonce nonceVal (vw_lastNonce v1)), v1)
                  else
                    let v2 = v1\<lparr>vw_lastNonce := nonceVal\<rparr>
                    in case DeriveEpochKey kdf (key_bytes (vw_mem v2) (vw_streamKey v2)) epoch (vw_mem v2) of
                         (Inl e, m1) \<Rightarrow> (Some (DerivingFrameKey e), v2\<lparr>vw_mem := m1\<rparr>)
                       | (Inr ek, m1) \<Rightarrow>
                           (case Open (m1 ! ek) nonce ciphertext of
                              Inl e \<Rightarrow> (Some (DecryptingFrame e), v2\<lparr>vw_mem := zero_at ek m1\<rparr>)
                            | Inr plaintext \<Rightarrow>
                                (None, probe_call (FrameDecrypted epoch (length plaintext))
                                   (v2\<lparr>vw_mem := zero_at ek m1, vw_output := vw_output v2 @ [plaintext]\<rparr>))))"

definition decryptAndApplySize :: "kdf \<Rightarrow> time \<Rightarrow> bytes \<Rightarrow> Viewer \<Rightarrow> Viewer" where
  "decryptAndApplySize kdf now frame v =
     (if length frame < 1 + 8 + NonceLen + GCMTagLen + 4 then v
      else
        let epoch = frame_epoch frame
        in case validateEpoch now epoch v of
             (Some e, v1) \<Rightarrow> v1
           | (None, v1) \<Rightarrow>
               let nonce = frame_nonce frame;
                   ciphertext = frame_ciphertext frame;
                   nonceVal = nonce_val nonce
               in if nonceVal \<le> vw_lastNonce v1 then v1
                  else
                    case DeriveEpochKey kdf (key_bytes (vw_mem v1) (vw_streamKey v1)) epoch (vw_mem v1) of
                      (Inl e, m1) \<Rightarrow> v1\<lparr>vw_mem := m1\<rparr>
                    | (Inr ek, m1) \<Rightarrow>
                        (case Open (m1 ! ek) nonce ciphertext of
                           Inl e \<Rightarrow> v1\<lparr>vw_mem := zero_at ek m1\<rparr>
                         | Inr plaintext \<Rightarrow>
                             let v2 = v1\<lparr>vw_lastNonce := nonceVal, vw_mem := zero_at ek m1\<rparr>
                             in if length plaintext < 4 then v2
                                else
                                  let cols = get_be (take 2 plaintext);
                                      rows = get_be (take 2 (drop 2 plaintext));
                                      v3 = probe_call (TerminalResized cols rows)
                                             (v2\<lparr>vw_sharerSize := \<lparr>Cols = cols, Rows = rows\<rparr>\<rparr>)
                                  in if vw_hasResize v3 then v3\<lparr>vw_resizes := vw_resizes v3 @ [(cols, rows)]\<rparr>
                                     else v3))"

definition zero_key :: "addr option \<Rightarrow> mem \<Rightarrow> mem" where
  "zero_key k m = (case k of None \<Rightarrow> m | Some a \<Rightarrow> zero_at a m)"

definition processRekey :: "bytes \<Rightarrow> Viewer \<Rightarrow> viewer_error option \<times> Viewer" where
  "processRekey data v =
     (if length data < ViewerIDLen + NonceLen + GCMTagLen + 1 then (Some (RekeyTooShort (length data)), v)
      else
        let vid = take ViewerIDLen data
        in if vid \<noteq> vw_viewerID v then (Some (RekeyIDMismatch vid (vw_viewerID v)), v)
           else
             let nonce = take NonceLen (drop ViewerIDLen data);
                 ciphertext = drop (ViewerIDLen + NonceLen) data
             in case Open (key_bytes (vw_mem v) (vw_authKey v)) nonce ciphertext of
                  Inl e \<Rightarrow> (Some (DecryptingRekey e), v)
                | Inr kPrime \<Rightarrow>
                    (None, probe_call StreamKeyRotated
                       (v\<lparr>vw_mem := zero_key (vw_streamKey v) (vw_mem v @ [kPrime]),
                          vw_streamKey := Some (length (vw_mem v)), vw_consecutiveFailures := 0\<rparr>)))"

text \<open>One turn of \<open>streamLoop\<close>: it goes on, or returns an error or nil.\<close>

datatype loop_end = Running | Returned "viewer_error option"

definition stream_turn :: "kdf \<Rightarrow> time \<Rightarrow> recv_result \<Rightarrow> Viewer \<Rightarrow> loop_end \<times> Viewer" where
  "stream_turn kdf now r v =
     (case r of
        RecvFailed e done \<Rightarrow> (Returned (if done then None else Some ErrConnectionLost), v)
      | Got data \<Rightarrow>
          (case data of
             [] \<Rightarrow> (Running, v)
           | b # rest \<Rightarrow>
               if b = MsgTypeStream then
                 (case decryptAndWrite kdf now data v of
                    (Some e, v1) \<Rightarrow>
                      if e \<noteq> ErrEpochExpired then
                        (let v2 = v1\<lparr>vw_consecutiveFailures := vw_consecutiveFailures v1 + 1\<rparr>
                         in if ViewerRevocationFailureThreshold \<le> vw_consecutiveFailures v2
                            then (Returned (Some ErrAccessRevoked), probe_call AccessRevoked v2)
                            else (Running, v2))
                      else (Running, v1)
                  | (None, v1) \<Rightarrow> (Running, v1\<lparr>vw_consecutiveFailures := 0\<rparr>))
               else if b = MsgTypeTermSize then (Running, decryptAndApplySize kdf now data v)
               else if b = MsgTypeControl then
                 (if 2 \<le> length data \<and> data ! 1 = CtrlSessionEnded
                  then (Returned (Some ErrSessionEnded), probe_call (SessionEnded ''sharer disconnected'') v)
                  else (Running, v))
               else if b = MsgTypePong then (Running, v)
               else (Running, snd (processRekey data v))))"

fun streamLoop :: "kdf \<Rightarrow> (time \<times> recv_result) list \<Rightarrow> Viewer \<Rightarrow> loop_end \<times> Viewer" where
  "streamLoop kdf [] v = (Running, v)"
| "streamLoop kdf ((now, r) # ins) v =
     (case stream_turn kdf now r v of
        (Running, v1) \<Rightarrow> streamLoop kdf ins v1
      | (Returned e, v1) \<Rightarrow> (Returned e, v1))"

definition zeroKeys :: "Viewer \<Rightarrow> Viewer" where
  "zeroKeys v = v\<lparr>vw_mem := zero_key (vw_authKey v) (zero_key (vw_streamKey v) (vw_mem v))\<rparr>"

text \<open>One tick of the heartbeat goroutine: whether it goes on.\<close>

definition heartbeat_tick :: "string option \<Rightarrow> Viewer \<Rightarrow> bool \<times> Viewer" where
  "heartbeat_tick err v =
     (case relay_send ''heartbeat'' err [MsgTypeHeartbeat] v of
        (Some e, v1) \<Rightarrow> (False, v1)
      | (None, v1) \<Rightarrow> (True, probe_call HeartbeatSent v1))"

text \<open>
  \<open>Run\<close>: the messages received, with the clock at each; the handshake takes those it needs and
  the stream loop goes on with the rest. \<open>None\<close> or \<open>Running\<close> while a loop waits; the keys are
  zeroed when it returns.
\<close>

definition Run ::
  "'sp spake_lib \<Rightarrow> kdf \<Rightarrow> (nat \<Rightarrow> string option) \<Rightarrow> (time \<times> recv_result) list \<Rightarrow> Viewer
    \<Rightarrow> (loop_end \<times> Viewer) option" where
  "Run L kdf errs ins v =
     (case handshake L kdf errs (probe_call Connecting v) (map snd ins) of
        None \<Rightarrow> None
      | Some (Some e, _, v1, _) \<Rightarrow> Some (Returned (Some e), zeroKeys v1)
      | Some (None, _, v1, rest) \<Rightarrow>
          (case streamLoop kdf (drop (length ins - length rest) ins) v1 of
             (Running, v2) \<Rightarrow> Some (Running, v2)
           | (Returned e, v2) \<Rightarrow> Some (Returned e, zeroKeys v2)))"

section \<open>Key buffers\<close>

definition vw_live :: "Viewer \<Rightarrow> addr list" where
  "vw_live v = (case vw_streamKey v of None \<Rightarrow> [] | Some a \<Rightarrow> [a]) @ (case vw_authKey v of None \<Rightarrow> [] | Some a \<Rightarrow> [a])"

text \<open>
  The keys of a viewer are distinct buffers of its memory, and every other buffer is zeroed.
\<close>

definition viewer_wf :: "Viewer \<Rightarrow> bool" where
  "viewer_wf v \<longleftrightarrow> list_all (\<lambda>a. a < length (vw_mem v)) (vw_live v) \<and> distinct (vw_live v)
     \<and> clean (vw_mem v) (set (vw_live v))"

interpretation viewer_keys: key_owner vw_mem vw_live zeroKeys
  by unfold_locales (simp add: zeroKeys_def vw_live_def zero_key_def split: option.split)

lemma probe_call_simps [simp]:
  "vw_mem (probe_call p v) = vw_mem v" "vw_streamKey (probe_call p v) = vw_streamKey v"
  "vw_authKey (probe_call p v) = vw_authKey v" "vw_live (probe_call p v) = vw_live v"
  "viewer_wf (probe_call p v) = viewer_wf v" "vw_lastNonce (probe_call p v) = vw_lastNonce v"
  "vw_output (probe_call p v) = vw_output v" "vw_viewerID (probe_call p v) = vw_viewerID v"
  "vw_consecutiveFailures (probe_call p v) = vw_consecutiveFailures v"
  "vw_currentEpoch (probe_call p v) = vw_currentEpoch v" "vw_code (probe_call p v) = vw_code v"
  "vw_epochInitialized (probe_call p v) = vw_epochInitialized v"
  by (simp_all add: probe_call_def vw_live_def viewer_wf_def)

lemma viewer_wf_cong:
  assumes "vw_mem v' = vw_mem v" "vw_streamKey v' = vw_streamKey v" "vw_authKey v' = vw_authKey v"
  shows "viewer_wf v' = viewer_wf v"
  using assms by (simp add: viewer_wf_def vw_live_def)

lemma viewer_wf_append_zero:
  assumes "viewer_wf v" "all_zero b" "vw_mem v' = vw_mem v @ [b]" "vw_streamKey v' = vw_streamKey v"
    "vw_authKey v' = vw_authKey v"
  shows "viewer_wf v'"
proof -
  have "vw_live v' = vw_live v"
    using assms(4,5) by (simp add: vw_live_def)
  then show ?thesis
    using assms(1-3) clean_append_zero by (auto simp: viewer_wf_def list_all_iff)
qed

lemma zero_at_last [simp]: "zero_at (length m) (m @ [b]) = m @ [ZeroBytes b]"
  by (simp add: zero_at_def)

section \<open>Closed forms\<close>

definition with_epoch :: "Viewer \<Rightarrow> Viewer \<Rightarrow> bool" where
  "with_epoch v v' \<longleftrightarrow> vw_streamKey v' = vw_streamKey v \<and> vw_authKey v' = vw_authKey v \<and> vw_viewerID v' = vw_viewerID v
     \<and> vw_lastNonce v' = vw_lastNonce v \<and> vw_consecutiveFailures v' = vw_consecutiveFailures v
     \<and> vw_mem v' = vw_mem v \<and> vw_output v' = vw_output v"

lemma validateEpoch_with: "with_epoch v (snd (validateEpoch now e v))"
  by (simp add: validateEpoch_def with_epoch_def)

text \<open>What the six outcomes of \<open>decryptAndWrite\<close> leave.\<close>

lemma decryptAndWrite_cases:
  obtains (short) "length frame < 37" "decryptAndWrite kdf now frame v = (Some (FrameTooShort (length frame)), v)"
  | (expired) e v1 where "37 \<le> length frame" "validateEpoch now (frame_epoch frame) v = (Some e, v1)"
      "decryptAndWrite kdf now frame v = (Some e, v1)"
  | (replay) v1 where "37 \<le> length frame" "validateEpoch now (frame_epoch frame) v = (None, v1)"
      "nonce_val (frame_nonce frame) \<le> vw_lastNonce v"
      "decryptAndWrite kdf now frame v = (Some (ReplayedNonce (nonce_val (frame_nonce frame)) (vw_lastNonce v)), v1)"
  | (derive) v1 where "37 \<le> length frame" "validateEpoch now (frame_epoch frame) v = (None, v1)"
      "vw_lastNonce v < nonce_val (frame_nonce frame)"
      "epoch_key kdf (key_bytes (vw_mem v) (vw_streamKey v)) (frame_epoch frame) = None"
      "decryptAndWrite kdf now frame v = (Some (DerivingFrameKey KdfFailed),
         v1\<lparr>vw_lastNonce := nonce_val (frame_nonce frame), vw_mem := vw_mem v @ [zeros 32]\<rparr>)"
  | (forged) v1 ek e where "37 \<le> length frame" "validateEpoch now (frame_epoch frame) v = (None, v1)"
      "vw_lastNonce v < nonce_val (frame_nonce frame)"
      "epoch_key kdf (key_bytes (vw_mem v) (vw_streamKey v)) (frame_epoch frame) = Some ek"
      "Open ek (frame_nonce frame) (frame_ciphertext frame) = Inl e"
      "decryptAndWrite kdf now frame v = (Some (DecryptingFrame e),
         v1\<lparr>vw_lastNonce := nonce_val (frame_nonce frame), vw_mem := vw_mem v @ [ZeroBytes ek]\<rparr>)"
  | (written) v1 ek p where "37 \<le> length frame" "validateEpoch now (frame_epoch frame) v = (None, v1)"
      "vw_lastNonce v < nonce_val (frame_nonce frame)"
      "epoch_key kdf (key_bytes (vw_mem v) (vw_streamKey v)) (frame_epoch frame) = Some ek"
      "Open ek (frame_nonce frame) (frame_ciphertext frame) = Inr p"
      "decryptAndWrite kdf now frame v = (None, probe_call (FrameDecrypted (frame_epoch frame) (length p))
         (v1\<lparr>vw_lastNonce := nonce_val (frame_nonce frame), vw_mem := vw_mem v @ [ZeroBytes ek],
            vw_output := vw_output v @ [p]\<rparr>))"
proof (cases "length frame < 37")
  case True
  then show ?thesis
    by (intro short) (simp_all add: decryptAndWrite_def)
next
  case False
  then have len: "37 \<le> length frame" "\<not> length frame < 1 + 8 + NonceLen + GCMTagLen"
    by simp_all
  obtain r v1 where ve: "validateEpoch now (frame_epoch frame) v = (r, v1)"
    by fastforce
  have same: "vw_lastNonce v1 = vw_lastNonce v" "vw_mem v1 = vw_mem v" "vw_streamKey v1 = vw_streamKey v"
    "vw_output v1 = vw_output v"
    using validateEpoch_with [of v now "frame_epoch frame"] ve by (simp_all add: with_epoch_def)
  note defs = decryptAndWrite_def len(2) if_False Let_def ve prod.case option.case same
  show ?thesis
  proof (cases r)
    case (Some e)
    then show ?thesis
      using len ve by (intro expired [of e v1]) (simp_all add: defs)
  next
    case None
    show ?thesis
    proof (cases "nonce_val (frame_nonce frame) \<le> vw_lastNonce v")
      case True
      then show ?thesis
        using len ve None by (intro replay [of v1]) (simp_all add: defs)
    next
      case nr: False
      show ?thesis
      proof (cases "epoch_key kdf (key_bytes (vw_mem v) (vw_streamKey v)) (frame_epoch frame)")
        case ek: None
        then show ?thesis
          using len ve None nr by (intro derive [of v1]) (simp_all add: defs DeriveEpochKey_cases)
      next
        case ek: (Some ek)
        show ?thesis
        proof (cases "Open ek (frame_nonce frame) (frame_ciphertext frame)")
          case (Inl e)
          then show ?thesis
            using len ve None nr ek by (intro forged [of v1 ek e]) (simp_all add: defs DeriveEpochKey_cases)
        next
          case (Inr p)
          then show ?thesis
            using len ve None nr ek by (intro written [of v1 ek p]) (simp_all add: defs DeriveEpochKey_cases)
        qed
      qed
    qed
  qed
qed

end
