(* ===== verification/Viewer_Props.thy ===== *)
theory Viewer_Props
  imports Viewer
begin

text \<open>
  What a viewer guarantees: frames come out once, in nonce order and only when they were sealed
  under a key the viewer had; keys never outlive \<open>Run\<close>; rekeying and revocation; and where the
  order of checks in the code lets unauthenticated bytes change the viewer's state.
\<close>

section \<open>Keys\<close>

lemma decryptAndWrite_wf:
  assumes "viewer_wf v"
  shows "viewer_wf (snd (decryptAndWrite kdf now frame v))"
    and "vw_streamKey (snd (decryptAndWrite kdf now frame v)) = vw_streamKey v"
    and "vw_authKey (snd (decryptAndWrite kdf now frame v)) = vw_authKey v"
proof -
  have with_v: "vw_streamKey v1 = vw_streamKey v \<and> vw_authKey v1 = vw_authKey v \<and> vw_mem v1 = vw_mem v"
    if "validateEpoch now (frame_epoch frame) v = (r, v1)" for r v1
    using validateEpoch_with [of v now "frame_epoch frame"] that by (simp add: with_epoch_def)
  have "viewer_wf (snd (decryptAndWrite kdf now frame v)) \<and>
      vw_streamKey (snd (decryptAndWrite kdf now frame v)) = vw_streamKey v \<and>
      vw_authKey (snd (decryptAndWrite kdf now frame v)) = vw_authKey v"
  proof (cases rule: decryptAndWrite_cases [of frame kdf now v])
    case short
    then show ?thesis using assms by simp
  next
    case (expired e v1)
    then show ?thesis
      using assms with_v [OF expired(2)] viewer_wf_cong [of v1 v] by simp
  next
    case (replay v1)
    then show ?thesis
      using assms with_v [OF replay(2)] viewer_wf_cong [of v1 v] by simp
  next
    case (derive v1)
    then show ?thesis
      using with_v [OF derive(2)] by (auto intro: viewer_wf_append_zero [OF assms, of "zeros 32"])
  next
    case (forged v1 ek e)
    then show ?thesis
      using with_v [OF forged(2)] by (auto intro: viewer_wf_append_zero [OF assms, of "ZeroBytes ek"])
  next
    case (written v1 ek p)
    then show ?thesis
      using with_v [OF written(2)] by (auto intro: viewer_wf_append_zero [OF assms, of "ZeroBytes ek"])
  qed
  then show "viewer_wf (snd (decryptAndWrite kdf now frame v))"
    and "vw_streamKey (snd (decryptAndWrite kdf now frame v)) = vw_streamKey v"
    and "vw_authKey (snd (decryptAndWrite kdf now frame v)) = vw_authKey v"
    by blast+
qed

text \<open>A size frame leaves the keys, the output and the failure count alone.\<close>

lemma decryptAndApplySize_fields:
  shows "vw_streamKey (decryptAndApplySize kdf now frame v) = vw_streamKey v"
    and "vw_authKey (decryptAndApplySize kdf now frame v) = vw_authKey v"
    and "vw_output (decryptAndApplySize kdf now frame v) = vw_output v"
    and "vw_viewerID (decryptAndApplySize kdf now frame v) = vw_viewerID v"
    and "vw_consecutiveFailures (decryptAndApplySize kdf now frame v) = vw_consecutiveFailures v"
    and "vw_lastNonce v \<le> vw_lastNonce (decryptAndApplySize kdf now frame v)"
    and "\<exists>bs. vw_mem (decryptAndApplySize kdf now frame v) = vw_mem v @ bs \<and> list_all all_zero bs \<and> length bs \<le> 1"
proof -
  obtain r v1 where ve: "validateEpoch now (frame_epoch frame) v = (r, v1)"
    by fastforce
  have same: "vw_lastNonce v1 = vw_lastNonce v" "vw_mem v1 = vw_mem v" "vw_streamKey v1 = vw_streamKey v"
    "vw_output v1 = vw_output v" "vw_authKey v1 = vw_authKey v" "vw_viewerID v1 = vw_viewerID v"
    "vw_consecutiveFailures v1 = vw_consecutiveFailures v"
    using validateEpoch_with [of v now "frame_epoch frame"] ve by (simp_all add: with_epoch_def)
  note defs = decryptAndApplySize_def Let_def ve DeriveEpochKey_cases same
  show "vw_streamKey (decryptAndApplySize kdf now frame v) = vw_streamKey v"
    "vw_authKey (decryptAndApplySize kdf now frame v) = vw_authKey v"
    "vw_output (decryptAndApplySize kdf now frame v) = vw_output v"
    "vw_viewerID (decryptAndApplySize kdf now frame v) = vw_viewerID v"
    "vw_consecutiveFailures (decryptAndApplySize kdf now frame v) = vw_consecutiveFailures v"
    by (simp_all add: defs split: option.split sum.split)
  show "vw_lastNonce v \<le> vw_lastNonce (decryptAndApplySize kdf now frame v)"
    by (auto simp: defs split: option.split sum.split)
  have one: "\<exists>bs. m @ [b] = m @ bs \<and> list_all all_zero bs \<and> length bs \<le> 1" if "all_zero b" for m :: mem and b
    using that by (intro exI [of _ "[b]"]) simp
  show "\<exists>bs. vw_mem (decryptAndApplySize kdf now frame v) = vw_mem v @ bs \<and> list_all all_zero bs \<and> length bs \<le> 1"
    by (simp add: defs one split: option.split sum.split)
qed

lemma viewer_wf_append_zeros:
  assumes "viewer_wf v" "list_all all_zero bs" "length bs \<le> 1" "vw_mem v' = vw_mem v @ bs"
    "vw_streamKey v' = vw_streamKey v" "vw_authKey v' = vw_authKey v"
  shows "viewer_wf v'"
proof (cases bs)
  case Nil
  then show ?thesis
    using assms viewer_wf_cong [of v' v] by simp
next
  case (Cons b cs)
  then show ?thesis
    using assms viewer_wf_append_zero [of v b v'] by simp
qed

lemma decryptAndApplySize_wf: "viewer_wf v \<Longrightarrow> viewer_wf (decryptAndApplySize kdf now frame v)"
  using decryptAndApplySize_fields(1,2,7) [of kdf now frame v] viewer_wf_append_zeros by blast

text \<open>A rekey message replaces the key or changes nothing.\<close>

lemma processRekey_cases:
  obtains (ignored) e where "processRekey data v = (Some e, v)"
  | (rekeyed) k where "35 \<le> length data" "take 6 data = vw_viewerID v"
      "Open (key_bytes (vw_mem v) (vw_authKey v)) (take 12 (drop 6 data)) (drop 18 data) = Inr k"
      "processRekey data v = (None, probe_call StreamKeyRotated
         (v\<lparr>vw_mem := zero_key (vw_streamKey v) (vw_mem v @ [k]), vw_streamKey := Some (length (vw_mem v)),
            vw_consecutiveFailures := 0\<rparr>))"
proof (cases "length data < 35")
  case True
  then show ?thesis
    by (intro ignored) (simp add: processRekey_def)
next
  case len: False
  show ?thesis
  proof (cases "take 6 data = vw_viewerID v")
    case False
    then show ?thesis
      using len by (intro ignored) (simp add: processRekey_def Let_def)
  next
    case True
    then show ?thesis
      using len
      by (cases "Open (key_bytes (vw_mem v) (vw_authKey v)) (take 12 (drop 6 data)) (drop 18 data)")
        (auto simp: processRekey_def Let_def intro: ignored rekeyed)
  qed
qed

lemma processRekey_wf:
  assumes "viewer_wf v"
  shows "viewer_wf (snd (processRekey data v))"
proof (cases rule: processRekey_cases [of data v])
  case (ignored e)
  then show ?thesis using assms by simp
next
  case (rekeyed k)
  let ?n = "length (vw_mem v)"
  let ?v = "v\<lparr>vw_mem := zero_key (vw_streamKey v) (vw_mem v @ [k]), vw_streamKey := Some ?n, vw_consecutiveFailures := 0\<rparr>"
  have live: "\<And>a. a \<in> set (vw_live v) \<Longrightarrow> a < ?n" and d: "distinct (vw_live v)"
    and c: "clean (vw_mem v @ [k]) (insert ?n (set (vw_live v)))"
    using assms clean_append by (auto simp: viewer_wf_def list_all_iff)
  have "clean (vw_mem ?v) (set (vw_live ?v))"
  proof (cases "vw_streamKey v")
    case None
    then show ?thesis
      using c by (simp add: zero_key_def vw_live_def)
  next
    case (Some a)
    have "a < ?n" "\<And>b. vw_authKey v = Some b \<Longrightarrow> b \<noteq> a"
      using live [of a] d Some by (auto simp: vw_live_def)
    then have "insert ?n (set (vw_live v)) - {a} = set (vw_live ?v)"
      using Some live by (cases "vw_authKey v") (auto simp: vw_live_def)
    then show ?thesis
      using clean_zero_at [OF c, of a] Some by (simp add: zero_key_def)
  qed
  moreover have "list_all (\<lambda>a. a < length (vw_mem ?v)) (vw_live ?v)" "distinct (vw_live ?v)"
    using live d by (cases "vw_streamKey v"; cases "vw_authKey v"; force simp: vw_live_def zero_key_def)+
  ultimately show ?thesis
    by (simp add: rekeyed(4) viewer_wf_def)
qed

lemma stream_turn_wf:
  assumes "viewer_wf v"
  shows "viewer_wf (snd (stream_turn kdf now r v))"
proof -
  have c: "viewer_wf (v'\<lparr>vw_consecutiveFailures := n\<rparr>) = viewer_wf v'" for v' n
    by (rule viewer_wf_cong) simp_all
  have "viewer_wf (snd (decryptAndWrite kdf now d v))" for d
    using decryptAndWrite_wf(1) [OF assms] .
  then have w: "decryptAndWrite kdf now d v = (x, v1) \<Longrightarrow> viewer_wf v1" for d x v1
    by (metis snd_conv)
  show ?thesis
    using assms
    by (auto simp: stream_turn_def c Let_def decryptAndApplySize_wf processRekey_wf w
        split: recv_result.split list.split option.split prod.split)
qed

lemma streamLoop_wf: "viewer_wf v \<Longrightarrow> viewer_wf (snd (streamLoop kdf ins v))"
proof (induction kdf ins v rule: streamLoop.induct)
  case (2 kdf now r ins v)
  then show ?case
    using stream_turn_wf [of v kdf now r] by (auto split: prod.split loop_end.split)
qed simp

text \<open>A viewer that has no keys yet.\<close>

definition keyless :: "Viewer \<Rightarrow> bool" where
  "keyless v \<longleftrightarrow> vw_streamKey v = None \<and> vw_authKey v = None \<and> clean (vw_mem v) {}"

lemma keyless_wf: "keyless v \<Longrightarrow> viewer_wf v"
  by (simp add: keyless_def viewer_wf_def vw_live_def)

lemma keyless_SetResizeHandler: "keyless (SetResizeHandler (NewViewer code ct))"
  by (simp add: keyless_def SetResizeHandler_def NewViewer_def clean_def)

lemma keyless_NewViewer: "keyless (NewViewer code ct)"
  by (simp add: keyless_def NewViewer_def)

lemma keyless_simps [simp]:
  "keyless (probe_call p v) = keyless v" "keyless (v\<lparr>vw_sent := ms\<rparr>) = keyless v"
  "keyless (v\<lparr>vw_viewerID := i\<rparr>) = keyless v"
  by (simp_all add: keyless_def)

lemma relay_send_keyless: "relay_send what err msg v = (x, v') \<Longrightarrow> keyless v \<Longrightarrow> keyless v'"
  by (auto simp: relay_send_def split: option.splits)

lemma sendSPAKE2_keyless: "sendSPAKE2 what err msg v = (x, v') \<Longrightarrow> keyless v \<Longrightarrow> keyless v'"
  by (auto simp: sendSPAKE2_def relay_send_keyless)

lemma processKeyDelivery_cases:
  obtains (short) "length delivery < 19" "processKeyDelivery L kdf h delivery v = (Some (KeyDeliveryTooShort (length delivery)), h, v)"
  | (nokey) e where "lib_key L h = Inl e"
      "processKeyDelivery L kdf h delivery v = (Some (SPAKE2Failed ''session key'' e), h, v\<lparr>vw_viewerID := take 6 delivery\<rparr>)"
  | (derive) secret where "lib_key L h = Inr secret" "auth_key kdf secret = None"
      "processKeyDelivery L kdf h delivery v = (Some (DerivingViewerAuthKey KdfFailed), lib_wipe L h,
         v\<lparr>vw_viewerID := take 6 delivery, vw_mem := vw_mem v @ [zeros 32]\<rparr>)"
  | (forged) secret ak e where "lib_key L h = Inr secret" "auth_key kdf secret = Some ak"
      "Open ak (take 12 (drop 6 delivery)) (drop 18 delivery) = Inl e"
      "processKeyDelivery L kdf h delivery v = (Some (DecryptingStreamKey e), lib_wipe L h,
         v\<lparr>vw_viewerID := take 6 delivery, vw_mem := vw_mem v @ [ZeroBytes ak]\<rparr>)"
  | (delivered) secret ak k where "19 \<le> length delivery" "lib_key L h = Inr secret" "auth_key kdf secret = Some ak"
      "Open ak (take 12 (drop 6 delivery)) (drop 18 delivery) = Inr k"
      "processKeyDelivery L kdf h delivery v = (None, lib_wipe L h,
         v\<lparr>vw_viewerID := take 6 delivery, vw_mem := vw_mem v @ [ak, k],
           vw_streamKey := Some (Suc (length (vw_mem v))), vw_authKey := Some (length (vw_mem v))\<rparr>)"
proof (cases "length delivery < 19")
  case True
  then show ?thesis
    by (intro short) (simp_all add: processKeyDelivery_def)
next
  case len: False
  note defs = processKeyDelivery_def Let_def DeriveAuthKey_cases
  show ?thesis
  proof (cases "lib_key L h")
    case (Inl e)
    then show ?thesis
      using len by (intro nokey [of e]) (simp_all add: defs)
  next
    case (Inr secret)
    show ?thesis
    proof (cases "auth_key kdf secret")
      case None
      then show ?thesis
        using len Inr by (intro derive [of secret]) (simp_all add: defs)
    next
      case (Some ak)
      show ?thesis
      proof (cases "Open ak (take 12 (drop 6 delivery)) (drop 18 delivery)")
        case (Inl e)
        then show ?thesis
          using len Inr \<open>lib_key L h = Inr secret\<close> Some by (intro forged [of secret ak e]) (simp_all add: defs)
      next
        case opened: (Inr k)
        then show ?thesis
          using len Inr Some by (intro delivered [of secret ak k]) (simp_all add: defs)
      qed
    qed
  qed
qed

lemma processKeyDelivery_wf:
  assumes "keyless v" "processKeyDelivery L kdf h delivery v = (r, h', v')"
  shows "viewer_wf v'" and "r \<noteq> None \<Longrightarrow> keyless v'"
proof -
  have "viewer_wf v' \<and> (r \<noteq> None \<longrightarrow> keyless v')"
  proof (cases rule: processKeyDelivery_cases [of delivery L kdf h v])
    case (delivered secret ak k)
    have "clean (vw_mem v @ [ak]) {length (vw_mem v)}"
      using clean_append [of "vw_mem v" "{}" ak] assms(1) by (simp add: keyless_def)
    from clean_append [OF this, of k] have "clean (vw_mem v @ [ak, k]) {Suc (length (vw_mem v)), length (vw_mem v)}"
      by simp
    then have "viewer_wf (v\<lparr>vw_viewerID := take 6 delivery, vw_mem := vw_mem v @ [ak, k],
           vw_streamKey := Some (Suc (length (vw_mem v))), vw_authKey := Some (length (vw_mem v))\<rparr>)"
      by (simp add: viewer_wf_def vw_live_def)
    then show ?thesis
      using assms(2) delivered(5) by simp
  qed (use assms keyless_wf clean_append_zero in \<open>auto simp: keyless_def viewer_wf_def vw_live_def\<close>)
  then show "viewer_wf v'" "r \<noteq> None \<Longrightarrow> keyless v'"
    by blast+
qed

lemma spake_exchange_wf:
  assumes "keyless v" "spake_exchange L kdf errs h v ins = Some (r, h', v', rest)"
  shows "viewer_wf v'"
proof -
  have d: "processKeyDelivery L kdf h2 m v3 = (x, h3, v4) \<Longrightarrow> keyless v3 \<Longrightarrow> viewer_wf v4" for h2 m v3 x h3 v4
    by (rule processKeyDelivery_wf(1))
  show ?thesis
    using assms(2) unfolding spake_exchange_def
    by (auto split: prod.splits option.splits sum.splits
        dest!: relay_send_keyless [OF _ assms(1)] dest: sendSPAKE2_keyless d intro: keyless_wf)
      (meson keyless_wf d sendSPAKE2_keyless)+
qed

lemma handshake_wf:
  assumes "keyless v" "handshake L kdf errs v ins = Some (r, h', v', rest)"
  shows "viewer_wf v'"
  using assms spake_exchange_wf [OF assms(1)] keyless_wf
  by (auto simp: handshake_def split: prod.splits option.splits sum.splits)

section \<open>Frames\<close>

text \<open>What a turn writes: the stream key in use, the frame and the plaintext.\<close>

definition written_by :: "kdf \<Rightarrow> time \<Rightarrow> recv_result \<Rightarrow> Viewer \<Rightarrow> (bytes \<times> bytes \<times> bytes) list" where
  "written_by kdf now r v =
     (case r of
        Got data \<Rightarrow>
          if data \<noteq> [] \<and> hd data = MsgTypeStream \<and> fst (decryptAndWrite kdf now data v) = None
          then [(key_bytes (vw_mem v) (vw_streamKey v), data, last (vw_output (snd (decryptAndWrite kdf now data v))))]
          else []
      | RecvFailed e d \<Rightarrow> [])"

fun written_run :: "kdf \<Rightarrow> (time \<times> recv_result) list \<Rightarrow> Viewer \<Rightarrow> (bytes \<times> bytes \<times> bytes) list" where
  "written_run kdf [] v = []"
| "written_run kdf ((now, r) # ins) v =
     (case stream_turn kdf now r v of
        (Running, v1) \<Rightarrow> written_by kdf now r v @ written_run kdf ins v1
      | (Returned e, v1) \<Rightarrow> [])"

abbreviation w_nonce :: "bytes \<times> bytes \<times> bytes \<Rightarrow> u64" where
  "w_nonce w \<equiv> nonce_val (frame_nonce (fst (snd w)))"

lemma decryptAndWrite_nonce:
  "vw_lastNonce v \<le> vw_lastNonce (snd (decryptAndWrite kdf now frame v))"
  "fst (decryptAndWrite kdf now frame v) = None \<Longrightarrow>
     vw_lastNonce v < nonce_val (frame_nonce frame) \<and>
     vw_lastNonce (snd (decryptAndWrite kdf now frame v)) = nonce_val (frame_nonce frame)"
  "fst (decryptAndWrite kdf now frame v) \<noteq> None \<Longrightarrow>
     vw_output (snd (decryptAndWrite kdf now frame v)) = vw_output v"
proof -
  have with_v: "vw_lastNonce v1 = vw_lastNonce v \<and> vw_output v1 = vw_output v"
    if "validateEpoch now (frame_epoch frame) v = (r, v1)" for r v1
    using validateEpoch_with [of v now "frame_epoch frame"] that by (simp add: with_epoch_def)
  show "vw_lastNonce v \<le> vw_lastNonce (snd (decryptAndWrite kdf now frame v))"
    "fst (decryptAndWrite kdf now frame v) = None \<Longrightarrow>
       vw_lastNonce v < nonce_val (frame_nonce frame) \<and>
       vw_lastNonce (snd (decryptAndWrite kdf now frame v)) = nonce_val (frame_nonce frame)"
    "fst (decryptAndWrite kdf now frame v) \<noteq> None \<Longrightarrow>
       vw_output (snd (decryptAndWrite kdf now frame v)) = vw_output v"
    using with_v by (cases rule: decryptAndWrite_cases [of frame kdf now v]; force)+
qed

lemma decryptAndWrite_None:
  assumes "fst (decryptAndWrite kdf now frame v) = None"
  obtains ek p where "37 \<le> length frame"
    "epoch_key kdf (key_bytes (vw_mem v) (vw_streamKey v)) (frame_epoch frame) = Some ek"
    "Open ek (frame_nonce frame) (frame_ciphertext frame) = Inr p"
    "vw_output (snd (decryptAndWrite kdf now frame v)) = vw_output v @ [p]"
  using assms by (cases rule: decryptAndWrite_cases [of frame kdf now v]) (auto intro: that)

lemma decryptAndWrite_sealed:
  assumes "37 \<le> length frame" "validateEpoch now (frame_epoch frame) v = (None, v1)"
    and "vw_lastNonce v < nonce_val (frame_nonce frame)"
    and "epoch_key kdf (key_bytes (vw_mem v) (vw_streamKey v)) (frame_epoch frame) = Some ek"
    and "Seal ek (frame_nonce frame) p = Inr (frame_ciphertext frame)"
  shows "decryptAndWrite kdf now frame v = (None, probe_call (FrameDecrypted (frame_epoch frame) (length p))
         (v1\<lparr>vw_lastNonce := nonce_val (frame_nonce frame), vw_mem := vw_mem v @ [ZeroBytes ek],
            vw_output := vw_output v @ [p]\<rparr>))"
proof -
  have o: "Open ek (frame_nonce frame) (frame_ciphertext frame) = Inr p"
    using assms(5) by (simp add: Open_Inr_iff)
  show ?thesis
    using assms o by (cases rule: decryptAndWrite_cases [of frame kdf now v]) auto
qed

lemma decryptAndWrite_sealed_simp:
  assumes "37 \<le> length frame" "fst (validateEpoch now (frame_epoch frame) v) = None"
    and "vw_lastNonce v < nonce_val (frame_nonce frame)"
    and "epoch_key kdf (key_bytes (vw_mem v) (vw_streamKey v)) (frame_epoch frame) = Some ek"
    and "Seal ek (frame_nonce frame) p = Inr (frame_ciphertext frame)"
  shows "decryptAndWrite kdf now frame v = (None, probe_call (FrameDecrypted (frame_epoch frame) (length p))
         ((snd (validateEpoch now (frame_epoch frame) v))\<lparr>vw_lastNonce := nonce_val (frame_nonce frame),
            vw_mem := vw_mem v @ [ZeroBytes ek], vw_output := vw_output v @ [p]\<rparr>))"
  using assms by (intro decryptAndWrite_sealed) (simp_all add: prod_eq_iff)

lemma stream_turn_frame:
  "data \<noteq> [] \<Longrightarrow> hd data = MsgTypeStream \<Longrightarrow>
   stream_turn kdf now (Got data) v =
     (case decryptAndWrite kdf now data v of
        (Some e, v1) \<Rightarrow>
          if e \<noteq> ErrEpochExpired then
            if 10 \<le> vw_consecutiveFailures v1 + 1
            then (Returned (Some ErrAccessRevoked), probe_call AccessRevoked (v1\<lparr>vw_consecutiveFailures := vw_consecutiveFailures v1 + 1\<rparr>))
            else (Running, v1\<lparr>vw_consecutiveFailures := vw_consecutiveFailures v1 + 1\<rparr>)
          else (Running, v1)
      | (None, v1) \<Rightarrow> (Running, v1\<lparr>vw_consecutiveFailures := 0\<rparr>))"
  by (cases data) (simp_all add: stream_turn_def Let_def split: option.split prod.split)

text \<open>A frame that cannot be decrypted counts as a failure unless its epoch has expired.\<close>

lemma decryptAndWrite_fails:
  assumes "37 \<le> length frame" "validateEpoch now (frame_epoch frame) v = (None, v1)"
    and "\<And>ek p. epoch_key kdf (key_bytes (vw_mem v) (vw_streamKey v)) (frame_epoch frame) = Some ek \<Longrightarrow>
        Open ek (frame_nonce frame) (frame_ciphertext frame) \<noteq> Inr p"
  obtains e v2 where "decryptAndWrite kdf now frame v = (Some e, v2)" "e \<noteq> ErrEpochExpired"
    "vw_currentEpoch v2 = vw_currentEpoch v1" "vw_epochInitialized v2 = vw_epochInitialized v1"
    "key_bytes (vw_mem v2) (vw_streamKey v2) = key_bytes (vw_mem v) (vw_streamKey v) \<or> vw_streamKey v \<noteq> None \<and> \<not> the (vw_streamKey v) < length (vw_mem v)"
    "vw_consecutiveFailures v2 = vw_consecutiveFailures v" "vw_streamKey v2 = vw_streamKey v"
    "length (vw_mem v) \<le> length (vw_mem v2)"
    "vw_lastNonce v2 = max (vw_lastNonce v) (nonce_val (frame_nonce frame))"
proof -
  have w: "vw_streamKey v1 = vw_streamKey v" "vw_mem v1 = vw_mem v" "vw_consecutiveFailures v1 = vw_consecutiveFailures v"
    "vw_lastNonce v1 = vw_lastNonce v"
    using validateEpoch_with [of v now "frame_epoch frame"] assms(2) by (simp_all add: with_epoch_def)
  show ?thesis
  proof (cases rule: decryptAndWrite_cases [of frame kdf now v])
    case short
    then show ?thesis using assms(1) by simp
  next
    case (expired e v2)
    then show ?thesis using assms(2) by simp
  next
    case (replay v2)
    then have "v2 = v1" using assms(2) by simp
    then show ?thesis
      using w replay(3) by (intro that [OF replay(4)]) (simp_all add: max_def)
  next
    case (derive v2)
    then have "v2 = v1" using assms(2) by simp
    then show ?thesis
      using w derive(3) by (intro that [OF derive(5)]) (auto simp: key_bytes_def nth_append max_def split: option.split)
  next
    case (forged v2 ek e)
    then have "v2 = v1" using assms(2) by simp
    then show ?thesis
      using w forged(3) by (intro that [OF forged(6)]) (auto simp: key_bytes_def nth_append max_def split: option.split)
  next
    case (written v2 ek p)
    then show ?thesis using assms(3) by blast
  qed
qed

section \<open>A sample viewer\<close>

definition ex_vkdf :: kdf where
  "ex_vkdf secret info n = Some (replicate n 7)"

text \<open>A viewer with a stream key, an auth key and an ID, before its first frame.\<close>

definition ex_viewing :: Viewer where
  "ex_viewing = (NewViewer [1] ClientByteCLI)
     \<lparr>vw_streamKey := Some 0, vw_authKey := Some 1, vw_viewerID := [97, 97, 97, 97, 97, 97],
       vw_mem := [replicate 32 5, replicate 32 6]\<rparr>"

definition nonce_of :: "nat \<Rightarrow> bytes" where
  "nonce_of n = zeros 4 @ put_be 8 (of_nat n :: u64)"

text \<open>A frame as the sharer builds it: type, epoch, nonce, ciphertext.\<close>

definition ex_frame :: "bytes \<Rightarrow> u64 \<Rightarrow> nat \<Rightarrow> bytes \<Rightarrow> bytes" where
  "ex_frame key epoch n p =
     MsgTypeStream # put_be 8 epoch @ nonce_of n @ gcm_seal (aes_encrypt key) (nonce_of n) p"

lemma ex_frame_parts [simp]:
  "37 \<le> length (ex_frame key epoch n p)" "\<not> length (ex_frame key epoch n p) < 37" "frame_epoch (ex_frame key epoch n p) = epoch"
  "frame_nonce (ex_frame key epoch n p) = nonce_of n" "hd (ex_frame key epoch n p) = MsgTypeStream"
  "frame_ciphertext (ex_frame key epoch n p) = gcm_seal (aes_encrypt key) (nonce_of n) p"
  "ex_frame key epoch n p \<noteq> []"
  by (simp_all add: ex_frame_def frame_epoch_def frame_nonce_def frame_ciphertext_def nonce_of_def)

lemma nonce_val_nonce_of [simp]: "nonce_val (nonce_of n) = of_nat n"
  by (simp add: nonce_val_def nonce_of_def)

lemma length_nonce_of [simp]: "length (nonce_of n) = 12"
  by (simp add: nonce_of_def)

section \<open>Properties\<close>

text \<open>The turn with which the loop ends writes nothing.\<close>

lemma stream_turn_returned:
  assumes "stream_turn kdf now r v = (Returned x, v1)"
  shows "vw_output v1 = vw_output v"
proof (cases r)
  case (RecvFailed e d)
  then show ?thesis using assms by (simp add: stream_turn_def)
next
  case (Got data)
  show ?thesis
  proof (cases "data \<noteq> [] \<and> hd data = MsgTypeStream")
    case True
    with stream_turn_frame [of data kdf now v] assms Got decryptAndWrite_nonce(3) [of kdf now data v] show ?thesis
      by (auto simp: probe_call_def split: option.splits prod.splits if_splits)
  next
    case False
    with assms Got show ?thesis
      by (auto simp: stream_turn_def probe_call_def split: list.splits if_splits)
  qed
qed

text \<open>Order, origin and authenticity of what the loop writes.\<close>

lemma written_run_facts:
  "sorted_wrt (<) (map w_nonce (written_run kdf ins v))
    \<and> list_all (\<lambda>(k, frame, p).
         vw_lastNonce v < nonce_val (frame_nonce frame) \<and> Got frame \<in> snd ` set ins \<and>
         (\<exists>ek. epoch_key kdf k (frame_epoch frame) = Some ek \<and>
            Seal ek (frame_nonce frame) p = Inr (frame_ciphertext frame))) (written_run kdf ins v)
    \<and> vw_output (snd (streamLoop kdf ins v)) = vw_output v @ map (\<lambda>(k, frame, p). p) (written_run kdf ins v)"
proof (induction kdf ins v rule: written_run.induct)
  case (2 kdf now r ins v)
  obtain e v1 where t: "stream_turn kdf now r v = (e, v1)"
    by fastforce
  show ?case
  proof (cases e)
    case (Returned x)
    then show ?thesis using t stream_turn_returned [of kdf now r v x v1] by simp
  next
    case Running
    note IH = "2.IH" [OF t [symmetric] Running]
    have mono: "vw_lastNonce v \<le> vw_lastNonce v1"
      using t decryptAndWrite_nonce(1) [of v kdf now] decryptAndApplySize_fields(6) [of v kdf now]
      by (auto simp: stream_turn_def Let_def processRekey_def zero_key_def
          split: recv_result.splits list.splits option.splits prod.splits if_splits sum.splits)
        (metis snd_conv)+
    have out: "vw_output v1 = vw_output v @ map (\<lambda>(k, frame, p). p) (written_by kdf now r v)
      \<and> list_all (\<lambda>(k, frame, p). vw_lastNonce v < nonce_val (frame_nonce frame) \<and> r = Got frame \<and>
          vw_lastNonce v1 = nonce_val (frame_nonce frame) \<and>
         (\<exists>ek. epoch_key kdf k (frame_epoch frame) = Some ek \<and>
            Seal ek (frame_nonce frame) p = Inr (frame_ciphertext frame))) (written_by kdf now r v)
      \<and> length (written_by kdf now r v) \<le> 1"
    proof (cases r)
      case (RecvFailed x d)
      then show ?thesis using t Running by (simp add: stream_turn_def)
    next
      case (Got data)
      show ?thesis
      proof (cases "data \<noteq> [] \<and> hd data = MsgTypeStream \<and> fst (decryptAndWrite kdf now data v) = None")
        case True
        then obtain ek p where w: "epoch_key kdf (key_bytes (vw_mem v) (vw_streamKey v)) (frame_epoch data) = Some ek"
          "Open ek (frame_nonce data) (frame_ciphertext data) = Inr p"
          "vw_output (snd (decryptAndWrite kdf now data v)) = vw_output v @ [p]"
          using decryptAndWrite_None by metis
        obtain v2 where d: "decryptAndWrite kdf now data v = (None, v2)"
          using True by (metis prod.collapse)
        then have v1: "v1 = v2\<lparr>vw_consecutiveFailures := 0\<rparr>"
          using t True Got by (cases data) (auto simp: stream_turn_def)
        show ?thesis
          using True w d decryptAndWrite_nonce(2) [of kdf now data v]
          by (simp add: v1 Got written_by_def Open_Inr_iff)
      next
        case False
        then have "written_by kdf now r v = []"
          by (simp add: Got written_by_def)
        moreover have "vw_output v1 = vw_output v"
        proof (cases data)
          case Nil
          then show ?thesis using t Got by (simp add: stream_turn_def)
        next
          case (Cons b rest)
          obtain x v2 where d: "decryptAndWrite kdf now data v = (x, v2)"
            by fastforce
          have "b = MsgTypeStream \<Longrightarrow> x \<noteq> None \<and> vw_output v2 = vw_output v"
            using False Cons d decryptAndWrite_nonce(3) [of kdf now data v] by auto
          moreover have "vw_output (snd (processRekey data v)) = vw_output v"
            by (cases rule: processRekey_cases [of data v]) simp_all
          ultimately show ?thesis
            using t Running Cons d
            by (auto simp: Got stream_turn_def Let_def decryptAndApplySize_fields split: if_splits option.splits)
        qed
        ultimately show ?thesis by simp
      qed
    qed
    have "written_by kdf now r v = [] \<or> (\<exists>w. written_by kdf now r v = [w])"
      using out by (cases "written_by kdf now r v") auto
    then show ?thesis
    proof
      assume n: "written_by kdf now r v = []"
      have "list_all (\<lambda>(k, frame, p). vw_lastNonce v < nonce_val (frame_nonce frame) \<and> Got frame \<in> snd ` set ((now, r) # ins) \<and>
         (\<exists>ek. epoch_key kdf k (frame_epoch frame) = Some ek \<and>
            Seal ek (frame_nonce frame) p = Inr (frame_ciphertext frame))) (written_run kdf ins v1)"
        using IH mono by (fastforce simp: list_all_iff)
      then show ?thesis
        using IH out n t Running by simp
    next
      assume "\<exists>w. written_by kdf now r v = [w]"
      then obtain k f p where w: "written_by kdf now r v = [(k, f, p)]"
        by (metis prod_cases3)
      have "list_all (\<lambda>(k, frame, p). vw_lastNonce v < nonce_val (frame_nonce frame) \<and> Got frame \<in> snd ` set ((now, r) # ins) \<and>
         (\<exists>ek. epoch_key kdf k (frame_epoch frame) = Some ek \<and>
            Seal ek (frame_nonce frame) p = Inr (frame_ciphertext frame))) (written_run kdf ins v1)"
        using IH mono by (fastforce simp: list_all_iff)
      moreover have "\<forall>x \<in> set (written_run kdf ins v1). nonce_val (frame_nonce f) < w_nonce x"
        using IH out w by (fastforce simp: list_all_iff)
      ultimately show ?thesis
        using IH out w t Running by simp
    qed
  qed
qed simp

text \<open>
  C8. Frames come out in order, once, and only authentic. Over any input, and however the stream loop ends, the
  frames it writes have strictly increasing nonces above the last one seen, were all received, and each
  plaintext is what AES-GCM sealed into that frame under the epoch key of the frame's epoch
  derived from the stream key the viewer then had; nothing else is written.
\<close>

theorem frames_ordered_and_authentic:
  "sorted_wrt (<) (map w_nonce (written_run kdf ins v))
    \<and> list_all (\<lambda>(k, frame, p).
         vw_lastNonce v < nonce_val (frame_nonce frame) \<and> Got frame \<in> snd ` set ins \<and>
         (\<exists>ek. epoch_key kdf k (frame_epoch frame) = Some ek \<and>
            Seal ek (frame_nonce frame) p = Inr (frame_ciphertext frame))) (written_run kdf ins v)
    \<and> vw_output (snd (streamLoop kdf ins v)) = vw_output v @ map (\<lambda>(k, frame, p). p) (written_run kdf ins v)"
  by (rule written_run_facts)

lemma ex_vkdf_epoch_key [simp]: "epoch_key ex_vkdf k e = Some (replicate 32 7)"
  by (simp add: epoch_key_def ex_vkdf_def)

lemma Seal_ex_frame [simp]:
  "length key = 32 \<Longrightarrow> Seal key (nonce_of n) p = Inr (gcm_seal (aes_encrypt key) (nonce_of n) p)"
  by (simp add: Seal_ok)

text \<open>Two frames are written; a replay of the first in between is not.\<close>

abbreviation ex_key :: bytes where
  "ex_key \<equiv> replicate 32 7"

definition ex_inputs :: "(time \<times> recv_result) list" where
  "ex_inputs = [(0, Got (ex_frame ex_key 3 1 [104])), (0, Got (ex_frame ex_key 3 1 [104])), (0, Got (ex_frame ex_key 3 2 [105]))]"

lemma ex_decrypts:
  assumes "key_bytes (vw_mem v) (vw_streamKey v) = k" "fst (validateEpoch now e v) = None" "vw_lastNonce v < of_nat n"
  shows "decryptAndWrite ex_vkdf now (ex_frame ex_key e n p) v =
    (None, probe_call (FrameDecrypted e (length p))
      ((snd (validateEpoch now e v))\<lparr>vw_lastNonce := of_nat n, vw_mem := vw_mem v @ [zeros 32], vw_output := vw_output v @ [p]\<rparr>))"
  using assms decryptAndWrite_sealed_simp [of "ex_frame ex_key e n p" now v ex_vkdf ex_key p]
  by (simp add: ZeroBytes_def zeros_def)

lemma ex_replayed:
  assumes "fst (validateEpoch now e v) = None" "of_nat n \<le> vw_lastNonce v"
  shows "decryptAndWrite kdf now (ex_frame key e n p) v = (Some (ReplayedNonce (of_nat n) (vw_lastNonce v)), snd (validateEpoch now e v))"
  using assms
  by (cases rule: decryptAndWrite_cases [of "ex_frame key e n p" kdf now v]) auto

lemma ex_written:
  "map (\<lambda>(k, f, p). p) (written_run ex_vkdf ex_inputs ex_viewing) = [[104], [105]]
   \<and> fst (streamLoop ex_vkdf ex_inputs ex_viewing) = Running"
  by (simp add: ex_inputs_def written_by_def stream_turn_frame ex_decrypts ex_replayed
      ex_viewing_def NewViewer_def validateEpoch_def key_bytes_def probe_call_def)

theorem frames_ordered_and_authentic_witness:
  "vw_output (snd (streamLoop ex_vkdf ex_inputs ex_viewing)) = [[104], [105]]"
proof -
  have "vw_output ex_viewing = []"
    by (simp add: ex_viewing_def NewViewer_def)
  then show ?thesis
    using frames_ordered_and_authentic [of ex_vkdf ex_inputs ex_viewing] ex_written by simp
qed

lemma Run_wipes:
  assumes "Run L kdf errs ins v0 = Some (Returned e, v)" and "keyless v0"
  shows "list_all all_zero (vw_mem v)"
proof -
  let ?v0 = "probe_call Connecting v0"
  have k: "keyless ?v0" using assms(2) by simp
  obtain u where u: "viewer_wf u" "v = zeroKeys u"
  proof -
    obtain r h v1 rest where h: "handshake L kdf errs ?v0 (map snd ins) = Some (r, h, v1, rest)"
      using assms(1) by (auto simp: Run_def split: option.splits)
    note wf = handshake_wf [OF k h]
    show ?thesis
    proof (cases r)
      case (Some x)
      then show ?thesis
        using assms(1) h wf by (intro that [of v1]) (simp_all add: Run_def)
    next
      case None
      obtain x v2 where l: "streamLoop kdf (drop (length ins - length rest) ins) v1 = (x, v2)"
        by fastforce
      then have "viewer_wf v2"
        using streamLoop_wf [OF wf, of kdf "drop (length ins - length rest) ins"] by simp
      then show ?thesis
        using assms(1) h None l by (intro that [of v2]) (auto simp: Run_def split: loop_end.splits)
    qed
  qed
  show ?thesis
    using viewer_keys.wipe_leaves_nothing [of u] u by (simp add: viewer_wf_def)
qed

text \<open>
  No key outlives \<open>Run\<close>. Whatever the relay delivers and however the handshake or the stream
  ends, when \<open>Run\<close> of a new viewer returns, every key buffer it ever used, stream keys replaced by a
  rekey and derived epoch keys included, holds only zeros.
\<close>

theorem viewer_keys_wiped:
  assumes "Run L kdf errs ins v0 = Some (Returned e, v)"
    and "v0 = NewViewer code clientType \<or> v0 = SetResizeHandler (NewViewer code clientType)"
  shows "list_all all_zero (vw_mem v)"
  using Run_wipes [OF assms(1)] assms(2) keyless_NewViewer keyless_SetResizeHandler by blast

text \<open>A SPAKE2 library in which both sides hold the code itself as their key.\<close>

definition ex_delivery :: bytes where
  "ex_delivery = replicate 6 97 @ nonce_of 1 @ gcm_seal (aes_encrypt ex_key) (nonce_of 1) (replicate 32 5)"

definition ex_session_inputs :: "(time \<times> recv_result) list" where
  "ex_session_inputs = map (Pair 0) [Got [6, 2], Got [65], Got [67], Got ex_delivery,
     Got (ex_frame ex_key 3 2 [104]), Got [6, 4]]"

lemma ex_vkdf_auth_key [simp]: "auth_key ex_vkdf s = Some ex_key"
  by (simp add: auth_key_def ex_vkdf_def)

lemma ex_delivery_processed:
  "lib_key L h = Inr secret \<Longrightarrow> processKeyDelivery L ex_vkdf h ex_delivery v =
    (None, lib_wipe L h, v\<lparr>vw_viewerID := replicate 6 97, vw_mem := vw_mem v @ [ex_key, replicate 32 5],
           vw_streamKey := Some (Suc (length (vw_mem v))), vw_authKey := Some (length (vw_mem v))\<rparr>)"
proof -
  assume k: "lib_key L h = Inr secret"
  have p: "take 6 ex_delivery = replicate 6 97" "take 12 (drop 6 ex_delivery) = nonce_of 1"
    "drop 18 ex_delivery = gcm_seal (aes_encrypt ex_key) (nonce_of 1) (replicate 32 5)" "\<not> length ex_delivery < 19"
    by (simp_all add: ex_delivery_def)
  have o: "Open ex_key (nonce_of 1) (gcm_seal (aes_encrypt ex_key) (nonce_of 1) (replicate 32 5)) = Inr (replicate 32 5)"
    by (rule Open_Seal) simp
  show ?thesis
    by (cases rule: processKeyDelivery_cases [of ex_delivery L ex_vkdf h v]) (use k p o in auto)
qed

lemma ex_delivery_hd: "ex_delivery = 97 # tl ex_delivery"
  by (simp add: ex_delivery_def numeral_eq_Suc)

lemma ex_handshake:
  "handshake ex_spake ex_vkdf (\<lambda>_. None) (probe_call Connecting (NewViewer [1, 2] 1)) (map snd ex_session_inputs) =
     Some (None, Some [0, 0],
       (NewViewer [1, 2] 1)\<lparr>vw_viewerID := replicate 6 97, vw_mem := [ex_key, replicate 32 5],
         vw_streamKey := Some 1, vw_authKey := Some 0,
         vw_sent := [[1, 1], [1, 66], [1, 68]],
         vw_probes := [Connecting, HandshakeCompleted (replicate 6 97)]\<rparr>,
       [Got (ex_frame ex_key 3 2 [104]), Got [6, 4]])"
proof -
  have d: "recvHandshakeMsg (Got ex_delivery # ins) = Some (Inr ex_delivery, ins)" for ins
  proof -
    have "recvHandshakeMsg (Got (97 # xs) # ins) = Some (Inr (97 # xs), ins)" for xs
      by simp
    from this [of "tl ex_delivery"] show ?thesis
      by (simp only: ex_delivery_hd [symmetric])
  qed
  have m: "recvHandshakeMsg (Got [65] # ins) = Some (Inr [65], ins)"
    "recvHandshakeMsg (Got [67] # ins) = Some (Inr [67], ins)" for ins
    by simp_all
  show ?thesis
    by (simp add: m handshake_def ex_session_inputs_def NewSPAKE2Viewer_def newHandshake_def spake_exchange_def
        relay_send_def sendSPAKE2_def d ex_delivery_processed ex_spake_def NewViewer_def probe_call_def
        spake_Destroy_def ZeroBytes_def zeros_def del: recvHandshakeMsg.simps(3))
qed

theorem viewer_keys_wiped_witness:
  "\<exists>v. Run ex_spake ex_vkdf (\<lambda>_. None) ex_session_inputs (NewViewer [1, 2] 1) = Some (Returned (Some ErrSessionEnded), v)
    \<and> vw_output v = [[104]] \<and> length (vw_mem v) = 3 \<and> list_all all_zero (vw_mem v)"
proof -
  have e: "stream_turn kdf now (Got [6, 4]) v = (Returned (Some ErrSessionEnded), probe_call (SessionEnded ''sharer disconnected'') v)"
    for kdf now v
    by (simp add: stream_turn_def)
  have "\<exists>v. Run ex_spake ex_vkdf (\<lambda>_. None) ex_session_inputs (NewViewer [1, 2] 1) = Some (Returned (Some ErrSessionEnded), v)
      \<and> vw_output v = [[104]] \<and> length (vw_mem v) = 3"
    unfolding Run_def ex_handshake
    by (simp add: ex_session_inputs_def stream_turn_frame ex_decrypts key_bytes_def validateEpoch_def NewViewer_def
        probe_call_def e zeroKeys_def zero_key_def)
  then show ?thesis
    using viewer_keys_wiped [OF _ disjI1 [OF refl]] by blast
qed

text \<open>
  A rekey reaches its viewer only. A message that names the viewer and was sealed for it with
  its auth key replaces the stream key by the sealed one, zeroes the old one and clears the
  failure count; any other message of the untyped kind changes nothing at all.
\<close>

theorem rekey_is_for_its_viewer:
  assumes "viewer_wf v" "vw_streamKey v = Some a" "length (vw_viewerID v) = 6"
  shows "(case processRekey data v of
      (None, v') \<Rightarrow> (\<exists>nonce k c. data = vw_viewerID v @ nonce @ c \<and>
          Seal (key_bytes (vw_mem v) (vw_authKey v)) nonce k = Inr c \<and>
          key_bytes (vw_mem v') (vw_streamKey v') = k \<and> all_zero (vw_mem v' ! a) \<and>
          vw_consecutiveFailures v' = 0 \<and>
          key_bytes (vw_mem v') (vw_authKey v') = key_bytes (vw_mem v) (vw_authKey v))
    | (Some e, v') \<Rightarrow> v' = v)
    \<and> (\<forall>nonce k c. Seal (key_bytes (vw_mem v) (vw_authKey v)) nonce k = Inr c \<and> k \<noteq> [] \<longrightarrow>
        fst (processRekey (vw_viewerID v @ nonce @ c) v) = None)"
proof (rule conjI)
  show "\<forall>nonce k c. Seal (key_bytes (vw_mem v) (vw_authKey v)) nonce k = Inr c \<and> k \<noteq> [] \<longrightarrow>
        fst (processRekey (vw_viewerID v @ nonce @ c) v) = None"
  proof (intro allI impI)
    fix nonce k c
    assume s: "Seal (key_bytes (vw_mem v) (vw_authKey v)) nonce k = Inr c \<and> k \<noteq> []"
    then have "length nonce = 12" "length c = length k + 16" "length k \<noteq> 0"
      by (auto simp: Seal_Inr_iff)
    moreover have "Open (key_bytes (vw_mem v) (vw_authKey v)) nonce c = Inr k"
      using s by (simp add: Open_Inr_iff)
    ultimately show "fst (processRekey (vw_viewerID v @ nonce @ c) v) = None"
      using assms(3) by (simp add: processRekey_def Let_def)
  qed
next
  have a: "a < length (vw_mem v)" and auth: "vw_authKey v = Some b \<Longrightarrow> b \<noteq> a \<and> b < length (vw_mem v)" for b
    using assms(1,2) by (auto simp: viewer_wf_def vw_live_def)
  show "case processRekey data v of
      (None, v') \<Rightarrow> (\<exists>nonce k c. data = vw_viewerID v @ nonce @ c \<and>
          Seal (key_bytes (vw_mem v) (vw_authKey v)) nonce k = Inr c \<and>
          key_bytes (vw_mem v') (vw_streamKey v') = k \<and> all_zero (vw_mem v' ! a) \<and>
          vw_consecutiveFailures v' = 0 \<and>
          key_bytes (vw_mem v') (vw_authKey v') = key_bytes (vw_mem v) (vw_authKey v))
    | (Some e, v') \<Rightarrow> v' = v"
  proof (cases rule: processRekey_cases [of data v])
    case (ignored e)
    then show ?thesis by simp
  next
    case (rekeyed k)
    let ?v = "v\<lparr>vw_mem := zero_key (vw_streamKey v) (vw_mem v @ [k]), vw_streamKey := Some (length (vw_mem v)),
            vw_consecutiveFailures := 0\<rparr>"
    obtain n c where nc: "data = vw_viewerID v @ n @ c" "Seal (key_bytes (vw_mem v) (vw_authKey v)) n k = Inr c"
    proof (rule that)
      show "data = vw_viewerID v @ take 12 (drop 6 data) @ drop 18 data"
        using append_take_drop_id [of 6 data] append_take_drop_id [of 12 "drop 6 data"] rekeyed(2) by simp
      show "Seal (key_bytes (vw_mem v) (vw_authKey v)) (take 12 (drop 6 data)) k = Inr (drop 18 data)"
        using rekeyed(3) by (simp add: Open_Inr_iff)
    qed
    have "key_bytes (vw_mem ?v) (vw_streamKey ?v) = k" "all_zero (vw_mem ?v ! a)"
      using assms(2) a by (simp_all add: key_bytes_def zero_key_def)
    moreover have "key_bytes (vw_mem ?v) (vw_authKey ?v) = key_bytes (vw_mem v) (vw_authKey v)"
      using assms(2) auth by (auto simp: key_bytes_def zero_key_def nth_append split: option.split)
    ultimately show ?thesis
      using nc unfolding rekeyed(4) by auto
  qed
qed

lemma ex_viewing_wf: "viewer_wf ex_viewing"
  by (auto simp: viewer_wf_def ex_viewing_def NewViewer_def vw_live_def clean_def less_Suc_eq numeral_eq_Suc)

theorem rekey_is_for_its_viewer_witness:
  "fst (processRekey (vw_viewerID ex_viewing @ nonce_of 9 @ gcm_seal (aes_encrypt (replicate 32 6)) (nonce_of 9) [1]) ex_viewing) = None"
proof -
  have "vw_streamKey ex_viewing = Some 0" "length (vw_viewerID ex_viewing) = 6"
    "key_bytes (vw_mem ex_viewing) (vw_authKey ex_viewing) = replicate 32 6"
    by (simp_all add: ex_viewing_def NewViewer_def key_bytes_def)
  then show ?thesis
    using rekey_is_for_its_viewer [OF ex_viewing_wf, of 0 "[]", THEN conjunct2, rule_format, of "nonce_of 9" "[1]"]
    by simp
qed

definition unreadable :: "kdf \<Rightarrow> bytes \<Rightarrow> bytes \<Rightarrow> bool" where
  "unreadable kdf k frame \<longleftrightarrow> 37 \<le> length frame \<and> hd frame = MsgTypeStream \<and>
     (\<forall>ek. epoch_key kdf k (frame_epoch frame) = Some ek \<longrightarrow>
        (\<forall>p. Open ek (frame_nonce frame) (frame_ciphertext frame) \<noteq> Inr p))"

text \<open>Epochs in order, from a viewer that has seen none or an earlier one.\<close>

definition epochs_go_on :: "Viewer \<Rightarrow> bytes list \<Rightarrow> bool" where
  "epochs_go_on v frames \<longleftrightarrow> sorted_wrt (\<lambda>a b. frame_epoch a \<le> frame_epoch b) frames \<and>
     list_all (\<lambda>f. vw_epochInitialized v \<longrightarrow> vw_currentEpoch v \<le> frame_epoch f) frames"

lemma validateEpoch_goes_on:
  assumes "epochs_go_on v (f # fs)"
  shows "fst (validateEpoch now (frame_epoch f) v) = None"
    and "vw_epochInitialized (snd (validateEpoch now (frame_epoch f) v))"
    and "vw_currentEpoch (snd (validateEpoch now (frame_epoch f) v)) = frame_epoch f"
  using assms by (auto simp: epochs_go_on_def validateEpoch_def)

lemma unreadable_turn:
  assumes "unreadable kdf (key_bytes (vw_mem v) (vw_streamKey v)) f" "epochs_go_on v (f # fs)" "viewer_wf v"
  obtains v1 e where "decryptAndWrite kdf now f v = (Some e, v1)" "e \<noteq> ErrEpochExpired"
    "epochs_go_on v1 fs" "viewer_wf v1" "vw_consecutiveFailures v1 = vw_consecutiveFailures v"
    "key_bytes (vw_mem v1) (vw_streamKey v1) = key_bytes (vw_mem v) (vw_streamKey v)" "vw_output v1 = vw_output v"
proof -
  obtain v0 where ve: "validateEpoch now (frame_epoch f) v = (None, v0)"
    "vw_epochInitialized v0" "vw_currentEpoch v0 = frame_epoch f"
    using validateEpoch_goes_on [OF assms(2), of now] by (metis prod.collapse)
  have u: "37 \<le> length f" "\<And>ek p. epoch_key kdf (key_bytes (vw_mem v) (vw_streamKey v)) (frame_epoch f) = Some ek \<Longrightarrow>
        Open ek (frame_nonce f) (frame_ciphertext f) \<noteq> Inr p"
    using assms(1) by (auto simp: unreadable_def)
  obtain e v1 where d: "decryptAndWrite kdf now f v = (Some e, v1)" "e \<noteq> ErrEpochExpired"
    "vw_currentEpoch v1 = vw_currentEpoch v0" "vw_epochInitialized v1 = vw_epochInitialized v0"
    "key_bytes (vw_mem v1) (vw_streamKey v1) = key_bytes (vw_mem v) (vw_streamKey v) \<or> vw_streamKey v \<noteq> None \<and> \<not> the (vw_streamKey v) < length (vw_mem v)"
    "vw_consecutiveFailures v1 = vw_consecutiveFailures v"
    using decryptAndWrite_fails [OF u(1) ve(1) u(2)] by metis
  have k: "vw_streamKey v \<noteq> None \<Longrightarrow> the (vw_streamKey v) < length (vw_mem v)"
    using assms(3) by (auto simp: viewer_wf_def vw_live_def)
  have "epochs_go_on v1 fs"
    using assms(2) d(3,4) ve(3) by (auto simp: epochs_go_on_def list_all_iff)
  moreover have "viewer_wf v1"
    using decryptAndWrite_wf(1) [OF assms(3), of kdf now f] d(1) by simp
  moreover have "vw_output v1 = vw_output v"
    using decryptAndWrite_nonce(3) [of kdf now f v] d(1) by simp
  ultimately show ?thesis
    using d k that by blast
qed

lemma revoked_loop:
  assumes "viewer_wf v" "epochs_go_on v frames" "length frames = 10 - vw_consecutiveFailures v"
    and "vw_consecutiveFailures v < 10" "list_all (unreadable kdf (key_bytes (vw_mem v) (vw_streamKey v))) frames"
    and "length nows = length frames"
  shows "fst (streamLoop kdf (zip nows (map Got frames) @ others) v) = Returned (Some ErrAccessRevoked)
    \<and> vw_output (snd (streamLoop kdf (zip nows (map Got frames) @ others) v)) = vw_output v"
  using assms
proof (induction frames arbitrary: v nows)
  case (Cons f fs)
  obtain now ns where nows: "nows = now # ns" "length ns = length fs"
    using Cons.prems(6) by (metis length_Suc_conv list.size(4) add.commute plus_1_eq_Suc)
  have f: "f \<noteq> []" "hd f = MsgTypeStream" "unreadable kdf (key_bytes (vw_mem v) (vw_streamKey v)) f"
    using Cons.prems(5) by (auto simp: unreadable_def)
  obtain v1 e where d: "decryptAndWrite kdf now f v = (Some e, v1)" "e \<noteq> ErrEpochExpired"
    "epochs_go_on v1 fs" "viewer_wf v1" "vw_consecutiveFailures v1 = vw_consecutiveFailures v"
    "key_bytes (vw_mem v1) (vw_streamKey v1) = key_bytes (vw_mem v) (vw_streamKey v)" "vw_output v1 = vw_output v"
    using unreadable_turn [OF f(3) Cons.prems(2,1)] by blast
  let ?v = "v1\<lparr>vw_consecutiveFailures := vw_consecutiveFailures v + 1\<rparr>"
  show ?case
  proof (cases "fs = []")
    case True
    then have "vw_consecutiveFailures v = 9"
      using Cons.prems(3,4) by simp
    then show ?thesis
      using d True f by (simp add: nows stream_turn_frame)
  next
    case False
    then have n: "vw_consecutiveFailures v + 1 < 10"
      using Cons.prems(3) by (cases fs) auto
    have "viewer_wf ?v" "epochs_go_on ?v fs"
      using d(3,4) by (simp_all add: epochs_go_on_def viewer_wf_def vw_live_def)
    then have "fst (streamLoop kdf (zip ns (map Got fs) @ others) ?v) = Returned (Some ErrAccessRevoked)
        \<and> vw_output (snd (streamLoop kdf (zip ns (map Got fs) @ others) ?v)) = vw_output ?v"
      using Cons.prems(3,5) n d nows by (intro Cons.IH) auto
    then show ?thesis
      using d f n by (simp add: nows stream_turn_frame)
  qed
qed simp

text \<open>
  C26. A revoked viewer stops. Frames in nondecreasing epochs from the viewer's current one on that
  its stream key does not open end the stream loop with \<open>ErrAccessRevoked\<close> as soon as there have
  been ten failures in a row, and none of them is written.
\<close>

theorem revoked_viewer_stops:
  assumes "viewer_wf v" "epochs_go_on v frames" "vw_consecutiveFailures v < 10"
    and "length frames = 10 - vw_consecutiveFailures v"
    and "list_all (unreadable kdf (key_bytes (vw_mem v) (vw_streamKey v))) frames"
    and "length nows = length frames"
  shows "fst (streamLoop kdf (zip nows (map Got frames) @ others) v) = Returned (Some ErrAccessRevoked)
    \<and> vw_output (snd (streamLoop kdf (zip nows (map Got frames) @ others) v)) = vw_output v"
  using revoked_loop assms by blast

text \<open>Ten frames for whose epoch no key can be derived.\<close>

theorem revoked_viewer_stops_witness:
  "fst (streamLoop (\<lambda>_ _ _. None) (zip (replicate 10 0) (map Got (map (\<lambda>n. ex_frame ex_key 3 n []) [1..<11])) @ []) ex_viewing)
     = Returned (Some ErrAccessRevoked)"
proof -
  let ?fs = "map (\<lambda>n. ex_frame ex_key 3 n []) [1..<11]"
  have "epoch_key (\<lambda>_ _ _. None) k e = None" for k e
    by (simp add: epoch_key_def)
  then have "list_all (unreadable (\<lambda>_ _ _. None) (key_bytes (vw_mem ex_viewing) (vw_streamKey ex_viewing))) ?fs"
    by (simp add: list_all_iff unreadable_def)
  moreover have "epochs_go_on ex_viewing ?fs"
    by (simp add: epochs_go_on_def sorted_wrt_map list_all_iff ex_viewing_def NewViewer_def)
  moreover have "vw_consecutiveFailures ex_viewing = 0"
    by (simp add: ex_viewing_def NewViewer_def)
  ultimately show ?thesis
    using revoked_viewer_stops [OF ex_viewing_wf, of ?fs "\<lambda>_ _ _. None" "replicate 10 0" "[]"] by simp
qed

text \<open>
  Anyone who can put bytes on the connection can silence the viewer for good. \<open>decryptAndWrite\<close>
  records the nonce of a frame before it has authenticated it: after one frame with the largest
  nonce and an acceptable epoch that no key opens, nothing is ever written again, whatever
  arrives, rekeys included.
\<close>

theorem forged_frame_silences_viewer:
  assumes "unreadable kdf (key_bytes (vw_mem v) (vw_streamKey v)) f"
    and "fst (validateEpoch now (frame_epoch f) v) = None" "nonce_val (frame_nonce f) = - 1"
  shows "written_run kdf' ins (snd (decryptAndWrite kdf now f v)) = []"
proof -
  obtain v0 where ve: "validateEpoch now (frame_epoch f) v = (None, v0)"
    using assms(2) by (metis prod.collapse)
  have u: "37 \<le> length f" "\<And>ek p. epoch_key kdf (key_bytes (vw_mem v) (vw_streamKey v)) (frame_epoch f) = Some ek \<Longrightarrow>
        Open ek (frame_nonce f) (frame_ciphertext f) \<noteq> Inr p"
    using assms(1) by (auto simp: unreadable_def)
  have top: "(- 1 :: u64) = max x (- 1)" for x :: u64
    by (simp add: max_def)
  have last: "vw_lastNonce (snd (decryptAndWrite kdf now f v)) = - 1"
    using decryptAndWrite_fails [OF u(1) ve u(2)] assms(3) top by (metis snd_conv)
  have no: "\<not> (- 1 :: u64) < x" for x
    by (simp add: not_less)
  have "list_all (\<lambda>_. False) (written_run kdf' ins (snd (decryptAndWrite kdf now f v)))"
    using written_run_facts [of kdf' ins "snd (decryptAndWrite kdf now f v)"] last no
    by (auto simp: list_all_iff split: prod.splits)
  then show ?thesis
    by (cases "written_run kdf' ins (snd (decryptAndWrite kdf now f v))") simp_all
qed

text \<open>Without the forged frame the same inputs are written, with it they are not.\<close>

theorem forged_frame_silences_viewer_witness:
  "written_run ex_vkdf ex_inputs ex_viewing \<noteq> [] \<and>
   written_run ex_vkdf ex_inputs
     (snd (decryptAndWrite (\<lambda>_ _ _. None) 0 (ex_frame ex_key 3 (2 ^ 64 - 1) []) ex_viewing)) = []"
proof -
  have "epoch_key (\<lambda>_ _ _. None) k e = None" for k e
    by (simp add: epoch_key_def)
  then have "unreadable (\<lambda>_ _ _. None) (key_bytes (vw_mem ex_viewing) (vw_streamKey ex_viewing)) (ex_frame ex_key 3 (2 ^ 64 - 1) [])"
    by (simp add: unreadable_def)
  moreover have "fst (validateEpoch 0 (frame_epoch (ex_frame ex_key 3 (2 ^ 64 - 1) [])) ex_viewing) = None"
    by (simp add: validateEpoch_def ex_viewing_def NewViewer_def)
  moreover have "nonce_val (frame_nonce (ex_frame ex_key 3 (2 ^ 64 - 1) [])) = - 1"
    by simp
  ultimately have "written_run ex_vkdf ex_inputs
     (snd (decryptAndWrite (\<lambda>_ _ _. None) 0 (ex_frame ex_key 3 (2 ^ 64 - 1) []) ex_viewing)) = []"
    by (rule forged_frame_silences_viewer)
  then show ?thesis
    using ex_written by auto
qed

text \<open>
  Handshake messages are lost when their first byte looks like a message type. The sharer's
  messages come without a type byte, and \<open>recvHandshakeMsg\<close> skips those that begin with the type of
  a frame, a size or a pong: a viewer whose msg_a does so gives up with \<open>ErrHandshakeTimeout\<close> even
  where the SPAKE2 library accepts that very message.
\<close>

theorem handshake_message_lost:
  assumes "errs 0 = None" "data \<noteq> []" "hd data = MsgTypeStream \<or> hd data = MsgTypeTermSize \<or> hd data = MsgTypePong"
    and "lib_exchange L h data = (Inr msgB, h1)"
  shows "\<exists>v'. spake_exchange L kdf errs h v (Got data # RecvFailed e True # ins) = Some (Some ErrHandshakeTimeout, h, v', ins)"
  using assms(1-3) by (cases data) (auto simp: spake_exchange_def relay_send_def)

theorem handshake_message_lost_witness:
  "\<exists>v'. spake_exchange ex_spake ex_vkdf (\<lambda>_. None) [1, 2] (NewViewer [1, 2] 1) (Got (2 # replicate 64 9) # RecvFailed ''deadline'' True # [])
     = Some (Some ErrHandshakeTimeout, [1, 2], v', [])"
  by (rule handshake_message_lost [of _ _ _ _ "[66]" "[1, 2]"]) (simp_all add: ex_spake_def)

text \<open>
  The epoch policy. An epoch is accepted from the first frame, when it is not below the current
  one, or when it is the one before and at most five seconds have passed since the transition;
  the current epoch is the largest accepted one and never falls.
\<close>

theorem epoch_policy:
  "(fst (validateEpoch now e v) = None \<longleftrightarrow>
      (if vw_epochInitialized v
       then vw_currentEpoch v \<le> e
         \<or> e = vw_currentEpoch v - 1 \<and> now \<le> vw_epochTransitionTime v + 5 * second
       else True))
    \<and> vw_currentEpoch (snd (validateEpoch now e v)) =
        (if vw_epochInitialized v then max (vw_currentEpoch v) e
         else e)"
proof -
  have "time_sub now t \<le> 5 * second \<longleftrightarrow> now \<le> t + 5 * second" for t
    by (rule time_sub_le_iff) (simp_all add: second_def)
  then show ?thesis
    by (auto simp: validateEpoch_def max_def not_le)
qed

end
