(* ===== verification/Rate_Limit.thy ===== *)
theory Rate_Limit
  imports Protocol
begin

text \<open>
  \<open>internal/relay/ratelimit.go\<close>: per-IP fixed-window counters with progressive bans. One call
  of \<open>Allow\<close> reads the clock up to three times under the mutex (ban check, \<open>now\<close>, time of a
  ban); the three readings are arguments. Calls on the probe are returned as a list.
\<close>

section \<open>Configuration\<close>

text \<open>\<open>EventType\<close> is an \<open>int\<close> with three named values; \<open>EventOther\<close> is any other value.\<close>

datatype EventType = EventConnection | EventRegistration | EventHandshakeFailure | EventOther int

fun eventName :: "EventType \<Rightarrow> string" where
  "eventName EventConnection = ''connection''"
| "eventName EventRegistration = ''registration''"
| "eventName EventHandshakeFailure = ''handshake''"
| "eventName (EventOther n) = ''unknown''"

record RateLimitConfig =
  ConnectionLimit :: int
  ConnectionWindow :: duration
  RegistrationLimit :: int
  RegistrationWindow :: duration
  HandshakeLimit :: int
  HandshakeWindow :: duration

definition DefaultRateLimitConfig :: RateLimitConfig where
  "DefaultRateLimitConfig =
     \<lparr>ConnectionLimit = DefaultConnectionRateLimit,
      ConnectionWindow = DefaultConnectionRateWindow * second,
      RegistrationLimit = DefaultRegistrationRateLimit,
      RegistrationWindow = DefaultRegistrationRateWindow * second,
      HandshakeLimit = DefaultHandshakeRateLimit,
      HandshakeWindow = DefaultHandshakeRateWindow * second\<rparr>"

fun limitFor :: "RateLimitConfig \<Rightarrow> EventType \<Rightarrow> int" where
  "limitFor c EventConnection = ConnectionLimit c"
| "limitFor c EventRegistration = RegistrationLimit c"
| "limitFor c EventHandshakeFailure = HandshakeLimit c"
| "limitFor c (EventOther n) = 0"

fun windowFor :: "RateLimitConfig \<Rightarrow> EventType \<Rightarrow> duration" where
  "windowFor c EventConnection = ConnectionWindow c"
| "windowFor c EventRegistration = RegistrationWindow c"
| "windowFor c EventHandshakeFailure = HandshakeWindow c"
| "windowFor c (EventOther n) = 60 * second"

section \<open>State\<close>

record windowCounter =
  wc_count :: int
  wc_windowStart :: time

record ipState =
  ip_counters :: "(EventType, windowCounter) gomap"
  ip_violations :: "time list"
  ip_banCount :: int
  ip_bannedAt :: time
  ip_banExpiry :: time
  ip_permanent :: bool

type_synonym ip = bytes

record RateLimiter =
  rl_config :: RateLimitConfig
  rl_ips :: "(ip, ipState) gomap"

datatype probe_event =
    AcceptError string string
  | RateLimited ip string
  | BanTriggered ip string string
  | ConnectionAccepted string ip

definition NewRateLimiter :: "RateLimitConfig \<Rightarrow> RateLimiter" where
  "NewRateLimiter config = \<lparr>rl_config = config, rl_ips = []\<rparr>"

definition new_ipState :: ipState where
  "new_ipState = \<lparr>ip_counters = [], ip_violations = [], ip_banCount = 0, ip_bannedAt = 0,
                  ip_banExpiry = 0, ip_permanent = False\<rparr>"

section \<open>Operations\<close>

definition getOrCreate :: "RateLimiter \<Rightarrow> ip \<Rightarrow> ipState \<times> RateLimiter" where
  "getOrCreate rl ip =
     (case mget (rl_ips rl) ip of
        Some st \<Rightarrow> (st, rl)
      | None \<Rightarrow> (new_ipState, rl\<lparr>rl_ips := mput ip new_ipState (rl_ips rl)\<rparr>))"

definition isBannedLocked :: "ipState \<Rightarrow> time \<Rightarrow> bool" where
  "isBannedLocked st now =
     (if ip_permanent st then True
      else if ip_banExpiry st = 0 then False
      else now < ip_banExpiry st)"

definition IsBanned :: "RateLimiter \<Rightarrow> ip \<Rightarrow> time \<Rightarrow> bool" where
  "IsBanned rl ip now =
     (case mget (rl_ips rl) ip of None \<Rightarrow> False | Some st \<Rightarrow> isBannedLocked st now)"

definition ban :: "ip \<Rightarrow> ipState \<Rightarrow> EventType \<Rightarrow> time \<Rightarrow> probe_event list \<times> ipState" where
  "ban ip st event now =
     (let st1 = st\<lparr>ip_banCount := ip_banCount st + 1, ip_bannedAt := now\<rparr>
      in if ip_banCount st1 = 1 then
           ([BanTriggered ip (eventName event) ''1h''],
            st1\<lparr>ip_banExpiry := now + BanDurationFirst * second\<rparr>)
         else if ip_banCount st1 = 2 then
           ([BanTriggered ip (eventName event) ''24h''],
            st1\<lparr>ip_banExpiry := now + BanDurationSecond * second\<rparr>)
         else
           ([BanTriggered ip (eventName event) ''permanent''], st1\<lparr>ip_permanent := True\<rparr>))"

definition recordViolation ::
  "ip \<Rightarrow> ipState \<Rightarrow> EventType \<Rightarrow> time \<Rightarrow> time \<Rightarrow> probe_event list \<times> ipState" where
  "recordViolation ip st event now ban_now =
     (let recent = filter (\<lambda>t. time_sub now t < RateLimitViolationWindow * second)
                     (ip_violations st) @ [now];
          st1 = st\<lparr>ip_violations := recent\<rparr>
      in if RateLimitViolationBanCount \<le> length recent then ban ip st1 event ban_now
         else ([], st1))"

text \<open>The counter after its window has been looked at and the request counted.\<close>

definition count_request :: "RateLimitConfig \<Rightarrow> ipState \<Rightarrow> EventType \<Rightarrow> time \<Rightarrow> windowCounter" where
  "count_request cfg st event now =
     (let counter = (case mget (ip_counters st) event of
                       Some c \<Rightarrow> c
                     | None \<Rightarrow> \<lparr>wc_count = 0, wc_windowStart = now\<rparr>);
          counter1 = (if windowFor cfg event \<le> time_sub now (wc_windowStart counter)
                      then \<lparr>wc_count = 0, wc_windowStart = now\<rparr> else counter)
      in counter1\<lparr>wc_count := wc_count counter1 + 1\<rparr>)"

definition Allow ::
  "RateLimiter \<Rightarrow> ip \<Rightarrow> EventType \<Rightarrow> time \<Rightarrow> time \<Rightarrow> time \<Rightarrow> bool \<times> probe_event list \<times> RateLimiter" where
  "Allow rl ip event check_now now ban_now =
     (let (st, rl1) = getOrCreate rl ip
      in if isBannedLocked st check_now then (False, [], rl1)
      else
        let limit = limitFor (rl_config rl) event;
            counter = count_request (rl_config rl) st event now;
            st1 = st\<lparr>ip_counters := mput event counter (ip_counters st)\<rparr>;
            banThreshold = limit * RateLimitBanMultiplier
        in if banThreshold \<le> wc_count counter then
             (let (ps, st2) = ban ip st1 event ban_now
              in (False, ps, rl1\<lparr>rl_ips := mput ip st2 (rl_ips rl1)\<rparr>))
           else if limit < wc_count counter then
             (let (ps, st2) = (if wc_count counter = limit + 1
                               then recordViolation ip st1 event now ban_now else ([], st1))
              in (False, ps @ [RateLimited ip (eventName event)],
                  rl1\<lparr>rl_ips := mput ip st2 (rl_ips rl1)\<rparr>))
           else (True, [], rl1\<lparr>rl_ips := mput ip st1 (rl_ips rl1)\<rparr>))"

section \<open>One request\<close>

text \<open>The entry of an address, a new one where there is none.\<close>

definition entry :: "RateLimiter \<Rightarrow> ip \<Rightarrow> ipState" where
  "entry rl ip = (case mget (rl_ips rl) ip of Some st \<Rightarrow> st | None \<Rightarrow> new_ipState)"

definition allow_entry ::
  "RateLimitConfig \<Rightarrow> ip \<Rightarrow> ipState \<Rightarrow> EventType \<Rightarrow> time \<Rightarrow> time \<Rightarrow> time \<Rightarrow> bool \<times> probe_event list \<times> ipState" where
  "allow_entry cfg ip st event check_now now ban_now =
     (if isBannedLocked st check_now then (False, [], st)
      else
        let limit = limitFor cfg event;
            counter = count_request cfg st event now;
            st1 = st\<lparr>ip_counters := mput event counter (ip_counters st)\<rparr>
        in if 3 * limit \<le> wc_count counter then
             (False, fst (ban ip st1 event ban_now), snd (ban ip st1 event ban_now))
           else if limit < wc_count counter then
             (let r = (if wc_count counter = limit + 1
                       then recordViolation ip st1 event now ban_now else ([], st1))
              in (False, fst r @ [RateLimited ip (eventName event)], snd r))
           else (True, [], st1))"

text \<open>
  \<open>Allow\<close> is a function of the address's own entry: the verdict and the new entry come from
  \<open>allow_entry\<close>, and no other address is touched.
\<close>

lemma getOrCreate_eq:
  "fst (getOrCreate rl ip) = entry rl ip"
  "entry (snd (getOrCreate rl ip)) ip = entry rl ip"
  "rl_config (snd (getOrCreate rl ip)) = rl_config rl"
  "ip' \<noteq> ip \<Longrightarrow> mget (rl_ips (snd (getOrCreate rl ip))) ip' = mget (rl_ips rl) ip'"
  by (simp_all add: getOrCreate_def entry_def split: option.split)

lemma entry_put [simp]: "entry (rl\<lparr>rl_ips := mput ip st (rl_ips rl)\<rparr>) ip = st"
  by (simp add: entry_def)

lemma Allow_banned:
  "isBannedLocked (entry rl ip) tc \<Longrightarrow>
     Allow rl ip ev tc tn tb = (False, [], snd (getOrCreate rl ip))"
  by (simp add: Allow_def split_beta getOrCreate_eq)

lemma Allow_counted:
  assumes "\<not> isBannedLocked (entry rl ip) tc"
  shows "Allow rl ip ev tc tn tb
    = (let r = allow_entry (rl_config rl) ip (entry rl ip) ev tc tn tb; rl1 = snd (getOrCreate rl ip)
       in (fst r, fst (snd r), rl1\<lparr>rl_ips := mput ip (snd (snd r)) (rl_ips rl1)\<rparr>))"
proof -
  have m: "limitFor c ev * RateLimitBanMultiplier = 3 * limitFor c ev" for c
    by simp
  let ?c = "wc_count (count_request (rl_config rl) (entry rl ip) ev tn)"
  let ?l = "limitFor (rl_config rl) ev"
  note defs = Allow_def allow_entry_def split_beta Let_def getOrCreate_eq m
  show ?thesis
    using assms unfolding defs
    by (cases "3 * ?l \<le> ?c"; cases "?l < ?c"; cases "?c = ?l + 1")
      (simp_all only: if_True if_False simp_thms fst_conv snd_conv)
qed

lemma Allow_entry:
  "fst (Allow rl ip ev tc tn tb) = fst (allow_entry (rl_config rl) ip (entry rl ip) ev tc tn tb)"
  "fst (snd (Allow rl ip ev tc tn tb)) = fst (snd (allow_entry (rl_config rl) ip (entry rl ip) ev tc tn tb))"
  "entry (snd (snd (Allow rl ip ev tc tn tb))) ip
    = snd (snd (allow_entry (rl_config rl) ip (entry rl ip) ev tc tn tb))"
proof -
  have *: "fst (Allow rl ip ev tc tn tb) = fst (allow_entry (rl_config rl) ip (entry rl ip) ev tc tn tb)
     \<and> fst (snd (Allow rl ip ev tc tn tb)) = fst (snd (allow_entry (rl_config rl) ip (entry rl ip) ev tc tn tb))
     \<and> entry (snd (snd (Allow rl ip ev tc tn tb))) ip
         = snd (snd (allow_entry (rl_config rl) ip (entry rl ip) ev tc tn tb))"
  proof (cases "isBannedLocked (entry rl ip) tc")
    case True
    then show ?thesis
      by (simp add: Allow_banned getOrCreate_eq allow_entry_def)
  next
    case False
    then show ?thesis
      unfolding Allow_counted [OF False] Let_def by (simp only: fst_conv snd_conv entry_put simp_thms)
  qed
  then show "fst (Allow rl ip ev tc tn tb) = fst (allow_entry (rl_config rl) ip (entry rl ip) ev tc tn tb)"
    and "fst (snd (Allow rl ip ev tc tn tb)) = fst (snd (allow_entry (rl_config rl) ip (entry rl ip) ev tc tn tb))"
    and "entry (snd (snd (Allow rl ip ev tc tn tb))) ip
      = snd (snd (allow_entry (rl_config rl) ip (entry rl ip) ev tc tn tb))"
    by blast+
qed

lemma Allow_other:
  assumes "ip' \<noteq> ip"
  shows "mget (rl_ips (snd (snd (Allow rl ip ev tc tn tb)))) ip' = mget (rl_ips rl) ip'"
  using assms by (cases "isBannedLocked (entry rl ip) tc")
    (simp_all add: Allow_banned Allow_counted Let_def getOrCreate_eq)

lemma Allow_config [simp]: "rl_config (snd (snd (Allow rl ip ev tc tn tb))) = rl_config rl"
  by (cases "isBannedLocked (entry rl ip) tc")
    (simp_all add: Allow_banned Allow_counted Let_def getOrCreate_eq)

lemma entry_other: "ip' \<noteq> ip \<Longrightarrow> entry (snd (snd (Allow rl ip ev tc tn tb))) ip' = entry rl ip'"
  by (simp add: entry_def Allow_other)

lemma ban_counters [simp]: "ip_counters (snd (ban ip st ev t)) = ip_counters st"
  by (simp add: ban_def Let_def)

lemma recordViolation_counters [simp]:
  "ip_counters (snd (recordViolation ip st ev t t')) = ip_counters st"
  by (simp add: recordViolation_def Let_def)

lemma allow_entry_counters:
  "ip_counters (snd (snd (allow_entry cfg ip st ev tc tn tb)))
    = (if isBannedLocked st tc then ip_counters st
       else mput ev (count_request cfg st ev tn) (ip_counters st))"
  by (simp add: allow_entry_def Let_def)

lemma allow_entry_True:
  "fst (allow_entry cfg ip st ev tc tn tb)
    \<longleftrightarrow> \<not> isBannedLocked st tc \<and> wc_count (count_request cfg st ev tn) < 3 * limitFor cfg ev
      \<and> wc_count (count_request cfg st ev tn) \<le> limitFor cfg ev"
  by (auto simp: allow_entry_def Let_def)

lemma allow_entry_denied:
  "isBannedLocked st tc \<Longrightarrow> allow_entry cfg ip st ev tc tn tb = (False, [], st)"
  by (simp add: allow_entry_def)

section \<open>Runs\<close>

text \<open>
  The mutex makes the calls of the relay's goroutines a sequence; every request brings its own
  three clock readings.
\<close>

record request =
  req_ip :: ip
  req_event :: EventType
  req_check :: time
  req_now :: time
  req_ban :: time

type_synonym outcome = "request \<times> bool \<times> probe_event list"

definition rl_step :: "RateLimiter \<Rightarrow> request \<Rightarrow> bool \<times> probe_event list \<times> RateLimiter" where
  "rl_step rl r = Allow rl (req_ip r) (req_event r) (req_check r) (req_now r) (req_ban r)"

primrec rl_run :: "RateLimiter \<Rightarrow> request list \<Rightarrow> outcome list \<times> RateLimiter" where
  "rl_run rl [] = ([], rl)"
| "rl_run rl (r # rs) =
     (let (ok, ps, rl1) = rl_step rl r; (out, rl2) = rl_run rl1 rs in ((r, ok, ps) # out, rl2))"

definition entry_step :: "RateLimitConfig \<Rightarrow> ipState \<Rightarrow> request \<Rightarrow> bool \<times> probe_event list \<times> ipState" where
  "entry_step cfg st r = allow_entry cfg (req_ip r) st (req_event r) (req_check r) (req_now r) (req_ban r)"

primrec entry_run :: "RateLimitConfig \<Rightarrow> ipState \<Rightarrow> request list \<Rightarrow> outcome list \<times> ipState" where
  "entry_run cfg st [] = ([], st)"
| "entry_run cfg st (r # rs) =
     (let (ok, ps, st1) = entry_step cfg st r; (out, st2) = entry_run cfg st1 rs
      in ((r, ok, ps) # out, st2))"

definition outcomes_of :: "ip \<Rightarrow> outcome list \<Rightarrow> outcome list" where
  "outcomes_of ip out = filter (\<lambda>(r, _). req_ip r = ip) out"

definition requests_of :: "ip \<Rightarrow> request list \<Rightarrow> request list" where
  "requests_of ip rs = filter (\<lambda>r. req_ip r = ip) rs"

definition allowed_of :: "EventType \<Rightarrow> outcome list \<Rightarrow> nat" where
  "allowed_of ev out = length (filter (\<lambda>(r, ok, _). ok \<and> req_event r = ev) out)"

lemma rl_run_config [simp]: "rl_config (snd (rl_run rl rs)) = rl_config rl"
  by (induction rs arbitrary: rl) (simp_all add: Let_def split_beta rl_step_def)

lemma rl_run_append:
  "fst (rl_run rl (xs @ ys)) = fst (rl_run rl xs) @ fst (rl_run (snd (rl_run rl xs)) ys)"
  "snd (rl_run rl (xs @ ys)) = snd (rl_run (snd (rl_run rl xs)) ys)"
  by (induction xs arbitrary: rl) (simp_all add: Let_def split_beta)

lemma entry_run_append:
  "fst (entry_run c st (xs @ ys)) = fst (entry_run c st xs) @ fst (entry_run c (snd (entry_run c st xs)) ys)"
  "snd (entry_run c st (xs @ ys)) = snd (entry_run c (snd (entry_run c st xs)) ys)"
  by (induction xs arbitrary: st) (simp_all add: Let_def split_beta)

lemma map_fst_entry_run: "map fst (fst (entry_run c st rs)) = rs"
  by (induction rs arbitrary: st) (simp_all add: Let_def split_beta)

text \<open>What an address sees of a run is the run of its own requests on its own entry.\<close>

lemma rl_run_entry_both:
  "outcomes_of ip (fst (rl_run rl rs)) = fst (entry_run (rl_config rl) (entry rl ip) (requests_of ip rs))
    \<and> entry (snd (rl_run rl rs)) ip = snd (entry_run (rl_config rl) (entry rl ip) (requests_of ip rs))"
proof (induction rs arbitrary: rl)
  case (Cons r rs)
  let ?rl1 = "snd (snd (rl_step rl r))"
  have c: "rl_config ?rl1 = rl_config rl"
    by (simp add: rl_step_def)
  have own: "snd (snd (entry_step (rl_config rl) (entry rl ip) r)) = entry ?rl1 ip"
    "fst (entry_step (rl_config rl) (entry rl ip) r) = fst (rl_step rl r)"
    "fst (snd (entry_step (rl_config rl) (entry rl ip) r)) = fst (snd (rl_step rl r))" if "req_ip r = ip"
    using that by (auto simp: rl_step_def entry_step_def Allow_entry)
  have other: "entry ?rl1 ip = entry rl ip" if "req_ip r \<noteq> ip"
    using that by (simp add: rl_step_def entry_other)
  show ?case
    using Cons.IH [of ?rl1] own other
    by (cases "req_ip r = ip") (auto simp: Let_def split_beta outcomes_of_def requests_of_def c)
qed (simp add: outcomes_of_def requests_of_def)

lemmas rl_run_entry = rl_run_entry_both [THEN conjunct1] rl_run_entry_both [THEN conjunct2]

lemma outcomes_of_append: "outcomes_of ip (xs @ ys) = outcomes_of ip xs @ outcomes_of ip ys"
  by (simp add: outcomes_of_def)

lemma entry_NewRateLimiter [simp]: "entry (NewRateLimiter cfg) ip = new_ipState"
  by (simp add: entry_def NewRateLimiter_def)

lemma config_NewRateLimiter [simp]: "rl_config (NewRateLimiter cfg) = cfg"
  by (simp add: NewRateLimiter_def)

section \<open>Counting within a window\<close>

text \<open>The count still held against an event: none before the first request of it.\<close>

definition count_of :: "ipState \<Rightarrow> EventType \<Rightarrow> int" where
  "count_of st ev = (case mget (ip_counters st) ev of None \<Rightarrow> 0 | Some c \<Rightarrow> wc_count c)"

definition start_of :: "ipState \<Rightarrow> EventType \<Rightarrow> time \<Rightarrow> time" where
  "start_of st ev t = (case mget (ip_counters st) ev of None \<Rightarrow> t | Some c \<Rightarrow> wc_windowStart c)"

lemma count_request_eq:
  "wc_count (count_request cfg st ev t)
    = (if windowFor cfg ev \<le> time_sub t (start_of st ev t) then 1 else count_of st ev + 1)"
  "wc_windowStart (count_request cfg st ev t)
    = (if windowFor cfg ev \<le> time_sub t (start_of st ev t) then t else start_of st ev t)"
  by (auto simp: count_request_def count_of_def start_of_def Let_def split: option.split)

lemma entry_step_counts:
  "count_of (snd (snd (entry_step cfg st r))) ev
    = (if isBannedLocked st (req_check r) \<or> req_event r \<noteq> ev then count_of st ev
       else wc_count (count_request cfg st ev (req_now r)))"
  "start_of (snd (snd (entry_step cfg st r))) ev t
    = (if isBannedLocked st (req_check r) \<or> req_event r \<noteq> ev then start_of st ev t
       else wc_windowStart (count_request cfg st ev (req_now r)))"
  by (simp_all add: count_of_def start_of_def entry_step_def allow_entry_counters)

lemma entry_step_True:
  "fst (entry_step cfg st r)
    \<longleftrightarrow> \<not> isBannedLocked st (req_check r)
      \<and> wc_count (count_request cfg st (req_event r) (req_now r)) < 3 * limitFor cfg (req_event r)
      \<and> wc_count (count_request cfg st (req_event r) (req_now r)) \<le> limitFor cfg (req_event r)"
  by (simp add: entry_step_def allow_entry_True)

lemma allowed_of_Nil [simp]: "allowed_of ev [] = 0"
  by (simp add: allowed_of_def)

lemma allowed_of_Cons [simp]:
  "allowed_of ev ((r, ok, ps) # out) = (if ok \<and> req_event r = ev then Suc (allowed_of ev out) else allowed_of ev out)"
  by (simp add: allowed_of_def)

text \<open>Requests for an event whose time lies in one span of the event's window length.\<close>

definition in_span :: "RateLimitConfig \<Rightarrow> EventType \<Rightarrow> time \<Rightarrow> request list \<Rightarrow> bool" where
  "in_span cfg ev T rs =
     list_all (\<lambda>r. req_event r = ev \<longrightarrow> T \<le> req_now r \<and> req_now r < T + windowFor cfg ev) rs"

lemma no_reset:
  assumes "T \<le> u" "t < T + w" "0 < w" "w < 2 ^ 63"
  shows "\<not> w \<le> time_sub t u"
  using assms by (simp add: time_sub_ge_iff)

lemma count_of_nonneg_step:
  "0 \<le> count_of st ev \<Longrightarrow> 0 \<le> count_of (snd (snd (entry_step cfg st r))) ev"
  by (simp add: entry_step_counts count_request_eq)

lemma count_of_nonneg: "0 \<le> count_of (snd (entry_run cfg new_ipState rs)) ev"
proof (induction rs rule: rev_induct)
  case Nil
  then show ?case by (simp add: count_of_def new_ipState_def)
next
  case (snoc r rs)
  then show ?case
    using count_of_nonneg_step [OF snoc.IH] by (simp add: entry_run_append split_beta)
qed

lemma allowed_same_window:
  assumes "0 < windowFor cfg ev" "windowFor cfg ev < 2 ^ 63"
    and "in_span cfg ev T rs" "0 \<le> count_of st ev" "\<And>t. T \<le> t \<Longrightarrow> T \<le> start_of st ev t"
  shows "int (allowed_of ev (fst (entry_run cfg st rs))) + count_of st ev \<le> max (limitFor cfg ev) (count_of st ev)"
  using assms(3-5)
proof (induction rs arbitrary: st)
  case (Cons r rs)
  let ?st1 = "snd (snd (entry_step cfg st r))"
  show ?case
  proof (cases "isBannedLocked st (req_check r) \<or> req_event r \<noteq> ev")
    case True
    then have "count_of ?st1 ev = count_of st ev" "\<And>t. start_of ?st1 ev t = start_of st ev t"
      "\<not> (fst (entry_step cfg st r) \<and> req_event r = ev)"
      by (auto simp: entry_step_counts entry_step_True)
    then show ?thesis
      using Cons.IH [of ?st1] Cons.prems by (auto simp: Let_def split_beta in_span_def)
  next
    case False
    then have ev: "req_event r = ev" and t: "T \<le> req_now r" "req_now r < T + windowFor cfg ev"
      using Cons.prems by (auto simp: in_span_def)
    have keep: "\<not> windowFor cfg ev \<le> time_sub (req_now r) (start_of st ev (req_now r))"
      using no_reset [OF Cons.prems(3) [OF t(1)] t(2) assms(1,2)] .
    have 1: "count_of ?st1 ev = count_of st ev + 1" "\<And>u. start_of ?st1 ev u = start_of st ev (req_now r)"
      using False keep by (simp_all add: entry_step_counts count_request_eq)
    have ok: "fst (entry_step cfg st r) \<Longrightarrow> count_of st ev + 1 \<le> limitFor cfg ev"
      using ev keep by (simp add: entry_step_True count_request_eq)
    have "int (allowed_of ev (fst (entry_run cfg ?st1 rs))) + count_of ?st1 ev
        \<le> max (limitFor cfg ev) (count_of ?st1 ev)"
      using Cons.IH [of ?st1] Cons.prems 1 t by (simp add: in_span_def)
    then show ?thesis
      using 1(1) ok ev by (auto simp: Let_def split_beta)
  qed
qed simp

lemma allowed_in_span:
  assumes "0 < windowFor cfg ev" "windowFor cfg ev < 2 ^ 63" "0 \<le> limitFor cfg ev"
    and "in_span cfg ev T rs" "0 \<le> count_of st ev"
  shows "int (allowed_of ev (fst (entry_run cfg st rs))) + count_of st ev
    \<le> limitFor cfg ev + max (limitFor cfg ev) (count_of st ev)"
  using assms(4-5)
proof (induction rs arbitrary: st)
  case (Cons r rs)
  let ?st1 = "snd (snd (entry_step cfg st r))"
  have sp: "in_span cfg ev T rs"
    using Cons.prems by (simp add: in_span_def)
  show ?case
  proof (cases "isBannedLocked st (req_check r) \<or> req_event r \<noteq> ev")
    case True
    then have "count_of ?st1 ev = count_of st ev" "\<not> (fst (entry_step cfg st r) \<and> req_event r = ev)"
      by (auto simp: entry_step_counts entry_step_True)
    then show ?thesis
      using Cons.IH [of ?st1] Cons.prems sp by (auto simp: Let_def split_beta)
  next
    case False
    then have ev: "req_event r = ev" and t: "T \<le> req_now r" "req_now r < T + windowFor cfg ev"
      using Cons.prems by (auto simp: in_span_def)
    show ?thesis
    proof (cases "windowFor cfg ev \<le> time_sub (req_now r) (start_of st ev (req_now r))")
      case True
      then have 1: "count_of ?st1 ev = 1" "\<And>u. start_of ?st1 ev u = req_now r"
        using False by (simp_all add: entry_step_counts count_request_eq)
      have ok: "fst (entry_step cfg st r) \<Longrightarrow> 1 \<le> limitFor cfg ev"
        using ev True by (simp add: entry_step_True count_request_eq)
      have "int (allowed_of ev (fst (entry_run cfg ?st1 rs))) + 1 \<le> max (limitFor cfg ev) 1"
        using allowed_same_window [OF assms(1,2) sp, of ?st1] t(1) 1 by simp
      then show ?thesis
        using ok ev assms(3) Cons.prems(2) by (auto simp: Let_def split_beta)
    next
      case keep: False
      have 1: "count_of ?st1 ev = count_of st ev + 1"
        using False keep by (simp add: entry_step_counts count_request_eq)
      have ok: "fst (entry_step cfg st r) \<Longrightarrow> count_of st ev + 1 \<le> limitFor cfg ev"
        using ev keep by (simp add: entry_step_True count_request_eq)
      have "int (allowed_of ev (fst (entry_run cfg ?st1 rs))) + count_of ?st1 ev
          \<le> limitFor cfg ev + max (limitFor cfg ev) (count_of ?st1 ev)"
        using Cons.IH [OF sp, of ?st1] 1 Cons.prems by simp
      then show ?thesis
        using 1 ok ev by (auto simp: Let_def split_beta)
    qed
  qed
qed (use assms in simp)

section \<open>Bans\<close>

fun ban_label :: "probe_event \<Rightarrow> string list" where
  "ban_label (BanTriggered ip ev d) = [d]"
| "ban_label (AcceptError c e) = []"
| "ban_label (RateLimited ip ev) = []"
| "ban_label (ConnectionAccepted r ip) = []"

text \<open>The durations of the bans a run reports, in order.\<close>

definition ban_labels :: "outcome list \<Rightarrow> string list" where
  "ban_labels out = concat (map (\<lambda>(_, _, ps). concat (map ban_label ps)) out)"

abbreviation ban_durations :: "string list" where
  "ban_durations \<equiv> [''1h'', ''24h'', ''permanent'']"

text \<open>What every entry keeps: at most three bans, the third of which is permanent.\<close>

definition ban_inv :: "ipState \<Rightarrow> bool" where
  "ban_inv st = (0 \<le> ip_banCount st \<and> ip_banCount st \<le> 3 \<and> (ip_permanent st \<longleftrightarrow> ip_banCount st = 3))"

definition silent :: "outcome list \<Rightarrow> bool" where
  "silent out = list_all (\<lambda>(_, ok, ps). \<not> ok \<and> ps = []) out"

lemma ban_inv_new [simp]: "ban_inv new_ipState"
  by (simp add: ban_inv_def new_ipState_def)

lemma three_cases: "0 \<le> (n::int) \<Longrightarrow> n \<le> 3 \<Longrightarrow> n \<noteq> 3 \<Longrightarrow> n = 0 \<or> n = 1 \<or> n = 2"
  by linarith

lemma ban_step:
  assumes "ban_inv st" "\<not> ip_permanent st"
  shows "ban_inv (snd (ban ip st ev t))"
    and "ip_banCount (snd (ban ip st ev t)) = ip_banCount st + 1"
    and "concat (map ban_label (fst (ban ip st ev t))) = [ban_durations ! nat (ip_banCount st)]"
proof -
  have n: "ip_banCount st = 0 \<or> ip_banCount st = 1 \<or> ip_banCount st = 2"
    using assms three_cases [of "ip_banCount st"] by (auto simp: ban_inv_def)
  show "ban_inv (snd (ban ip st ev t))"
    using n assms(2) by (auto simp: ban_def ban_inv_def)
  show "ip_banCount (snd (ban ip st ev t)) = ip_banCount st + 1"
    by (simp add: ban_def Let_def)
  show "concat (map ban_label (fst (ban ip st ev t))) = [ban_durations ! nat (ip_banCount st)]"
    using n by (auto simp: ban_def)
qed

lemma ban_inv_counters [simp]: "ban_inv (st\<lparr>ip_counters := cs\<rparr>) = ban_inv st"
  by (simp add: ban_inv_def)

lemma ban_inv_violations [simp]: "ban_inv (st\<lparr>ip_violations := vs\<rparr>) = ban_inv st"
  by (simp add: ban_inv_def)

text \<open>
  A request either bans (one report, one more ban) or leaves the ban fields alone. The second
  case says which fields.
\<close>

lemma recordViolation_cases:
  "(\<exists>vs. recordViolation ip st ev t t' = ban ip (st\<lparr>ip_violations := vs\<rparr>) ev t')
    \<or> (\<exists>vs. recordViolation ip st ev t t' = ([], st\<lparr>ip_violations := vs\<rparr>))"
proof -
  define vs where "vs = filter (\<lambda>u. time_sub t u < RateLimitViolationWindow * second) (ip_violations st) @ [t]"
  have "recordViolation ip st ev t t' = (if RateLimitViolationBanCount \<le> length vs
      then ban ip (st\<lparr>ip_violations := vs\<rparr>) ev t' else ([], st\<lparr>ip_violations := vs\<rparr>))"
    unfolding recordViolation_def Let_def vs_def [symmetric] ..
  then show ?thesis
    by (metis (full_types))
qed

lemma entry_step_cases:
  assumes "\<not> isBannedLocked st (req_check r)"
  obtains (bans) cs vs tail where
      "entry_step cfg st r = (False, fst (ban (req_ip r) (st\<lparr>ip_counters := cs, ip_violations := vs\<rparr>) (req_event r) (req_ban r)) @ tail,
         snd (ban (req_ip r) (st\<lparr>ip_counters := cs, ip_violations := vs\<rparr>) (req_event r) (req_ban r)))"
      "concat (map ban_label tail) = []"
  | (counts) ok ps cs vs where
      "entry_step cfg st r = (ok, ps, st\<lparr>ip_counters := cs, ip_violations := vs\<rparr>)"
      "concat (map ban_label ps) = []"
proof -
  define c where "c = count_request cfg st (req_event r) (req_now r)"
  define st1 where "st1 = st\<lparr>ip_counters := mput (req_event r) c (ip_counters st)\<rparr>"
  have st1: "st1\<lparr>ip_violations := ip_violations st\<rparr> = st1"
    by (simp add: st1_def)
  note step = entry_step_def allow_entry_def Let_def c_def [symmetric] st1_def [symmetric] assms if_False
  let ?l = "limitFor cfg (req_event r)"
  consider (flood) "3 * ?l \<le> wc_count c" | (over) "\<not> 3 * ?l \<le> wc_count c" "?l < wc_count c" "wc_count c \<noteq> ?l + 1"
    | (viol) "\<not> 3 * ?l \<le> wc_count c" "wc_count c = ?l + 1" | (within) "\<not> 3 * ?l \<le> wc_count c" "\<not> ?l < wc_count c"
    by fastforce
  then show ?thesis
  proof cases
    case flood
    then show ?thesis
      by (intro bans [where cs = "mput (req_event r) c (ip_counters st)" and vs = "ip_violations st" and tail = "[]"])
        (simp_all add: step st1)
  next
    case over
    then show ?thesis
      by (intro counts [where ok = False and ps = "[RateLimited (req_ip r) (eventName (req_event r))]"
            and cs = "mput (req_event r) c (ip_counters st)" and vs = "ip_violations st"])
        (simp_all add: step st1)
  next
    case within
    then show ?thesis
      by (intro counts [where ok = True and ps = "[]" and cs = "mput (req_event r) c (ip_counters st)" and vs = "ip_violations st"])
        (simp_all add: step st1)
  next
    case viol
    have e: "entry_step cfg st r = (False,
        fst (recordViolation (req_ip r) st1 (req_event r) (req_now r) (req_ban r))
          @ [RateLimited (req_ip r) (eventName (req_event r))],
        snd (recordViolation (req_ip r) st1 (req_event r) (req_now r) (req_ban r)))"
      using viol by (simp add: step)
    consider (1) vs where "recordViolation (req_ip r) st1 (req_event r) (req_now r) (req_ban r)
        = ban (req_ip r) (st1\<lparr>ip_violations := vs\<rparr>) (req_event r) (req_ban r)"
      | (2) vs where "recordViolation (req_ip r) st1 (req_event r) (req_now r) (req_ban r)
        = ([], st1\<lparr>ip_violations := vs\<rparr>)"
      using recordViolation_cases by blast
    then show ?thesis
    proof cases
      case (1 vs)
      then show ?thesis
        using e by (intro bans [where cs = "mput (req_event r) c (ip_counters st)" and vs = vs
              and tail = "[RateLimited (req_ip r) (eventName (req_event r))]"]) (simp_all add: st1_def)
    next
      case (2 vs)
      then show ?thesis
        using e by (intro counts [where ok = False and ps = "[RateLimited (req_ip r) (eventName (req_event r))]"
              and cs = "mput (req_event r) c (ip_counters st)" and vs = vs]) (simp_all add: st1_def)
    qed
  qed
qed

lemma entry_step_banned:
  "isBannedLocked st (req_check r) \<Longrightarrow> entry_step cfg st r = (False, [], st)"
  by (simp add: entry_step_def allow_entry_def)

lemma isBanned_permanent: "ip_permanent st \<Longrightarrow> isBannedLocked st t"
  by (simp add: isBannedLocked_def)

lemma take_snoc_nth: "n < length xs \<Longrightarrow> take n xs @ [xs ! n] = take (Suc n) xs"
  by (simp add: take_Suc_conv_app_nth)

lemma entry_step_bans:
  fixes cfg :: RateLimitConfig and r :: request
  assumes "ban_inv st"
  defines "r' \<equiv> entry_step cfg st r"
  shows "ban_inv (snd (snd r'))
    \<and> take (nat (ip_banCount st)) ban_durations @ concat (map ban_label (fst (snd r')))
        = take (nat (ip_banCount (snd (snd r')))) ban_durations"
proof (cases "isBannedLocked st (req_check r)")
  case True
  then show ?thesis
    using assms(1) by (simp add: r'_def entry_step_banned)
next
  case False
  then have np: "\<not> ip_permanent st"
    by (auto simp: isBannedLocked_def)
  show ?thesis
  proof (cases rule: entry_step_cases [OF False, of cfg])
    case (1 cs vs tail)
    let ?st = "st\<lparr>ip_counters := cs, ip_violations := vs\<rparr>"
    have inv: "ban_inv ?st" and "\<not> ip_permanent ?st"
      using assms(1) np by simp_all
    note b = ban_step [OF this, of "req_ip r" "req_event r" "req_ban r"]
    have n: "0 \<le> ip_banCount st" "ip_banCount st < 3"
      using assms(1) np by (auto simp: ban_inv_def)
    then have "nat (ip_banCount st + 1) = Suc (nat (ip_banCount st))" "nat (ip_banCount st) < length ban_durations"
      by simp_all
    then have "take (nat (ip_banCount st)) ban_durations @ [ban_durations ! nat (ip_banCount st)]
        = take (nat (ip_banCount st + 1)) ban_durations"
      by (simp only: take_snoc_nth)
    then show ?thesis
      using b by (simp add: r'_def 1 del: take_Cons' nth_Cons')
  next
    case (2 ok ps cs vs)
    then show ?thesis
      using assms(1) by (simp add: r'_def)
  qed
qed

lemma entry_run_bans:
  "ban_inv (snd (entry_run cfg new_ipState rs))
    \<and> ban_labels (fst (entry_run cfg new_ipState rs))
        = take (nat (ip_banCount (snd (entry_run cfg new_ipState rs)))) ban_durations"
proof (induction rs rule: rev_induct)
  case Nil
  then show ?case by (simp add: ban_labels_def new_ipState_def ban_inv_def)
next
  case (snoc r rs)
  then show ?case
    using entry_step_bans [of "snd (entry_run cfg new_ipState rs)" cfg r]
    by (simp add: entry_run_append split_beta ban_labels_def)
qed

lemma entry_run_banned:
  assumes "list_all (\<lambda>r. isBannedLocked st (req_check r)) rs"
  shows "silent (fst (entry_run cfg st rs)) \<and> snd (entry_run cfg st rs) = st"
  using assms by (induction rs) (simp_all add: entry_step_banned silent_def split_beta)

lemma entry_run_permanent:
  "ip_permanent st \<Longrightarrow> silent (fst (entry_run cfg st rs)) \<and> snd (entry_run cfg st rs) = st"
  by (rule entry_run_banned) (simp add: isBanned_permanent list_all_iff)

text \<open>A request whose three clock readings are the same.\<close>

definition req_at :: "ip \<Rightarrow> EventType \<Rightarrow> time \<Rightarrow> request" where
  "req_at ip ev t = \<lparr>req_ip = ip, req_event = ev, req_check = t, req_now = t, req_ban = t\<rparr>"

text \<open>The length of a timed ban in seconds, by the label it is reported with.\<close>

definition ban_seconds :: "string \<Rightarrow> int option" where
  "ban_seconds d = (if d = ''1h'' then Some BanDurationFirst
                    else if d = ''24h'' then Some BanDurationSecond else None)"

lemma ban_until:
  assumes "d \<in> set (concat (map ban_label (fst (ban ip st ev t))))" "ban_seconds d = Some n"
    and "\<not> ip_permanent st"
  shows "ip_banExpiry (snd (ban ip st ev t)) = t + n * second \<and> \<not> ip_permanent (snd (ban ip st ev t))"
  using assms by (auto simp: ban_def ban_seconds_def Let_def split: if_splits)

lemma entry_step_until:
  assumes "d \<in> set (concat (map ban_label (fst (snd (entry_step cfg st r)))))" "ban_seconds d = Some n"
  shows "ip_banExpiry (snd (snd (entry_step cfg st r))) = req_ban r + n * second
    \<and> \<not> ip_permanent (snd (snd (entry_step cfg st r)))"
proof (cases "isBannedLocked st (req_check r)")
  case True
  then show ?thesis
    using assms by (simp add: entry_step_banned)
next
  case False
  then have np: "\<not> ip_permanent st"
    by (auto simp: isBannedLocked_def)
  show ?thesis
  proof (cases rule: entry_step_cases [OF False, of cfg])
    case (1 cs vs tail)
    then show ?thesis
      using assms ban_until [of d "req_ip r" "st\<lparr>ip_counters := cs, ip_violations := vs\<rparr>" "req_event r" "req_ban r" n] np
      by auto
  next
    case (2 ok ps cs vs)
    then show ?thesis
      using assms by simp
  qed
qed

section \<open>Polite clients\<close>

text \<open>The requests for the same event that fall in the window a request would open.\<close>

definition in_window_of :: "RateLimitConfig \<Rightarrow> request list \<Rightarrow> EventType \<Rightarrow> time \<Rightarrow> nat" where
  "in_window_of cfg rs ev t =
     length (filter (\<lambda>q. req_event q = ev \<and> t \<le> req_now q \<and> req_now q < t + windowFor cfg ev) rs)"

definition polite :: "RateLimitConfig \<Rightarrow> request list \<Rightarrow> bool" where
  "polite cfg rs = list_all (\<lambda>r. int (in_window_of cfg rs (req_event r) (req_now r)) \<le> limitFor cfg (req_event r)
                                 \<and> 0 < windowFor cfg (req_event r) \<and> windowFor cfg (req_event r) < 2 ^ 63) rs"

definition all_allowed :: "outcome list \<Rightarrow> bool" where
  "all_allowed out = list_all (\<lambda>(_, ok, ps). ok \<and> ps = []) out"

text \<open>
  The counter of every event covers the requests of its window seen so far, and the address was
  never banned.
\<close>

definition tracks :: "RateLimitConfig \<Rightarrow> request list \<Rightarrow> ipState \<Rightarrow> bool" where
  "tracks cfg rs st \<longleftrightarrow>
     \<not> ip_permanent st \<and> ip_banExpiry st = 0 \<and>
     (\<forall>ev c. mget (ip_counters st) ev = Some c \<longrightarrow>
        (\<exists>r \<in> set rs. req_event r = ev \<and> req_now r = wc_windowStart c) \<and>
        wc_count c \<le> int (in_window_of cfg rs ev (wc_windowStart c)))"

lemma in_window_of_append:
  "in_window_of cfg (xs @ ys) ev t = in_window_of cfg xs ev t + in_window_of cfg ys ev t"
  by (simp add: in_window_of_def)

lemma polite_butlast: "polite cfg (rs @ [r]) \<Longrightarrow> polite cfg rs"
  by (auto simp: polite_def list_all_iff in_window_of_append)

lemma count_request_tracks:
  assumes "tracks cfg rs st" "polite cfg (rs @ [r])" "\<And>q. q \<in> set rs \<Longrightarrow> req_now q \<le> req_now r"
  defines "c \<equiv> count_request cfg st (req_event r) (req_now r)"
  shows "(\<exists>q \<in> set (rs @ [r]). req_event q = req_event r \<and> req_now q = wc_windowStart c)
    \<and> wc_count c \<le> int (in_window_of cfg (rs @ [r]) (req_event r) (wc_windowStart c))"
proof -
  let ?ev = "req_event r" and ?t = "req_now r"
  have w: "0 < windowFor cfg ?ev" "windowFor cfg ?ev < 2 ^ 63"
    using assms(2) by (simp_all add: polite_def)
  have new: "1 \<le> in_window_of cfg (rs @ [r]) ?ev ?t"
    using w by (simp add: in_window_of_def)
  show ?thesis
  proof (cases "mget (ip_counters st) ?ev")
    case None
    then show ?thesis
      using new by (simp add: c_def count_request_def Let_def)
  next
    case (Some d)
    obtain q where q: "q \<in> set rs" "req_event q = ?ev" "req_now q = wc_windowStart d"
      using assms(1) Some by (auto simp: tracks_def)
    have d: "wc_count d \<le> int (in_window_of cfg rs ?ev (wc_windowStart d))"
      using assms(1) Some by (simp add: tracks_def)
    show ?thesis
    proof (cases "windowFor cfg ?ev \<le> time_sub ?t (wc_windowStart d)")
      case True
      then show ?thesis
        using Some new by (simp add: c_def count_request_def Let_def)
    next
      case False
      have "?t < wc_windowStart d + windowFor cfg ?ev"
        using False w by (simp add: time_sub_ge_iff)
      moreover have "wc_windowStart d \<le> ?t"
        using assms(3) [OF q(1)] q(3) by simp
      ultimately have "in_window_of cfg [r] ?ev (wc_windowStart d) = 1"
        by (simp add: in_window_of_def)
      then show ?thesis
        using Some False d q by (auto simp: c_def count_request_def Let_def in_window_of_append)
    qed
  qed
qed

lemma polite_step:
  assumes "tracks cfg rs st" "polite cfg (rs @ [r])" "\<And>q. q \<in> set rs \<Longrightarrow> req_now q \<le> req_now r"
  shows "fst (entry_step cfg st r) \<and> fst (snd (entry_step cfg st r)) = []
    \<and> tracks cfg (rs @ [r]) (snd (snd (entry_step cfg st r)))"
proof -
  let ?ev = "req_event r"
  let ?c = "count_request cfg st ?ev (req_now r)"
  note c = count_request_tracks [OF assms]
  obtain q where q: "q \<in> set (rs @ [r])" "req_event q = ?ev" "req_now q = wc_windowStart ?c"
    using c by blast
  have "wc_count ?c \<le> int (in_window_of cfg (rs @ [r]) (req_event q) (req_now q))"
    using c q by simp
  also have "\<dots> \<le> limitFor cfg (req_event q)"
    using assms(2) q(1) unfolding polite_def list_all_iff by blast
  finally have le: "wc_count ?c \<le> limitFor cfg ?ev"
    using q(2) by simp
  have "1 \<le> in_window_of cfg (rs @ [r]) ?ev (req_now r)" "int (in_window_of cfg (rs @ [r]) ?ev (req_now r)) \<le> limitFor cfg ?ev"
    using assms(2) by (auto simp: polite_def in_window_of_def)
  then have "1 \<le> limitFor cfg ?ev"
    by linarith
  then have lt: "\<not> 3 * limitFor cfg ?ev \<le> wc_count ?c" "\<not> limitFor cfg ?ev < wc_count ?c"
    using le by linarith+
  have nb: "\<not> isBannedLocked st (req_check r)"
    using assms(1) by (simp add: tracks_def isBannedLocked_def)
  have step: "entry_step cfg st r = (True, [], st\<lparr>ip_counters := mput ?ev ?c (ip_counters st)\<rparr>)"
    using nb lt by (simp add: entry_step_def allow_entry_def Let_def)
  have "tracks cfg (rs @ [r]) (st\<lparr>ip_counters := mput ?ev ?c (ip_counters st)\<rparr>)"
    using assms(1) c by (fastforce simp: tracks_def in_window_of_append)
  then show ?thesis
    by (simp add: step)
qed

lemma polite_run:
  assumes "polite cfg rs" "sorted_wrt (\<lambda>a b. req_now a \<le> req_now b) rs"
  shows "all_allowed (fst (entry_run cfg new_ipState rs)) \<and> tracks cfg rs (snd (entry_run cfg new_ipState rs))"
  using assms
proof (induction rs rule: rev_induct)
  case Nil
  then show ?case by (simp add: all_allowed_def tracks_def new_ipState_def)
next
  case (snoc r rs)
  have IH: "all_allowed (fst (entry_run cfg new_ipState rs))" "tracks cfg rs (snd (entry_run cfg new_ipState rs))"
    using snoc polite_butlast by (auto simp: sorted_wrt_append)
  have "\<And>q. q \<in> set rs \<Longrightarrow> req_now q \<le> req_now r"
    using snoc.prems(2) by (simp add: sorted_wrt_append)
  from polite_step [OF IH(2) snoc.prems(1) this] IH(1) show ?case
    by (auto simp: entry_run_append split_beta all_allowed_def)
qed

section \<open>Properties\<close>

text \<open>
  C15. The relay's requests of one address for one event are bounded over any span of the event's
  window: whatever was asked before and however the requests of all addresses and events
  interleave, at most twice the limit of those with a time in the span are allowed.
\<close>

theorem allowed_requests_bounded:
  assumes "0 < windowFor cfg ev" "windowFor cfg ev < 2 ^ 63" "0 \<le> limitFor cfg ev"
    and "in_span cfg ev T (requests_of ip during)"
  shows "int (allowed_of ev (outcomes_of ip (fst (rl_run (snd (rl_run (NewRateLimiter cfg) before)) during))))
    \<le> 2 * limitFor cfg ev"
proof -
  let ?st = "snd (entry_run cfg new_ipState (requests_of ip before))"
  have "outcomes_of ip (fst (rl_run (snd (rl_run (NewRateLimiter cfg) before)) during))
      = fst (entry_run cfg ?st (requests_of ip during))"
    by (simp add: rl_run_entry)
  then show ?thesis
    using allowed_in_span [OF assms, of ?st] count_of_nonneg [of cfg "requests_of ip before" ev]
    by (simp add: max_def split: if_splits)
qed

text \<open>Three connections in one second from an address that asked once before.\<close>

theorem allowed_requests_bounded_witness:
  "int (allowed_of EventConnection (outcomes_of [1]
      (fst (rl_run (snd (rl_run (NewRateLimiter DefaultRateLimitConfig) [req_at [1] EventConnection 5]))
        (replicate 3 (req_at [1] EventConnection second)))))) \<le> 2 * DefaultConnectionRateLimit"
  using allowed_requests_bounded [of DefaultRateLimitConfig EventConnection 0 "[1]"
      "replicate 3 (req_at [1] EventConnection second)" "[req_at [1] EventConnection 5]"]
  by (simp add: DefaultRateLimitConfig_def in_span_def requests_of_def req_at_def second_def numeral_3_eq_3)

text \<open>
  Bans escalate: the bans an address gets in any run last one hour, then twenty-four hours,
  then forever, and no fourth ban follows; the entry counts them.
\<close>

theorem bans_escalate:
  "ban_labels (outcomes_of ip (fst (rl_run (NewRateLimiter cfg) rs)))
    = take (nat (ip_banCount (entry (snd (rl_run (NewRateLimiter cfg) rs)) ip))) [''1h'', ''24h'', ''permanent'']"
  by (simp add: rl_run_entry entry_run_bans)

text \<open>
  A permanent ban is final: once it has been reported for an address, every later request of
  that address is refused without a report, and the ban check says so at any time.
\<close>

theorem permanent_ban_is_final:
  assumes "''permanent'' \<in> set (ban_labels (outcomes_of ip (fst (rl_run (NewRateLimiter cfg) before))))"
  shows "silent (outcomes_of ip (fst (rl_run (snd (rl_run (NewRateLimiter cfg) before)) later)))
    \<and> IsBanned (snd (rl_run (NewRateLimiter cfg) (before @ later))) ip t"
proof -
  let ?st = "snd (entry_run cfg new_ipState (requests_of ip before))"
  have "''permanent'' \<in> set (take (nat (ip_banCount ?st)) ban_durations)" and inv: "ban_inv ?st"
    using assms entry_run_bans [of cfg "requests_of ip before"] by (simp_all add: rl_run_entry)
  then have "\<not> nat (ip_banCount ?st) < 3"
    by (auto simp: take_Cons' split: if_splits)
  then have perm: "ip_permanent ?st"
    using inv by (auto simp: ban_inv_def)
  note run = entry_run_permanent [OF this, of cfg "requests_of ip later"]
  have "entry (snd (rl_run (NewRateLimiter cfg) (before @ later))) ip = ?st"
    using run by (simp add: rl_run_append rl_run_entry)
  then have "IsBanned (snd (rl_run (NewRateLimiter cfg) (before @ later))) ip t"
    using perm by (auto simp: IsBanned_def entry_def isBanned_permanent new_ipState_def split: option.splits)
  then show ?thesis
    using run by (simp add: rl_run_entry)
qed

text \<open>A registration limit of 1: the third, sixth and ninth request of three far windows ban.\<close>

definition ex_flood :: "request list" where
  "ex_flood = concat (map (\<lambda>k. replicate 3 (req_at [1] EventRegistration (k * 100000 * second))) [1, 2, 3])"

definition ex_limit1 :: RateLimitConfig where
  "ex_limit1 = DefaultRateLimitConfig\<lparr>RegistrationLimit := 1\<rparr>"

lemma ex_flood_bans:
  "ban_labels (outcomes_of [1] (fst (rl_run (NewRateLimiter ex_limit1) ex_flood))) = ban_durations"
  by code_simp

theorem permanent_ban_is_final_witness:
  "silent (outcomes_of [1] (fst (rl_run (snd (rl_run (NewRateLimiter ex_limit1) ex_flood))
      [req_at [1] EventConnection (1000000000 * second)])))
    \<and> IsBanned (snd (rl_run (NewRateLimiter ex_limit1)
        (ex_flood @ [req_at [1] EventConnection (1000000000 * second)]))) [1] (2000000000 * second)"
  by (rule permanent_ban_is_final) (simp add: ex_flood_bans)

text \<open>
  C27. Addresses are isolated: what an address gets, verdicts and reports, is what it would get if
  its own requests were the only ones.
\<close>

theorem addresses_are_isolated:
  "outcomes_of ip (fst (rl_run rl rs)) = fst (rl_run rl (requests_of ip rs))"
proof -
  have "outcomes_of ip (fst (rl_run rl (requests_of ip rs))) = fst (rl_run rl (requests_of ip rs))"
    by (induction rs arbitrary: rl) (simp_all add: outcomes_of_def requests_of_def Let_def split_beta)
  moreover have "requests_of ip (requests_of ip rs) = requests_of ip rs"
    by (simp add: requests_of_def)
  ultimately show ?thesis
    using rl_run_entry(1) [of ip rl rs] rl_run_entry(1) [of ip rl "requests_of ip rs"] by simp
qed

text \<open>
  A timed ban lasts exactly as long as reported: after a request that reports a ban of one or
  twenty-four hours, every request of the address whose ban check reads the clock before the end
  is refused without a report, and once the end has come the address is not banned any more.
\<close>

theorem timed_ban_lasts:
  assumes "d \<in> set (concat (map ban_label (fst (snd (rl_step rl r)))))" "ban_seconds d = Some n"
    and "0 < req_ban r"
    and "list_all (\<lambda>q. req_check q < req_ban r + n * second) (requests_of (req_ip r) later)"
  shows "silent (outcomes_of (req_ip r) (fst (rl_run (snd (snd (rl_step rl r))) later)))
    \<and> (\<forall>t. IsBanned (snd (rl_run (snd (snd (rl_step rl r))) later)) (req_ip r) t
          \<longleftrightarrow> t < req_ban r + n * second)"
proof -
  let ?ip = "req_ip r" and ?rl1 = "snd (snd (rl_step rl r))"
  have e: "entry ?rl1 ?ip = snd (snd (entry_step (rl_config rl) (entry rl ?ip) r))"
    by (simp add: rl_step_def entry_step_def Allow_entry)
  have u: "ip_banExpiry (entry ?rl1 ?ip) = req_ban r + n * second" "\<not> ip_permanent (entry ?rl1 ?ip)"
    using entry_step_until [of d "rl_config rl" "entry rl ?ip" r n] assms(1,2)
    by (simp_all add: e) (simp_all add: rl_step_def entry_step_def Allow_entry)
  have n: "0 < n"
    using assms(2) by (auto simp: ban_seconds_def split: if_splits)
  then have banned: "isBannedLocked (entry ?rl1 ?ip) t \<longleftrightarrow> t < req_ban r + n * second" for t
    using u assms(3) by (simp add: isBannedLocked_def second_def)
  have c: "rl_config ?rl1 = rl_config rl"
    by (simp add: rl_step_def)
  have run: "silent (fst (entry_run (rl_config rl) (entry ?rl1 ?ip) (requests_of ?ip later)))
      \<and> snd (entry_run (rl_config rl) (entry ?rl1 ?ip) (requests_of ?ip later)) = entry ?rl1 ?ip"
    using assms(4) by (intro entry_run_banned) (simp add: list_all_iff banned)
  then have "entry (snd (rl_run ?rl1 later)) ?ip = entry ?rl1 ?ip"
    by (simp add: rl_run_entry c)
  moreover have "entry ?rl1 ?ip \<noteq> new_ipState"
    using u n assms(3) by (auto simp: new_ipState_def second_def)
  ultimately have "IsBanned (snd (rl_run ?rl1 later)) ?ip t \<longleftrightarrow> t < req_ban r + n * second" for t
    using banned by (auto simp: IsBanned_def entry_def split: option.splits)
  then show ?thesis
    using run by (simp add: rl_run_entry c)
qed

text \<open>With a limit of 1, the third registration in one window bans for an hour.\<close>

definition ex_banning :: "RateLimiter \<times> request" where
  "ex_banning = (snd (rl_run (NewRateLimiter ex_limit1) (replicate 2 (req_at [1] EventRegistration 7))),
                 req_at [1] EventRegistration 7)"

theorem timed_ban_lasts_witness:
  "silent (outcomes_of [1] (fst (rl_run (snd (snd (rl_step (fst ex_banning) (snd ex_banning))))
      [req_at [1] EventConnection (3000 * second)])))
    \<and> (\<forall>t. IsBanned (snd (rl_run (snd (snd (rl_step (fst ex_banning) (snd ex_banning))))
          [req_at [1] EventConnection (3000 * second)])) [1] t \<longleftrightarrow> t < 7 + 3600 * second)"
proof -
  have 1: "''1h'' \<in> set (concat (map ban_label (fst (snd (rl_step (fst ex_banning) (snd ex_banning))))))"
    by code_simp
  have 2: "ban_seconds ''1h'' = Some 3600"
    by (simp add: ban_seconds_def)
  show ?thesis
    using timed_ban_lasts [OF 1 2, of "[req_at [1] EventConnection (3000 * second)]"]
    by (simp add: ex_banning_def req_at_def requests_of_def second_def)
qed

text \<open>
  The limiter never refuses a polite client: an address that starts with no record and, at
  nondecreasing times, never makes more requests for an event within a window length than the
  event's limit gets every request allowed and nothing reported, whatever other addresses do.
\<close>

theorem polite_client_never_refused:
  assumes "polite cfg (requests_of ip rs)"
    and "sorted_wrt (\<lambda>a b. req_now a \<le> req_now b) (requests_of ip rs)"
  shows "all_allowed (outcomes_of ip (fst (rl_run (NewRateLimiter cfg) rs)))"
  using polite_run [OF assms] by (simp add: rl_run_entry)

theorem polite_client_never_refused_witness:
  "all_allowed (outcomes_of [2] (fst (rl_run (NewRateLimiter ex_limit1)
     (ex_flood @ [req_at [2] EventRegistration 0, req_at [2] EventRegistration (1000000 * second)]))))"
proof -
  have "polite ex_limit1 (requests_of [2] (ex_flood @
      [req_at [2] EventRegistration 0, req_at [2] EventRegistration (1000000 * second)]))"
    by code_simp
  moreover have "sorted_wrt (\<lambda>a b. req_now a \<le> req_now b) (requests_of [2] (ex_flood @
      [req_at [2] EventRegistration 0, req_at [2] EventRegistration (1000000 * second)]))"
    by code_simp
  ultimately show ?thesis
    by (rule polite_client_never_refused)
qed

text \<open>
  What bans: a request of an address that is not banned reports a ban exactly when it brings
  the window's count to three times the limit or more, or when it is the first one over the limit
  in its window and two more such violations are on record for the last hour.
\<close>

theorem ban_causes:
  "concat (map ban_label (fst (snd (rl_step rl r)))) \<noteq> []
    \<longleftrightarrow> \<not> isBannedLocked (entry rl (req_ip r)) (req_check r) \<and>
        (let c = wc_count (count_request (rl_config rl) (entry rl (req_ip r)) (req_event r) (req_now r));
             l = limitFor (rl_config rl) (req_event r)
         in 3 * l \<le> c \<or> c = l + 1 \<and>
           2 \<le> length (filter (\<lambda>t. time_sub (req_now r) t < 3600 * second)
                         (ip_violations (entry rl (req_ip r)))))"
proof -
  have "concat (map ban_label (fst (ban ip st' ev t))) \<noteq> []" for ip st' ev t
    by (simp add: ban_def Let_def)
  then show ?thesis
    by (auto simp: rl_step_def Allow_entry allow_entry_def Let_def recordViolation_def)
qed

end
