(* ===== verification/Relay.thy ===== *)
theory Relay
  imports Rate_Limit Crypto "HOL-Library.Sublist"
begin

text \<open>
  \<open>internal/relay/relay.go\<close>: the relay server. A region of code between taking and releasing a
  mutex (\<open>Server.mu\<close> or a session's \<open>mu\<close>) is one operation; what a goroutine does next is a
  program counter, and an action of any goroutine whose counter allows it may come next.
  Sessions and viewer connections are heap objects named by their index, as goroutines keep
  pointers to them after they have left the maps. What the server writes to a connection,
  an HTTP response or the probe is appended to a log. A Go panic is a value.
\<close>

section \<open>Bounded channels\<close>

text \<open>
  The contract of a buffered channel that is written without blocking: a message is queued
  behind the others or, when the buffer is full, dropped.
\<close>

locale outbox =
  fixes usable :: "'q \<Rightarrow> bool"
    and pending :: "'q \<Rightarrow> 'm list"
    and push :: "'m \<Rightarrow> 'q \<Rightarrow> 'q"
    and capacity :: nat
  assumes push_usable: "usable q \<Longrightarrow> usable (push m q)"
    and push_fits: "usable q \<Longrightarrow> length (pending q) < capacity \<Longrightarrow> pending (push m q) = pending q @ [m]"
    and push_full: "usable q \<Longrightarrow> capacity \<le> length (pending q) \<Longrightarrow> pending (push m q) = pending q"
begin

lemma push_subseq: "usable q \<Longrightarrow> subseq (pending (push m q)) (pending q @ [m])"
  by (cases "length (pending q) < capacity") (auto simp: push_fits push_full intro: subseq_rev_drop_many)

lemma push_bounded:
  "usable q \<Longrightarrow> length (pending q) \<le> capacity \<Longrightarrow> length (pending (push m q)) \<le> capacity"
  by (cases "length (pending q) < capacity") (simp_all add: push_fits push_full)

lemma pushes_subseq: "usable q \<Longrightarrow> subseq (pending (fold push ms q)) (pending q @ ms)"
proof (induction ms arbitrary: q)
  case (Cons m ms)
  have "subseq (pending (push m q) @ ms) ((pending q @ [m]) @ ms)"
    using push_subseq [OF Cons.prems] by (simp only: subseq_append)
  with Cons.IH [OF push_usable [OF Cons.prems], of m] show ?case
    using subseq_order.order_trans by auto
qed simp

lemma pushes_fit:
  "usable q \<Longrightarrow> length (pending q) + length ms \<le> capacity \<Longrightarrow> pending (fold push ms q) = pending q @ ms"
  by (induction ms arbitrary: q) (simp_all add: push_fits push_usable)

end

datatype panic = SendOnClosedChannel | CloseOfClosedChannel | NilMapAssignment

record chan =
  ch_buf :: "bytes list"
  ch_closed :: bool

definition viewerSendBufSize :: nat where [simp]:
  "viewerSendBufSize = 256"

definition make_chan :: chan where
  "make_chan = \<lparr>ch_buf = [], ch_closed = False\<rparr>"

text \<open>\<open>select { case c <- m: ... default: ... }\<close>: the boolean tells which case ran.\<close>

definition chan_offer :: "bytes \<Rightarrow> chan \<Rightarrow> panic + bool \<times> chan" where
  "chan_offer m c =
     (if ch_closed c then Inl SendOnClosedChannel
      else if length (ch_buf c) < viewerSendBufSize then Inr (True, c\<lparr>ch_buf := ch_buf c @ [m]\<rparr>)
      else Inr (False, c))"

definition chan_close :: "chan \<Rightarrow> panic + chan" where
  "chan_close c = (if ch_closed c then Inl CloseOfClosedChannel else Inr (c\<lparr>ch_closed := True\<rparr>))"

text \<open>One receive of \<open>for msg := range c\<close>: \<open>None\<close> while it blocks, \<open>Some None\<close> at the end.\<close>

definition chan_recv :: "chan \<Rightarrow> (bytes option \<times> chan) option" where
  "chan_recv c =
     (case ch_buf c of
        m # ms \<Rightarrow> Some (Some m, c\<lparr>ch_buf := ms\<rparr>)
      | [] \<Rightarrow> if ch_closed c then Some (None, c) else None)"

definition chan_push :: "bytes \<Rightarrow> chan \<Rightarrow> chan" where
  "chan_push m c = (case chan_offer m c of Inl _ \<Rightarrow> c | Inr (_, c1) \<Rightarrow> c1)"

text \<open>An open channel is an \<open>outbox\<close>; a closed one accepts nothing.\<close>

interpretation sendq: outbox "\<lambda>c. \<not> ch_closed c" ch_buf chan_push viewerSendBufSize
  by unfold_locales (auto simp: chan_push_def chan_offer_def)

section \<open>State\<close>

type_synonym conn = nat

record viewerConn =
  vc_id :: bytes
  vc_conn :: conn
  vc_send :: chan

text \<open>\<open>rs_viewers\<close> is \<open>None\<close> for a nil map: reading it finds nothing, assigning to it panics.\<close>

record relay_session =
  rs_sharer :: conn
  rs_viewers :: "(bytes, nat) gomap option"
  rs_closed :: bool

datatype close_status = StatusPolicyViolation | StatusInternalError | StatusGoingAway

datatype effect =
    ProbeCall probe_event
  | HttpError nat
  | WriteMsg conn bytes
  | CloseConn conn close_status string

text \<open>
  Program counters. The goroutine of \<open>handleShare\<close>: session stored, acknowledged and reading,
  first and second part of its deferred function done. The goroutine of \<open>handleWatch\<close> from
  the point where the viewer is in the map; the one of \<open>viewerWriter\<close>.
\<close>

datatype sharer_pc = ShStored | ShReading | ShClosed | ShDone
datatype viewer_pc = VwStored | VwReading | VwDone
datatype writer_pc = WrNone | WrSending | WrDraining | WrDone

text \<open>
  \<open>sv_sessions\<close>, \<open>sv_maxViewers\<close> and \<open>sv_rateLimiter\<close> are fields of \<open>Server\<close>; \<open>sv_sess\<close> and
  \<open>sv_conns\<close> hold the session and viewer objects, \<open>sv_sharers\<close> (with the session ID),
  \<open>sv_viewers\<close> (with the session) and \<open>sv_writers\<close> their goroutines; \<open>sv_joining\<close> the
  \<open>handleWatch\<close> goroutines that have found a session and not yet taken its lock.
\<close>

record relay =
  sv_sessions :: "(bytes, nat) gomap"
  sv_maxViewers :: nat
  sv_rateLimiter :: "RateLimiter option"
  sv_sess :: "relay_session list"
  sv_sharers :: "(bytes \<times> sharer_pc) list"
  sv_conns :: "viewerConn list"
  sv_viewers :: "(nat \<times> viewer_pc) list"
  sv_writers :: "writer_pc list"
  sv_joining :: "(conn \<times> nat) list"
  sv_nextconn :: conn
  sv_log :: "effect list"

definition NewServer :: "RateLimiter option \<Rightarrow> relay" where
  "NewServer limiter =
     \<lparr>sv_sessions = [], sv_maxViewers = DefaultMaxViewers, sv_rateLimiter = limiter, sv_sess = [],
      sv_sharers = [], sv_conns = [], sv_viewers = [], sv_writers = [], sv_joining = [],
      sv_nextconn = 0, sv_log = []\<rparr>"

definition emit :: "effect list \<Rightarrow> relay \<Rightarrow> relay" where
  "emit es s = s\<lparr>sv_log := sv_log s @ es\<rparr>"

lemma emit_Nil [simp]: "emit [] s = s"
  by (simp add: emit_def)

definition viewers_of :: "relay_session \<Rightarrow> (bytes, nat) gomap" where
  "viewers_of x = (case rs_viewers x of None \<Rightarrow> [] | Some m \<Rightarrow> m)"

definition set_sess :: "nat \<Rightarrow> relay_session \<Rightarrow> relay \<Rightarrow> relay" where
  "set_sess r x s = s\<lparr>sv_sess := (sv_sess s)[r := x]\<rparr>"

definition set_sharer_pc :: "nat \<Rightarrow> sharer_pc \<Rightarrow> relay \<Rightarrow> relay" where
  "set_sharer_pc r pc s = s\<lparr>sv_sharers := (sv_sharers s)[r := (fst (sv_sharers s ! r), pc)]\<rparr>"

definition set_viewer_pc :: "nat \<Rightarrow> viewer_pc \<Rightarrow> relay \<Rightarrow> relay" where
  "set_viewer_pc v pc s = s\<lparr>sv_viewers := (sv_viewers s)[v := (fst (sv_viewers s ! v), pc)]\<rparr>"

definition set_writer_pc :: "nat \<Rightarrow> writer_pc \<Rightarrow> relay \<Rightarrow> relay" where
  "set_writer_pc v pc s = s\<lparr>sv_writers := (sv_writers s)[v := pc]\<rparr>"

definition set_send :: "nat \<Rightarrow> chan \<Rightarrow> viewerConn list \<Rightarrow> viewerConn list" where
  "set_send v c vcs = vcs[v := (vcs ! v)\<lparr>vc_send := c\<rparr>]"

section \<open>Requests\<close>

text \<open>The four readings of the clock a rate-limited request makes.\<close>

record clocks =
  ck_banned :: time
  ck_check :: time
  ck_now :: time
  ck_ban :: time

text \<open>The address is what \<open>extractIP\<close> returned. The boolean: \<open>next\<close> is called.\<close>

definition rateLimitWrap :: "EventType \<Rightarrow> ip \<Rightarrow> clocks \<Rightarrow> relay \<Rightarrow> bool \<times> relay" where
  "rateLimitWrap event ip ck s =
     (let s1 = emit [ProbeCall (ConnectionAccepted (eventName event) ip)] s
      in case sv_rateLimiter s1 of
           None \<Rightarrow> (True, s1)
         | Some rl \<Rightarrow>
             if IsBanned rl ip (ck_banned ck) then (False, emit [HttpError 403] s1)
             else
               let (ok, ps, rl1) = Allow rl ip event (ck_check ck) (ck_now ck) (ck_ban ck);
                   s2 = emit (map ProbeCall ps) (s1\<lparr>sv_rateLimiter := Some rl1\<rparr>)
               in if ok then (True, s2) else (False, emit [HttpError 429] s2))"

definition validSessionID :: "bytes \<Rightarrow> bool" where
  "validSessionID sid = (if length sid \<noteq> SessionIDLen * 2 then False else hex_decodes sid)"

text \<open>\<open>sendControl\<close> ignores the result of the write.\<close>

definition sendControl :: "conn \<Rightarrow> byte \<Rightarrow> bytes \<Rightarrow> effect" where
  "sendControl c subType payload = WriteMsg c (MsgTypeControl # subType # payload)"

text \<open>\<open>websocket.Accept\<close> gives a new connection or fails.\<close>

definition websocket_Accept :: "string option \<Rightarrow> relay \<Rightarrow> (string + conn) \<times> relay" where
  "websocket_Accept err s =
     (case err of
        Some e \<Rightarrow> (Inl e, s)
      | None \<Rightarrow> (Inr (sv_nextconn s), s\<lparr>sv_nextconn := Suc (sv_nextconn s)\<rparr>))"

definition handleShare :: "bytes \<Rightarrow> string option \<Rightarrow> relay \<Rightarrow> relay" where
  "handleShare sid err s =
     (if \<not> validSessionID sid then emit [HttpError 400] s
      else
        case websocket_Accept err s of
          (Inl e, s1) \<Rightarrow> emit [ProbeCall (AcceptError ''share'' e)] s1
        | (Inr conn, s1) \<Rightarrow>
            (case mget (sv_sessions s1) sid of
               Some _ \<Rightarrow>
                 emit [sendControl conn CtrlSessionIDConflict [],
                       CloseConn conn StatusPolicyViolation ''session-id-conflict''] s1
             | None \<Rightarrow>
                 s1\<lparr>sv_sessions := mput sid (length (sv_sess s1)) (sv_sessions s1),
                    sv_sess := sv_sess s1 @ [\<lparr>rs_sharer = conn, rs_viewers = Some [], rs_closed = False\<rparr>],
                    sv_sharers := sv_sharers s1 @ [(sid, ShStored)]\<rparr>))"

text \<open>After the lock: the acknowledgement, then the read loop.\<close>

definition share_ack :: "nat \<Rightarrow> relay \<Rightarrow> relay" where
  "share_ack r s =
     set_sharer_pc r ShReading (emit [sendControl (rs_sharer (sv_sess s ! r)) CtrlRegistrationAck []] s)"

text \<open>\<open>handleWatch\<close> up to the lookup under \<open>Server.mu\<close>.\<close>

definition handleWatch :: "bytes \<Rightarrow> string option \<Rightarrow> relay \<Rightarrow> relay" where
  "handleWatch sid err s =
     (if \<not> validSessionID sid then emit [HttpError 400] s
      else
        case websocket_Accept err s of
          (Inl e, s1) \<Rightarrow> emit [ProbeCall (AcceptError ''watch'' e)] s1
        | (Inr conn, s1) \<Rightarrow>
            (case mget (sv_sessions s1) sid of
               None \<Rightarrow>
                 emit [sendControl conn CtrlSessionNotFound [],
                       CloseConn conn StatusPolicyViolation ''session-not-found''] s1
             | Some r \<Rightarrow> s1\<lparr>sv_joining := sv_joining s1 @ [(conn, r)]\<rparr>))"

text \<open>\<open>generateViewerID\<close>: one random number per character, as in the session package.\<close>

definition generateViewerID :: "nat option list \<Rightarrow> crypto_error + bytes" where
  "generateViewerID rs = viewer_id_loop ViewerIDLen rs"

text \<open>The region under the session's lock, for the \<open>i\<close>-th waiting goroutine.\<close>

definition watch_join :: "nat \<Rightarrow> nat option list \<Rightarrow> relay \<Rightarrow> panic + relay" where
  "watch_join i rand s =
     (let (conn, r) = sv_joining s ! i;
          s1 = s\<lparr>sv_joining := take i (sv_joining s) @ drop (Suc i) (sv_joining s)\<rparr>;
          x = sv_sess s ! r
      in if rs_closed x then
           Inr (emit [sendControl conn CtrlSessionNotFound [],
                      CloseConn conn StatusPolicyViolation ''session-not-found''] s1)
         else if sv_maxViewers s \<le> length (viewers_of x) then
           Inr (emit [sendControl conn CtrlSessionFull [],
                      CloseConn conn StatusPolicyViolation ''session-full''] s1)
         else
           case generateViewerID rand of
             Inl _ \<Rightarrow> Inr (emit [CloseConn conn StatusInternalError ''internal error''] s1)
           | Inr vid \<Rightarrow>
               (case rs_viewers x of
                  None \<Rightarrow> Inl NilMapAssignment
                | Some m \<Rightarrow>
                    Inr (set_sess r (x\<lparr>rs_viewers := Some (mput vid (length (sv_conns s)) m)\<rparr>)
                      (s1\<lparr>sv_conns := sv_conns s @ [\<lparr>vc_id = vid, vc_conn = conn, vc_send = make_chan\<rparr>],
                          sv_viewers := sv_viewers s @ [(r, VwStored)],
                          sv_writers := sv_writers s @ [WrNone]\<rparr>))))"

definition watch_ack :: "nat \<Rightarrow> relay \<Rightarrow> relay" where
  "watch_ack v s =
     set_viewer_pc v VwReading (set_writer_pc v WrSending
       (emit [sendControl (vc_conn (sv_conns s ! v)) CtrlJoinAck (vc_id (sv_conns s ! v))] s))"

section \<open>Goroutines\<close>

text \<open>The loop of a broadcast: \<open>vs\<close> are the viewers in the order the map is visited.\<close>

fun offer_all :: "nat list \<Rightarrow> bytes \<Rightarrow> viewerConn list \<Rightarrow> panic + viewerConn list" where
  "offer_all [] m vcs = Inr vcs"
| "offer_all (v # vs) m vcs =
     (case chan_offer m (vc_send (vcs ! v)) of
        Inl p \<Rightarrow> Inl p
      | Inr (_, c) \<Rightarrow> offer_all vs m (set_send v c vcs))"

definition broadcast :: "nat \<Rightarrow> bytes list \<Rightarrow> bytes \<Rightarrow> relay \<Rightarrow> panic + relay" where
  "broadcast r order data s =
     (case offer_all (map snd (go_range (viewers_of (sv_sess s ! r)) order)) data (sv_conns s) of
        Inl p \<Rightarrow> Inl p
      | Inr vcs \<Rightarrow> Inr (s\<lparr>sv_conns := vcs\<rparr>))"

definition unicast :: "nat \<Rightarrow> bytes \<Rightarrow> relay \<Rightarrow> panic + relay" where
  "unicast r data s =
     (if length data < 1 + ViewerIDLen then Inr s
      else
        let targetID = take ViewerIDLen (drop 1 data);
            payload = drop (1 + ViewerIDLen) data;
            x = sv_sess s ! r
        in case mget (viewers_of x) targetID of
             None \<Rightarrow> Inr s
           | Some v \<Rightarrow>
               (case chan_offer payload (vc_send (sv_conns s ! v)) of
                  Inl p \<Rightarrow> Inl p
                | Inr (True, c) \<Rightarrow> Inr (s\<lparr>sv_conns := set_send v c (sv_conns s)\<rparr>)
                | Inr (False, c) \<Rightarrow>
                    (case chan_close c of
                       Inl p \<Rightarrow> Inl p
                     | Inr c1 \<Rightarrow>
                         Inr (emit [CloseConn (vc_conn (sv_conns s ! v)) StatusPolicyViolation ''slow consumer'']
                           (set_sess r (x\<lparr>rs_viewers := Some (mdel targetID (viewers_of x))\<rparr>)
                             (s\<lparr>sv_conns := set_send v c1 (sv_conns s)\<rparr>))))))"

text \<open>One turn of \<open>runSharer\<close>'s loop for a message that was read.\<close>

definition sharer_message :: "nat \<Rightarrow> bytes list \<Rightarrow> bytes \<Rightarrow> relay \<Rightarrow> panic + relay" where
  "sharer_message r order data s =
     (case data of
        [] \<Rightarrow> Inr s
      | b # _ \<Rightarrow>
          if b = MsgTypeStream \<or> b = MsgTypeTermSize then broadcast r order data s
          else if b = MsgTypeUnicast then unicast r data s
          else if b = MsgTypeHeartbeat then
            Inr (emit [WriteMsg (rs_sharer (sv_sess s ! r)) [MsgTypePong]] s)
          else Inr s)"

text \<open>The deferred function of \<open>runSharer\<close>: the region under the session's lock.\<close>

fun end_all :: "nat list \<Rightarrow> viewerConn list \<Rightarrow> panic + effect list \<times> viewerConn list" where
  "end_all [] vcs = Inr ([], vcs)"
| "end_all (v # vs) vcs =
     (case chan_close (vc_send (vcs ! v)) of
        Inl p \<Rightarrow> Inl p
      | Inr c \<Rightarrow>
          (case end_all vs (set_send v c vcs) of
             Inl p \<Rightarrow> Inl p
           | Inr (es, vcs1) \<Rightarrow> Inr (sendControl (vc_conn (vcs ! v)) CtrlSessionEnded [] # es, vcs1)))"

definition sharer_exit :: "nat \<Rightarrow> bytes list \<Rightarrow> relay \<Rightarrow> panic + relay" where
  "sharer_exit r order s =
     (let x = (sv_sess s ! r)\<lparr>rs_closed := True\<rparr>
      in case end_all (map snd (go_range (viewers_of x) order)) (sv_conns s) of
           Inl p \<Rightarrow> Inl p
         | Inr (es, vcs) \<Rightarrow>
             Inr (set_sharer_pc r ShClosed (emit es
               (set_sess r (x\<lparr>rs_viewers := None\<rparr>) (s\<lparr>sv_conns := vcs\<rparr>)))))"

text \<open>The region under the server's lock that follows.\<close>

definition sharer_delete :: "nat \<Rightarrow> relay \<Rightarrow> relay" where
  "sharer_delete r s =
     set_sharer_pc r ShDone (s\<lparr>sv_sessions := mdel (fst (sv_sharers s ! r)) (sv_sessions s)\<rparr>)"

text \<open>One turn of \<open>runViewer\<close>'s loop.\<close>

definition viewer_message :: "nat \<Rightarrow> bytes \<Rightarrow> relay \<Rightarrow> relay" where
  "viewer_message v data s =
     (case data of
        [] \<Rightarrow> s
      | b # rest \<Rightarrow>
          if b = MsgTypeSPAKE2 then
            (let tagged = MsgTypeSPAKE2 # go_copy ViewerIDLen (vc_id (sv_conns s ! v)) @ rest;
                 x = sv_sess s ! fst (sv_viewers s ! v)
             in if rs_closed x then s else emit [WriteMsg (rs_sharer x) tagged] s)
          else if b = MsgTypeHeartbeat then
            emit [WriteMsg (vc_conn (sv_conns s ! v)) [MsgTypePong]] s
          else s)"

definition viewer_exit :: "nat \<Rightarrow> relay \<Rightarrow> panic + relay" where
  "viewer_exit v s =
     (let r = fst (sv_viewers s ! v);
          x = sv_sess s ! r;
          vc = sv_conns s ! v;
          removed =
            (case mget (viewers_of x) (vc_id vc) of
               None \<Rightarrow> Inr s
             | Some _ \<Rightarrow>
                 (case chan_close (vc_send vc) of
                    Inl p \<Rightarrow> Inl p
                  | Inr c \<Rightarrow>
                      Inr (set_sess r (x\<lparr>rs_viewers := Some (mdel (vc_id vc) (viewers_of x))\<rparr>)
                        (s\<lparr>sv_conns := set_send v c (sv_conns s)\<rparr>))))
      in case removed of
           Inl p \<Rightarrow> Inl p
         | Inr s1 \<Rightarrow>
             Inr (set_viewer_pc v VwDone
               (if rs_closed x then s1
                else emit [WriteMsg (rs_sharer x)
                       (MsgTypeControl # CtrlViewerDisconnected # go_copy ViewerIDLen (vc_id vc))] s1)))"

text \<open>
  One turn of \<open>viewerWriter\<close>; the boolean is the result of the write. A failed write closes the
  connection and drains the channel.
\<close>

definition writer_step :: "nat \<Rightarrow> bool \<Rightarrow> relay \<Rightarrow> relay" where
  "writer_step v ok s =
     (let vc = sv_conns s ! v
      in case chan_recv (vc_send vc) of
           None \<Rightarrow> s
         | Some (None, _) \<Rightarrow> set_writer_pc v WrDone s
         | Some (Some m, c) \<Rightarrow>
             let s1 = s\<lparr>sv_conns := set_send v c (sv_conns s)\<rparr>
             in if sv_writers s ! v = WrDraining then s1
                else if ok then emit [WriteMsg (vc_conn vc) m] s1
                else set_writer_pc v WrDraining
                       (emit [WriteMsg (vc_conn vc) m, CloseConn (vc_conn vc) StatusGoingAway ''write error''] s1))"

section \<open>Interleavings\<close>

datatype action =
    Share ip clocks bytes "string option"
  | ShareAck nat
  | SharerMessage nat "bytes list" bytes
  | SharerExit nat "bytes list"
  | SharerDelete nat
  | Watch ip clocks bytes "string option"
  | WatchJoin nat "nat option list"
  | WatchAck nat
  | ViewerMessage nat bytes
  | ViewerExit nat
  | WriterStep nat bool

fun act :: "action \<Rightarrow> relay \<Rightarrow> panic + relay" where
  "act (Share ip ck sid err) s =
     (let (ok, s1) = rateLimitWrap EventRegistration ip ck s in Inr (if ok then handleShare sid err s1 else s1))"
| "act (ShareAck r) s = Inr (share_ack r s)"
| "act (SharerMessage r order data) s = sharer_message r order data s"
| "act (SharerExit r order) s = sharer_exit r order s"
| "act (SharerDelete r) s = Inr (sharer_delete r s)"
| "act (Watch ip ck sid err) s =
     (let (ok, s1) = rateLimitWrap EventConnection ip ck s in Inr (if ok then handleWatch sid err s1 else s1))"
| "act (WatchJoin i rand) s = watch_join i rand s"
| "act (WatchAck v) s = Inr (watch_ack v s)"
| "act (ViewerMessage v data) s = Inr (viewer_message v data s)"
| "act (ViewerExit v) s = viewer_exit v s"
| "act (WriterStep v ok) s = Inr (writer_step v ok s)"

text \<open>Which actions the program counters allow; map orders are orders of the map visited.\<close>

fun ready :: "action \<Rightarrow> relay \<Rightarrow> bool" where
  "ready (Share ip ck sid err) s = True"
| "ready (ShareAck r) s = (r < length (sv_sharers s) \<and> snd (sv_sharers s ! r) = ShStored)"
| "ready (SharerMessage r order data) s =
     (r < length (sv_sharers s) \<and> snd (sv_sharers s ! r) = ShReading \<and> range_order (viewers_of (sv_sess s ! r)) order)"
| "ready (SharerExit r order) s =
     (r < length (sv_sharers s) \<and> snd (sv_sharers s ! r) = ShReading \<and> range_order (viewers_of (sv_sess s ! r)) order)"
| "ready (SharerDelete r) s = (r < length (sv_sharers s) \<and> snd (sv_sharers s ! r) = ShClosed)"
| "ready (Watch ip ck sid err) s = True"
| "ready (WatchJoin i rand) s = (i < length (sv_joining s))"
| "ready (WatchAck v) s = (v < length (sv_viewers s) \<and> snd (sv_viewers s ! v) = VwStored)"
| "ready (ViewerMessage v data) s = (v < length (sv_viewers s) \<and> snd (sv_viewers s ! v) = VwReading)"
| "ready (ViewerExit v) s = (v < length (sv_viewers s) \<and> snd (sv_viewers s ! v) = VwReading)"
| "ready (WriterStep v ok) s =
     (v < length (sv_writers s) \<and> sv_writers s ! v \<in> {WrSending, WrDraining}
      \<and> chan_recv (vc_send (sv_conns s ! v)) \<noteq> None)"

end
