(* ===== verification/Relay_Inv.thy ===== *)
theory Relay_Inv
  imports Relay "HOL-Library.Multiset"
begin

text \<open>
  The invariants of the relay server: the session table, the viewer maps, unique IDs and
  connections, each kept by every action of every goroutine, and the reachable states.
\<close>

section \<open>Field lemmas\<close>

lemma emit_simps [simp]:
  "sv_sessions (emit es s) = sv_sessions s" "sv_maxViewers (emit es s) = sv_maxViewers s"
  "sv_rateLimiter (emit es s) = sv_rateLimiter s" "sv_sess (emit es s) = sv_sess s"
  "sv_sharers (emit es s) = sv_sharers s" "sv_conns (emit es s) = sv_conns s"
  "sv_viewers (emit es s) = sv_viewers s" "sv_writers (emit es s) = sv_writers s"
  "sv_joining (emit es s) = sv_joining s" "sv_nextconn (emit es s) = sv_nextconn s"
  "sv_log (emit es s) = sv_log s @ es"
  by (simp_all add: emit_def)

lemma chan_push_simps [simp]:
  "ch_closed (chan_push m c) = ch_closed c"
  by (simp add: chan_push_def chan_offer_def)

lemma length_set_send [simp]: "length (set_send v c vcs) = length vcs"
  by (simp add: set_send_def)

lemma nth_set_send:
  "v < length vcs \<Longrightarrow> set_send v c vcs ! u = (if u = v then (vcs ! v)\<lparr>vc_send := c\<rparr> else vcs ! u)"
  by (simp add: set_send_def)

lemma viewers_of_simps [simp]:
  "viewers_of (x\<lparr>rs_closed := b\<rparr>) = viewers_of x"
  "viewers_of (x\<lparr>rs_viewers := None\<rparr>) = []"
  "viewers_of (x\<lparr>rs_viewers := Some m\<rparr>) = m"
  "viewers_of \<lparr>rs_sharer = c, rs_viewers = Some m, rs_closed = b\<rparr> = m"
  by (simp_all add: viewers_of_def)

lemma offer_all_result:
  assumes "distinct vs" "\<And>v. v \<in> set vs \<Longrightarrow> v < length vcs \<and> \<not> ch_closed (vc_send (vcs ! v))"
  shows "\<exists>vcs'. offer_all vs m vcs = Inr vcs' \<and> length vcs' = length vcs \<and>
    (\<forall>u. vcs' ! u = (if u \<in> set vs then (vcs ! u)\<lparr>vc_send := chan_push m (vc_send (vcs ! u))\<rparr> else vcs ! u))"
  using assms
proof (induction vs arbitrary: vcs)
  case (Cons v vs)
  have v: "v < length vcs" "\<not> ch_closed (vc_send (vcs ! v))" "v \<notin> set vs"
    using Cons.prems by auto
  obtain b c where o: "chan_offer m (vc_send (vcs ! v)) = Inr (b, c)"
    using v(2) by (cases "chan_offer m (vc_send (vcs ! v))") (auto simp: chan_offer_def split: if_splits)
  then have c: "c = chan_push m (vc_send (vcs ! v))"
    by (simp add: chan_push_def)
  let ?vcs = "set_send v c vcs"
  have "\<And>u. u \<in> set vs \<Longrightarrow> u < length ?vcs \<and> \<not> ch_closed (vc_send (?vcs ! u))"
    using Cons.prems v by (auto simp: nth_set_send)
  then obtain vcs' where "offer_all vs m ?vcs = Inr vcs'" "length vcs' = length vcs"
    "\<forall>u. vcs' ! u = (if u \<in> set vs then (?vcs ! u)\<lparr>vc_send := chan_push m (vc_send (?vcs ! u))\<rparr> else ?vcs ! u)"
    using Cons.IH [of ?vcs] Cons.prems(1) by auto
  then show ?case
    using o c v by (intro exI [of _ vcs']) (auto simp: nth_set_send)
qed simp

lemma end_all_result:
  assumes "distinct vs" "\<And>v. v \<in> set vs \<Longrightarrow> v < length vcs \<and> \<not> ch_closed (vc_send (vcs ! v))"
  shows "\<exists>vcs'. end_all vs vcs = Inr (map (\<lambda>v. sendControl (vc_conn (vcs ! v)) CtrlSessionEnded []) vs, vcs')
    \<and> length vcs' = length vcs \<and>
    (\<forall>u. vcs' ! u = (if u \<in> set vs then (vcs ! u)\<lparr>vc_send := (vc_send (vcs ! u))\<lparr>ch_closed := True\<rparr>\<rparr> else vcs ! u))"
  using assms
proof (induction vs arbitrary: vcs)
  case (Cons v vs)
  have v: "v < length vcs" "\<not> ch_closed (vc_send (vcs ! v))" "v \<notin> set vs"
    using Cons.prems by auto
  let ?c = "(vc_send (vcs ! v))\<lparr>ch_closed := True\<rparr>"
  have c: "chan_close (vc_send (vcs ! v)) = Inr ?c"
    using v(2) by (simp add: chan_close_def)
  let ?vcs = "set_send v ?c vcs"
  have "\<And>u. u \<in> set vs \<Longrightarrow> u < length ?vcs \<and> \<not> ch_closed (vc_send (?vcs ! u))"
    using Cons.prems v by (auto simp: nth_set_send)
  then obtain vcs' where 1: "end_all vs ?vcs = Inr (map (\<lambda>v. sendControl (vc_conn (?vcs ! v)) CtrlSessionEnded []) vs, vcs')"
    "length vcs' = length vcs"
    "\<forall>u. vcs' ! u = (if u \<in> set vs then (?vcs ! u)\<lparr>vc_send := (vc_send (?vcs ! u))\<lparr>ch_closed := True\<rparr>\<rparr> else ?vcs ! u)"
    using Cons.IH [of ?vcs] Cons.prems(1) by auto
  have "vc_conn (?vcs ! u) = vc_conn (vcs ! u)" for u
    using v(1) by (simp add: nth_set_send)
  then show ?case
    using 1 c v by (intro exI [of _ vcs']) (auto simp: nth_set_send)
qed simp

section \<open>Invariants\<close>

text \<open>
  The session table holds exactly the sessions whose sharer goroutine is not done; a session is
  closed, and its viewer map nil, exactly after the first part of the teardown; no session has
  more viewers than allowed.
\<close>

definition table_ok :: "relay \<Rightarrow> bool" where
  "table_ok s \<longleftrightarrow> (\<forall>sid r. mget (sv_sessions s) sid = Some r \<longleftrightarrow>
     r < length (sv_sharers s) \<and> fst (sv_sharers s ! r) = sid \<and> snd (sv_sharers s ! r) \<noteq> ShDone)"

definition sess_shape :: "nat \<Rightarrow> relay_session \<Rightarrow> sharer_pc \<Rightarrow> bool" where
  "sess_shape mx x pc \<longleftrightarrow>
     (rs_closed x \<longleftrightarrow> pc = ShClosed \<or> pc = ShDone) \<and> (rs_viewers x = None \<longleftrightarrow> rs_closed x) \<and>
     distinct (keys (viewers_of x)) \<and> length (viewers_of x) \<le> mx"

definition sess_ok :: "relay \<Rightarrow> bool" where
  "sess_ok s \<longleftrightarrow> table_ok s \<and>
     list_all2 (\<lambda>x p. sess_shape (sv_maxViewers s) x (snd p)) (sv_sess s) (sv_sharers s) \<and>
     list_all (\<lambda>j. snd j < length (sv_sess s)) (sv_joining s)"

text \<open>
  An entry of a session's viewer map is a viewer of that session under its own ID, still being
  served, its channel open; no channel holds more than its buffer.
\<close>

definition entries_ok :: "relay \<Rightarrow> bool" where
  "entries_ok s \<longleftrightarrow>
     length (sv_viewers s) = length (sv_conns s) \<and> length (sv_writers s) = length (sv_conns s) \<and>
     (\<forall>v < length (sv_conns s). fst (sv_viewers s ! v) < length (sv_sess s) \<and>
        length (ch_buf (vc_send (sv_conns s ! v))) \<le> viewerSendBufSize) \<and>
     (\<forall>r < length (sv_sess s). \<forall>vid v. mget (viewers_of (sv_sess s ! r)) vid = Some v \<longrightarrow>
        v < length (sv_conns s) \<and> fst (sv_viewers s ! v) = r \<and> vc_id (sv_conns s ! v) = vid \<and>
        snd (sv_viewers s ! v) \<noteq> VwDone \<and> \<not> ch_closed (vc_send (sv_conns s ! v)))"

text \<open>IDs name one viewer, and a channel is open exactly while its viewer is in the map.\<close>

definition ids_ok :: "relay \<Rightarrow> bool" where
  "ids_ok s \<longleftrightarrow>
     (\<forall>v < length (sv_conns s). \<forall>w < length (sv_conns s).
        fst (sv_viewers s ! v) = fst (sv_viewers s ! w) \<and> vc_id (sv_conns s ! v) = vc_id (sv_conns s ! w) \<and>
        snd (sv_viewers s ! v) \<noteq> VwDone \<and> snd (sv_viewers s ! w) \<noteq> VwDone \<longrightarrow> v = w) \<and>
     (\<forall>v < length (sv_conns s). \<not> ch_closed (vc_send (sv_conns s ! v)) \<longrightarrow>
        mget (viewers_of (sv_sess s ! fst (sv_viewers s ! v))) (vc_id (sv_conns s ! v)) = Some v)"

text \<open>A join draws an ID that no viewer still served in the session has.\<close>

fun fresh_viewer_id :: "action \<Rightarrow> relay \<Rightarrow> bool" where
  "fresh_viewer_id (WatchJoin i rand) s =
     (case generateViewerID rand of
        Inl _ \<Rightarrow> True
      | Inr vid \<Rightarrow> \<forall>v \<in> set [0..<length (sv_conns s)].
          fst (sv_viewers s ! v) = snd (sv_joining s ! i) \<and> snd (sv_viewers s ! v) \<noteq> VwDone
            \<longrightarrow> vc_id (sv_conns s ! v) \<noteq> vid)"
| "fresh_viewer_id _ s = True"

lemma emit_ok [simp]:
  "sess_ok (emit es s) = sess_ok s" "entries_ok (emit es s) = entries_ok s" "ids_ok (emit es s) = ids_ok s"
  by (simp_all add: sess_ok_def table_ok_def entries_ok_def ids_ok_def)

lemma sess_ok_length: "sess_ok s \<Longrightarrow> length (sv_sess s) = length (sv_sharers s)"
  by (auto simp: sess_ok_def dest: list_all2_lengthD)

lemma sess_ok_shape:
  "sess_ok s \<Longrightarrow> r < length (sv_sess s) \<Longrightarrow> sess_shape (sv_maxViewers s) (sv_sess s ! r) (snd (sv_sharers s ! r))"
  by (auto simp: sess_ok_def dest: list_all2_nthD)

lemma sess_ok_set:
  assumes "sess_ok s" "r < length (sv_sess s)" "sess_shape (sv_maxViewers s) x pc"
    and "pc \<noteq> ShDone" "snd (sv_sharers s ! r) \<noteq> ShDone"
    and "sv_sessions s' = sv_sessions s" "sv_maxViewers s' = sv_maxViewers s" "sv_joining s' = sv_joining s"
    and "sv_sess s' = (sv_sess s)[r := x]" "sv_sharers s' = (sv_sharers s)[r := (fst (sv_sharers s ! r), pc)]"
  shows "sess_ok s'"
proof -
  have "r < length (sv_sharers s)"
    using assms(1,2) by (simp add: sess_ok_length)
  then have "fst (sv_sharers s' ! q) = fst (sv_sharers s ! q)"
    "snd (sv_sharers s' ! q) = ShDone \<longleftrightarrow> snd (sv_sharers s ! q) = ShDone" for q
    using assms(4,5,10) by (auto simp: nth_list_update)
  then have "table_ok s'"
    using assms(1,6,10) by (simp add: sess_ok_def table_ok_def)
  moreover have "list_all2 (\<lambda>x p. sess_shape (sv_maxViewers s') x (snd p)) (sv_sess s') (sv_sharers s')"
    using assms(1,3,7,9,10) by (simp add: sess_ok_def list_all2_update_cong)
  ultimately show ?thesis
    using assms(1,8,9) by (simp add: sess_ok_def)
qed

text \<open>The invariants look at these fields only.\<close>

lemma ok_cong:
  assumes "sv_sess s' = sv_sess s" "sv_conns s' = sv_conns s" "sv_viewers s' = sv_viewers s"
  shows "sv_writers s' = sv_writers s \<Longrightarrow> entries_ok s' = entries_ok s" and "ids_ok s' = ids_ok s"
  using assms by (simp_all add: entries_ok_def ids_ok_def)

lemma sess_ok_cong:
  assumes "sv_sessions s' = sv_sessions s" "sv_maxViewers s' = sv_maxViewers s" "sv_sess s' = sv_sess s"
    "sv_sharers s' = sv_sharers s" "sv_joining s' = sv_joining s"
  shows "sess_ok s' = sess_ok s"
  using assms by (simp add: sess_ok_def table_ok_def)

lemma sess_ok_joining:
  assumes "sess_ok s" "set js \<subseteq> set (sv_joining s)"
  shows "sess_ok (s\<lparr>sv_joining := js\<rparr>)"
  using assms by (auto simp: sess_ok_def table_ok_def list_all_iff)

lemma rateLimitWrap_fields [simp]:
  "sv_sessions (snd (rateLimitWrap ev ip ck s)) = sv_sessions s"
  "sv_maxViewers (snd (rateLimitWrap ev ip ck s)) = sv_maxViewers s"
  "sv_sess (snd (rateLimitWrap ev ip ck s)) = sv_sess s"
  "sv_sharers (snd (rateLimitWrap ev ip ck s)) = sv_sharers s"
  "sv_conns (snd (rateLimitWrap ev ip ck s)) = sv_conns s"
  "sv_viewers (snd (rateLimitWrap ev ip ck s)) = sv_viewers s"
  "sv_writers (snd (rateLimitWrap ev ip ck s)) = sv_writers s"
  "sv_joining (snd (rateLimitWrap ev ip ck s)) = sv_joining s"
  by (simp_all add: rateLimitWrap_def Let_def split_beta split: option.split)

lemma rateLimitWrap_ok [simp]:
  "sess_ok (snd (rateLimitWrap ev ip ck s)) = sess_ok s"
  "entries_ok (snd (rateLimitWrap ev ip ck s)) = entries_ok s"
  "ids_ok (snd (rateLimitWrap ev ip ck s)) = ids_ok s"
  by (rule sess_ok_cong ok_cong; simp)+

lemma handleShare_cases:
  obtains (refused) es n where "handleShare sid err s = emit es (s\<lparr>sv_nextconn := n\<rparr>)"
  | (stored) conn where "mget (sv_sessions s) sid = None" "validSessionID sid" "err = None"
      "handleShare sid err s =
         s\<lparr>sv_nextconn := Suc conn, sv_sessions := mput sid (length (sv_sess s)) (sv_sessions s),
           sv_sess := sv_sess s @ [\<lparr>rs_sharer = conn, rs_viewers = Some [], rs_closed = False\<rparr>],
           sv_sharers := sv_sharers s @ [(sid, ShStored)]\<rparr>"
proof (cases "validSessionID sid")
  case False
  then show ?thesis
    by (intro refused [of "[HttpError 400]" "sv_nextconn s"]) (simp add: handleShare_def)
next
  case True
  show ?thesis
  proof (cases err)
    case (Some e)
    then show ?thesis
      using True by (intro refused [of "[ProbeCall (AcceptError ''share'' e)]" "sv_nextconn s"])
        (simp add: handleShare_def websocket_Accept_def)
  next
    case None
    show ?thesis
    proof (cases "mget (sv_sessions s) sid")
      case (Some r)
      then show ?thesis
        using True None
        by (intro refused [of "[sendControl (sv_nextconn s) CtrlSessionIDConflict [],
              CloseConn (sv_nextconn s) StatusPolicyViolation ''session-id-conflict'']" "Suc (sv_nextconn s)"])
          (simp add: handleShare_def websocket_Accept_def)
    next
      case new: None
      then show ?thesis
        using True None
        by (intro stored [of "sv_nextconn s"]) (simp_all add: handleShare_def websocket_Accept_def)
    qed
  qed
qed

lemma handleShare_sess_ok:
  assumes "sess_ok s"
  shows "sess_ok (handleShare sid err s)"
proof (cases rule: handleShare_cases [of sid err s])
  case (refused es n)
  then show ?thesis
    using assms by (simp add: sess_ok_def table_ok_def)
next
  case (stored conn)
  let ?s = "handleShare sid err s"
  have t: "mget (sv_sessions s) k = Some r \<longleftrightarrow>
     r < length (sv_sharers s) \<and> fst (sv_sharers s ! r) = k \<and> snd (sv_sharers s ! r) \<noteq> ShDone" for k r
    using assms by (simp add: sess_ok_def table_ok_def)
  have none: "\<not> (r < length (sv_sharers s) \<and> fst (sv_sharers s ! r) = sid \<and> snd (sv_sharers s ! r) \<noteq> ShDone)" for r
    using t [of sid r] stored(1) by simp
  have "table_ok ?s"
    unfolding table_ok_def
  proof (intro allI)
    fix k r
    show "mget (sv_sessions ?s) k = Some r \<longleftrightarrow>
      r < length (sv_sharers ?s) \<and> fst (sv_sharers ?s ! r) = k \<and> snd (sv_sharers ?s ! r) \<noteq> ShDone"
    proof (cases "r = length (sv_sharers s)")
      case True
      then show ?thesis
        using t [of k r] sess_ok_length [OF assms] by (auto simp: stored(4))
    next
      case False
      then show ?thesis
        using t [of k r] none [of r] sess_ok_length [OF assms] by (auto simp: stored(4) nth_append)
    qed
  qed
  then show ?thesis
    using assms by (simp add: sess_ok_def stored(4) sess_shape_def list_all2_appendI list_all_iff)
      (simp add: less_Suc_eq)
qed

lemma handleShare_ok:
  assumes "entries_ok s"
  shows "entries_ok (handleShare sid err s)" and "ids_ok s \<Longrightarrow> ids_ok (handleShare sid err s)"
proof -
  have v: "fst (sv_viewers s ! v) < length (sv_sess s)" if "v < length (sv_conns s)" for v
    using assms that by (simp add: entries_ok_def)
  show "entries_ok (handleShare sid err s)"
  proof (cases rule: handleShare_cases [of sid err s])
    case (stored conn)
    then show ?thesis
      using assms v by (simp add: entries_ok_def nth_append less_Suc_eq)
  qed (use assms in \<open>simp add: entries_ok_def\<close>)
  show "ids_ok (handleShare sid err s)" if "ids_ok s"
  proof (cases rule: handleShare_cases [of sid err s])
    case (stored conn)
    then show ?thesis
      using that v by (simp add: ids_ok_def nth_append)
  qed (use that in \<open>simp add: ids_ok_def\<close>)
qed

lemma set_pc_simps [simp]:
  "sv_sessions (set_sharer_pc r p s) = sv_sessions s" "sv_maxViewers (set_sharer_pc r p s) = sv_maxViewers s"
  "sv_sess (set_sharer_pc r p s) = sv_sess s" "sv_conns (set_sharer_pc r p s) = sv_conns s"
  "sv_viewers (set_sharer_pc r p s) = sv_viewers s" "sv_writers (set_sharer_pc r p s) = sv_writers s"
  "sv_joining (set_sharer_pc r p s) = sv_joining s" "sv_log (set_sharer_pc r p s) = sv_log s"
  "sv_sharers (set_sharer_pc r p s) = (sv_sharers s)[r := (fst (sv_sharers s ! r), p)]"
  "sv_sessions (set_viewer_pc v q s) = sv_sessions s" "sv_maxViewers (set_viewer_pc v q s) = sv_maxViewers s"
  "sv_sess (set_viewer_pc v q s) = sv_sess s" "sv_conns (set_viewer_pc v q s) = sv_conns s"
  "sv_sharers (set_viewer_pc v q s) = sv_sharers s" "sv_writers (set_viewer_pc v q s) = sv_writers s"
  "sv_joining (set_viewer_pc v q s) = sv_joining s" "sv_log (set_viewer_pc v q s) = sv_log s"
  "sv_viewers (set_viewer_pc v q s) = (sv_viewers s)[v := (fst (sv_viewers s ! v), q)]"
  "sv_sessions (set_writer_pc v w s) = sv_sessions s" "sv_maxViewers (set_writer_pc v w s) = sv_maxViewers s"
  "sv_sess (set_writer_pc v w s) = sv_sess s" "sv_conns (set_writer_pc v w s) = sv_conns s"
  "sv_sharers (set_writer_pc v w s) = sv_sharers s" "sv_viewers (set_writer_pc v w s) = sv_viewers s"
  "sv_joining (set_writer_pc v w s) = sv_joining s" "sv_log (set_writer_pc v w s) = sv_log s"
  "sv_writers (set_writer_pc v w s) = (sv_writers s)[v := w]"
  "sv_sessions (set_sess r x s) = sv_sessions s" "sv_maxViewers (set_sess r x s) = sv_maxViewers s"
  "sv_sharers (set_sess r x s) = sv_sharers s" "sv_conns (set_sess r x s) = sv_conns s"
  "sv_viewers (set_sess r x s) = sv_viewers s" "sv_writers (set_sess r x s) = sv_writers s"
  "sv_joining (set_sess r x s) = sv_joining s" "sv_log (set_sess r x s) = sv_log s"
  "sv_sess (set_sess r x s) = (sv_sess s)[r := x]"
  by (simp_all add: set_sharer_pc_def set_viewer_pc_def set_writer_pc_def set_sess_def)

lemma sess_ok_self:
  assumes "sess_ok s" "r < length (sv_sharers s)"
  shows "sess_shape (sv_maxViewers s) (sv_sess s ! r) (snd (sv_sharers s ! r))"
  using assms sess_ok_shape sess_ok_length by metis

lemma share_ack_ok:
  assumes "ready (ShareAck r) s"
  shows "sess_ok s \<Longrightarrow> sess_ok (share_ack r s)"
    and "entries_ok (share_ack r s) = entries_ok s" and "ids_ok (share_ack r s) = ids_ok s"
proof -
  show "sess_ok (share_ack r s)" if "sess_ok s"
    using assms that sess_ok_self [OF that, of r] sess_ok_length [OF that]
    by (intro sess_ok_set [OF that, of r "sv_sess s ! r" ShReading]) (simp_all add: share_ack_def sess_shape_def)
qed (simp_all add: share_ack_def entries_ok_def ids_ok_def)

lemma handleWatch_cases:
  obtains (refused) es n where "handleWatch sid err s = emit es (s\<lparr>sv_nextconn := n\<rparr>)"
  | (found) conn r where "mget (sv_sessions s) sid = Some r" "validSessionID sid" "err = None"
      "handleWatch sid err s = s\<lparr>sv_nextconn := Suc conn, sv_joining := sv_joining s @ [(conn, r)]\<rparr>"
proof (cases "validSessionID sid")
  case False
  then show ?thesis
    by (intro refused [of "[HttpError 400]" "sv_nextconn s"]) (simp add: handleWatch_def)
next
  case True
  show ?thesis
  proof (cases err)
    case (Some e)
    then show ?thesis
      using True by (intro refused [of "[ProbeCall (AcceptError ''watch'' e)]" "sv_nextconn s"])
        (simp add: handleWatch_def websocket_Accept_def)
  next
    case None
    show ?thesis
    proof (cases "mget (sv_sessions s) sid")
      case (Some r)
      then show ?thesis
        using True None by (intro found [of r "sv_nextconn s"]) (simp_all add: handleWatch_def websocket_Accept_def)
    next
      case absent: None
      then show ?thesis
        using True None
        by (intro refused [of "[sendControl (sv_nextconn s) CtrlSessionNotFound [],
              CloseConn (sv_nextconn s) StatusPolicyViolation ''session-not-found'']" "Suc (sv_nextconn s)"])
          (simp add: handleWatch_def websocket_Accept_def)
    qed
  qed
qed

lemma handleWatch_ok:
  shows "sess_ok s \<Longrightarrow> sess_ok (handleWatch sid err s)"
    and "entries_ok (handleWatch sid err s) = entries_ok s" and "ids_ok (handleWatch sid err s) = ids_ok s"
proof -
  show "sess_ok (handleWatch sid err s)" if "sess_ok s"
  proof (cases rule: handleWatch_cases [of sid err s])
    case (found conn r)
    then have "r < length (sv_sess s)"
      using that by (simp add: sess_ok_def table_ok_def sess_ok_length [OF that])
    then show ?thesis
      using that by (simp add: sess_ok_def table_ok_def found(4))
  qed (use that in \<open>simp add: sess_ok_def table_ok_def\<close>)
  show "entries_ok (handleWatch sid err s) = entries_ok s" "ids_ok (handleWatch sid err s) = ids_ok s"
    by (cases rule: handleWatch_cases [of sid err s]; simp add: entries_ok_def ids_ok_def)+
qed

lemma sharer_delete_ok:
  assumes "ready (SharerDelete r) s"
  shows "sess_ok s \<Longrightarrow> sess_ok (sharer_delete r s)"
    and "entries_ok (sharer_delete r s) = entries_ok s" and "ids_ok (sharer_delete r s) = ids_ok s"
proof -
  show "sess_ok (sharer_delete r s)" if ok: "sess_ok s"
  proof -
    let ?s = "sharer_delete r s"
    have r: "r < length (sv_sharers s)" "snd (sv_sharers s ! r) = ShClosed"
      using assms by simp_all
    have t: "mget (sv_sessions s) k = Some q \<longleftrightarrow>
       q < length (sv_sharers s) \<and> fst (sv_sharers s ! q) = k \<and> snd (sv_sharers s ! q) \<noteq> ShDone" for k q
      using ok by (simp add: sess_ok_def table_ok_def)
    have own: "mget (sv_sessions s) (fst (sv_sharers s ! r)) = Some r"
      using t r by simp
    have "table_ok ?s"
      unfolding table_ok_def
    proof (intro allI)
      fix k q
      show "mget (sv_sessions ?s) k = Some q \<longleftrightarrow>
        q < length (sv_sharers ?s) \<and> fst (sv_sharers ?s ! q) = k \<and> snd (sv_sharers ?s ! q) \<noteq> ShDone"
        using t [of k q] own r by (cases "q = r") (auto simp: sharer_delete_def)
    qed
    moreover have "list_all2 (\<lambda>x p. sess_shape (sv_maxViewers s) x (snd p)) ((sv_sess s)[r := sv_sess s ! r])
        ((sv_sharers s)[r := (fst (sv_sharers s ! r), ShDone)])"
      using ok sess_ok_self [OF ok r(1)] r
      by (intro list_all2_update_cong) (simp_all add: sess_ok_def sess_shape_def)
    ultimately show ?thesis
      using ok by (simp add: sess_ok_def sharer_delete_def)
  qed
qed (simp_all add: sharer_delete_def entries_ok_def ids_ok_def)

lemma viewer_message_ok [simp]:
  "sess_ok (viewer_message v data s) = sess_ok s" "entries_ok (viewer_message v data s) = entries_ok s"
  "ids_ok (viewer_message v data s) = ids_ok s"
  by (simp_all add: viewer_message_def Let_def split: list.split)

text \<open>
  The viewer objects of a state as the invariants see them: the session a viewer belongs to, and
  the entry of the map that names it.
\<close>

definition entry_at :: "relay \<Rightarrow> nat \<Rightarrow> bytes \<Rightarrow> nat option" where
  "entry_at s r vid = (if r < length (sv_sess s) then mget (viewers_of (sv_sess s ! r)) vid else None)"

lemma entry_at_simps [simp]:
  "entry_at (s\<lparr>sv_conns := cs\<rparr>) = entry_at s" "entry_at (emit es s) = entry_at s"
  "entry_at (set_viewer_pc v q s) = entry_at s" "entry_at (set_writer_pc v w s) = entry_at s"
  "entry_at (set_sharer_pc r p s) = entry_at s"
  by (simp_all add: entry_at_def fun_eq_iff)

lemma entry_at_set_sess [simp]:
  "entry_at (set_sess r x s) q vid =
    (if q = r \<and> r < length (sv_sess s) then mget (viewers_of x) vid else entry_at s q vid)"
  by (simp add: entry_at_def nth_list_update)

text \<open>
  What every operation but a join does to viewer objects: nobody moves, gets another ID or comes
  back to life; an entry that is left was there before and its channel is open.
\<close>

lemma entries_ok_sub:
  assumes "entries_ok s"
    and "length (sv_sess s') = length (sv_sess s)" "length (sv_conns s') = length (sv_conns s)"
    and "length (sv_viewers s') = length (sv_viewers s)" "length (sv_writers s') = length (sv_writers s)"
    and "\<And>v. v < length (sv_conns s) \<Longrightarrow> fst (sv_viewers s' ! v) = fst (sv_viewers s ! v)
        \<and> vc_id (sv_conns s' ! v) = vc_id (sv_conns s ! v)
        \<and> length (ch_buf (vc_send (sv_conns s' ! v))) \<le> viewerSendBufSize"
    and "\<And>r vid v. entry_at s' r vid = Some v \<Longrightarrow> entry_at s r vid = Some v \<and> v < length (sv_conns s) \<Longrightarrow>
        snd (sv_viewers s' ! v) \<noteq> VwDone \<and> \<not> ch_closed (vc_send (sv_conns s' ! v))"
    and "\<And>r vid v. entry_at s' r vid = Some v \<Longrightarrow> entry_at s r vid = Some v"
  shows "entries_ok s'"
proof -
  have 1: "length (sv_viewers s') = length (sv_conns s')" "length (sv_writers s') = length (sv_conns s')"
    "\<forall>v < length (sv_conns s'). fst (sv_viewers s' ! v) < length (sv_sess s') \<and>
        length (ch_buf (vc_send (sv_conns s' ! v))) \<le> viewerSendBufSize"
    using assms(1-6) unfolding entries_ok_def by auto
  have "v < length (sv_conns s') \<and> fst (sv_viewers s' ! v) = r \<and> vc_id (sv_conns s' ! v) = vid \<and>
        snd (sv_viewers s' ! v) \<noteq> VwDone \<and> \<not> ch_closed (vc_send (sv_conns s' ! v))"
    if "r < length (sv_sess s')" "mget (viewers_of (sv_sess s' ! r)) vid = Some v" for r vid v
  proof -
    have new: "entry_at s' r vid = Some v"
      using that by (simp add: entry_at_def)
    then have old: "entry_at s r vid = Some v"
      by (rule assms(8))
    then have o: "v < length (sv_conns s)" "fst (sv_viewers s ! v) = r" "vc_id (sv_conns s ! v) = vid"
      using assms(1) by (auto simp: entries_ok_def entry_at_def split: if_splits)
    then show ?thesis
      using assms(3) assms(6) [OF o(1)] assms(7) [OF new] old by simp
  qed
  with 1 show ?thesis
    unfolding entries_ok_def by blast
qed

lemma entries_okD:
  assumes "entries_ok s" "entry_at s r vid = Some v"
  shows "v < length (sv_conns s)" "fst (sv_viewers s ! v) = r" "vc_id (sv_conns s ! v) = vid"
    "snd (sv_viewers s ! v) \<noteq> VwDone" "\<not> ch_closed (vc_send (sv_conns s ! v))"
  using assms by (auto simp: entries_ok_def entry_at_def split: if_splits)

lemma entries_ok_viewer:
  assumes "entries_ok s" "v < length (sv_viewers s)"
  shows "v < length (sv_conns s)" "v < length (sv_writers s)" "fst (sv_viewers s ! v) < length (sv_sess s)"
    "length (ch_buf (vc_send (sv_conns s ! v))) \<le> viewerSendBufSize"
  using assms by (auto simp: entries_ok_def)

lemma entries_ok_buf:
  "entries_ok s \<Longrightarrow> v < length (sv_conns s) \<Longrightarrow> length (ch_buf (vc_send (sv_conns s ! v))) \<le> 256"
  by (simp add: entries_ok_def)

lemma entry_at_fst:
  "entries_ok s \<Longrightarrow> v < length (sv_conns s) \<Longrightarrow>
     entry_at s (fst (sv_viewers s ! v)) vid = mget (viewers_of (sv_sess s ! fst (sv_viewers s ! v))) vid"
  by (simp add: entry_at_def entries_ok_def)

lemma ids_ok_sub:
  assumes "ids_ok s" "entries_ok s" "entries_ok s'"
    and "length (sv_conns s') = length (sv_conns s)"
    and "\<And>v. v < length (sv_conns s) \<Longrightarrow> fst (sv_viewers s' ! v) = fst (sv_viewers s ! v)
        \<and> vc_id (sv_conns s' ! v) = vc_id (sv_conns s ! v)
        \<and> (snd (sv_viewers s ! v) = VwDone \<longrightarrow> snd (sv_viewers s' ! v) = VwDone)
        \<and> (ch_closed (vc_send (sv_conns s ! v)) \<longrightarrow> ch_closed (vc_send (sv_conns s' ! v)))"
    and "\<And>r vid v. entry_at s r vid = Some v \<Longrightarrow> \<not> ch_closed (vc_send (sv_conns s' ! v)) \<Longrightarrow> entry_at s' r vid = Some v"
  shows "ids_ok s'"
proof -
  have "v = w" if "v < length (sv_conns s')" "w < length (sv_conns s')"
    "fst (sv_viewers s' ! v) = fst (sv_viewers s' ! w)" "vc_id (sv_conns s' ! v) = vc_id (sv_conns s' ! w)"
    "snd (sv_viewers s' ! v) \<noteq> VwDone" "snd (sv_viewers s' ! w) \<noteq> VwDone" for v w
    using that assms(1,4) assms(5) [of v] assms(5) [of w] unfolding ids_ok_def by metis
  moreover have "mget (viewers_of (sv_sess s' ! fst (sv_viewers s' ! v))) (vc_id (sv_conns s' ! v)) = Some v"
    if v: "v < length (sv_conns s')" and op: "\<not> ch_closed (vc_send (sv_conns s' ! v))" for v
  proof -
    have "entry_at s (fst (sv_viewers s ! v)) (vc_id (sv_conns s ! v)) = Some v"
      using assms(1,2,4) assms(5) [of v] v op by (simp add: ids_ok_def entry_at_fst)
    then have "entry_at s' (fst (sv_viewers s' ! v)) (vc_id (sv_conns s' ! v)) = Some v"
      using assms(4) assms(5) [of v] assms(6) op v by simp
    then show ?thesis
      using assms(3) v by (simp add: entry_at_fst)
  qed
  ultimately show ?thesis
    unfolding ids_ok_def by blast
qed

lemma watch_ack_ok:
  assumes "ready (WatchAck v) s" "entries_ok s"
  shows "sess_ok (watch_ack v s) = sess_ok s"
    and "entries_ok (watch_ack v s)"
    and "ids_ok s \<Longrightarrow> ids_ok (watch_ack v s)"
proof -
  note v = entries_ok_viewer [OF assms(2), of v]
  show "sess_ok (watch_ack v s) = sess_ok s"
    by (rule sess_ok_cong) (simp_all add: watch_ack_def)
  show e: "entries_ok (watch_ack v s)"
    using assms v
    by (intro entries_ok_sub [OF assms(2)])
      (auto simp: watch_ack_def nth_list_update entries_ok_buf dest: entries_okD)
  show "ids_ok (watch_ack v s)" if "ids_ok s"
    using assms v
    by (intro ids_ok_sub [OF that assms(2) e]) (auto simp: watch_ack_def nth_list_update)
qed

text \<open>A viewer is registered when the map of its session names it.\<close>

definition registered :: "relay \<Rightarrow> nat \<Rightarrow> bool" where
  "registered s v \<longleftrightarrow> entry_at s (fst (sv_viewers s ! v)) (vc_id (sv_conns s ! v)) = Some v"

definition viewers_in :: "relay \<Rightarrow> nat \<Rightarrow> nat set" where
  "viewers_in s r = {v. v < length (sv_conns s) \<and> registered s v \<and> fst (sv_viewers s ! v) = r}"

lemma visited:
  assumes "entries_ok s" "r < length (sv_sess s)" "range_order (viewers_of (sv_sess s ! r)) order"
  defines "vs \<equiv> map snd (go_range (viewers_of (sv_sess s ! r)) order)"
  shows "set vs = viewers_in s r" "distinct vs"
    "\<And>v. v \<in> set vs \<Longrightarrow> v < length (sv_conns s) \<and> \<not> ch_closed (vc_send (sv_conns s ! v))"
proof -
  let ?m = "viewers_of (sv_sess s ! r)"
  have at: "mget ?m vid = Some v \<longleftrightarrow> entry_at s r vid = Some v" for vid v
    using assms(2) by (simp add: entry_at_def)
  have mem: "v \<in> set vs \<longleftrightarrow> (\<exists>vid. entry_at s r vid = Some v)" for v
  proof -
    have "v \<in> set vs \<longleftrightarrow> (\<exists>vid. vid \<in> fst ` set ?m \<and> mget ?m vid = Some v)"
      using assms(3) by (auto simp: vs_def set_go_range range_order_def image_def)
    also have "\<dots> \<longleftrightarrow> (\<exists>vid. mget ?m vid = Some v)"
      using mget_in_keys [of ?m] by blast
    finally show ?thesis
      by (simp add: at)
  qed
  show "set vs = viewers_in s r"
  proof (intro set_eqI iffI)
    fix v
    assume "v \<in> set vs"
    then obtain vid where e: "entry_at s r vid = Some v"
      by (auto simp: mem)
    note d = entries_okD [OF assms(1) e]
    show "v \<in> viewers_in s r"
      using d(1) e unfolding viewers_in_def registered_def mem_Collect_eq d(2,3) by simp
  next
    fix v
    assume "v \<in> viewers_in s r"
    then show "v \<in> set vs"
      unfolding mem viewers_in_def registered_def mem_Collect_eq by blast
  qed
  show "v < length (sv_conns s) \<and> \<not> ch_closed (vc_send (sv_conns s ! v))" if "v \<in> set vs" for v
    using that entries_okD(1,5) [OF assms(1)] unfolding mem by blast
  have "keys (go_range ?m order) = order"
    using assms(3) by (intro keys_go_range) (simp add: range_order_def)
  moreover have "map (\<lambda>v. vc_id (sv_conns s ! v)) vs = keys (go_range ?m order)"
    using entries_okD(3) [OF assms(1)] by (auto simp: vs_def set_go_range at)
  ultimately show "distinct vs"
    using assms(3) by (metis distinct_map range_order_def)
qed

lemma broadcast_result:
  assumes "entries_ok s" "r < length (sv_sess s)" "range_order (viewers_of (sv_sess s ! r)) order"
  obtains vcs where "broadcast r order data s = Inr (s\<lparr>sv_conns := vcs\<rparr>)" "length vcs = length (sv_conns s)"
    "\<And>v. vcs ! v = (if v \<in> viewers_in s r
       then (sv_conns s ! v)\<lparr>vc_send := chan_push data (vc_send (sv_conns s ! v))\<rparr> else sv_conns s ! v)"
proof -
  obtain vcs where "offer_all (map snd (go_range (viewers_of (sv_sess s ! r)) order)) data (sv_conns s) = Inr vcs"
    "length vcs = length (sv_conns s)"
    "\<forall>u. vcs ! u = (if u \<in> viewers_in s r
       then (sv_conns s ! u)\<lparr>vc_send := chan_push data (vc_send (sv_conns s ! u))\<rparr> else sv_conns s ! u)"
    using offer_all_result [OF visited(2) [OF assms] visited(3) [OF assms], of data]
    by (auto simp only: visited(1) [OF assms])
  then show ?thesis
    by (intro that [of vcs]) (simp_all add: broadcast_def)
qed

lemma chan_push_bounded:
  "\<not> ch_closed c \<Longrightarrow> length (ch_buf c) \<le> 256 \<Longrightarrow> length (ch_buf (chan_push m c)) \<le> 256"
  using sendq.push_bounded [of c m] by simp

lemma viewers_in_open:
  "entries_ok s \<Longrightarrow> v \<in> viewers_in s r \<Longrightarrow> v < length (sv_conns s) \<and> \<not> ch_closed (vc_send (sv_conns s ! v))"
  using entries_okD(5) by (auto simp: viewers_in_def registered_def)

lemma broadcast_ok:
  assumes "entries_ok s" "r < length (sv_sess s)" "range_order (viewers_of (sv_sess s ! r)) order"
  shows "\<exists>s'. broadcast r order data s = Inr s' \<and> sess_ok s' = sess_ok s \<and> entries_ok s' \<and> (ids_ok s \<longrightarrow> ids_ok s')"
proof -
  obtain vcs where b: "broadcast r order data s = Inr (s\<lparr>sv_conns := vcs\<rparr>)" "length vcs = length (sv_conns s)"
    "\<And>v. vcs ! v = (if v \<in> viewers_in s r
       then (sv_conns s ! v)\<lparr>vc_send := chan_push data (vc_send (sv_conns s ! v))\<rparr> else sv_conns s ! v)"
    using broadcast_result [OF assms] by blast
  let ?s = "s\<lparr>sv_conns := vcs\<rparr>"
  have same: "vc_id (vcs ! v) = vc_id (sv_conns s ! v)"
    "ch_closed (vc_send (vcs ! v)) = ch_closed (vc_send (sv_conns s ! v))" for v
    by (simp_all add: b(3))
  have buf: "length (ch_buf (vc_send (vcs ! v))) \<le> 256" if "v < length (sv_conns s)" for v
    using that viewers_in_open [OF assms(1)] entries_ok_buf [OF assms(1)] by (simp add: b(3) chan_push_bounded)
  have e: "entries_ok ?s"
    by (rule entries_ok_sub [OF assms(1)])
      (use b(2) buf in \<open>auto simp: same dest: entries_okD(4,5) [OF assms(1)]\<close>)
  have "ids_ok ?s" if "ids_ok s"
    by (rule ids_ok_sub [OF that assms(1) e]) (use b(2) in \<open>auto simp: same\<close>)
  moreover have "sess_ok ?s = sess_ok s"
    by (rule sess_ok_cong) simp_all
  ultimately show ?thesis
    using b(1) e by blast
qed

text \<open>A change of one channel that keeps it open.\<close>

lemma set_send_ok:
  assumes "entries_ok s" "v < length (sv_conns s)"
    and "length (ch_buf c) \<le> 256" "ch_closed c = ch_closed (vc_send (sv_conns s ! v))"
  shows "sess_ok (s\<lparr>sv_conns := set_send v c (sv_conns s)\<rparr>) = sess_ok s"
    "entries_ok (s\<lparr>sv_conns := set_send v c (sv_conns s)\<rparr>)"
    "ids_ok s \<Longrightarrow> ids_ok (s\<lparr>sv_conns := set_send v c (sv_conns s)\<rparr>)"
proof -
  let ?s = "s\<lparr>sv_conns := set_send v c (sv_conns s)\<rparr>"
  show "sess_ok ?s = sess_ok s"
    by (rule sess_ok_cong) simp_all
  show e: "entries_ok ?s"
    by (rule entries_ok_sub [OF assms(1)])
      (use assms in \<open>auto simp: nth_set_send entries_ok_buf dest: entries_okD(4,5)\<close>)
  show "ids_ok ?s" if "ids_ok s"
    by (rule ids_ok_sub [OF that assms(1) e]) (use assms in \<open>auto simp: nth_set_send\<close>)
qed

text \<open>A viewer is taken out of the map and its channel closed.\<close>

definition drop_viewer :: "nat \<Rightarrow> relay \<Rightarrow> relay" where
  "drop_viewer v s =
     (let r = fst (sv_viewers s ! v); x = sv_sess s ! r
      in set_sess r (x\<lparr>rs_viewers := Some (mdel (vc_id (sv_conns s ! v)) (viewers_of x))\<rparr>)
           (s\<lparr>sv_conns := set_send v ((vc_send (sv_conns s ! v))\<lparr>ch_closed := True\<rparr>) (sv_conns s)\<rparr>))"

lemma drop_viewer_fields [simp]:
  "sv_viewers (drop_viewer v s) = sv_viewers s" "sv_writers (drop_viewer v s) = sv_writers s"
  "length (sv_conns (drop_viewer v s)) = length (sv_conns s)"
  "length (sv_sess (drop_viewer v s)) = length (sv_sess s)"
  "sv_sessions (drop_viewer v s) = sv_sessions s" "sv_sharers (drop_viewer v s) = sv_sharers s"
  "sv_maxViewers (drop_viewer v s) = sv_maxViewers s" "sv_joining (drop_viewer v s) = sv_joining s"
  by (simp_all add: drop_viewer_def Let_def)

lemma entry_at_drop_viewer:
  assumes "fst (sv_viewers s ! v) < length (sv_sess s)"
  shows "entry_at (drop_viewer v s) q vid =
    (if q = fst (sv_viewers s ! v) \<and> vid = vc_id (sv_conns s ! v) then None else entry_at s q vid)"
  using assms by (simp add: drop_viewer_def Let_def) (simp add: entry_at_def)

lemma nth_drop_viewer:
  "v < length (sv_conns s) \<Longrightarrow> sv_conns (drop_viewer v s) ! u =
     (if u = v then (sv_conns s ! v)\<lparr>vc_send := (vc_send (sv_conns s ! v))\<lparr>ch_closed := True\<rparr>\<rparr> else sv_conns s ! u)"
  by (simp add: drop_viewer_def Let_def nth_set_send)

lemma drop_viewer_ok:
  assumes "entries_ok s" "v < length (sv_conns s)" "registered s v"
  shows "sess_ok s \<Longrightarrow> sess_ok (drop_viewer v s)" "entries_ok (drop_viewer v s)"
    "ids_ok s \<Longrightarrow> ids_ok (drop_viewer v s)"
proof -
  let ?r = "fst (sv_viewers s ! v)" and ?s = "drop_viewer v s"
  have r: "?r < length (sv_sess s)"
    using assms(1,2) by (simp add: entries_ok_def)
  have m: "mget (viewers_of (sv_sess s ! ?r)) (vc_id (sv_conns s ! v)) = Some v"
    using assms(3) r by (simp add: registered_def entry_at_def)
  show "sess_ok ?s" if ok: "sess_ok s"
  proof -
    let ?x = "sv_sess s ! ?r"
    have sh: "sess_shape (sv_maxViewers s) ?x (snd (sv_sharers s ! ?r))"
      using sess_ok_shape [OF ok r] .
    have "rs_viewers ?x \<noteq> None"
      using m by (cases "rs_viewers ?x") (auto simp: viewers_of_def)
    then have pc: "snd (sv_sharers s ! ?r) \<noteq> ShDone" "snd (sv_sharers s ! ?r) \<noteq> ShClosed" "\<not> rs_closed ?x"
      using sh by (auto simp: sess_shape_def)
    have "length (mdel (vc_id (sv_conns s ! v)) (viewers_of ?x)) \<le> sv_maxViewers s"
      using sh length_mdel_le [of "vc_id (sv_conns s ! v)" "viewers_of ?x"] by (simp add: sess_shape_def)
    then have "sess_shape (sv_maxViewers s) (?x\<lparr>rs_viewers := Some (mdel (vc_id (sv_conns s ! v)) (viewers_of ?x))\<rparr>)
        (snd (sv_sharers s ! ?r))"
      using sh pc by (simp add: sess_shape_def)
    then show ?thesis
      using pc sess_ok_length [OF ok] r
      by (intro sess_ok_set [OF ok r, of "?x\<lparr>rs_viewers := Some (mdel (vc_id (sv_conns s ! v)) (viewers_of ?x))\<rparr>"
            "snd (sv_sharers s ! ?r)"]) (simp_all add: drop_viewer_def Let_def)
  qed
  show e: "entries_ok ?s"
    by (rule entries_ok_sub [OF assms(1)])
      (use assms r in \<open>auto simp: nth_drop_viewer entry_at_drop_viewer entries_ok_buf
         dest: entries_okD(3,4,5) entries_okD(2) split: if_splits\<close>)
  show "ids_ok ?s" if "ids_ok s"
    by (rule ids_ok_sub [OF that assms(1) e])
      (use assms r in \<open>auto simp: nth_drop_viewer entry_at_drop_viewer registered_def split: if_splits\<close>)
qed

lemma unicast_cases:
  assumes "entries_ok s" "r < length (sv_sess s)"
  obtains (none) "unicast r data s = Inr s"
      "\<And>v. length data < 7 \<or> entry_at s r (take 6 (drop 1 data)) \<noteq> Some v"
  | (queued) v where "7 \<le> length data" "entry_at s r (take 6 (drop 1 data)) = Some v"
      "length (ch_buf (vc_send (sv_conns s ! v))) < 256"
      "unicast r data s = Inr (s\<lparr>sv_conns := set_send v (chan_push (drop 7 data) (vc_send (sv_conns s ! v))) (sv_conns s)\<rparr>)"
  | (slow) v where "7 \<le> length data" "entry_at s r (take 6 (drop 1 data)) = Some v"
      "length (ch_buf (vc_send (sv_conns s ! v))) = 256"
      "unicast r data s = Inr (emit [CloseConn (vc_conn (sv_conns s ! v)) StatusPolicyViolation ''slow consumer'']
         (drop_viewer v s))"
proof (cases "7 \<le> length data \<and> entry_at s r (take 6 (drop 1 data)) \<noteq> None")
  case False
  then show ?thesis
    using assms(2) by (intro none) (auto simp: unicast_def entry_at_def Let_def split: option.split)
next
  case True
  then obtain v where len: "7 \<le> length data" and v: "entry_at s r (take 6 (drop 1 data)) = Some v"
    by blast
  note d = entries_okD [OF assms(1) v]
  let ?c = "vc_send (sv_conns s ! v)"
  have m: "mget (viewers_of (sv_sess s ! r)) (take 6 (drop 1 data)) = Some v"
    using v assms(2) by (simp add: entry_at_def)
  show ?thesis
  proof (cases "length (ch_buf ?c) < 256")
    case True
    then show ?thesis
      using len v m d by (intro queued [of v]) (simp_all add: unicast_def Let_def chan_push_def chan_offer_def)
  next
    case False
    then have "length (ch_buf ?c) = 256"
      using entries_ok_buf [OF assms(1) d(1)] by simp
    then show ?thesis
      using len v m d
      by (intro slow [of v])
        (simp_all add: unicast_def Let_def chan_offer_def chan_close_def drop_viewer_def)
  qed
qed

lemma unicast_ok:
  assumes "entries_ok s" "r < length (sv_sess s)"
  shows "\<exists>s'. unicast r data s = Inr s' \<and> (sess_ok s \<longrightarrow> sess_ok s') \<and> entries_ok s' \<and> (ids_ok s \<longrightarrow> ids_ok s')"
proof (cases rule: unicast_cases [OF assms, of data])
  case 1
  then show ?thesis
    using assms by simp
next
  case (2 v)
  note d = entries_okD [OF assms(1) 2(2)]
  have "length (ch_buf (chan_push (drop 7 data) (vc_send (sv_conns s ! v)))) \<le> 256"
    using d(1,5) entries_ok_buf [OF assms(1)] by (simp add: chan_push_bounded)
  then show ?thesis
    using set_send_ok [OF assms(1) d(1)] 2(4) by simp
next
  case (3 v)
  note d = entries_okD [OF assms(1) 3(2)]
  have "registered s v"
    using 3(2) d by (simp add: registered_def)
  then show ?thesis
    using drop_viewer_ok [OF assms(1) d(1)] 3(4) by simp
qed

lemma sharer_message_ok:
  assumes "sess_ok s" "entries_ok s" "ready (SharerMessage r order data) s"
  shows "\<exists>s'. sharer_message r order data s = Inr s' \<and> sess_ok s' \<and> entries_ok s' \<and> (ids_ok s \<longrightarrow> ids_ok s')"
proof -
  have r: "r < length (sv_sess s)" "range_order (viewers_of (sv_sess s ! r)) order"
    using assms sess_ok_length by simp_all
  show ?thesis
    using assms(1,2) broadcast_ok [OF assms(2) r, of data] unicast_ok [OF assms(2) r(1), of data]
    by (auto simp: sharer_message_def split: list.split)
qed

text \<open>The first part of a session's teardown.\<close>

lemma sharer_exit_result:
  assumes "entries_ok s" "r < length (sv_sess s)" "range_order (viewers_of (sv_sess s ! r)) order"
  obtains vcs es where
    "sharer_exit r order s = Inr (set_sharer_pc r ShClosed (emit es
       (set_sess r ((sv_sess s ! r)\<lparr>rs_closed := True, rs_viewers := None\<rparr>) (s\<lparr>sv_conns := vcs\<rparr>))))"
    "set es = (\<lambda>v. sendControl (vc_conn (sv_conns s ! v)) CtrlSessionEnded []) ` viewers_in s r"
    "length vcs = length (sv_conns s)"
    "\<And>v. vcs ! v = (if v \<in> viewers_in s r
       then (sv_conns s ! v)\<lparr>vc_send := (vc_send (sv_conns s ! v))\<lparr>ch_closed := True\<rparr>\<rparr> else sv_conns s ! v)"
proof -
  let ?vs = "map snd (go_range (viewers_of (sv_sess s ! r)) order)"
  obtain vcs where e: "end_all ?vs (sv_conns s)
      = Inr (map (\<lambda>v. sendControl (vc_conn (sv_conns s ! v)) CtrlSessionEnded []) ?vs, vcs)"
    and l: "length vcs = length (sv_conns s)"
    and n: "\<forall>u. vcs ! u = (if u \<in> viewers_in s r
       then (sv_conns s ! u)\<lparr>vc_send := (vc_send (sv_conns s ! u))\<lparr>ch_closed := True\<rparr>\<rparr> else sv_conns s ! u)"
    using end_all_result [OF visited(2) [OF assms] visited(3) [OF assms]]
    by (auto simp only: visited(1) [OF assms])
  show ?thesis
  proof (rule that)
    show "sharer_exit r order s = Inr (set_sharer_pc r ShClosed
        (emit (map (\<lambda>v. sendControl (vc_conn (sv_conns s ! v)) CtrlSessionEnded []) ?vs)
         (set_sess r ((sv_sess s ! r)\<lparr>rs_closed := True, rs_viewers := None\<rparr>) (s\<lparr>sv_conns := vcs\<rparr>))))"
      using e by (simp add: sharer_exit_def Let_def)
    show "set (map (\<lambda>v. sendControl (vc_conn (sv_conns s ! v)) CtrlSessionEnded []) ?vs)
        = (\<lambda>v. sendControl (vc_conn (sv_conns s ! v)) CtrlSessionEnded []) ` viewers_in s r"
      using visited(1) [OF assms] by (simp only: set_map)
  qed (use l n in simp_all)
qed

lemma sharer_exit_ok:
  assumes "sess_ok s" "entries_ok s" "ready (SharerExit r order) s"
  shows "\<exists>s'. sharer_exit r order s = Inr s' \<and> sess_ok s' \<and> entries_ok s' \<and> (ids_ok s \<longrightarrow> ids_ok s')"
proof -
  have r: "r < length (sv_sess s)" "range_order (viewers_of (sv_sess s ! r)) order"
    using assms sess_ok_length by simp_all
  obtain vcs es where x: "sharer_exit r order s = Inr (set_sharer_pc r ShClosed (emit es
       (set_sess r ((sv_sess s ! r)\<lparr>rs_closed := True, rs_viewers := None\<rparr>) (s\<lparr>sv_conns := vcs\<rparr>))))"
    "length vcs = length (sv_conns s)"
    "\<And>v. vcs ! v = (if v \<in> viewers_in s r
       then (sv_conns s ! v)\<lparr>vc_send := (vc_send (sv_conns s ! v))\<lparr>ch_closed := True\<rparr>\<rparr> else sv_conns s ! v)"
    using sharer_exit_result [OF assms(2) r] by metis
  let ?s = "set_sharer_pc r ShClosed (emit es
       (set_sess r ((sv_sess s ! r)\<lparr>rs_closed := True, rs_viewers := None\<rparr>) (s\<lparr>sv_conns := vcs\<rparr>)))"
  have ok: "sess_ok ?s"
    using assms(3)
    by (intro sess_ok_set [OF assms(1) r(1), of "(sv_sess s ! r)\<lparr>rs_closed := True, rs_viewers := None\<rparr>" ShClosed])
      (simp_all add: sess_shape_def)
  have notin: "v \<notin> viewers_in s r" if "entry_at s q vid = Some v" "q \<noteq> r" for v q vid
    using entries_okD(2) [OF assms(2) that(1)] that(2) by (simp add: viewers_in_def)
  have inn: "v \<in> viewers_in s r" if "entry_at s r vid = Some v" for v vid
    using entries_okD(1-3) [OF assms(2) that] that by (simp add: viewers_in_def registered_def)
  have e: "entries_ok ?s"
    by (rule entries_ok_sub [OF assms(2)])
      (use x(2,3) r(1) notin entries_ok_buf [OF assms(2)] in
        \<open>auto dest: entries_okD(4,5) [OF assms(2)] split: if_splits\<close>)
  have "ids_ok ?s" if "ids_ok s"
    by (rule ids_ok_sub [OF that assms(2) e])
      (use x(2,3) r(1) inn in \<open>auto split: if_splits\<close>)
  then show ?thesis
    using x(1) ok e by blast
qed

text \<open>
  The end of a viewer's goroutine. The map is searched by ID: when the ID is unique what is found
  is the viewer itself, and its channel is open.
\<close>

definition viewer_gone :: "nat \<Rightarrow> relay \<Rightarrow> effect list" where
  "viewer_gone v s =
     (let x = sv_sess s ! fst (sv_viewers s ! v)
      in if rs_closed x then []
         else [WriteMsg (rs_sharer x)
                 (MsgTypeControl # CtrlViewerDisconnected # go_copy ViewerIDLen (vc_id (sv_conns s ! v)))])"

lemma viewer_exit_result:
  assumes "entries_ok s" "ids_ok s" "ready (ViewerExit v) s"
  shows "viewer_exit v s =
    Inr (set_viewer_pc v VwDone (emit (viewer_gone v s) (if registered s v then drop_viewer v s else s)))"
proof -
  have v: "v < length (sv_conns s)" "fst (sv_viewers s ! v) < length (sv_sess s)" "snd (sv_viewers s ! v) \<noteq> VwDone"
    using assms(1,3) entries_ok_viewer [OF assms(1), of v] by simp_all
  let ?r = "fst (sv_viewers s ! v)" and ?id = "vc_id (sv_conns s ! v)"
  have m: "mget (viewers_of (sv_sess s ! ?r)) ?id = entry_at s ?r ?id"
    using v by (simp add: entry_at_def)
  have own: "w = v" if "entry_at s ?r ?id = Some w" for w
    using entries_okD [OF assms(1) that] assms(2) v unfolding ids_ok_def by metis
  show ?thesis
  proof (cases "entry_at s ?r ?id")
    case None
    then show ?thesis
      by (simp add: viewer_exit_def m Let_def registered_def viewer_gone_def)
  next
    case (Some w)
    then have reg: "registered s v" and op: "\<not> ch_closed (vc_send (sv_conns s ! v))"
      using own entries_okD(5) [OF assms(1) Some] by (auto simp: registered_def)
    then show ?thesis
      using Some
      by (simp add: viewer_exit_def m Let_def chan_close_def drop_viewer_def viewer_gone_def)
  qed
qed

lemma set_viewer_done_ok:
  assumes "entries_ok s" "v < length (sv_conns s)" "\<not> registered s v"
  shows "sess_ok (set_viewer_pc v VwDone s) = sess_ok s" "entries_ok (set_viewer_pc v VwDone s)"
    "ids_ok s \<Longrightarrow> ids_ok (set_viewer_pc v VwDone s)"
proof -
  let ?s = "set_viewer_pc v VwDone s"
  have v: "v < length (sv_viewers s)"
    using assms(1,2) by (simp add: entries_ok_def)
  have other: "w \<noteq> v" if "entry_at s r vid = Some w" for r vid w
    using entries_okD(2,3) [OF assms(1) that] that assms(3) by (auto simp: registered_def)
  show "sess_ok ?s = sess_ok s"
    by (rule sess_ok_cong) simp_all
  show e: "entries_ok ?s"
    by (rule entries_ok_sub [OF assms(1)])
      (use assms(1) v other in \<open>auto simp: nth_list_update entries_ok_buf dest: entries_okD(4,5)\<close>)
  show "ids_ok ?s" if "ids_ok s"
    by (rule ids_ok_sub [OF that assms(1) e]) (use v in \<open>auto simp: nth_list_update\<close>)
qed

lemma not_registered_dropped:
  "fst (sv_viewers s ! v) < length (sv_sess s) \<Longrightarrow> v < length (sv_conns s) \<Longrightarrow> \<not> registered (drop_viewer v s) v"
  by (simp add: registered_def entry_at_drop_viewer nth_drop_viewer)

lemma registered_emit [simp]: "registered (emit es s) v = registered s v"
  by (simp add: registered_def)

lemma viewer_exit_ok:
  assumes "sess_ok s" "entries_ok s" "ids_ok s" "ready (ViewerExit v) s"
  shows "\<exists>s'. viewer_exit v s = Inr s' \<and> sess_ok s' \<and> entries_ok s' \<and> ids_ok s'"
proof -
  have v: "v < length (sv_conns s)" "fst (sv_viewers s ! v) < length (sv_sess s)"
    using assms(2,4) entries_ok_viewer [OF assms(2), of v] by simp_all
  let ?s1 = "if registered s v then drop_viewer v s else s"
  have s1: "sess_ok ?s1" "entries_ok ?s1" "ids_ok ?s1" "\<not> registered ?s1 v" "v < length (sv_conns ?s1)"
    using assms v drop_viewer_ok [OF assms(2) v(1)] not_registered_dropped by auto
  let ?s2 = "emit (viewer_gone v s) ?s1"
  have s2: "sess_ok ?s2" "entries_ok ?s2" "ids_ok ?s2" "\<not> registered ?s2 v" "v < length (sv_conns ?s2)"
    using s1 by (simp_all only: emit_ok emit_simps registered_emit simp_thms)
  show ?thesis
    using set_viewer_done_ok [OF s2(2,5,4)] s2(1,3) viewer_exit_result [OF assms(2-4)] by blast
qed

lemma chan_recv_Some:
  "chan_recv c = Some (Some m, c') \<longleftrightarrow> ch_buf c = m # ch_buf c' \<and> c' = c\<lparr>ch_buf := ch_buf c'\<rparr>"
  "chan_recv c = Some (None, c') \<longleftrightarrow> ch_buf c = [] \<and> ch_closed c \<and> c' = c"
  by (cases c; auto simp: chan_recv_def split: list.splits)+

lemma set_writer_ok:
  "sess_ok (set_writer_pc v w s) = sess_ok s" "entries_ok s \<Longrightarrow> entries_ok (set_writer_pc v w s)"
  "ids_ok (set_writer_pc v w s) = ids_ok s"
  by (simp_all add: sess_ok_def table_ok_def entries_ok_def ids_ok_def)

lemma writer_step_ok:
  assumes "entries_ok s" "ready (WriterStep v ok) s"
  shows "sess_ok (writer_step v ok s) = sess_ok s" "entries_ok (writer_step v ok s)"
    "ids_ok s \<Longrightarrow> ids_ok (writer_step v ok s)"
proof -
  have v: "v < length (sv_conns s)"
    using assms by (simp add: entries_ok_def)
  let ?c = "vc_send (sv_conns s ! v)"
  obtain r where r: "chan_recv ?c = Some r"
    using assms(2) by auto
  have "(sess_ok (writer_step v ok s) = sess_ok s) \<and> entries_ok (writer_step v ok s)
      \<and> (ids_ok s \<longrightarrow> ids_ok (writer_step v ok s))"
  proof (cases r)
    case (Pair o' c')
    show ?thesis
    proof (cases o')
      case None
      then show ?thesis
        using r Pair assms(1) by (simp add: writer_step_def Let_def set_writer_ok)
    next
      case (Some m)
      then have c: "ch_buf ?c = m # ch_buf c'" "c' = ?c\<lparr>ch_buf := ch_buf c'\<rparr>"
        using r Pair by (simp_all add: chan_recv_Some)
      have "length (ch_buf c') \<le> 256" "ch_closed c' = ch_closed ?c"
        using entries_ok_buf [OF assms(1) v] c(1) by (simp, subst c(2), simp)
      then show ?thesis
        using set_send_ok [OF assms(1) v, of c'] r Pair Some
        by (simp add: writer_step_def Let_def set_writer_ok)
    qed
  qed
  then show "sess_ok (writer_step v ok s) = sess_ok s" "entries_ok (writer_step v ok s)"
    "ids_ok s \<Longrightarrow> ids_ok (writer_step v ok s)"
    by blast+
qed

text \<open>A join is refused, with a message to the new connection only, or adds a viewer.\<close>

definition leave_joining :: "nat \<Rightarrow> relay \<Rightarrow> relay" where
  "leave_joining i s = s\<lparr>sv_joining := take i (sv_joining s) @ drop (Suc i) (sv_joining s)\<rparr>"

definition add_viewer :: "nat \<Rightarrow> conn \<Rightarrow> bytes \<Rightarrow> relay \<Rightarrow> relay" where
  "add_viewer r conn vid s =
     s\<lparr>sv_sess := (sv_sess s)[r := (sv_sess s ! r)\<lparr>rs_viewers := Some (mput vid (length (sv_conns s)) (viewers_of (sv_sess s ! r)))\<rparr>],
       sv_conns := sv_conns s @ [\<lparr>vc_id = vid, vc_conn = conn, vc_send = make_chan\<rparr>],
       sv_viewers := sv_viewers s @ [(r, VwStored)],
       sv_writers := sv_writers s @ [WrNone]\<rparr>"

lemma watch_join_cases:
  assumes "sess_ok s" "i < length (sv_joining s)"
  obtains (refused) es where "watch_join i rand s = Inr (emit es (leave_joining i s))"
      "\<And>e. e \<in> set es \<Longrightarrow> (\<exists>m. e = WriteMsg (fst (sv_joining s ! i)) m) \<or> (\<exists>st why. e = CloseConn (fst (sv_joining s ! i)) st why)"
  | (added) vid where "generateViewerID rand = Inr vid"
      "\<not> rs_closed (sv_sess s ! snd (sv_joining s ! i))"
      "length (viewers_of (sv_sess s ! snd (sv_joining s ! i))) < sv_maxViewers s"
      "watch_join i rand s = Inr (add_viewer (snd (sv_joining s ! i)) (fst (sv_joining s ! i)) vid (leave_joining i s))"
proof -
  obtain conn r where j: "sv_joining s ! i = (conn, r)"
    by (cases "sv_joining s ! i")
  have "r < length (sv_sess s)"
    using assms j by (auto simp: sess_ok_def list_all_iff) (metis nth_mem snd_conv)
  then have sh: "sess_shape (sv_maxViewers s) (sv_sess s ! r) (snd (sv_sharers s ! r))"
    using sess_ok_shape [OF assms(1)] by blast
  let ?x = "sv_sess s ! r"
  show ?thesis
  proof (cases "rs_closed ?x")
    case True
    then show ?thesis
      using j by (intro refused) (auto simp: watch_join_def leave_joining_def sendControl_def)
  next
    case live: False
    show ?thesis
    proof (cases "sv_maxViewers s \<le> length (viewers_of ?x)")
      case True
      then show ?thesis
        using j live by (intro refused) (auto simp: watch_join_def leave_joining_def sendControl_def Let_def)
    next
      case False
      show ?thesis
      proof (cases "generateViewerID rand")
        case (Inl e)
        then show ?thesis
          using j live False by (intro refused) (auto simp: watch_join_def leave_joining_def Let_def)
      next
        case (Inr vid)
        obtain m where "rs_viewers ?x = Some m"
          using sh live by (auto simp: sess_shape_def)
        then show ?thesis
          using j live False Inr
          by (intro added [of vid])
            (simp_all add: watch_join_def leave_joining_def Let_def add_viewer_def set_sess_def viewers_of_def)
      qed
    qed
  qed
qed

lemma leave_joining_ok:
  "sess_ok s \<Longrightarrow> sess_ok (leave_joining i s)" "entries_ok (leave_joining i s) = entries_ok s"
  "ids_ok (leave_joining i s) = ids_ok s"
proof -
  have "set (take i js @ drop (Suc i) js) \<subseteq> set js" for js :: "'a list"
    by (auto dest: in_set_takeD in_set_dropD)
  then show "sess_ok s \<Longrightarrow> sess_ok (leave_joining i s)"
    unfolding leave_joining_def by (rule sess_ok_joining [rotated])
qed (simp_all add: leave_joining_def entries_ok_def ids_ok_def)

lemma add_viewer_sess_ok:
  assumes "sess_ok s" "r < length (sv_sess s)" "\<not> rs_closed (sv_sess s ! r)"
    and "length (viewers_of (sv_sess s ! r)) < sv_maxViewers s"
  shows "sess_ok (add_viewer r conn vid s)"
proof -
  let ?x = "sv_sess s ! r" and ?m = "mput vid (length (sv_conns s)) (viewers_of (sv_sess s ! r))"
  have sh: "sess_shape (sv_maxViewers s) ?x (snd (sv_sharers s ! r))"
    using sess_ok_shape [OF assms(1,2)] .
  then have pc: "snd (sv_sharers s ! r) \<noteq> ShDone"
    using assms(3) by (auto simp: sess_shape_def)
  have "length ?m \<le> sv_maxViewers s"
    using sh assms(4) length_mput_le [of "viewers_of ?x" vid "length (sv_conns s)"] by (simp add: sess_shape_def)
  then have "sess_shape (sv_maxViewers s) (?x\<lparr>rs_viewers := Some ?m\<rparr>) (snd (sv_sharers s ! r))"
    using sh assms(3) by (simp add: sess_shape_def distinct_update)
  then show ?thesis
    using pc by (intro sess_ok_set [OF assms(1,2), of "?x\<lparr>rs_viewers := Some ?m\<rparr>" "snd (sv_sharers s ! r)"])
      (simp_all add: add_viewer_def)
qed

lemma entry_at_add_viewer:
  "r < length (sv_sess s) \<Longrightarrow> entry_at (add_viewer r conn vid s) q k =
     (if q = r \<and> k = vid then Some (length (sv_conns s)) else entry_at s q k)"
  by (simp add: entry_at_def add_viewer_def nth_list_update)

lemma add_viewer_fields:
  assumes "entries_ok s"
  shows "length (sv_conns (add_viewer r conn vid s)) = Suc (length (sv_conns s))"
    "length (sv_viewers (add_viewer r conn vid s)) = Suc (length (sv_conns s))"
    "length (sv_writers (add_viewer r conn vid s)) = Suc (length (sv_conns s))"
    "length (sv_sess (add_viewer r conn vid s)) = length (sv_sess s)"
    "sv_conns (add_viewer r conn vid s) ! v = (if v < length (sv_conns s) then sv_conns s ! v
       else (sv_conns s @ [\<lparr>vc_id = vid, vc_conn = conn, vc_send = make_chan\<rparr>]) ! v)"
    "sv_viewers (add_viewer r conn vid s) ! v = (if v < length (sv_conns s) then sv_viewers s ! v
       else (sv_viewers s @ [(r, VwStored)]) ! v)"
  using assms by (simp_all add: add_viewer_def entries_ok_def nth_append)

lemma add_viewer_entries_ok:
  assumes "entries_ok s" "r < length (sv_sess s)"
  shows "entries_ok (add_viewer r conn vid s)"
proof -
  let ?s = "add_viewer r conn vid s"
  note f = add_viewer_fields [OF assms(1), of r conn vid]
  have "fst (sv_viewers ?s ! v) < length (sv_sess ?s) \<and> length (ch_buf (vc_send (sv_conns ?s ! v))) \<le> viewerSendBufSize"
    if "v < length (sv_conns ?s)" for v
  proof (cases "v < length (sv_conns s)")
    case True
    then show ?thesis
      using assms(1) by (simp add: f entries_ok_def)
  next
    case False
    then have "v = length (sv_conns s)"
      using that f by simp
    then show ?thesis
      using assms by (simp add: f(4-6) nth_append entries_ok_def make_chan_def)
  qed
  moreover have "v < length (sv_conns ?s) \<and> fst (sv_viewers ?s ! v) = q \<and> vc_id (sv_conns ?s ! v) = k \<and>
        snd (sv_viewers ?s ! v) \<noteq> VwDone \<and> \<not> ch_closed (vc_send (sv_conns ?s ! v))"
    if "q < length (sv_sess ?s)" "mget (viewers_of (sv_sess ?s ! q)) k = Some v" for q k v
  proof -
    have e: "entry_at ?s q k = Some v"
      using that by (simp add: entry_at_def)
    show ?thesis
    proof (cases "q = r \<and> k = vid")
      case True
      then show ?thesis
        using e assms by (auto simp: entry_at_add_viewer f nth_append entries_ok_def make_chan_def)
    next
      case False
      then have "entry_at s q k = Some v"
        using e assms(2) by (auto simp: entry_at_add_viewer split: if_splits)
      from entries_okD [OF assms(1) this] show ?thesis
        by (simp add: f)
    qed
  qed
  ultimately show ?thesis
    using f(1-3) unfolding entries_ok_def by simp
qed

lemma add_viewer_ids_ok:
  assumes "entries_ok s" "ids_ok s" "r < length (sv_sess s)"
    and "\<And>v. v < length (sv_conns s) \<Longrightarrow> fst (sv_viewers s ! v) = r \<Longrightarrow> snd (sv_viewers s ! v) \<noteq> VwDone \<Longrightarrow>
        vc_id (sv_conns s ! v) \<noteq> vid"
  shows "ids_ok (add_viewer r conn vid s)"
proof -
  let ?s = "add_viewer r conn vid s" and ?n = "length (sv_conns s)"
  note f = add_viewer_fields [OF assms(1), of r conn vid]
  have old: "sv_conns ?s ! v = sv_conns s ! v" "sv_viewers ?s ! v = sv_viewers s ! v" if "v < ?n" for v
    using that by (simp_all add: f)
  have new: "sv_conns ?s ! ?n = \<lparr>vc_id = vid, vc_conn = conn, vc_send = make_chan\<rparr>" "sv_viewers ?s ! ?n = (r, VwStored)"
    using assms(1) by (simp_all add: f entries_ok_def nth_append)
  have "v = w"
    if vw: "v < length (sv_conns ?s)" "w < length (sv_conns ?s)"
      "fst (sv_viewers ?s ! v) = fst (sv_viewers ?s ! w)" "vc_id (sv_conns ?s ! v) = vc_id (sv_conns ?s ! w)"
      "snd (sv_viewers ?s ! v) \<noteq> VwDone" "snd (sv_viewers ?s ! w) \<noteq> VwDone" for v w
  proof -
    consider "v < ?n" "w < ?n" | "v = ?n" "w = ?n" | "v < ?n" "w = ?n" | "v = ?n" "w < ?n"
      using vw(1,2) f(1) by linarith
    then show ?thesis
    proof cases
      case 1
      then show ?thesis
        using assms(2) vw by (simp add: ids_ok_def f)
    next
      case 3
      then show ?thesis
        using assms(4) [of v] vw(3-5) by (simp add: 3 new old)
    next
      case 4
      have "fst (sv_viewers s ! w) = r" "vc_id (sv_conns s ! w) = vid" "snd (sv_viewers s ! w) \<noteq> VwDone"
        using vw(3,4,6) unfolding 4(1) new old [OF 4(2)] by simp_all
      then show ?thesis
        using assms(4) [OF 4(2)] by blast
    qed simp
  qed
  moreover have "mget (viewers_of (sv_sess ?s ! fst (sv_viewers ?s ! v))) (vc_id (sv_conns ?s ! v)) = Some v"
    if v: "v < length (sv_conns ?s)" "\<not> ch_closed (vc_send (sv_conns ?s ! v))" for v
  proof -
    have "entry_at ?s (fst (sv_viewers ?s ! v)) (vc_id (sv_conns ?s ! v)) = Some v"
    proof (cases "v < ?n")
      case True
      have op: "\<not> ch_closed (vc_send (sv_conns s ! v))"
        using True v(2) by (simp add: f)
      then have old: "entry_at s (fst (sv_viewers s ! v)) (vc_id (sv_conns s ! v)) = Some v"
        using True assms(1,2) by (simp add: ids_ok_def entry_at_fst)
      then have "snd (sv_viewers s ! v) \<noteq> VwDone"
        using entries_okD(4) [OF assms(1)] by blast
      then have "\<not> (fst (sv_viewers s ! v) = r \<and> vc_id (sv_conns s ! v) = vid)"
        using assms(4) [OF True] by blast
      then show ?thesis
        using True old assms(3) by (simp add: f entry_at_add_viewer)
    next
      case False
      then have "v = ?n"
        using v f by simp
      then show ?thesis
        using new assms(3) by (simp add: entry_at_add_viewer)
    qed
    then show ?thesis
      using v(1) add_viewer_entries_ok [OF assms(1,3)] by (simp add: entry_at_fst)
  qed
  ultimately show ?thesis
    unfolding ids_ok_def by blast
qed

lemma watch_join_ok:
  assumes "sess_ok s" "entries_ok s" "ready (WatchJoin i rand) s"
  shows "\<exists>s'. watch_join i rand s = Inr s' \<and> sess_ok s' \<and> entries_ok s'
    \<and> (ids_ok s \<and> fresh_viewer_id (WatchJoin i rand) s \<longrightarrow> ids_ok s')"
proof -
  have i: "i < length (sv_joining s)"
    using assms(3) by simp
  then have r: "snd (sv_joining s ! i) < length (sv_sess s)"
    using assms(1) by (simp add: sess_ok_def list_all_iff)
  note lj = leave_joining_ok(1) [OF assms(1)] leave_joining_ok(2,3)
  have fl: "sv_sess (leave_joining i s) = sv_sess s" "sv_maxViewers (leave_joining i s) = sv_maxViewers s"
    "sv_conns (leave_joining i s) = sv_conns s" "sv_viewers (leave_joining i s) = sv_viewers s"
    by (simp_all add: leave_joining_def)
  show ?thesis
  proof (cases rule: watch_join_cases [OF assms(1) i, of rand])
    case (1 es)
    then show ?thesis
      using lj assms(2) by simp
  next
    case (2 vid)
    let ?r = "snd (sv_joining s ! i)" and ?s = "leave_joining i s"
    have "sess_ok (add_viewer ?r (fst (sv_joining s ! i)) vid ?s)"
      using r 2 lj by (intro add_viewer_sess_ok) (simp_all add: fl)
    moreover have "entries_ok (add_viewer ?r (fst (sv_joining s ! i)) vid ?s)"
      using r assms(2) lj by (intro add_viewer_entries_ok) (simp_all add: fl)
    moreover have "ids_ok (add_viewer ?r (fst (sv_joining s ! i)) vid ?s)" if "ids_ok s" "fresh_viewer_id (WatchJoin i rand) s"
      using r assms(2) lj that 2(1) by (intro add_viewer_ids_ok) (simp_all add: fl)
    ultimately show ?thesis
      using 2(4) by blast
  qed
qed

section \<open>Reachable states\<close>

text \<open>
  States of a server whose joins draw IDs nobody in the session has. Nothing in the code checks
  that: see \<open>id_reuse_panics\<close>.
\<close>

inductive reachable :: "RateLimiter option \<Rightarrow> relay \<Rightarrow> bool" for limiter where
  start: "reachable limiter (NewServer limiter)"
| step: "reachable limiter s \<Longrightarrow> ready a s \<Longrightarrow> fresh_viewer_id a s \<Longrightarrow> act a s = Inr s' \<Longrightarrow> reachable limiter s'"

inductive_cases reachableE: "reachable limiter s"

lemma act_ok:
  assumes "sess_ok s" "entries_ok s" "ids_ok s" "ready a s" "fresh_viewer_id a s"
  shows "\<exists>s'. act a s = Inr s' \<and> sess_ok s' \<and> entries_ok s' \<and> ids_ok s'"
proof (cases a)
  case (Share ip ck sid err)
  let ?s = "snd (rateLimitWrap EventRegistration ip ck s)"
  have "sess_ok ?s" "entries_ok ?s" "ids_ok ?s"
    using assms by simp_all
  then show ?thesis
    using handleShare_sess_ok [where s = ?s] handleShare_ok [where s = ?s] by (simp add: Share split_beta)
next
  case (Watch ip ck sid err)
  let ?s = "snd (rateLimitWrap EventConnection ip ck s)"
  have "sess_ok ?s" "entries_ok ?s" "ids_ok ?s"
    using assms by simp_all
  then show ?thesis
    using handleWatch_ok [where s = ?s] by (simp add: Watch split_beta)
next
  case (ShareAck r)
  then show ?thesis
    using assms share_ack_ok [of r s] by simp
next
  case (SharerMessage r order data)
  then show ?thesis
    using assms sharer_message_ok [of s r order data] by simp
next
  case (SharerExit r order)
  then show ?thesis
    using assms sharer_exit_ok [of s r order] by simp
next
  case (SharerDelete r)
  then show ?thesis
    using assms sharer_delete_ok [of r s] by simp
next
  case (WatchJoin i rand)
  then show ?thesis
    using assms watch_join_ok [of s i rand] by (auto simp del: ready.simps fresh_viewer_id.simps)
next
  case (WatchAck v)
  then show ?thesis
    using assms watch_ack_ok [of v s] by simp
next
  case (ViewerMessage v data)
  then show ?thesis
    using assms by simp
next
  case (ViewerExit v)
  then show ?thesis
    using assms viewer_exit_ok [of s v] by simp
next
  case (WriterStep v ok)
  then show ?thesis
    using assms writer_step_ok [of s v ok] by (simp del: ready.simps)
qed

lemma NewServer_ok: "sess_ok (NewServer l)" "entries_ok (NewServer l)" "ids_ok (NewServer l)"
  by (simp_all add: NewServer_def sess_ok_def table_ok_def entries_ok_def ids_ok_def)

lemma reachable_ok:
  "reachable l s \<Longrightarrow> sess_ok s \<and> entries_ok s \<and> ids_ok s"
proof (induction rule: reachable.induct)
  case start
  then show ?case by (simp add: NewServer_ok)
next
  case (step s a s')
  then show ?case
    using act_ok [of s a] by (metis sum.inject(2))
qed

text \<open>A run: every action ready and drawing fresh IDs, none panicking.\<close>

fun runs :: "action list \<Rightarrow> relay \<Rightarrow> relay option" where
  "runs [] s = Some s"
| "runs (a # as) s =
     (if ready a s \<and> fresh_viewer_id a s then (case act a s of Inl p \<Rightarrow> None | Inr s1 \<Rightarrow> runs as s1) else None)"

lemma runs_reachable: "reachable l s \<Longrightarrow> runs as s = Some s' \<Longrightarrow> reachable l s'"
proof (induction as arbitrary: s)
  case (Cons a as)
  then obtain s1 where "ready a s" "fresh_viewer_id a s" "act a s = Inr s1" "runs as s1 = Some s'"
    by (auto split: if_splits sum.splits)
  then show ?case
    using Cons reachable.step by blast
qed simp

section \<open>Connections\<close>

text \<open>
  Every connection belongs to one sharer, one viewer or one \<open>handleWatch\<close> goroutine that has
  not joined yet; viewer IDs have six characters.
\<close>

definition all_conns :: "relay \<Rightarrow> conn list" where
  "all_conns s = map rs_sharer (sv_sess s) @ map vc_conn (sv_conns s) @ map fst (sv_joining s)"

definition conns_ok :: "relay \<Rightarrow> bool" where
  "conns_ok s \<longleftrightarrow> distinct (all_conns s) \<and> list_all (\<lambda>c. c < sv_nextconn s) (all_conns s)
     \<and> list_all (\<lambda>vid. length vid = 6) (map vc_id (sv_conns s)) \<and> sv_maxViewers s = DefaultMaxViewers"

lemma map_rs_sharer_update:
  "rs_sharer x = rs_sharer (xs ! r) \<Longrightarrow> map rs_sharer (xs[r := x]) = map rs_sharer xs"
  using list_update_id [of "map rs_sharer xs" r] by (cases "r < length xs") (simp_all add: map_update not_less list_update_beyond)

definition conn_key :: "viewerConn \<Rightarrow> conn \<times> bytes" where
  "conn_key vc = (vc_conn vc, vc_id vc)"

text \<open>The connections of a list of viewer objects, which only joins change.\<close>

lemma conns_ok_cong:
  assumes "map rs_sharer (sv_sess s') = map rs_sharer (sv_sess s)"
    "map conn_key (sv_conns s') = map conn_key (sv_conns s)"
    "sv_joining s' = sv_joining s" "sv_nextconn s \<le> sv_nextconn s'" "sv_maxViewers s' = sv_maxViewers s"
  shows "conns_ok s \<Longrightarrow> conns_ok s'"
proof -
  have c: "map vc_conn (sv_conns s') = map vc_conn (sv_conns s)"
    using arg_cong [OF assms(2), of "map fst"] by (simp add: comp_def conn_key_def)
  have "map vc_id (sv_conns s') = map vc_id (sv_conns s)"
    using arg_cong [OF assms(2), of "map snd"] by (simp add: comp_def conn_key_def)
  moreover have "all_conns s' = all_conns s"
    by (simp only: all_conns_def assms(1,3) c)
  ultimately show "conns_ok s \<Longrightarrow> conns_ok s'"
    using assms(4,5) unfolding conns_ok_def by (simp add: list_all_iff) (metis less_le_trans)
qed

lemma conn_key_set_send [simp]: "map conn_key (set_send v c vcs) = map conn_key vcs"
proof (cases "v < length vcs")
  case True
  then show ?thesis
    by (intro nth_equalityI) (auto simp: nth_set_send conn_key_def)
qed (simp add: set_send_def not_less list_update_beyond)

lemma conn_key_offer_all: "offer_all vs m vcs = Inr vcs' \<Longrightarrow> map conn_key vcs' = map conn_key vcs"
  by (induction vs m vcs rule: offer_all.induct) (auto split: sum.splits)

lemma conn_key_end_all: "end_all vs vcs = Inr (es, vcs') \<Longrightarrow> map conn_key vcs' = map conn_key vcs"
  by (induction vs vcs arbitrary: es rule: end_all.induct) (auto split: sum.splits)

lemma conns_ok_emit [simp]: "conns_ok (emit es s) = conns_ok s"
  by (simp add: conns_ok_def all_conns_def)

lemma nextconn_simps [simp]:
  "sv_nextconn (set_sess r x s) = sv_nextconn s" "sv_nextconn (set_sharer_pc r p s) = sv_nextconn s"
  "sv_nextconn (set_viewer_pc v q s) = sv_nextconn s" "sv_nextconn (set_writer_pc v w s) = sv_nextconn s"
  by (simp_all add: set_sess_def set_sharer_pc_def set_viewer_pc_def set_writer_pc_def)

lemma rateLimitWrap_nextconn [simp]: "sv_nextconn (snd (rateLimitWrap ev ip ck s)) = sv_nextconn s"
  by (simp add: rateLimitWrap_def Let_def split_beta split: option.split)

lemma handleShare_conn:
  "sv_nextconn (handleShare sid err s) \<ge> sv_nextconn s
   \<and> (sv_sess (handleShare sid err s) = sv_sess s
      \<or> sv_sess (handleShare sid err s) = sv_sess s @ [\<lparr>rs_sharer = sv_nextconn s, rs_viewers = Some [], rs_closed = False\<rparr>]
         \<and> sv_nextconn (handleShare sid err s) = Suc (sv_nextconn s))
   \<and> sv_conns (handleShare sid err s) = sv_conns s \<and> sv_joining (handleShare sid err s) = sv_joining s
   \<and> sv_maxViewers (handleShare sid err s) = sv_maxViewers s"
  by (simp add: handleShare_def websocket_Accept_def split: option.split)

lemma handleWatch_conn:
  "sv_nextconn (handleWatch sid err s) \<ge> sv_nextconn s
   \<and> (sv_joining (handleWatch sid err s) = sv_joining s
      \<or> (\<exists>r. sv_joining (handleWatch sid err s) = sv_joining s @ [(sv_nextconn s, r)])
         \<and> sv_nextconn (handleWatch sid err s) = Suc (sv_nextconn s))
   \<and> sv_conns (handleWatch sid err s) = sv_conns s \<and> sv_sess (handleWatch sid err s) = sv_sess s
   \<and> sv_maxViewers (handleWatch sid err s) = sv_maxViewers s"
  by (simp add: handleWatch_def websocket_Accept_def split: option.split)

lemma rateLimitWrap_conns_ok [simp]: "conns_ok (snd (rateLimitWrap ev ip ck s)) = conns_ok s"
  by (simp add: conns_ok_def all_conns_def)

lemma conns_ok_new:
  assumes "conns_ok s" "mset (all_conns s') = add_mset (sv_nextconn s) (mset (all_conns s))"
    "sv_nextconn s' = Suc (sv_nextconn s)" "sv_conns s' = sv_conns s" "sv_maxViewers s' = sv_maxViewers s"
  shows "conns_ok s'"
proof -
  have st: "set (all_conns s') = insert (sv_nextconn s) (set (all_conns s))"
    using assms(2) by (metis set_mset_add_mset_insert set_mset_mset)
  have lt: "c < sv_nextconn s" if "c \<in> set (all_conns s)" for c
    using assms(1) that by (simp add: conns_ok_def list_all_iff)
  have len: "length (all_conns s') = Suc (length (all_conns s))"
    using arg_cong [OF assms(2), of size] by simp
  have "sv_nextconn s \<notin> set (all_conns s)"
    using lt by blast
  then have "card (set (all_conns s')) = length (all_conns s')"
    using assms(1) st len by (simp add: conns_ok_def distinct_card)
  then have "distinct (all_conns s')"
    by (rule card_distinct)
  moreover have "list_all (\<lambda>c. c < sv_nextconn s') (all_conns s')"
    using lt st assms(3) by (auto simp: list_all_iff less_Suc_eq)
  ultimately show ?thesis
    using assms(1,4,5) by (simp add: conns_ok_def)
qed

lemma conns_ok_grow:
  assumes "conns_ok s" "all_conns s' = all_conns s" "sv_nextconn s \<le> sv_nextconn s'"
    "sv_conns s' = sv_conns s" "sv_maxViewers s' = sv_maxViewers s"
  shows "conns_ok s'"
  using assms unfolding conns_ok_def by (simp add: list_all_iff) (metis less_le_trans)

lemma handleShare_conns_ok:
  assumes "conns_ok s"
  shows "conns_ok (handleShare sid err s)"
proof (cases "sv_sess (handleShare sid err s) = sv_sess s")
  case True
  then show ?thesis
    using handleShare_conn [of s sid err] by (intro conns_ok_grow [OF assms]) (simp_all add: all_conns_def)
next
  case False
  then show ?thesis
    using handleShare_conn [of s sid err] by (intro conns_ok_new [OF assms]) (simp_all add: all_conns_def)
qed

lemma handleWatch_conns_ok:
  assumes "conns_ok s"
  shows "conns_ok (handleWatch sid err s)"
proof (cases "sv_joining (handleWatch sid err s) = sv_joining s")
  case True
  then show ?thesis
    using handleWatch_conn [of s sid err] by (intro conns_ok_grow [OF assms]) (simp_all add: all_conns_def)
next
  case False
  then obtain r where "sv_joining (handleWatch sid err s) = sv_joining s @ [(sv_nextconn s, r)]"
    using handleWatch_conn [of s sid err] by blast
  then show ?thesis
    using handleWatch_conn [of s sid err] by (intro conns_ok_new [OF assms]) (simp_all add: all_conns_def)
qed

lemma conns_ok_send:
  "map conn_key vcs = map conn_key (sv_conns s) \<Longrightarrow> conns_ok s \<Longrightarrow> conns_ok (s\<lparr>sv_conns := vcs\<rparr>)"
  by (rule conns_ok_cong [of _ s]) simp_all

lemma conns_ok_set_sess [simp]:
  "rs_sharer x = rs_sharer (sv_sess s ! r) \<Longrightarrow> conns_ok (set_sess r x s) = conns_ok s"
  by (simp add: conns_ok_def all_conns_def map_rs_sharer_update)

lemma conns_ok_pcs [simp]:
  "conns_ok (set_sharer_pc r p s) = conns_ok s" "conns_ok (set_viewer_pc v q s) = conns_ok s"
  "conns_ok (set_writer_pc v w s) = conns_ok s"
  by (simp_all add: conns_ok_def all_conns_def)

lemma broadcast_conns_ok:
  assumes "broadcast r order data s = Inr s'" "conns_ok s"
  shows "conns_ok s'"
  using assms by (auto simp: broadcast_def intro!: conns_ok_send dest: conn_key_offer_all split: sum.splits)

lemma unicast_conns_ok:
  assumes "unicast r data s = Inr s'" "conns_ok s"
  shows "conns_ok s'"
proof (cases "7 \<le> length data")
  case True
  show ?thesis
  proof (cases "mget (viewers_of (sv_sess s ! r)) (take 6 (drop 1 data))")
    case None
    then show ?thesis
      using assms True by (simp add: unicast_def Let_def)
  next
    case (Some v)
    have "conns_ok (s\<lparr>sv_conns := set_send v c (sv_conns s)\<rparr>)" for c
      using assms(2) by (simp add: conns_ok_send)
    then show ?thesis
      using assms(1) True Some by (auto simp: unicast_def Let_def chan_offer_def chan_close_def split: if_splits)
  qed
qed (use assms in \<open>simp add: unicast_def\<close>)

lemma sharer_message_conns_ok:
  "sharer_message r order data s = Inr s' \<Longrightarrow> conns_ok s \<Longrightarrow> conns_ok s'"
  unfolding sharer_message_def
  by (auto dest: broadcast_conns_ok unicast_conns_ok split: list.splits if_splits)

lemma sharer_exit_conns_ok:
  assumes "sharer_exit r order s = Inr s'" "conns_ok s"
  shows "conns_ok s'"
proof -
  obtain es vcs where "end_all (map snd (go_range (viewers_of (sv_sess s ! r)) order)) (sv_conns s) = Inr (es, vcs)"
    and s': "s' = set_sharer_pc r ShClosed (emit es
       (set_sess r ((sv_sess s ! r)\<lparr>rs_closed := True, rs_viewers := None\<rparr>) (s\<lparr>sv_conns := vcs\<rparr>)))"
    using assms(1) by (auto simp: sharer_exit_def Let_def split: sum.splits)
  then have "conns_ok (s\<lparr>sv_conns := vcs\<rparr>)"
    using assms(2) conn_key_end_all by (intro conns_ok_send)
  then show ?thesis
    by (simp add: s')
qed

lemma conns_ok_drop_viewer: "conns_ok s \<Longrightarrow> conns_ok (drop_viewer v s)"
  by (simp add: drop_viewer_def Let_def conns_ok_send)

lemma writer_step_conns_ok: "conns_ok s \<Longrightarrow> conns_ok (writer_step v ok s)"
  by (simp add: writer_step_def Let_def conns_ok_send split: option.split)

lemma mset_remove_nth:
  "i < length xs \<Longrightarrow> add_mset (xs ! i) (mset (take i xs) + mset (drop (Suc i) xs)) = mset xs"
  by (metis add_mset_add_single id_take_nth_drop mset.simps(2) mset_append union_mset_add_mset_right)

lemma add_viewer_conns_ok:
  assumes "conns_ok s" "i < length (sv_joining s)" "length vid = 6"
  shows "conns_ok (add_viewer r (fst (sv_joining s ! i)) vid (leave_joining i s))"
proof -
  let ?s = "add_viewer r (fst (sv_joining s ! i)) vid (leave_joining i s)"
  have "mset (map fst (sv_joining s))
      = add_mset (fst (sv_joining s ! i)) (mset (map fst (take i (sv_joining s))) + mset (map fst (drop (Suc i) (sv_joining s))))"
    using arg_cong [OF mset_remove_nth [OF assms(2)], of "image_mset fst"] by simp
  then have m: "mset (all_conns ?s) = mset (all_conns s)"
    by (simp add: all_conns_def add_viewer_def leave_joining_def map_rs_sharer_update)
  then have "distinct (all_conns ?s) = distinct (all_conns s)" "set (all_conns ?s) = set (all_conns s)"
    by (rule mset_eq_imp_distinct_iff, rule mset_eq_setD)
  then show ?thesis
    using assms(1,3) unfolding conns_ok_def list_all_iff
    by (simp add: add_viewer_def leave_joining_def)
qed

lemma generateViewerID_length: "generateViewerID rand = Inr vid \<Longrightarrow> length vid = 6"
  by (simp add: generateViewerID_def viewer_id_loop_Inr)

lemma leave_joining_conns_ok: "conns_ok s \<Longrightarrow> conns_ok (leave_joining i s)"
proof -
  have d: "distinct (xs @ ys @ take i zs @ drop (Suc i) zs)" if "distinct (xs @ ys @ zs)" for xs ys zs :: "conn list"
  proof -
    have "set (take i zs) \<subseteq> set zs" "set (drop (Suc i) zs) \<subseteq> set zs"
      by (auto dest: in_set_takeD in_set_dropD)
    then show ?thesis
      using that by (auto simp: set_take_disj_set_drop_if_distinct)
  qed
  have "set (all_conns (leave_joining i s)) \<subseteq> set (all_conns s)"
    by (auto simp: all_conns_def leave_joining_def dest: in_set_takeD in_set_dropD)
  moreover have "distinct (all_conns s) \<Longrightarrow> distinct (all_conns (leave_joining i s))"
    using d [of "map rs_sharer (sv_sess s)" "map vc_conn (sv_conns s)" "map fst (sv_joining s)"]
    by (simp add: all_conns_def leave_joining_def take_map drop_map)
  ultimately show "conns_ok s \<Longrightarrow> conns_ok (leave_joining i s)"
    unfolding conns_ok_def list_all_iff by (simp add: leave_joining_def) blast
qed

lemma conns_ok_sessions [simp]: "conns_ok (s\<lparr>sv_sessions := ss\<rparr>) = conns_ok s"
  by (simp add: conns_ok_def all_conns_def)

lemma act_conns_ok:
  assumes "reachable l s" "conns_ok s" "ready a s" "fresh_viewer_id a s" "act a s = Inr s'"
  shows "conns_ok s'"
proof (cases a)
  case (WatchJoin i rand)
  have ok: "sess_ok s" and i: "i < length (sv_joining s)"
    using reachable_ok [OF assms(1)] assms(3) WatchJoin by simp_all
  show ?thesis
  proof (cases rule: watch_join_cases [OF ok i, of rand])
    case (1 es)
    then show ?thesis
      using assms(2,5) WatchJoin by (auto simp: leave_joining_conns_ok)
  next
    case (2 vid)
    then show ?thesis
      using add_viewer_conns_ok [OF assms(2) i generateViewerID_length [OF 2(1)], of "snd (sv_joining s ! i)"]
        assms(5) WatchJoin by simp
  qed
next
  case (ViewerExit v)
  have "entries_ok s" "ids_ok s"
    using reachable_ok [OF assms(1)] by simp_all
  from viewer_exit_result [OF this, of v] show ?thesis
    using assms(2,3,5) ViewerExit conns_ok_drop_viewer by auto
qed (use assms in \<open>auto simp: split_beta handleShare_conns_ok handleWatch_conns_ok share_ack_def sharer_delete_def
      watch_ack_def viewer_message_def Let_def sharer_message_conns_ok sharer_exit_conns_ok writer_step_conns_ok
      split: list.split\<close>)

lemma reachable_conns_ok: "reachable l s \<Longrightarrow> conns_ok s"
proof (induction rule: reachable.induct)
  case start
  then show ?case by (simp add: NewServer_def conns_ok_def all_conns_def)
next
  case (step s a s')
  then show ?case using act_conns_ok by blast
qed

end
