(* ===== verification/Relay_Props.thy ===== *)
theory Relay_Props
  imports Relay_Inv
begin

text \<open>
  What the relay server guarantees: no goroutine panics, limits hold, each connection gets only
  what it is meant to get and in order, sessions end for everybody, and what happens when a
  viewer ID is drawn twice.
\<close>

section \<open>What an action writes\<close>

text \<open>The messages an action may write, and to which connection.\<close>

fun may_write :: "action \<Rightarrow> relay \<Rightarrow> conn \<Rightarrow> bytes \<Rightarrow> bool" where
  "may_write (Share ip ck sid err) s c m = (c = sv_nextconn s)"
| "may_write (ShareAck r) s c m = (c = rs_sharer (sv_sess s ! r) \<and> m = [MsgTypeControl, CtrlRegistrationAck])"
| "may_write (SharerMessage r order data) s c m = (c = rs_sharer (sv_sess s ! r) \<and> m = [MsgTypePong])"
| "may_write (SharerExit r order) s c m =
     (\<exists>v. v \<in> viewers_in s r \<and> c = vc_conn (sv_conns s ! v) \<and> m = [MsgTypeControl, CtrlSessionEnded])"
| "may_write (SharerDelete r) s c m = False"
| "may_write (Watch ip ck sid err) s c m = (c = sv_nextconn s)"
| "may_write (WatchJoin i rand) s c m = (c = fst (sv_joining s ! i))"
| "may_write (WatchAck v) s c m =
     (c = vc_conn (sv_conns s ! v) \<and> m = MsgTypeControl # CtrlJoinAck # vc_id (sv_conns s ! v))"
| "may_write (ViewerMessage v data) s c m =
     (c = rs_sharer (sv_sess s ! fst (sv_viewers s ! v)) \<and> \<not> rs_closed (sv_sess s ! fst (sv_viewers s ! v)) \<and>
        (\<exists>rest. data = MsgTypeSPAKE2 # rest \<and> m = MsgTypeSPAKE2 # go_copy 6 (vc_id (sv_conns s ! v)) @ rest) \<or>
      c = vc_conn (sv_conns s ! v) \<and> m = [MsgTypePong])"
| "may_write (ViewerExit v) s c m =
     (c = rs_sharer (sv_sess s ! fst (sv_viewers s ! v)) \<and>
      m = MsgTypeControl # CtrlViewerDisconnected # go_copy 6 (vc_id (sv_conns s ! v)))"
| "may_write (WriterStep v ok) s c m =
     (c = vc_conn (sv_conns s ! v) \<and> (\<exists>ms. ch_buf (vc_send (sv_conns s ! v)) = m # ms))"

definition logs :: "relay \<Rightarrow> relay \<Rightarrow> (conn \<Rightarrow> bytes \<Rightarrow> bool) \<Rightarrow> bool" where
  "logs s s' P \<longleftrightarrow> (\<exists>es. sv_log s' = sv_log s @ es \<and> (\<forall>c m. WriteMsg c m \<in> set es \<longrightarrow> P c m))"

lemma logs_same: "sv_log s' = sv_log s \<Longrightarrow> logs s s' P"
  by (simp add: logs_def)

lemma logs_emit:
  assumes "sv_log s' = sv_log s @ es" "\<And>c m. WriteMsg c m \<in> set es \<Longrightarrow> P c m"
  shows "logs s s' P"
  using assms by (auto simp: logs_def)

lemma rateLimitWrap_log:
  "\<exists>es. sv_log (snd (rateLimitWrap ev ip ck s)) = sv_log s @ es \<and> (\<forall>c m. WriteMsg c m \<notin> set es)"
  by (auto simp: rateLimitWrap_def Let_def split_beta split: option.split)

lemma handleShare_log:
  "\<exists>es. sv_log (handleShare sid err s) = sv_log s @ es \<and> (\<forall>c m. WriteMsg c m \<in> set es \<longrightarrow> c = sv_nextconn s)"
  by (auto simp: handleShare_def websocket_Accept_def sendControl_def split: option.split)

lemma handleWatch_log:
  "\<exists>es. sv_log (handleWatch sid err s) = sv_log s @ es \<and> (\<forall>c m. WriteMsg c m \<in> set es \<longrightarrow> c = sv_nextconn s)"
  by (auto simp: handleWatch_def websocket_Accept_def sendControl_def split: option.split)

lemma leave_joining_log [simp]: "sv_log (leave_joining i s) = sv_log s" "sv_log (add_viewer r c vid s) = sv_log s"
  by (simp_all add: leave_joining_def add_viewer_def)

lemma drop_viewer_log [simp]: "sv_log (drop_viewer v s) = sv_log s"
  by (simp add: drop_viewer_def Let_def)

lemma sharer_message_logs:
  assumes "sharer_message r order data s = Inr s'"
  shows "logs s s' (may_write (SharerMessage r order data) s)"
proof -
  have b: "logs s s' P" if "broadcast r order data s = Inr s'" for P
    using that by (intro logs_same) (auto simp: broadcast_def split: sum.splits)
  have u: "logs s s' P" if "unicast r data s = Inr s'" for P
    using that unfolding unicast_def
    by (auto simp: Let_def chan_offer_def chan_close_def logs_def split: if_splits option.splits)
  show ?thesis
    using assms b u unfolding sharer_message_def
    by (auto split: list.splits if_splits intro: logs_same) (auto simp: logs_def)
qed

lemma act_logs:
  assumes "reachable l s" "ready a s" "act a s = Inr s'"
  shows "logs s s' (may_write a s)"
proof -
  have ok: "sess_ok s" "entries_ok s" "ids_ok s"
    using reachable_ok [OF assms(1)] by simp_all
  show ?thesis
  proof (cases a)
    case (Share ip ck sid err)
    let ?w = "rateLimitWrap EventRegistration ip ck s"
    have n: "sv_nextconn (snd ?w) = sv_nextconn s"
      by simp
    obtain es1 where 1: "sv_log (snd ?w) = sv_log s @ es1" "\<forall>c m. WriteMsg c m \<notin> set es1"
      using rateLimitWrap_log by blast
    obtain es2 where 2: "sv_log (handleShare sid err (snd ?w)) = sv_log (snd ?w) @ es2"
      "\<forall>c m. WriteMsg c m \<in> set es2 \<longrightarrow> c = sv_nextconn s"
      using handleShare_log [of sid err "snd ?w"] unfolding n by blast
    show ?thesis
      using assms(3) 1 2 by (auto simp: Share split_beta logs_def)
  next
    case (Watch ip ck sid err)
    let ?w = "rateLimitWrap EventConnection ip ck s"
    have n: "sv_nextconn (snd ?w) = sv_nextconn s"
      by simp
    obtain es1 where 1: "sv_log (snd ?w) = sv_log s @ es1" "\<forall>c m. WriteMsg c m \<notin> set es1"
      using rateLimitWrap_log by blast
    obtain es2 where 2: "sv_log (handleWatch sid err (snd ?w)) = sv_log (snd ?w) @ es2"
      "\<forall>c m. WriteMsg c m \<in> set es2 \<longrightarrow> c = sv_nextconn s"
      using handleWatch_log [of sid err "snd ?w"] unfolding n by blast
    show ?thesis
      using assms(3) 1 2 by (auto simp: Watch split_beta logs_def)
  next
    case (SharerMessage r order data)
    then show ?thesis
      using assms(3) sharer_message_logs by simp
  next
    case (SharerExit r order)
    have r: "r < length (sv_sess s)" "range_order (viewers_of (sv_sess s ! r)) order"
      using assms(2) SharerExit sess_ok_length [OF ok(1)] by simp_all
    show ?thesis
      using assms(3) by (cases rule: sharer_exit_result [OF ok(2) r])
        (auto simp: SharerExit logs_def sendControl_def)
  next
    case (WatchJoin i rand)
    have i: "i < length (sv_joining s)"
      using assms(2) WatchJoin by simp
    show ?thesis
    proof (cases rule: watch_join_cases [OF ok(1) i, of rand])
      case (1 es)
      have "c = fst (sv_joining s ! i)" if "WriteMsg c m \<in> set es" for c m
        using 1(2) [OF that] by blast
      then show ?thesis
        using assms(3) 1(1) by (auto simp: WatchJoin logs_def)
    qed (use assms(3) in \<open>auto simp: WatchJoin logs_def\<close>)
  next
    case (ViewerExit v)
    then show ?thesis
      using assms(2,3) viewer_exit_result [OF ok(2,3), of v]
      by (auto simp: logs_def viewer_gone_def Let_def)
  next
    case (ViewerMessage v data)
    then show ?thesis
      using assms(3)
      by (auto simp: logs_def viewer_message_def Let_def split: list.splits if_splits)
  next
    case (WriterStep v ok)
    then show ?thesis
      using assms(3)
      by (auto simp: logs_def writer_step_def Let_def chan_recv_Some split: option.splits if_splits)
  qed (use assms(3) in \<open>auto simp: logs_def share_ack_def sharer_delete_def watch_ack_def sendControl_def\<close>)
qed

section \<open>What an action queues\<close>

text \<open>
  What an action offers to the channel of a viewer, and what the viewer's writer takes from it.
\<close>

definition offered :: "nat \<Rightarrow> action \<Rightarrow> relay \<Rightarrow> bytes list" where
  "offered v a s =
     (case a of
        SharerMessage r order data \<Rightarrow>
          if registered s v \<and> fst (sv_viewers s ! v) = r \<and> data \<noteq> [] then
            if hd data = MsgTypeStream \<or> hd data = MsgTypeTermSize then [data]
            else if hd data = MsgTypeUnicast \<and> 7 \<le> length data \<and> take 6 (drop 1 data) = vc_id (sv_conns s ! v)
            then [drop 7 data] else []
          else []
      | _ \<Rightarrow> [])"

definition taken :: "nat \<Rightarrow> action \<Rightarrow> relay \<Rightarrow> bytes list" where
  "taken v a s = (case a of WriterStep w ok \<Rightarrow> if w = v then take 1 (ch_buf (vc_send (sv_conns s ! v))) else [] | _ \<Rightarrow> [])"

abbreviation buf_of :: "relay \<Rightarrow> nat \<Rightarrow> bytes list" where
  "buf_of s v \<equiv> ch_buf (vc_send (sv_conns s ! v))"

text \<open>An action moves messages from the offered ones through the buffer to the taken ones.\<close>

definition moves :: "bytes list \<Rightarrow> bytes list \<Rightarrow> bytes list \<Rightarrow> bytes list \<Rightarrow> bool" where
  "moves b off tk b' \<longleftrightarrow> subseq (tk @ b') (b @ off) \<and> (length (b @ off) \<le> 256 \<longrightarrow> tk @ b' = b @ off)"

lemma moves_same [simp]: "moves b [] [] b"
  by (simp add: moves_def)

lemma moves_push: "\<not> ch_closed c \<Longrightarrow> moves (ch_buf c) [m] [] (ch_buf (chan_push m c))"
  using sendq.push_subseq [of c m] sendq.push_fits [of c m] by (simp add: moves_def)

lemma rateLimitWrap_conns [simp]: "sv_conns (snd (rateLimitWrap ev ip ck s)) = sv_conns s"
  by simp

lemma broadcast_moves:
  assumes "entries_ok s" "r < length (sv_sess s)" "range_order (viewers_of (sv_sess s ! r)) order"
    and "broadcast r order data s = Inr s'" "v < length (sv_conns s)"
  shows "moves (buf_of s v) (if registered s v \<and> fst (sv_viewers s ! v) = r then [data] else []) [] (buf_of s' v)"
proof -
  obtain vcs where "broadcast r order data s = Inr (s\<lparr>sv_conns := vcs\<rparr>)"
    and n: "vcs ! v = (if v \<in> viewers_in s r
       then (sv_conns s ! v)\<lparr>vc_send := chan_push data (vc_send (sv_conns s ! v))\<rparr> else sv_conns s ! v)"
    using broadcast_result [OF assms(1-3), of data] by metis
  then have s': "sv_conns s' = vcs"
    using assms(4) by auto
  show ?thesis
    using n viewers_in_open [OF assms(1), of v r] assms(5)
    by (auto simp: s' viewers_in_def intro: moves_push)
qed

lemma unicast_moves:
  assumes "entries_ok s" "r < length (sv_sess s)" "unicast r data s = Inr s'" "v < length (sv_conns s)"
  shows "moves (buf_of s v)
    (if registered s v \<and> fst (sv_viewers s ! v) = r \<and> 7 \<le> length data \<and> take 6 (drop 1 data) = vc_id (sv_conns s ! v)
     then [drop 7 data] else []) [] (buf_of s' v)"
proof (cases rule: unicast_cases [OF assms(1,2), of data])
  case 1
  have "\<not> (registered s v \<and> fst (sv_viewers s ! v) = r \<and> 7 \<le> length data \<and> take 6 (drop 1 data) = vc_id (sv_conns s ! v))"
    using 1(2) [of v] by (auto simp: registered_def)
  then show ?thesis
    using assms(3) 1(1) by auto
next
  case (2 w)
  note d = entries_okD [OF assms(1) 2(2)]
  show ?thesis
  proof (cases "w = v")
    case True
    then have "registered s v" "fst (sv_viewers s ! v) = r" "take 6 (drop 1 data) = vc_id (sv_conns s ! v)"
      using d 2(2) by (auto simp: registered_def)
    then show ?thesis
      using True d 2 assms(3,4) by (auto simp: nth_set_send intro!: moves_push)
  next
    case False
    then have "\<not> (registered s v \<and> fst (sv_viewers s ! v) = r \<and> take 6 (drop 1 data) = vc_id (sv_conns s ! v))"
      using d 2(2) by (auto simp: registered_def)
    then show ?thesis
      using False d 2 assms(3) by (auto simp: nth_set_send)
  qed
next
  case (3 w)
  note d = entries_okD [OF assms(1) 3(2)]
  have b: "buf_of s' v = buf_of s v"
    using assms(3) 3(4) d(1) by (auto simp: nth_drop_viewer)
  show ?thesis
  proof (cases "w = v")
    case True
    then show ?thesis
      using 3(3) b by (simp add: moves_def subseq_rev_drop_many)
  next
    case False
    then have "\<not> (registered s v \<and> fst (sv_viewers s ! v) = r \<and> take 6 (drop 1 data) = vc_id (sv_conns s ! v))"
      using d 3(2) by (auto simp: registered_def)
    then show ?thesis
      using b by auto
  qed
qed

lemma act_moves:
  assumes "reachable l s" "ready a s" "act a s = Inr s'" "v < length (sv_conns s)"
  shows "moves (buf_of s v) (offered v a s) (taken v a s) (buf_of s' v) \<and> v < length (sv_conns s')"
proof -
  have ok: "sess_ok s" "entries_ok s" "ids_ok s"
    using reachable_ok [OF assms(1)] by simp_all
  show ?thesis
  proof (cases a)
    case (SharerMessage r order data)
    have r: "r < length (sv_sess s)" "range_order (viewers_of (sv_sess s ! r)) order"
      using assms(2) SharerMessage sess_ok_length [OF ok(1)] by simp_all
    have len: "length (sv_conns s') = length (sv_conns s)"
    proof -
      have "map conn_key (sv_conns s') = map conn_key (sv_conns s)"
        using assms(3) unfolding SharerMessage act.simps sharer_message_def broadcast_def unicast_def
        by (auto simp: Let_def chan_offer_def chan_close_def dest: conn_key_offer_all
            split: list.splits if_splits sum.splits option.splits)
      then show ?thesis
        by (metis length_map)
    qed
    show ?thesis
    proof (cases data)
      case Nil
      then show ?thesis
        using assms(3,4) SharerMessage by (simp add: sharer_message_def offered_def taken_def)
    next
      case (Cons b rest)
      note msg = assms(3) [unfolded SharerMessage act.simps sharer_message_def Cons list.case]
      consider (all) "b = 2 \<or> b = 7" | (one) "b = 3" | (none) "b \<noteq> 2" "b \<noteq> 7" "b \<noteq> 3"
        by blast
      then show ?thesis
      proof cases
        case all
        then have "broadcast r order data s = Inr s'"
          using msg Cons by auto
        from broadcast_moves [OF ok(2) r this assms(4)] all show ?thesis
          using len assms(4) Cons SharerMessage by (auto simp: offered_def taken_def)
      next
        case one
        then have "unicast r data s = Inr s'"
          using msg Cons by simp
        from unicast_moves [OF ok(2) r(1) this assms(4)] one show ?thesis
          using len assms(4) Cons SharerMessage by (auto simp: offered_def taken_def split: if_splits)
      next
        case none
        then have "sv_conns s' = sv_conns s"
          using msg by (auto split: if_splits)
        then show ?thesis
          using none assms(4) Cons SharerMessage by (simp add: offered_def taken_def)
      qed
    qed
  next
    case (SharerExit r order)
    have r: "r < length (sv_sess s)" "range_order (viewers_of (sv_sess s ! r)) order"
      using assms(2) SharerExit sess_ok_length [OF ok(1)] by simp_all
    show ?thesis
      using assms(3,4) by (cases rule: sharer_exit_result [OF ok(2) r])
        (auto simp: SharerExit offered_def taken_def)
  next
    case (WatchJoin i rand)
    have i: "i < length (sv_joining s)"
      using assms(2) WatchJoin by simp
    show ?thesis
      using assms(3,4) by (cases rule: watch_join_cases [OF ok(1) i, of rand])
        (auto simp: WatchJoin offered_def taken_def leave_joining_def add_viewer_def nth_append)
  next
    case (ViewerExit w)
    then have "w < length (sv_conns s)"
      using assms(2) ok(2) entries_ok_viewer by auto
    then show ?thesis
      using assms(2-4) ViewerExit viewer_exit_result [OF ok(2,3), of w]
      by (auto simp: offered_def taken_def nth_drop_viewer)
  next
    case (WriterStep w b)
    then have w: "w < length (sv_conns s)"
      using assms(2) ok(2) by (auto simp: entries_ok_def)
    show ?thesis
    proof (cases "w = v")
      case True
      then show ?thesis
        using assms(2-4) w WriterStep
        by (auto simp: offered_def taken_def writer_step_def Let_def chan_recv_Some moves_def nth_set_send
            split: option.splits)
    next
      case False
      then show ?thesis
        using assms(2-4) w WriterStep
        by (auto simp: offered_def taken_def writer_step_def Let_def nth_set_send split: option.splits)
    qed
  next
    case (Share ip ck sid err)
    then show ?thesis
      using assms(3,4) handleShare_conn [of "snd (rateLimitWrap EventRegistration ip ck s)" sid err]
      by (auto simp: offered_def taken_def split_beta)
  next
    case (Watch ip ck sid err)
    then show ?thesis
      using assms(3,4) handleWatch_conn [of "snd (rateLimitWrap EventConnection ip ck s)" sid err]
      by (auto simp: offered_def taken_def split_beta)
  qed (use assms(3,4) in \<open>auto simp: offered_def taken_def share_ack_def sharer_delete_def watch_ack_def
        viewer_message_def Let_def split: list.split\<close>)
qed

text \<open>The same along a run.\<close>

fun offered_run :: "nat \<Rightarrow> action list \<Rightarrow> relay \<Rightarrow> bytes list" where
  "offered_run v [] s = []"
| "offered_run v (a # as) s =
     offered v a s @ (case act a s of Inl p \<Rightarrow> [] | Inr s1 \<Rightarrow> offered_run v as s1)"

fun taken_run :: "nat \<Rightarrow> action list \<Rightarrow> relay \<Rightarrow> bytes list" where
  "taken_run v [] s = []"
| "taken_run v (a # as) s =
     taken v a s @ (case act a s of Inl p \<Rightarrow> [] | Inr s1 \<Rightarrow> taken_run v as s1)"

lemma moves_trans:
  assumes "moves b o1 t1 b1" "moves b1 o2 t2 b2"
  shows "moves b (o1 @ o2) (t1 @ t2) b2"
proof -
  have 1: "subseq (t1 @ b1) (b @ o1)" and 2: "subseq (t2 @ b2) (b1 @ o2)"
    using assms by (simp_all add: moves_def)
  have "subseq (t1 @ t2 @ b2) (t1 @ b1 @ o2)"
    using 2 by (simp add: subseq_append')
  also have "subseq (t1 @ b1 @ o2) (b @ o1 @ o2)"
    using 1 by (metis append_assoc subseq_append)
  finally have s: "subseq ((t1 @ t2) @ b2) (b @ o1 @ o2)"
    by simp
  have "(t1 @ t2) @ b2 = b @ o1 @ o2" if "length (b @ o1 @ o2) \<le> 256"
  proof -
    have e: "t1 @ b1 = b @ o1"
      using assms(1) that by (simp add: moves_def)
    then have "length t1 + length b1 = length b + length o1"
      by (metis length_append)
    then have "t2 @ b2 = b1 @ o2"
      using assms(2) that by (simp add: moves_def)
    then show ?thesis
      using e by (metis append_assoc)
  qed
  with s show ?thesis
    by (simp add: moves_def)
qed

lemma runs_moves:
  "reachable l s \<Longrightarrow> runs as s = Some s' \<Longrightarrow> v < length (sv_conns s) \<Longrightarrow>
     moves (buf_of s v) (offered_run v as s) (taken_run v as s) (buf_of s' v)"
proof (induction as arbitrary: s)
  case (Cons a as)
  then obtain s1 where 1: "ready a s" "fresh_viewer_id a s" "act a s = Inr s1" "runs as s1 = Some s'"
    by (auto split: if_splits sum.splits)
  have m: "moves (buf_of s v) (offered v a s) (taken v a s) (buf_of s1 v)" "v < length (sv_conns s1)"
    using act_moves [OF Cons.prems(1) 1(1,3) Cons.prems(3)] by simp_all
  have "reachable l s1"
    using Cons.prems(1) 1 reachable.step by blast
  from moves_trans [OF m(1) Cons.IH [OF this 1(4) m(2)]] 1(3) show ?case
    by simp
qed simp

section \<open>Whose connection it is\<close>

lemma conns_distinct:
  assumes "conns_ok s"
  shows "v < length (sv_conns s) \<Longrightarrow> w < length (sv_conns s) \<Longrightarrow>
      vc_conn (sv_conns s ! v) = vc_conn (sv_conns s ! w) \<Longrightarrow> v = w"
    and "r < length (sv_sess s) \<Longrightarrow> q < length (sv_sess s) \<Longrightarrow>
      rs_sharer (sv_sess s ! r) = rs_sharer (sv_sess s ! q) \<Longrightarrow> r = q"
    and "r < length (sv_sess s) \<Longrightarrow> v < length (sv_conns s) \<Longrightarrow>
      rs_sharer (sv_sess s ! r) \<noteq> vc_conn (sv_conns s ! v)"
    and "i < length (sv_joining s) \<Longrightarrow> v < length (sv_conns s) \<Longrightarrow>
      fst (sv_joining s ! i) \<noteq> vc_conn (sv_conns s ! v)"
    and "i < length (sv_joining s) \<Longrightarrow> r < length (sv_sess s) \<Longrightarrow>
      fst (sv_joining s ! i) \<noteq> rs_sharer (sv_sess s ! r)"
    and "v < length (sv_conns s) \<Longrightarrow> vc_conn (sv_conns s ! v) \<noteq> sv_nextconn s"
    and "r < length (sv_sess s) \<Longrightarrow> rs_sharer (sv_sess s ! r) \<noteq> sv_nextconn s"
    and "v < length (sv_conns s) \<Longrightarrow> length (vc_id (sv_conns s ! v)) = 6"
proof -
  have d: "distinct (map rs_sharer (sv_sess s))" "distinct (map vc_conn (sv_conns s))"
    "set (map rs_sharer (sv_sess s)) \<inter> set (map vc_conn (sv_conns s)) = {}"
    "set (map rs_sharer (sv_sess s)) \<inter> set (map fst (sv_joining s)) = {}"
    "set (map vc_conn (sv_conns s)) \<inter> set (map fst (sv_joining s)) = {}"
    using assms by (auto simp: conns_ok_def all_conns_def)
  have n: "c < sv_nextconn s" if "c \<in> set (map rs_sharer (sv_sess s)) \<union> set (map vc_conn (sv_conns s))" for c
    using assms that by (auto simp: conns_ok_def all_conns_def list_all_iff)
  have m: "r < length (sv_sess s) \<Longrightarrow> rs_sharer (sv_sess s ! r) \<in> set (map rs_sharer (sv_sess s))"
    "v < length (sv_conns s) \<Longrightarrow> vc_conn (sv_conns s ! v) \<in> set (map vc_conn (sv_conns s))"
    "i < length (sv_joining s) \<Longrightarrow> fst (sv_joining s ! i) \<in> set (map fst (sv_joining s))" for r v i
    by simp_all
  show "v = w" if "v < length (sv_conns s)" "w < length (sv_conns s)"
    "vc_conn (sv_conns s ! v) = vc_conn (sv_conns s ! w)"
    using nth_eq_iff_index_eq [OF d(2), of v w] that by simp
  show "r = q" if "r < length (sv_sess s)" "q < length (sv_sess s)"
    "rs_sharer (sv_sess s ! r) = rs_sharer (sv_sess s ! q)"
    using nth_eq_iff_index_eq [OF d(1), of r q] that by simp
  show "rs_sharer (sv_sess s ! r) \<noteq> vc_conn (sv_conns s ! v)" if "r < length (sv_sess s)" "v < length (sv_conns s)"
    using m(1) [OF that(1)] m(2) [OF that(2)] d(3) by (metis disjoint_iff)
  show "fst (sv_joining s ! i) \<noteq> vc_conn (sv_conns s ! v)" if "i < length (sv_joining s)" "v < length (sv_conns s)"
    using m(3) [OF that(1)] m(2) [OF that(2)] d(5) by (metis disjoint_iff)
  show "fst (sv_joining s ! i) \<noteq> rs_sharer (sv_sess s ! r)" if "i < length (sv_joining s)" "r < length (sv_sess s)"
    using m(3) [OF that(1)] m(1) [OF that(2)] d(4) by (metis disjoint_iff)
  show "vc_conn (sv_conns s ! v) \<noteq> sv_nextconn s" if "v < length (sv_conns s)"
    using n [of "vc_conn (sv_conns s ! v)"] m(2) [OF that] by auto
  show "rs_sharer (sv_sess s ! r) \<noteq> sv_nextconn s" if "r < length (sv_sess s)"
    using n [of "rs_sharer (sv_sess s ! r)"] m(1) [OF that] by auto
  show "length (vc_id (sv_conns s ! v)) = 6" if "v < length (sv_conns s)"
    using assms that by (simp add: conns_ok_def list_all_length)
qed

text \<open>What an action adds to the log.\<close>

definition new_log :: "relay \<Rightarrow> relay \<Rightarrow> effect list" where
  "new_log s s' = drop (length (sv_log s)) (sv_log s')"

lemma new_log_may_write:
  assumes "reachable l s" "ready a s" "act a s = Inr s'" "WriteMsg c m \<in> set (new_log s s')"
  shows "may_write a s c m"
  using act_logs [OF assms(1-3)] assms(4) by (auto simp: logs_def new_log_def)

lemma ready_bounds:
  assumes "reachable l s" "ready a s"
  shows "a = ShareAck r \<or> a = SharerMessage r order data \<or> a = SharerExit r order \<Longrightarrow> r < length (sv_sess s)"
    and "a = WatchAck v \<or> a = ViewerMessage v data \<or> a = ViewerExit v \<or> a = WriterStep v b \<Longrightarrow>
      v < length (sv_conns s) \<and> fst (sv_viewers s ! v) < length (sv_sess s)"
    and "a = WatchJoin i rand \<Longrightarrow> i < length (sv_joining s)"
proof -
  have ok: "sess_ok s" "entries_ok s"
    using reachable_ok [OF assms(1)] by simp_all
  show "a = ShareAck r \<or> a = SharerMessage r order data \<or> a = SharerExit r order \<Longrightarrow> r < length (sv_sess s)"
    using assms(2) sess_ok_length [OF ok(1)] by auto
  show "a = WatchAck v \<or> a = ViewerMessage v data \<or> a = ViewerExit v \<or> a = WriterStep v b \<Longrightarrow>
      v < length (sv_conns s) \<and> fst (sv_viewers s ! v) < length (sv_sess s)"
    using assms(2) ok(2) by (auto simp: entries_ok_def)
  show "a = WatchJoin i rand \<Longrightarrow> i < length (sv_joining s)"
    using assms(2) by simp
qed

section \<open>The end of a writer\<close>

text \<open>The writer's turns, with the results of its writes.\<close>

fun writer_turns :: "nat \<Rightarrow> bool list \<Rightarrow> relay \<Rightarrow> relay" where
  "writer_turns v [] s = s"
| "writer_turns v (ok # oks) s = writer_turns v oks (writer_step v ok s)"

lemma writer_step_Cons:
  assumes "v < length (sv_conns s)" "v < length (sv_writers s)" "buf_of s v = m # ms"
    and "sv_writers s ! v \<in> {WrSending, WrDraining}"
  shows "buf_of (writer_step v ok s) v = ms"
    and "ch_closed (vc_send (sv_conns (writer_step v ok s) ! v)) = ch_closed (vc_send (sv_conns s ! v))"
    and "sv_writers (writer_step v ok s) ! v \<in> {WrSending, WrDraining}"
    and "length (sv_conns (writer_step v ok s)) = length (sv_conns s)"
    and "length (sv_writers (writer_step v ok s)) = length (sv_writers s)"
proof -
  have r: "chan_recv (vc_send (sv_conns s ! v)) = Some (Some m, (vc_send (sv_conns s ! v))\<lparr>ch_buf := ms\<rparr>)"
    using assms(3) by (simp add: chan_recv_def)
  show "buf_of (writer_step v ok s) v = ms"
    "ch_closed (vc_send (sv_conns (writer_step v ok s) ! v)) = ch_closed (vc_send (sv_conns s ! v))"
    "sv_writers (writer_step v ok s) ! v \<in> {WrSending, WrDraining}"
    "length (sv_conns (writer_step v ok s)) = length (sv_conns s)"
    "length (sv_writers (writer_step v ok s)) = length (sv_writers s)"
    using assms(1,2,4) by (auto simp: writer_step_def Let_def r nth_set_send)
qed

lemma writer_turns_end:
  assumes "v < length (sv_conns s)" "v < length (sv_writers s)" "ch_closed (vc_send (sv_conns s ! v))"
    and "sv_writers s ! v \<in> {WrSending, WrDraining}" "length oks = Suc (length (buf_of s v))"
  shows "sv_writers (writer_turns v oks s) ! v = WrDone"
  using assms
proof (induction "buf_of s v" arbitrary: s oks)
  case Nil
  then obtain ok where "oks = [ok]"
    by (metis length_Suc_conv length_0_conv list.size(3))
  moreover have "chan_recv (vc_send (sv_conns s ! v)) = Some (None, vc_send (sv_conns s ! v))"
    using Nil by (simp add: chan_recv_def)
  ultimately show ?case
    using Nil by (simp add: writer_step_def)
next
  case (Cons m ms)
  obtain ok oks' where oks: "oks = ok # oks'" "length oks' = Suc (length ms)"
    using Cons.prems(5) Cons.hyps(2) by (metis length_Suc_conv list.size(4) add.commute plus_1_eq_Suc)
  note w = writer_step_Cons [OF Cons.prems(1,2) Cons.hyps(2) [symmetric] Cons.prems(4), of ok]
  show ?case
    using Cons.hyps(1) [of "writer_step v ok s" oks'] w Cons.prems oks by simp
qed

section \<open>A sample server\<close>

definition ex_sid :: bytes where
  "ex_sid = replicate 32 97"

definition ex_clocks :: clocks where
  "ex_clocks = \<lparr>ck_banned = 0, ck_check = 0, ck_now = 0, ck_ban = 0\<rparr>"

definition ex_rand :: "nat \<Rightarrow> nat option list" where
  "ex_rand n = [Some n, Some 0, Some 0, Some 0, Some 0, Some 0]"

lemma ex_sid_valid: "validSessionID ex_sid"
  by (simp add: validSessionID_def ex_sid_def hex_decodes_def is_hex_def list_all_iff)

lemma ViewerIDLen_Suc: "ViewerIDLen = Suc (Suc (Suc (Suc (Suc (Suc 0)))))"
  by simp

lemma charset_facts:
  "length ViewerIDCharset = 36" "ViewerIDCharset ! 0 = 97" "ViewerIDCharset ! Suc 0 = 98"
  by (simp_all add: ViewerIDCharset_def ascii_def)

lemma ex_rand_ids:
  "generateViewerID (ex_rand 0) = Inr [97, 97, 97, 97, 97, 97]"
  "generateViewerID (ex_rand (Suc 0)) = Inr [98, 97, 97, 97, 97, 97]"
  unfolding generateViewerID_def ex_rand_def ViewerIDLen_Suc viewer_id_loop.simps rand_int_def charset_facts(1)
  by (simp_all add: charset_facts)

text \<open>One session with two viewers, the first being served.\<close>

definition ex_setup :: "action list" where
  "ex_setup = [Share [1] ex_clocks ex_sid None, ShareAck 0,
     Watch [2] ex_clocks ex_sid None, WatchJoin 0 (ex_rand 0), WatchAck 0,
     Watch [3] ex_clocks ex_sid None, WatchJoin 0 (ex_rand 1)]"

definition ex_relay :: relay where
  "ex_relay =
     \<lparr>sv_sessions = [(ex_sid, 0)], sv_maxViewers = DefaultMaxViewers, sv_rateLimiter = None,
      sv_sess = [\<lparr>rs_sharer = 0,
                  rs_viewers = Some [([97, 97, 97, 97, 97, 97], 0), ([98, 97, 97, 97, 97, 97], 1)],
                  rs_closed = False\<rparr>],
      sv_sharers = [(ex_sid, ShReading)],
      sv_conns = [\<lparr>vc_id = [97, 97, 97, 97, 97, 97], vc_conn = 1, vc_send = make_chan\<rparr>,
                  \<lparr>vc_id = [98, 97, 97, 97, 97, 97], vc_conn = 2, vc_send = make_chan\<rparr>],
      sv_viewers = [(0, VwReading), (0, VwStored)], sv_writers = [WrSending, WrNone],
      sv_joining = [], sv_nextconn = 3,
      sv_log = [ProbeCall (ConnectionAccepted ''registration'' [1]), WriteMsg 0 [6, 1],
                ProbeCall (ConnectionAccepted ''connection'' [2]), WriteMsg 1 [6, 2, 97, 97, 97, 97, 97, 97],
                ProbeCall (ConnectionAccepted ''connection'' [3])]\<rparr>"

lemmas run_simps = rateLimitWrap_def handleShare_def handleWatch_def websocket_Accept_def share_ack_def
  watch_join_def watch_ack_def sendControl_def emit_def set_sharer_pc_def set_viewer_pc_def set_writer_pc_def
  set_sess_def viewers_of_def make_chan_def Let_def

lemmas message_simps = sharer_message_def broadcast_def unicast_def chan_offer_def chan_recv_def chan_close_def
  set_send_def writer_step_def viewer_message_def viewer_exit_def range_order_def

lemma ex_relay_runs: "runs ex_setup (NewServer None) = Some ex_relay"
  by (simp add: ex_setup_def NewServer_def ex_relay_def run_simps ex_sid_valid ex_rand_ids)

lemma ex_relay_reachable: "reachable None ex_relay"
  using runs_reachable [OF reachable.start ex_relay_runs] .

abbreviation ex_order :: "bytes list" where
  "ex_order \<equiv> [[97, 97, 97, 97, 97, 97], [98, 97, 97, 97, 97, 97]]"

section \<open>Properties\<close>

text \<open>
  C7. No goroutine of the relay panics: in every state that runs with unique viewer IDs reach, no
  action of any goroutine sends on or closes a closed channel or assigns to a nil map.
\<close>

theorem relay_never_panics:
  assumes "reachable limiter s" "ready a s" "fresh_viewer_id a s"
  shows "\<exists>s'. act a s = Inr s'"
  using act_ok [of s a] reachable_ok [OF assms(1)] assms(2,3) by blast

theorem relay_never_panics_witness: "\<exists>s'. act (SharerExit 0 ex_order) ex_relay = Inr s'"
  using relay_never_panics [OF ex_relay_reachable, of "SharerExit 0 ex_order"]
  by (simp add: ex_relay_def viewers_of_def range_order_def)

text \<open>
  C10. A viewer gets the messages its sharer addressed to it, broadcast or unicast, in the order
  they were sent, each at most once: over any run what its writer took, followed by what is still
  queued, is a subsequence of what was queued at the start followed by what was addressed to it, and all
  of it when that is no more than the channel's 256 messages.
\<close>

theorem delivery_in_order:
  assumes "reachable limiter s" "runs as s = Some s'" "v < length (sv_conns s)"
  shows "subseq (taken_run v as s @ ch_buf (vc_send (sv_conns s' ! v)))
      (ch_buf (vc_send (sv_conns s ! v)) @ offered_run v as s)
    \<and> (length (ch_buf (vc_send (sv_conns s ! v))) + length (offered_run v as s) \<le> viewerSendBufSize \<longrightarrow>
       taken_run v as s @ ch_buf (vc_send (sv_conns s' ! v)) = ch_buf (vc_send (sv_conns s ! v)) @ offered_run v as s)"
  using runs_moves [OF assms] by (simp add: moves_def)

text \<open>A frame, a unicast to the other viewer and one to this one; the writer has sent the first.\<close>

definition ex_traffic :: "action list" where
  "ex_traffic =
     [SharerMessage 0 ex_order [2, 11],
      SharerMessage 0 ex_order [3, 98, 97, 97, 97, 97, 97, 12],
      SharerMessage 0 ex_order [3, 97, 97, 97, 97, 97, 97, 13],
      WriterStep 0 True]"

theorem delivery_in_order_witness:
  "taken_run 0 ex_traffic ex_relay @ ch_buf (vc_send (sv_conns (the (runs ex_traffic ex_relay)) ! 0)) = [[2, 11], [13]]"
proof -
  have "runs ex_traffic ex_relay \<noteq> None"
    by (simp add: ex_traffic_def ex_relay_def run_simps message_simps)
  then have 1: "runs ex_traffic ex_relay = Some (the (runs ex_traffic ex_relay))"
    by (simp add: option.collapse)
  have 2: "0 < length (sv_conns ex_relay)" "ch_buf (vc_send (sv_conns ex_relay ! 0)) = []"
    by (simp_all add: ex_relay_def make_chan_def)
  have 3: "offered_run 0 ex_traffic ex_relay = [[2, 11], [13]]"
    by (simp add: ex_traffic_def ex_relay_def run_simps message_simps offered_def registered_def entry_at_def)
  show ?thesis
    using delivery_in_order [OF ex_relay_reachable 1 2(1)] by (simp add: 2 3)
qed

text \<open>
  C21. Nobody writes to a viewer's connection but for that viewer. A message written to it by any
  action of any goroutine is its own join acknowledgement, the answer to its own heartbeat, the
  end of its own session, or the first message queued in its own channel.
\<close>

theorem viewer_hears_its_own:
  assumes "reachable limiter s" "ready a s" "act a s = Inr s'" "v < length (sv_conns s)"
    and "WriteMsg (vc_conn (sv_conns s ! v)) m \<in> set (new_log s s')"
  shows "a = WatchAck v \<and> m = MsgTypeControl # CtrlJoinAck # vc_id (sv_conns s ! v)
    \<or> (\<exists>data. a = ViewerMessage v data) \<and> m = [MsgTypePong]
    \<or> (\<exists>order. a = SharerExit (fst (sv_viewers s ! v)) order) \<and> m = [MsgTypeControl, CtrlSessionEnded]
    \<or> (\<exists>ok. a = WriterStep v ok) \<and> (\<exists>ms. ch_buf (vc_send (sv_conns s ! v)) = m # ms)"
proof -
  note w = new_log_may_write [OF assms(1-3,5)]
  note d = conns_distinct [OF reachable_conns_ok [OF assms(1)]]
  note b = ready_bounds [OF assms(1,2)]
  show ?thesis
  proof (cases a)
    case (SharerExit r order)
    then obtain u where "u \<in> viewers_in s r" "vc_conn (sv_conns s ! v) = vc_conn (sv_conns s ! u)"
      "m = [MsgTypeControl, CtrlSessionEnded]"
      using w by auto
    then show ?thesis
      using d(1) [OF assms(4)] SharerExit by (auto simp: viewers_in_def)
  next
    case (WatchAck u)
    then show ?thesis
      using w b(2) d(1) [OF assms(4)] by auto
  next
    case (ViewerMessage u data)
    have u: "u < length (sv_conns s)" "fst (sv_viewers s ! u) < length (sv_sess s)"
      using b(2) ViewerMessage by blast+
    have "vc_conn (sv_conns s ! v) = vc_conn (sv_conns s ! u) \<and> m = [MsgTypePong]"
      using w d(3) [OF u(2) assms(4)] unfolding ViewerMessage may_write.simps by metis
    then show ?thesis
      using d(1) [OF assms(4) u(1)] ViewerMessage by blast
  next
    case (WriterStep u ok)
    then show ?thesis
      using w b(2) d(1) [OF assms(4)] by auto
  next
    case (ShareAck r)
    then show ?thesis
      using w b(1) d(3) [OF _ assms(4)] by (metis may_write.simps(2))
  next
    case (SharerMessage r order data)
    then show ?thesis
      using w b(1) d(3) [OF _ assms(4)] by (metis may_write.simps(3))
  next
    case (ViewerExit u)
    then show ?thesis
      using w b(2) d(3) [OF _ assms(4)] by (metis may_write.simps(10))
  next
    case (WatchJoin i rand)
    then show ?thesis
      using w b(3) d(4) [OF _ assms(4)] by (metis may_write.simps(7))
  qed (use w d(6) [OF assms(4)] in auto)
qed

theorem viewer_hears_its_own_witness:
  "\<exists>s'. act (WatchAck 1) ex_relay = Inr s' \<and>
     WriteMsg (vc_conn (sv_conns ex_relay ! 1)) [6, 2, 98, 97, 97, 97, 97, 97] \<in> set (new_log ex_relay s') \<and>
     [6, 2, 98, 97, 97, 97, 97, 97] = MsgTypeControl # CtrlJoinAck # vc_id (sv_conns ex_relay ! 1)"
proof -
  let ?s' = "watch_ack 1 ex_relay" and ?m = "[6, 2, 98, 97, 97, 97, 97, 97]"
  have 1: "act (WatchAck 1) ex_relay = Inr ?s'" "ready (WatchAck 1) ex_relay" "1 < length (sv_conns ex_relay)"
    by (simp_all add: ex_relay_def)
  have 2: "WriteMsg (vc_conn (sv_conns ex_relay ! 1)) ?m \<in> set (new_log ex_relay ?s')"
    by (simp add: ex_relay_def new_log_def run_simps)
  show ?thesis
    using viewer_hears_its_own [OF ex_relay_reachable 1(2,1,3) 2] 1(1) 2 by blast
qed

text \<open>What is written to a sharer's connection, by which action.\<close>

lemma sharer_hears:
  assumes "reachable limiter s" "ready a s" "act a s = Inr s'" "r < length (sv_sess s)"
    and "WriteMsg (rs_sharer (sv_sess s ! r)) m \<in> set (new_log s s')"
  shows "a = ShareAck r \<and> m = [MsgTypeControl, CtrlRegistrationAck]
    \<or> (\<exists>order data. a = SharerMessage r order data) \<and> m = [MsgTypePong]
    \<or> (\<exists>v rest. a = ViewerMessage v (MsgTypeSPAKE2 # rest) \<and> fst (sv_viewers s ! v) = r \<and>
         m = MsgTypeSPAKE2 # vc_id (sv_conns s ! v) @ rest)
    \<or> (\<exists>v. a = ViewerExit v \<and> fst (sv_viewers s ! v) = r \<and>
         m = MsgTypeControl # CtrlViewerDisconnected # vc_id (sv_conns s ! v))"
proof -
  note w = new_log_may_write [OF assms(1-3,5)]
  note d = conns_distinct [OF reachable_conns_ok [OF assms(1)]]
  note b = ready_bounds [OF assms(1,2)]
  show ?thesis
  proof (cases a)
    case (SharerExit q order)
    then show ?thesis
      using w d(3) [OF assms(4)] by (auto simp: viewers_in_def)
  next
    case (WatchAck u)
    then show ?thesis
      using w b(2) d(3) [OF assms(4)] by (metis may_write.simps(8))
  next
    case (ViewerMessage u data)
    have u: "u < length (sv_conns s)" "fst (sv_viewers s ! u) < length (sv_sess s)"
      using b(2) ViewerMessage by blast+
    have "rs_sharer (sv_sess s ! r) = rs_sharer (sv_sess s ! fst (sv_viewers s ! u))"
      and "\<exists>rest. data = MsgTypeSPAKE2 # rest \<and> m = MsgTypeSPAKE2 # go_copy 6 (vc_id (sv_conns s ! u)) @ rest"
      using w ViewerMessage d(3) [OF assms(4) u(1)] by (auto simp del: MsgTypeSPAKE2_def)
    then show ?thesis
      using d(2) [OF assms(4) u(2)] d(8) [OF u(1)] ViewerMessage by auto
  next
    case (WriterStep u ok)
    then show ?thesis
      using w b(2) d(3) [OF assms(4)] by (metis may_write.simps(11))
  next
    case (ShareAck q)
    then show ?thesis
      using w b(1) d(2) [OF assms(4)] by auto
  next
    case (SharerMessage q order data)
    then show ?thesis
      using w b(1) d(2) [OF assms(4)] by auto
  next
    case (ViewerExit u)
    then have u: "u < length (sv_conns s)" "fst (sv_viewers s ! u) < length (sv_sess s)"
      using b(2) by blast+
    then show ?thesis
      using w d(2) [OF assms(4) u(2)] d(8) [OF u(1)] ViewerExit by auto
  next
    case (WatchJoin i rand)
    then show ?thesis
      using w b(3) d(5) [OF _ assms(4)] by (metis may_write.simps(7))
  qed (use w d(7) [OF assms(4)] in auto)
qed

text \<open>
  C22. What a sharer's connection gets is attributed. Besides the registration acknowledgement and
  pongs it gets two kinds of messages about viewers: SPAKE2 messages, whose six bytes after the
  type are the ID of the viewer that sent the rest, whatever that viewer wrote, and the notice
  that a viewer is gone. Both come from viewers of its own session, and two viewers that are
  being served in a session differ in their IDs, so an ID tells the sharer which viewer it was. (The IDs
  drawn for viewers are assumed to be unused in their session, as everywhere in the relay's runs.)
\<close>

theorem sharer_hears_attributed:
  assumes "reachable limiter s" "ready a s" "act a s = Inr s'" "r < length (sv_sess s)"
    and "WriteMsg (rs_sharer (sv_sess s ! r)) m \<in> set (new_log s s')"
  shows "(a = ShareAck r \<and> m = [MsgTypeControl, CtrlRegistrationAck]
      \<or> (\<exists>order data. a = SharerMessage r order data) \<and> m = [MsgTypePong]
      \<or> (\<exists>v rest. a = ViewerMessage v (MsgTypeSPAKE2 # rest) \<and> fst (sv_viewers s ! v) = r \<and>
           m = MsgTypeSPAKE2 # vc_id (sv_conns s ! v) @ rest)
      \<or> (\<exists>v. a = ViewerExit v \<and> fst (sv_viewers s ! v) = r \<and>
           m = MsgTypeControl # CtrlViewerDisconnected # vc_id (sv_conns s ! v)))
    \<and> (\<forall>v < length (sv_conns s). \<forall>w < length (sv_conns s).
         v \<noteq> w \<and> fst (sv_viewers s ! v) = fst (sv_viewers s ! w)
           \<and> snd (sv_viewers s ! v) \<noteq> VwDone \<and> snd (sv_viewers s ! w) \<noteq> VwDone
         \<longrightarrow> vc_id (sv_conns s ! v) \<noteq> vc_id (sv_conns s ! w))"
proof -
  have "ids_ok s" using reachable_ok [OF assms(1)] by simp
  then show ?thesis using sharer_hears [OF assms] unfolding ids_ok_def by blast
qed

text \<open>The first viewer sends a message that claims to come from the second.\<close>

theorem sharer_hears_attributed_witness:
  "\<exists>v rest. ViewerMessage 0 [1, 98, 97, 97, 97, 97, 97] = ViewerMessage v (MsgTypeSPAKE2 # rest) \<and>
     fst (sv_viewers ex_relay ! v) = 0 \<and>
     [1, 97, 97, 97, 97, 97, 97, 98, 97, 97, 97, 97, 97] = MsgTypeSPAKE2 # vc_id (sv_conns ex_relay ! v) @ rest"
proof -
  let ?a = "ViewerMessage 0 [1, 98, 97, 97, 97, 97, 97]"
  let ?m = "[1, 97, 97, 97, 97, 97, 97, 98, 97, 97, 97, 97, 97]"
  have 1: "act ?a ex_relay = Inr (viewer_message 0 [1, 98, 97, 97, 97, 97, 97] ex_relay)" "ready ?a ex_relay"
    "0 < length (sv_sess ex_relay)"
    by (simp_all add: ex_relay_def)
  have "WriteMsg (rs_sharer (sv_sess ex_relay ! 0)) ?m
      \<in> set (new_log ex_relay (viewer_message 0 [1, 98, 97, 97, 97, 97, 97] ex_relay))"
    by (simp add: ex_relay_def new_log_def run_simps message_simps)
  from sharer_hears_attributed [OF ex_relay_reachable 1(2,1,3) this] show ?thesis
    by auto
qed

text \<open>
  A session never has more viewers than \<open>DefaultMaxViewers\<close>, and no viewer's channel ever holds
  more than its 256 messages.
\<close>

theorem relay_limits_hold:
  assumes "reachable limiter s"
  shows "list_all (\<lambda>x. length (viewers_of x) \<le> DefaultMaxViewers) (sv_sess s)
    \<and> list_all (\<lambda>vc. length (ch_buf (vc_send vc)) \<le> viewerSendBufSize) (sv_conns s)"
proof -
  have ok: "sess_ok s" "entries_ok s" "sv_maxViewers s = DefaultMaxViewers"
    using reachable_ok [OF assms] reachable_conns_ok [OF assms] by (simp_all add: conns_ok_def)
  have "list_all (\<lambda>x. length (viewers_of x) \<le> DefaultMaxViewers) (sv_sess s)"
    using sess_ok_shape [OF ok(1)] ok(3) unfolding list_all_length sess_shape_def by simp
  then show ?thesis
    using ok(2) by (simp add: list_all_length entries_ok_def)
qed

theorem relay_limits_hold_witness:
  "list_all (\<lambda>x. length (viewers_of x) \<le> 20) (sv_sess ex_relay)
    \<and> list_all (\<lambda>vc. length (ch_buf (vc_send vc)) \<le> 256) (sv_conns ex_relay)"
  using relay_limits_hold [OF ex_relay_reachable] by simp

text \<open>
  C23. A session ID names at most one live session: two sharers that are not done with the same ID
  are the same, the table finds exactly the live ones, and a request to share an ID that is in
  use is answered with the conflict message and changes no session and no viewer.
\<close>

theorem session_id_names_one_session:
  assumes "reachable limiter s"
  shows "(mget (sv_sessions s) sid = Some r \<longleftrightarrow>
        r < length (sv_sharers s) \<and> fst (sv_sharers s ! r) = sid \<and> snd (sv_sharers s ! r) \<noteq> ShDone)
    \<and> (mget (sv_sessions s) sid = Some r \<and> validSessionID sid \<longrightarrow>
        handleShare sid None s = emit [sendControl (sv_nextconn s) CtrlSessionIDConflict [],
            CloseConn (sv_nextconn s) StatusPolicyViolation ''session-id-conflict'']
          (s\<lparr>sv_nextconn := Suc (sv_nextconn s)\<rparr>))"
proof -
  have "sess_ok s"
    using reachable_ok [OF assms] by simp
  then have "mget (sv_sessions s) sid = Some r \<longleftrightarrow>
        r < length (sv_sharers s) \<and> fst (sv_sharers s ! r) = sid \<and> snd (sv_sharers s ! r) \<noteq> ShDone"
    by (simp add: sess_ok_def table_ok_def)
  then show ?thesis
    by (auto simp: handleShare_def websocket_Accept_def)
qed

theorem session_id_names_one_session_witness:
  "mget (sv_sessions ex_relay) ex_sid = Some 0 \<and>
    handleShare ex_sid None ex_relay = emit [sendControl 3 CtrlSessionIDConflict [],
            CloseConn 3 StatusPolicyViolation ''session-id-conflict''] (ex_relay\<lparr>sv_nextconn := 4\<rparr>)"
proof -
  have "mget (sv_sessions ex_relay) ex_sid = Some 0" "sv_nextconn ex_relay = 3"
    by (simp_all add: ex_relay_def)
  then show ?thesis
    using session_id_names_one_session [OF ex_relay_reachable, of ex_sid 0] ex_sid_valid by simp
qed

text \<open>
  C24. A session ends for everybody. When the sharer's goroutine ends, every registered viewer of
  the session is sent the end of the session, its channel is closed, and no viewer is registered
  any more; viewers of other sessions keep their registration and their channel. After the
  second part of the teardown the ID is free again, and joins of the ended session that are
  still on their way are refused.
\<close>

theorem session_ends_for_everybody:
  assumes "reachable limiter s" "ready (SharerExit r order) s"
  shows "\<exists>s'. act (SharerExit r order) s = Inr s' \<and>
    (\<forall>v. v < length (sv_conns s) \<longrightarrow>
       (if registered s v \<and> fst (sv_viewers s ! v) = r
        then WriteMsg (vc_conn (sv_conns s ! v)) [MsgTypeControl, CtrlSessionEnded] \<in> set (new_log s s') \<and>
          ch_closed (vc_send (sv_conns s' ! v)) \<and> \<not> registered s' v
        else sv_conns s' ! v = sv_conns s ! v \<and> (registered s' v \<longleftrightarrow> registered s v))) \<and>
    mget (sv_sessions (sharer_delete r s')) (fst (sv_sharers s ! r)) = None \<and>
    (\<forall>i rand. i < length (sv_joining s') \<and> snd (sv_joining s' ! i) = r \<longrightarrow>
       act (WatchJoin i rand) s' = Inr (emit [sendControl (fst (sv_joining s' ! i)) CtrlSessionNotFound [],
         CloseConn (fst (sv_joining s' ! i)) StatusPolicyViolation ''session-not-found''] (leave_joining i s')))"
proof -
  have ok: "sess_ok s" "entries_ok s" "ids_ok s"
    using reachable_ok [OF assms(1)] by simp_all
  have r: "r < length (sv_sess s)" "range_order (viewers_of (sv_sess s ! r)) order" "r < length (sv_sharers s)"
    using assms(2) sess_ok_length [OF ok(1)] by simp_all
  obtain vcs es where x: "sharer_exit r order s = Inr (set_sharer_pc r ShClosed (emit es
       (set_sess r ((sv_sess s ! r)\<lparr>rs_closed := True, rs_viewers := None\<rparr>) (s\<lparr>sv_conns := vcs\<rparr>))))"
    and es: "set es = (\<lambda>v. sendControl (vc_conn (sv_conns s ! v)) CtrlSessionEnded []) ` viewers_in s r"
    and n: "\<And>v. vcs ! v = (if v \<in> viewers_in s r
       then (sv_conns s ! v)\<lparr>vc_send := (vc_send (sv_conns s ! v))\<lparr>ch_closed := True\<rparr>\<rparr> else sv_conns s ! v)"
    using sharer_exit_result [OF ok(2) r(1,2)] by metis
  let ?s = "set_sharer_pc r ShClosed (emit es
       (set_sess r ((sv_sess s ! r)\<lparr>rs_closed := True, rs_viewers := None\<rparr>) (s\<lparr>sv_conns := vcs\<rparr>)))"
  have log: "new_log s ?s = es"
    by (simp add: new_log_def)
  have "if registered s v \<and> fst (sv_viewers s ! v) = r
        then WriteMsg (vc_conn (sv_conns s ! v)) [MsgTypeControl, CtrlSessionEnded] \<in> set (new_log s ?s) \<and>
          ch_closed (vc_send (sv_conns ?s ! v)) \<and> \<not> registered ?s v
        else sv_conns ?s ! v = sv_conns s ! v \<and> (registered ?s v \<longleftrightarrow> registered s v)"
    if "v < length (sv_conns s)" for v
    using that r(1) by (auto simp: log es n registered_def viewers_in_def sendControl_def)
  moreover have "mget (sv_sessions (sharer_delete r ?s)) (fst (sv_sharers s ! r)) = None"
    using r(3) by (simp add: sharer_delete_def)
  moreover have "act (WatchJoin i rand) ?s = Inr (emit [sendControl (fst (sv_joining ?s ! i)) CtrlSessionNotFound [],
         CloseConn (fst (sv_joining ?s ! i)) StatusPolicyViolation ''session-not-found''] (leave_joining i ?s))"
    if "snd (sv_joining ?s ! i) = r" for i rand
    using that r(1) by (cases "sv_joining s ! i") (simp add: watch_join_def leave_joining_def Let_def)
  moreover have "act (SharerExit r order) s = Inr ?s"
    using x by simp
  ultimately show ?thesis
    by blast
qed

theorem session_ends_for_everybody_witness:
  "\<exists>s'. act (SharerExit 0 ex_order) ex_relay = Inr s' \<and>
     WriteMsg 1 [6, 4] \<in> set (new_log ex_relay s') \<and> WriteMsg 2 [6, 4] \<in> set (new_log ex_relay s') \<and>
     mget (sv_sessions (sharer_delete 0 s')) ex_sid = None"
proof -
  have "ready (SharerExit 0 ex_order) ex_relay"
    by (simp add: ex_relay_def viewers_of_def range_order_def)
  note t = session_ends_for_everybody [OF ex_relay_reachable this]
  have "registered ex_relay 0" "registered ex_relay 1" "fst (sv_viewers ex_relay ! 0) = 0" "fst (sv_viewers ex_relay ! 1) = 0"
    "vc_conn (sv_conns ex_relay ! 0) = 1" "vc_conn (sv_conns ex_relay ! 1) = 2" "length (sv_conns ex_relay) = 2"
    "fst (sv_sharers ex_relay ! 0) = ex_sid"
    by (simp_all add: ex_relay_def registered_def entry_at_def viewers_of_def)
  with t show ?thesis
    by (metis MsgTypeControl_def CtrlSessionEnded_def one_less_numeral_iff semiring_norm(76) zero_less_numeral)
qed

text \<open>
  C25. Writers end. Once a viewer's goroutine is done its channel is closed, and the viewer's writer,
  if it runs, ends after as many further turns as there are messages in its buffer and one more,
  whether its writes succeed or fail.
\<close>

theorem writer_of_gone_viewer_ends:
  assumes "reachable limiter s" "v < length (sv_conns s)" "snd (sv_viewers s ! v) = VwDone"
    and "sv_writers s ! v \<in> {WrSending, WrDraining}"
    and "length oks = Suc (length (ch_buf (vc_send (sv_conns s ! v))))"
  shows "ch_closed (vc_send (sv_conns s ! v)) \<and> sv_writers (writer_turns v oks s) ! v = WrDone"
proof -
  have ok: "entries_ok s" "ids_ok s"
    using reachable_ok [OF assms(1)] by simp_all
  have closed: "ch_closed (vc_send (sv_conns s ! v))"
  proof (rule ccontr)
    assume "\<not> ch_closed (vc_send (sv_conns s ! v))"
    then have "mget (viewers_of (sv_sess s ! fst (sv_viewers s ! v))) (vc_id (sv_conns s ! v)) = Some v"
      using ok(2) assms(2) by (simp add: ids_ok_def)
    then have "snd (sv_viewers s ! v) \<noteq> VwDone"
      using entries_okD(4) [OF ok(1)] assms(2) ok(1) by (metis entry_at_fst)
    then show False
      using assms(3) by simp
  qed
  moreover have "v < length (sv_writers s)"
    using ok(1) assms(2) by (simp add: entries_ok_def)
  ultimately show ?thesis
    using writer_turns_end assms(2,4,5) by blast
qed

text \<open>The first viewer leaves with one frame queued; its first write fails.\<close>

definition ex_left :: relay where
  "ex_left = the (runs [SharerMessage 0 ex_order [2, 11], ViewerExit 0] ex_relay)"

lemma ex_left_runs: "runs [SharerMessage 0 ex_order [2, 11], ViewerExit 0] ex_relay = Some ex_left"
proof -
  have "runs [SharerMessage 0 ex_order [2, 11], ViewerExit 0] ex_relay \<noteq> None"
    by (simp add: ex_relay_def run_simps message_simps)
  then show ?thesis
    by (simp add: ex_left_def)
qed

lemma ex_left_facts:
  "0 < length (sv_conns ex_left)" "snd (sv_viewers ex_left ! 0) = VwDone" "sv_writers ex_left ! 0 = WrSending"
  "ch_buf (vc_send (sv_conns ex_left ! 0)) = [[2, 11]]"
  by (simp_all add: ex_left_def ex_relay_def run_simps message_simps)

theorem writer_of_gone_viewer_ends_witness:
  "ch_closed (vc_send (sv_conns ex_left ! 0)) \<and> sv_writers (writer_turns 0 [False, True] ex_left) ! 0 = WrDone"
  by (rule writer_of_gone_viewer_ends [OF runs_reachable [OF ex_relay_reachable ex_left_runs] ex_left_facts(1,2)])
    (simp_all add: ex_left_facts)

section \<open>A repeated viewer ID\<close>

text \<open>A run of which only readiness is asked, and the panic it ends in, if any.\<close>

fun runs_any :: "action list \<Rightarrow> relay \<Rightarrow> panic + relay" where
  "runs_any [] s = Inr s"
| "runs_any (a # as) s = (case act a s of Inl p \<Rightarrow> Inl p | Inr s1 \<Rightarrow> runs_any as s1)"

fun ready_run :: "action list \<Rightarrow> relay \<Rightarrow> bool" where
  "ready_run [] s = True"
| "ready_run (a # as) s = (ready a s \<and> (case act a s of Inl p \<Rightarrow> as = [] | Inr s1 \<Rightarrow> ready_run as s1))"

abbreviation ex_id :: bytes where
  "ex_id \<equiv> [97, 97, 97, 97, 97, 97]"

text \<open>A session with one viewer, of which nothing is written any more.\<close>

definition ex_stalled :: "bytes list \<Rightarrow> relay" where
  "ex_stalled b =
     \<lparr>sv_sessions = [(ex_sid, 0)], sv_maxViewers = DefaultMaxViewers, sv_rateLimiter = None,
      sv_sess = [\<lparr>rs_sharer = 0, rs_viewers = Some [(ex_id, 0)], rs_closed = False\<rparr>],
      sv_sharers = [(ex_sid, ShReading)],
      sv_conns = [\<lparr>vc_id = ex_id, vc_conn = 1, vc_send = \<lparr>ch_buf = b, ch_closed = False\<rparr>\<rparr>],
      sv_viewers = [(0, VwReading)], sv_writers = [WrSending], sv_joining = [], sv_nextconn = 2,
      sv_log = [ProbeCall (ConnectionAccepted ''registration'' [1]), WriteMsg 0 [6, 1],
                ProbeCall (ConnectionAccepted ''connection'' [2]), WriteMsg 1 [6, 2, 97, 97, 97, 97, 97, 97]]\<rparr>"

abbreviation ex_unicast :: action where
  "ex_unicast \<equiv> SharerMessage 0 [ex_id] [3, 97, 97, 97, 97, 97, 97, 9]"

lemma ex_stalled_start:
  "runs [Share [1] ex_clocks ex_sid None, ShareAck 0, Watch [2] ex_clocks ex_sid None, WatchJoin 0 (ex_rand 0), WatchAck 0]
     (NewServer None) = Some (ex_stalled [])"
  by (simp add: NewServer_def ex_stalled_def run_simps ex_sid_valid ex_rand_ids)

lemma ex_stalled_step:
  "length b < 256 \<Longrightarrow> runs (ex_unicast # as) (ex_stalled b) = runs as (ex_stalled (b @ [[9]]))"
  by (simp add: ex_stalled_def message_simps run_simps)

lemma ex_stalled_fill:
  "length b + n \<le> 256 \<Longrightarrow> runs (replicate n ex_unicast) (ex_stalled b) = Some (ex_stalled (b @ replicate n [9]))"
proof (induction n arbitrary: b)
  case (Suc n)
  then show ?case
    using ex_stalled_step [of b "replicate n ex_unicast"] Suc.IH [of "b @ [[9]]"]
    by (simp add: replicate_Suc [symmetric] del: replicate_Suc runs.simps)
qed simp

lemma ex_stalled_reachable: "reachable None (ex_stalled (replicate 256 [9]))"
  using runs_reachable [OF runs_reachable [OF reachable.start ex_stalled_start] ex_stalled_fill [of "[]" 256]]
  by simp

section \<open>Properties, continued\<close>

text \<open>
  The relay does not check that the ID it draws is unused, and a repeated ID can make it panic.
  From a state that a run without repetition reaches, in which a viewer's channel is full: the
  next unicast drops the viewer as a slow consumer, another client joins and draws the same ID
  before the first one's goroutine has ended, and the end of that goroutine finds the ID in the
  map and closes its channel a second time.
\<close>

theorem id_reuse_panics:
  "reachable None (ex_stalled (replicate 256 [9])) \<and>
   ready_run [ex_unicast, Watch [3] ex_clocks ex_sid None, WatchJoin 0 (ex_rand 0), ViewerExit 0]
     (ex_stalled (replicate 256 [9])) \<and>
   runs_any [ex_unicast, Watch [3] ex_clocks ex_sid None, WatchJoin 0 (ex_rand 0), ViewerExit 0]
     (ex_stalled (replicate 256 [9])) = Inl CloseOfClosedChannel"
proof -
  define b where "b = replicate 256 [9::byte]"
  have l: "length b = 256"
    by (simp add: b_def)
  have "ready_run [ex_unicast, Watch [3] ex_clocks ex_sid None, WatchJoin 0 (ex_rand 0), ViewerExit 0] (ex_stalled b)"
    using l by (simp add: ex_stalled_def message_simps run_simps ex_sid_valid ex_rand_ids)
  moreover have "runs_any [ex_unicast, Watch [3] ex_clocks ex_sid None, WatchJoin 0 (ex_rand 0), ViewerExit 0]
      (ex_stalled b) = Inl CloseOfClosedChannel"
    using l by (simp add: ex_stalled_def message_simps run_simps ex_sid_valid ex_rand_ids)
  ultimately show ?thesis
    using ex_stalled_reachable unfolding b_def by blast
qed

text \<open>
  A refused request reaches nothing: when the address is banned or over its limit, the request
  is answered 403 or 429 and no session, viewer or connection changes, and the limiter changes
  only as \<open>Allow\<close> changes it.
\<close>

theorem refused_request_reaches_nothing:
  assumes "sv_rateLimiter s = Some rl"
    and "IsBanned rl ip (ck_banned ck) \<or> \<not> fst (Allow rl ip EventRegistration (ck_check ck) (ck_now ck) (ck_ban ck))"
  shows "\<exists>es rl' status. act (Share ip ck sid err) s =
      Inr (emit (ProbeCall (ConnectionAccepted ''registration'' ip) # map ProbeCall es @ [HttpError status])
        (s\<lparr>sv_rateLimiter := Some rl'\<rparr>))
    \<and> (if IsBanned rl ip (ck_banned ck) then status = 403 \<and> rl' = rl \<and> es = []
       else status = 429 \<and> (False, es, rl') = Allow rl ip EventRegistration (ck_check ck) (ck_now ck) (ck_ban ck))"
proof (cases "IsBanned rl ip (ck_banned ck)")
  case True
  then show ?thesis
    using assms(1)
    by (intro exI [of _ "[]"] exI [of _ rl] exI [of _ 403]) (simp add: rateLimitWrap_def emit_def)
next
  case False
  then obtain es rl' where a: "Allow rl ip EventRegistration (ck_check ck) (ck_now ck) (ck_ban ck) = (False, es, rl')"
    using assms(2) by (cases "Allow rl ip EventRegistration (ck_check ck) (ck_now ck) (ck_ban ck)") auto
  then show ?thesis
    using assms(1) False
    by (intro exI [of _ es] exI [of _ rl'] exI [of _ 429]) (simp add: rateLimitWrap_def emit_def Let_def)
qed

text \<open>A client whose address was banned for registering too often asks once more.\<close>

definition ex_banned :: RateLimiter where
  "ex_banned = snd (snd (rl_step (fst ex_banning) (snd ex_banning)))"

lemma ex_banned_is: "IsBanned ex_banned [1] 0"
  by code_simp

theorem refused_request_reaches_nothing_witness:
  "act (Share [1] ex_clocks ex_sid None) (NewServer (Some ex_banned)) =
     Inr (emit [ProbeCall (ConnectionAccepted ''registration'' [1]), HttpError 403] (NewServer (Some ex_banned)))"
proof -
  have 1: "sv_rateLimiter (NewServer (Some ex_banned)) = Some ex_banned"
    by (simp add: NewServer_def)
  have 2: "IsBanned ex_banned [1] (ck_banned ex_clocks)"
    using ex_banned_is by (simp add: ex_clocks_def)
  have s: "(NewServer (Some ex_banned))\<lparr>sv_rateLimiter := Some ex_banned\<rparr> = NewServer (Some ex_banned)"
    by (simp add: NewServer_def)
  show ?thesis
    using refused_request_reaches_nothing [OF 1, of "[1]" ex_clocks ex_sid None] 2 s by auto
qed

end
