(* ===== verification/End_To_End.thy ===== *)
theory End_To_End
  imports Sharer_Props Viewer_Props Relay_Props
begin

text \<open>
  What the components promise each other. The layouts that the sharer writes and the viewer reads
  are stated as a format (\<open>frame_format\<close>), with the sharer's two frame builders as its instances;
  then a viewer is followed through a stream, a rekey and a handshake produced by the sharer's own
  functions.
\<close>

section \<open>The frame format\<close>

locale frame_format =
  fixes build :: "bytes \<Rightarrow> bytes \<Rightarrow> u64 \<Rightarrow> bytes" and tag :: byte
  assumes layout: "length nonce = NonceLen \<Longrightarrow> build c nonce e = tag # put_be 8 e @ nonce @ c"
begin

lemma tagged: "length n = NonceLen \<Longrightarrow> build c n e \<noteq> [] \<and> hd (build c n e) = tag"
  by (simp add: layout)

lemma read_back:
  assumes "length n = NonceLen"
  shows "frame_epoch (build c n e) = e" "frame_nonce (build c n e) = n" "frame_ciphertext (build c n e) = c"
    "length (build c n e) = 21 + length c"
  using assms by (simp_all add: layout frame_epoch_def frame_nonce_def frame_ciphertext_def)

lemma build_inject:
  "length n = NonceLen \<Longrightarrow> length n' = NonceLen \<Longrightarrow> build c n e = build c' n' e' \<longleftrightarrow> c = c' \<and> n = n' \<and> e = e'"
  by (metis read_back(1-3))

end

interpretation stream_frame: frame_format buildStreamFrame MsgTypeStream
  by unfold_locales (simp add: buildStreamFrame_def)

interpretation size_frame: frame_format buildTermSizeFrame MsgTypeTermSize
  by unfold_locales (simp add: buildTermSizeFrame_def)

section \<open>A stream\<close>

text \<open>The frames a session makes of chunks of output read at given times, as its stream loop sends them.\<close>

fun stream_frames :: "kdf \<Rightarrow> session \<Rightarrow> (time \<times> bytes) list \<Rightarrow> bytes list" where
  "stream_frames kdf s [] = []"
| "stream_frames kdf s ((now, p) # xs) =
     (case EncryptFrame kdf s p now of
        (Inl e, s1) \<Rightarrow> []
      | (Inr f, s1) \<Rightarrow> buildStreamFrame (f_ciphertext f) (f_nonce f) (f_epoch f) # stream_frames kdf s1 xs)"

text \<open>One turn of the stream loop per chunk, all sends and reads going well.\<close>

fun output_all :: "kdf \<Rightarrow> (time \<times> bytes) list \<Rightarrow> 'sp Sharer \<Rightarrow> 'sp Sharer" where
  "output_all kdf [] s = s"
| "output_all kdf ((now, p) # xs) s =
     (case output_turn kdf now None False p None False s of
        (Going, s1) \<Rightarrow> output_all kdf xs s1
      | (Ended e, s1) \<Rightarrow> s1)"

lemma output_all_sends:
  assumes "list_all (\<lambda>(now, p). p \<noteq> []) xs"
  shows "sh_sent (output_all kdf xs s) = sh_sent s @ stream_frames kdf (sh_sess s) xs"
  using assms
proof (induction xs arbitrary: s)
  case (Cons x xs)
  obtain now p where x: "x = (now, p)" by (cases x)
  obtain y ss where y: "EncryptFrame kdf (sh_sess s) p now = (y, ss)" by fastforce
  with Cons x show ?case
    by (cases y) (simp_all add: output_turn_def Let_def sharer_send_def sharer_call_def)
qed simp

text \<open>
  \<open>in_step kdf k n es v\<close>: the viewer holds the stream key \<open>k\<close>, has seen no nonce above \<open>n\<close> and no
  epoch after those in \<open>es\<close>.
\<close>

definition in_step :: "bytes \<Rightarrow> u64 \<Rightarrow> u64 list \<Rightarrow> Viewer \<Rightarrow> bool" where
  "in_step k n es v \<longleftrightarrow> key_bytes (vw_mem v) (vw_streamKey v) = k \<and> vw_streamKey v \<noteq> None
     \<and> list_all (\<lambda>a. a < length (vw_mem v)) (vw_live v) \<and> vw_lastNonce v \<le> n
     \<and> list_all (\<lambda>e. \<not> vw_epochInitialized v \<or> vw_currentEpoch v \<le> e) es"

lemma validateEpoch_ahead:
  assumes "\<not> vw_epochInitialized v \<or> vw_currentEpoch v \<le> e"
  shows "fst (validateEpoch now e v) = None"
    "vw_currentEpoch (snd (validateEpoch now e v)) = e" "vw_epochInitialized (snd (validateEpoch now e v))"
  using assms by (auto simp: validateEpoch_def)

text \<open>A frame of the session reaches a viewer in step: it is written, and the viewer stays in step.\<close>

lemma frame_decrypts:
  assumes step: "in_step k n (e # es) v" and ek: "epoch_key kdf k e = Some ek"
    and n: "n < nonce_val nonce" and len: "length nonce = 12" and c: "Seal ek nonce p = Inr c"
  shows "decryptAndWrite kdf now (buildStreamFrame c nonce e) v = (None, probe_call (FrameDecrypted e (length p))
      ((snd (validateEpoch now e v))\<lparr>vw_lastNonce := nonce_val nonce, vw_mem := vw_mem v @ [ZeroBytes ek],
         vw_output := vw_output v @ [p]\<rparr>))"
proof -
  have rb: "frame_epoch (buildStreamFrame c nonce e) = e" "frame_nonce (buildStreamFrame c nonce e) = nonce"
    "frame_ciphertext (buildStreamFrame c nonce e) = c" "37 \<le> length (buildStreamFrame c nonce e)"
    using stream_frame.read_back [of nonce c e] len length_Seal [OF c] by simp_all
  have "\<not> vw_epochInitialized v \<or> vw_currentEpoch v \<le> e" using step by (simp add: in_step_def)
  then show ?thesis
    using decryptAndWrite_sealed_simp [of "buildStreamFrame c nonce e" now v kdf ek p] rb step ek c
      validateEpoch_ahead(1) [of v e now] order_le_less_trans [OF _ n, of "vw_lastNonce v"]
    by (simp add: in_step_def)
qed

lemma frame_in_step:
  assumes step: "in_step k n (e # es) v" and ek: "epoch_key kdf k e = Some ek"
    and n: "n < m" and es: "list_all (\<lambda>e'. e \<le> e') es" and len: "length nonce = 12" "nonce_val nonce = m"
    and c: "Seal ek nonce p = Inr c"
  shows "\<exists>v'. stream_turn kdf now (Got (buildStreamFrame c nonce e)) v = (Running, v')
    \<and> vw_output v' = vw_output v @ [p] \<and> in_step k m es v'"
proof -
  let ?f = "buildStreamFrame c nonce e" and ?v1 = "snd (validateEpoch now e v)"
  have "\<not> vw_epochInitialized v \<or> vw_currentEpoch v \<le> e" using step by (simp add: in_step_def)
  note va = validateEpoch_ahead [OF this, of now]
  have w: "with_epoch v ?v1" by (rule validateEpoch_with)
  let ?v2 = "probe_call (FrameDecrypted e (length p))
      (?v1\<lparr>vw_lastNonce := m, vw_mem := vw_mem v @ [ZeroBytes ek], vw_output := vw_output v @ [p]\<rparr>)"
  have "decryptAndWrite kdf now ?f v = (None, ?v2)"
    using frame_decrypts [OF step ek _ len(1) c] n len by simp
  then have "stream_turn kdf now (Got ?f) v = (Running, ?v2\<lparr>vw_consecutiveFailures := 0\<rparr>)"
    using stream_turn_frame [of ?f kdf now v] stream_frame.tagged [of nonce c e] len by simp
  moreover have "in_step k m es (?v2\<lparr>vw_consecutiveFailures := 0\<rparr>)"
    using step w va es
    by (auto simp: in_step_def with_epoch_def key_bytes_def vw_live_def nth_append list_all_iff
        split: option.splits)
  ultimately show ?thesis by auto
qed

text \<open>A frame that is never delivered leaves the viewer in step with the rest.\<close>

lemma in_step_skip: "in_step k n (e # es) v \<Longrightarrow> n \<le> m \<Longrightarrow> in_step k m es v"
  by (auto simp: in_step_def)

lemma nonce_step:
  assumes "unat (n :: u64) + Suc k < 2 ^ 64"
  shows "n < n + 1" "unat (n + 1) = Suc (unat n)"
proof -
  show u: "unat (n + 1) = Suc (unat n)"
    using assms by (simp add: unat_word_ariths)
  show "n < n + 1" by (simp add: word_less_nat_alt u)
qed

lemma EncryptFrame_stream_key:
  assumes "sess_wf s" "\<not> s_closed s"
  shows "stream_key (snd (EncryptFrame kdf s p now)) = stream_key s"
    "\<not> s_closed (snd (EncryptFrame kdf s p now))"
proof -
  have "s_streamKey s < length (s_mem s)"
    using sess_wf_stream_key [OF assms] by (simp add: key_buf_def)
  then show "stream_key (snd (EncryptFrame kdf s p now)) = stream_key s"
    by (simp add: stream_key_def EncryptFrame_keeps)
  show "\<not> s_closed (snd (EncryptFrame kdf s p now))"
    using assms(2) by (simp add: EncryptFrame_open split: option.split)
qed

text \<open>What an encryption that succeeds has done.\<close>

lemma sealed_frame:
  assumes "\<not> s_closed s" and "EncryptFrame kdf s p now = (Inr f, s1)"
  shows "\<exists>ek. epoch_key kdf (stream_key s) (epoch_at now) = Some ek \<and> f_epoch f = epoch_at now
    \<and> f_nonce f = fst (Next (s_nonce s)) \<and> Seal ek (f_nonce f) p = Inr (f_ciphertext f) \<and> s_nonce s1 = s_nonce s + 1"
  using assms(2) unfolding EncryptFrame_open [OF assms(1)]
  by (auto simp: Seal_ok length_epoch_key split: option.splits)

definition derivable :: "kdf \<Rightarrow> bytes \<Rightarrow> (time \<times> bytes) list \<Rightarrow> bool" where
  "derivable kdf k xs \<longleftrightarrow> list_all (\<lambda>(now, p). epoch_key kdf k (epoch_at now) \<noteq> None) xs"

definition epochs_of :: "(time \<times> bytes) list \<Rightarrow> u64 list" where
  "epochs_of xs = map (\<lambda>(now, p). epoch_at now) xs"

lemma stream_in_step:
  assumes "sess_wf s" "\<not> s_closed s" "derivable kdf (stream_key s) xs" "sorted (epochs_of xs)"
    and "unat (s_nonce s) + length xs < 2 ^ 64"
    and "in_step (stream_key s) (s_nonce s) (epochs_of xs) v"
    and "length ts = length (nths (stream_frames kdf s xs) I)"
  shows "\<exists>v'. streamLoop kdf (zip ts (map Got (nths (stream_frames kdf s xs) I))) v = (Running, v')
    \<and> vw_output v' = vw_output v @ nths (map snd xs) I
    \<and> in_step (stream_key s) (s_nonce s + of_nat (length xs)) [] v'"
  using assms
proof (induction xs arbitrary: s v I ts)
  case Nil
  then show ?case by (simp add: epochs_of_def)
next
  case (Cons x xs)
  obtain now p where x: "x = (now, p)" by (cases x)
  let ?e = "epoch_at now" and ?n = "fst (Next (s_nonce s))" and ?J = "{j. Suc j \<in> I}"
  obtain ek where ek: "epoch_key kdf (stream_key s) ?e = Some ek"
    using Cons.prems(3) x by (auto simp: derivable_def)
  let ?c = "gcm_seal (aes_encrypt ek) ?n p"
  obtain s1 where enc: "EncryptFrame kdf s p now = (Inr \<lparr>f_ciphertext = ?c, f_nonce = ?n, f_epoch = ?e\<rparr>, s1)"
    "s_nonce s1 = s_nonce s + 1"
    using EncryptFrame_open [OF Cons.prems(2)] ek by simp
  note key = EncryptFrame_stream_key [OF Cons.prems(1,2), of kdf p now, unfolded enc(1) snd_conv]
  have seal: "Seal ek ?n p = Inr ?c" using length_epoch_key [OF ek] by (simp add: Seal_ok)
  have frames: "stream_frames kdf s (x # xs) = buildStreamFrame ?c ?n ?e # stream_frames kdf s1 xs"
    using enc(1) by (simp add: x)
  note num = nonce_step [of "s_nonce s" "length xs"]
  have rest: "sess_wf s1" "derivable kdf (stream_key s1) xs" "sorted (epochs_of xs)"
    "unat (s_nonce s1) + length xs < 2 ^ 64" "list_all (\<lambda>e'. ?e \<le> e') (epochs_of xs)"
    using Cons.prems num sess_wf_EncryptFrame [OF Cons.prems(1), of kdf p now] enc(1) key enc(2) x
    by (simp_all add: derivable_def epochs_of_def list_all_iff)
  have step: "in_step (stream_key s) (s_nonce s) (?e # epochs_of xs) v"
    using Cons.prems(6) by (simp add: epochs_of_def x)
  have n1: "s_nonce s + 1 + of_nat (length xs) = s_nonce s + of_nat (length (x # xs))" by simp
  show ?case
  proof (cases "0 \<in> I")
    case True
    with Cons.prems(7) frames obtain t ts' where ts: "ts = t # ts'"
      "length ts' = length (nths (stream_frames kdf s1 xs) ?J)"
      by (cases ts) (auto simp: nths_Cons)
    have "s_nonce s < s_nonce s + 1" using num Cons.prems(5) by simp
    from frame_in_step [OF step ek this rest(5) _ _ seal, of t]
    obtain v1 where v1: "stream_turn kdf t (Got (buildStreamFrame ?c ?n ?e)) v = (Running, v1)"
      "vw_output v1 = vw_output v @ [p]" "in_step (stream_key s) (s_nonce s + 1) (epochs_of xs) v1" by auto
    from Cons.IH [OF rest(1) key(2) rest(2-4) _ ts(2), of v1] v1(3) key(1) enc(2) n1 obtain v'
      where "streamLoop kdf (zip ts' (map Got (nths (stream_frames kdf s1 xs) ?J))) v1 = (Running, v')"
        "vw_output v' = vw_output v1 @ nths (map snd xs) ?J"
        "in_step (stream_key s) (s_nonce s + of_nat (length (x # xs))) [] v'" by auto
    with True v1 ts frames x show ?thesis by (auto simp: nths_Cons)
  next
    case False
    with Cons.prems(7) frames have ts: "length ts = length (nths (stream_frames kdf s1 xs) ?J)"
      by (simp add: nths_Cons)
    have "s_nonce s \<le> s_nonce s + 1" using num Cons.prems(5) by simp
    from in_step_skip [OF step this] Cons.IH [OF rest(1) key(2) rest(2-4) _ ts, of v] key(1) enc(2) n1
    show ?thesis using False frames x by (auto simp: nths_Cons)
  qed
qed

section \<open>A size\<close>

text \<open>A size frame of the session reaches a viewer in step: the size is noted, and the viewer stays in step.\<close>

lemma size_in_step:
  assumes step: "in_step k n (e # es) v" and ek: "epoch_key kdf k e = Some ek"
    and n: "n < m" and es: "list_all (\<lambda>e'. e \<le> e') es" and len: "length nonce = 12" "nonce_val nonce = m"
    and c: "Seal ek nonce z = Inr c" and z: "length z = 4"
  shows "\<exists>v'. stream_turn kdf now (Got (buildTermSizeFrame c nonce e)) v = (Running, v')
    \<and> vw_output v' = vw_output v \<and> in_step k m es v' \<and> vw_lastNonce v' = m
    \<and> vw_consecutiveFailures v' = vw_consecutiveFailures v \<and> vw_currentEpoch v' = e \<and> vw_epochInitialized v'
    \<and> vw_sharerSize v' = \<lparr>Cols = get_be (take 2 z), Rows = get_be (take 2 (drop 2 z))\<rparr>"
proof -
  let ?f = "buildTermSizeFrame c nonce e"
  have rb: "frame_epoch ?f = e" "frame_nonce ?f = nonce" "frame_ciphertext ?f = c" "length ?f = 41"
    using size_frame.read_back [of nonce c e] len(1) length_Seal [OF c] z by simp_all
  have "\<not> vw_epochInitialized v \<or> vw_currentEpoch v \<le> e" using step by (simp add: in_step_def)
  with validateEpoch_ahead [OF this, of now] obtain v1 where ve: "validateEpoch now e v = (None, v1)"
    and va: "vw_currentEpoch v1 = e" "vw_epochInitialized v1" by (cases "validateEpoch now e v") simp
  have w: "with_epoch v v1" using validateEpoch_with [of v now e] ve by simp
  then have same: "vw_lastNonce v1 = vw_lastNonce v" "vw_mem v1 = vw_mem v" "vw_streamKey v1 = vw_streamKey v"
    by (simp_all add: with_epoch_def)
  have key: "key_bytes (vw_mem v) (vw_streamKey v) = k" "\<not> m \<le> vw_lastNonce v"
    using step n by (auto simp: in_step_def)
  have open_c: "Open ek nonce c = Inr z" using c len(1) length_Seal [OF c] by (simp add: Open_Inr_iff)
  let ?v2 = "probe_call (TerminalResized (get_be (take 2 z)) (get_be (take 2 (drop 2 z))))
      (v1\<lparr>vw_lastNonce := m, vw_mem := zero_at (length (vw_mem v)) (vw_mem v @ [ek]),
         vw_sharerSize := \<lparr>Cols = get_be (take 2 z), Rows = get_be (take 2 (drop 2 z))\<rparr>\<rparr>)"
  have d: "decryptAndApplySize kdf now ?f v = (if vw_hasResize ?v2
      then ?v2\<lparr>vw_resizes := vw_resizes ?v2 @ [(get_be (take 2 z), get_be (take 2 (drop 2 z)))]\<rparr> else ?v2)"
    using len(2) key ek open_c z
    by (simp add: decryptAndApplySize_def rb Let_def ve same DeriveEpochKey_cases)
  have turn: "stream_turn kdf now (Got ?f) v = (Running, decryptAndApplySize kdf now ?f v)"
    using size_frame.tagged [of nonce c e] len(1) by (cases ?f) (simp_all add: stream_turn_def)
  have "in_step k m es ?v2"
    using step w va es
    by (auto simp: in_step_def with_epoch_def key_bytes_def vw_live_def nth_append list_all_iff zero_at_def
        split: option.splits)
  then have "in_step k m es (decryptAndApplySize kdf now ?f v)"
    unfolding d by (auto simp: in_step_def key_bytes_def vw_live_def split: option.splits)
  with w va turn show ?thesis
    unfolding turn by (intro exI [of _ "decryptAndApplySize kdf now ?f v"]) (simp add: d with_epoch_def probe_call_def)
qed

section \<open>Untyped messages\<close>

text \<open>
  Unicast payloads reach the viewer without a type byte. The stream loop and the handshake take
  them for what they are when their first byte is none of the types they look for; an ID drawn
  from the charset never starts with one.
\<close>

definition untyped :: "bytes \<Rightarrow> bool" where
  "untyped m \<longleftrightarrow> m \<noteq> [] \<and> hd m \<notin> {MsgTypeStream, MsgTypeTermSize, MsgTypeControl, MsgTypePong}"

definition drawn_id :: "bytes \<Rightarrow> bool" where
  "drawn_id i \<longleftrightarrow> length i = ViewerIDLen \<and> set i \<subseteq> set ViewerIDCharset"

lemma charset_untyped: "b \<in> set ViewerIDCharset \<Longrightarrow> b \<noteq> 2 \<and> b \<noteq> 5 \<and> b \<noteq> 6 \<and> b \<noteq> 7"
  by (auto simp: ViewerIDCharset_def ascii_def)

lemma drawn_untyped: "drawn_id i \<Longrightarrow> untyped (i @ m)"
  using charset_untyped by (cases i) (auto simp: drawn_id_def untyped_def)

lemma GenerateViewerID_drawn: "GenerateViewerID rand = Inr i \<Longrightarrow> drawn_id i"
  by (simp add: drawn_id_def GenerateViewerID_Inr)

lemma stream_turn_untyped: "untyped m \<Longrightarrow> stream_turn kdf now (Got m) v = (Running, snd (processRekey m v))"
  by (cases m) (auto simp: untyped_def stream_turn_def)

lemma recv_untyped: "untyped m \<Longrightarrow> recvHandshakeMsg (Got m # ins) = Some (Inr m, ins)"
  by (cases m) (auto simp: untyped_def)

lemma buildKeyDelivery_layout:
  "drawn_id i \<Longrightarrow> length (ep_Nonce p) = NonceLen \<Longrightarrow> buildKeyDelivery i p = i @ ep_Nonce p @ ep_Ciphertext p"
  by (simp add: buildKeyDelivery_def drawn_id_def)

text \<open>What the relay hands to the viewer: the message without type and target.\<close>

lemma unicast_payload: "drop (1 + ViewerIDLen) (unicast_msg r p) = p"
  by (simp add: unicast_msg_def)

lemma unicast_target: "length r = ViewerIDLen \<Longrightarrow> take ViewerIDLen (drop 1 (unicast_msg r p)) = r"
  by (simp add: unicast_msg_def)

section \<open>A rekey\<close>

lemma rekey_in_step:
  assumes id: "drawn_id (vw_viewerID v)" and auth: "vw_authKey v = Some b" "vw_streamKey v = Some a" "viewer_wf v"
    and p: "Open (key_bytes (vw_mem v) (vw_authKey v)) (ep_Nonce p) (ep_Ciphertext p) = Inr k" and k: "k \<noteq> []"
    and step: "in_step k0 n es v"
  shows "\<exists>v'. stream_turn kdf now (Got (buildKeyDelivery (vw_viewerID v) p)) v = (Running, v')
    \<and> in_step k n es v' \<and> all_zero (vw_mem v' ! a)"
proof -
  from p have len: "length (ep_Nonce p) = 12" "length (ep_Ciphertext p) = length k + 16"
    by (auto simp: Open_Inr_iff Seal_Inr_iff)
  let ?d = "buildKeyDelivery (vw_viewerID v) p"
  note d = buildKeyDelivery_layout [OF id, of p]
  let ?v = "v\<lparr>vw_mem := zero_key (vw_streamKey v) (vw_mem v @ [k]), vw_streamKey := Some (length (vw_mem v)),
            vw_consecutiveFailures := 0\<rparr>"
  have a: "a < length (vw_mem v)" using auth by (simp add: viewer_wf_def vw_live_def)
  have "untyped ?d" using d len drawn_untyped [OF id] by simp
  then have "stream_turn kdf now (Got ?d) v = (Running, snd (processRekey ?d v))"
    by (rule stream_turn_untyped)
  moreover have "processRekey ?d v = (None, probe_call StreamKeyRotated ?v)"
    using d len id p k by (cases k) (simp_all add: processRekey_def Let_def drawn_id_def)
  moreover have "in_step k n es (probe_call StreamKeyRotated ?v)"
    using step auth(1,2) a by (auto simp: in_step_def key_bytes_def zero_key_def vw_live_def)
  moreover have "all_zero (vw_mem (probe_call StreamKeyRotated ?v) ! a)"
    using a auth(2) by (simp add: zero_key_def)
  ultimately show ?thesis by simp
qed

section \<open>A handshake\<close>

text \<open>
  What the SPAKE2 library promises when both ends use the same code: its messages are accepted,
  the confirmation verifies, and both ends have the same key.
\<close>

definition spake_agrees ::
  "'sp spake_lib \<Rightarrow> bytes \<Rightarrow> bytes \<Rightarrow> bytes \<Rightarrow> bytes \<Rightarrow> bytes \<Rightarrow> bytes \<Rightarrow> bool" where
  "spake_agrees L code msgA msgB confirmA confirmB k \<longleftrightarrow>
     (\<exists>c1 v1 c2 v2 c3. lib_start L (lib_client L code SPAKE2AssociatedData) = (Inr msgA, c1)
        \<and> lib_exchange L (lib_server L code SPAKE2AssociatedData) msgA = (Inr msgB, v1)
        \<and> lib_finish L c1 msgB = (Inr confirmA, c2)
        \<and> lib_confirm L v1 confirmA = (Inr confirmB, v2)
        \<and> lib_verify L c2 confirmB = (None, c3)
        \<and> lib_key L c3 = Inr k \<and> lib_key L v2 = Inr k)"

text \<open>The part of a sharer that a handshake with relay ID \<open>r\<close> works on.\<close>

definition hs_view :: "bytes \<Rightarrow> 'sp Sharer \<Rightarrow> 'sp handshakeCtx option \<times> session \<times> bytes \<times> (bytes \<times> bytes \<times> addr) option \<times> bytes list" where
  "hs_view r s = (mget (sh_handshakes s) r, sh_sess s, sh_code s, sh_joining s, sh_sent s)"

abbreviation spake_in :: "spake_env \<Rightarrow> bytes list \<Rightarrow> bytes \<Rightarrow> bytes \<Rightarrow> sharer_action" where
  "spake_in en ord r p \<equiv> OnRelay en ord (Got (MsgTypeSPAKE2 # r @ p))"

lemma start_step:
  assumes "hs_view r s = (None, ss, code, None, sent)" "length r = ViewerIDLen" "en_send en = None" "code \<noteq> []"
    and "lib_start L (lib_client L code SPAKE2AssociatedData) = (Inr msgA, c1)"
  shows "hs_view r (sharer_act L kdf (spake_in en ord r p) s) =
    (Some \<lparr>hs_state = hsWaitMsgB, hs_spake = c1, hs_viewerID = r, hs_clientType = clientTypeFromByte p\<rparr>,
     ss, code, None, sent @ [unicast_msg r msgA])"
  using assms
  by (subst spake_turn)
    (simp_all add: hs_view_def handleSPAKE2_def get_handshake_def NewSPAKE2Sharer_def newHandshake_def Let_def
      wait_init_def sendUnicast_def sharer_send_def set_hs_def)

lemma msg_b_step:
  fixes msgB confirmA :: bytes
  assumes "hs_view r s = (Some hs, ss, code, None, sent)" "hs_state hs = hsWaitMsgB"
    and "length r = ViewerIDLen" "en_send en = None" "lib_finish L (hs_spake hs) msgB = (Inr confirmA, c2)"
  shows "hs_view r (sharer_act L kdf (spake_in en ord r msgB) s) =
    (Some (hs\<lparr>hs_spake := c2, hs_state := hsWaitConfirmB\<rparr>), ss, code, None, sent @ [unicast_msg r confirmA])"
  using assms
  by (subst spake_turn)
    (simp_all add: hs_view_def handleSPAKE2_def get_handshake_def wait_msg_b_def sendUnicast_def sharer_send_def set_hs_def)

lemma confirm_step:
  assumes "hs_view r s = (Some hs, ss, code, None, sent)" "hs_state hs = hsWaitConfirmB"
    and "length r = ViewerIDLen" "en_send en = None" "lib_verify L (hs_spake hs) confirmB = (None, c3)"
    and "lib_key L c3 = Inr k" "auth_key kdf k = Some ak" "GenerateViewerID (en_rand en) = Inr i"
    and "sess_wf ss" "\<not> s_closed ss"
  shows "\<exists>w enc ss'. hs_view r (sharer_act L kdf (spake_in en ord r confirmB) s) =
      (Some (hs\<lparr>hs_spake := c3\<rparr>), ss', code, Some (r, i, length (s_mem ss)),
       sent @ [unicast_msg r (buildKeyDelivery i enc)])
    \<and> mget (s_viewers ss') i = Some w \<and> v_clientType w = hs_clientType hs \<and> auth_key_of ss' w = ak
    \<and> length (s_mem ss) < length (s_mem ss') \<and> v_authKey w \<noteq> length (s_mem ss) \<and> v_authKey w < length (s_mem ss')
    \<and> s_streamKey ss' < length (s_mem ss') \<and> s_streamKey ss' \<noteq> length (s_mem ss)
    \<and> stream_key ss' = stream_key ss \<and> length (ep_Nonce enc) = 12
    \<and> Open ak (ep_Nonce enc) (ep_Ciphertext enc) = Inr (stream_key ss)"
proof -
  let ?m = "s_mem ss @ [ak]" and ?n = "fst (Next (s_nonce ss))"
  let ?w = "\<lparr>v_id = i, v_authKey = Suc (length (s_mem ss)), v_joinTime = en_now en, v_clientType = hs_clientType hs\<rparr>"
  let ?enc = "\<lparr>ep_Nonce = ?n, ep_Ciphertext = gcm_seal (aes_encrypt ak) ?n (stream_key ss)\<rparr>"
  let ?ss = "ss\<lparr>s_mem := ?m @ [ak], s_nonce := s_nonce ss + 1, s_viewers := mput i ?w (s_viewers ss)\<rparr>"
  have lk: "length ak = 32" using assms(7) by (rule length_auth_key)
  have sk: "s_streamKey ss < length (s_mem ss)"
    using sess_wf_stream_key [OF assms(9,10)] by (simp add: key_buf_def)
  have reg: "RegisterViewer (ss\<lparr>s_mem := ?m\<rparr>) ak (hs_clientType hs) (en_rand en) (en_now en) =
      (Inr (\<lparr>vi_ID = i, vi_JoinTime = en_now en, vi_ClientType = hs_clientType hs\<rparr>, ?enc), ?ss)"
    using assms(8,10) lk sk by (subst RegisterViewer_open) (simp_all add: stream_key_def nth_append Let_def)
  have d: "DeriveAuthKey kdf k (s_mem ss) = (Inr (length (s_mem ss)), ?m)"
    by (simp add: DeriveAuthKey_cases assms(7))
  have "hs_view r (sharer_act L kdf (spake_in en ord r confirmB) s) =
      (Some (hs\<lparr>hs_spake := c3\<rparr>), ?ss, code, Some (r, i, length (s_mem ss)),
       sent @ [unicast_msg r (buildKeyDelivery i ?enc)])"
    using assms(1-6)
    by (subst spake_turn)
      (simp_all add: hs_view_def handleSPAKE2_def get_handshake_def confirm_register_def Let_def d reg
        sendUnicast_def sharer_send_def set_hs_def)
  moreover have "Open ak ?n (ep_Ciphertext ?enc) = Inr (stream_key ss)"
    using lk by (simp add: Open_Inr_iff Seal_Inr_iff)
  ultimately show ?thesis
    using sk by (intro exI [of _ ?w] exI [of _ ?enc] exI [of _ ?ss])
      (simp add: auth_key_of_def stream_key_def nth_append)
qed

text \<open>The last step changes neither the keys nor the table.\<close>

lemma finish_step:
  assumes "hs_view r s = (Some hs, ss, code, Some (r, i, b), sent)"
    and "b < length (s_mem ss)" "s_streamKey ss < length (s_mem ss)" "s_streamKey ss \<noteq> b"
    and w: "mget (s_viewers ss) i = Some w" "v_authKey w < length (s_mem ss)" "v_authKey w \<noteq> b"
  shows "\<exists>fs s'. confirm_finish L kdf now err s = s'
    \<and> sh_sent s' = sent @ fs \<and> sizes_only fs
    \<and> mget (sh_viewerIDMap s') i = Some r \<and> stream_key (sh_sess s') = stream_key ss
    \<and> mget (s_viewers (sh_sess s')) i = Some w \<and> auth_key_of (sh_sess s') w = auth_key_of ss w
    \<and> in_state hsComplete s' r"
proof -
  from assms(1) have j: "sh_joining s = Some (r, i, b)" "mget (sh_handshakes s) r = Some hs"
    "sh_sess s = ss" "sh_sent s = sent" by (simp_all add: hs_view_def)
  obtain ss' pr st fs where ss': "ss' = sh_sess s \<or> (\<exists>p. ss' = snd (EncryptFrame kdf (sh_sess s) p now))"
    and st: "st = sh_sent s @ fs" and fs: "sizes_only fs"
    and fin: "confirm_finish L kdf now err s =
      s\<lparr>sh_handshakes := mput r (hs\<lparr>hs_state := hsComplete, hs_spake := lib_wipe L (hs_spake hs)\<rparr>)
            (mput r (hs\<lparr>hs_state := hsComplete\<rparr>) (sh_handshakes s)),
        sh_viewerIDMap := mput i r (sh_viewerIDMap s), sh_sess := sess_zero b ss',
        sh_joining := None, sh_sent := st, sh_probes := pr\<rparr>"
    by (rule confirm_finish_eq [OF j(1,2)])
  have "s_viewers ss' = s_viewers ss" "s_streamKey ss' = s_streamKey ss"
    "s_mem ss' ! s_streamKey ss = s_mem ss ! s_streamKey ss" "s_mem ss' ! v_authKey w = s_mem ss ! v_authKey w"
    using ss' assms(3) w(2) j(3) by (auto simp: EncryptFrame_keeps)
  then show ?thesis
    using fin st fs j assms(4) w
    by (intro exI [of _ fs]) (auto simp: stream_key_def auth_key_of_def sess_zero_def in_state_def)
qed

text \<open>The viewer's side, fed with what the sharer's unicasts carry.\<close>

lemma viewer_side:
  assumes "spake_agrees L code msgA msgB confirmA confirmB k" "untyped msgA" "untyped confirmA"
    and "auth_key kdf k = Some ak" "drawn_id i" "length (ep_Nonce enc) = 12"
    and "Open ak (ep_Nonce enc) (ep_Ciphertext enc) = Inr key" "key \<noteq> []"
  shows "\<exists>h v'. spake_exchange L kdf (\<lambda>_. None) (lib_server L code SPAKE2AssociatedData) v
      (map Got ([msgA, confirmA, buildKeyDelivery i enc] @ rest)) = Some (None, h, v', map Got rest)
    \<and> vw_sent v' = vw_sent v @ map (Cons MsgTypeSPAKE2) [[vw_clientTypeByte v], msgB, confirmB]
    \<and> vw_viewerID v' = i \<and> key_bytes (vw_mem v') (vw_streamKey v') = key
    \<and> key_bytes (vw_mem v') (vw_authKey v') = ak \<and> vw_output v' = vw_output v
    \<and> (\<forall>n es. vw_lastNonce v \<le> n \<and> \<not> vw_epochInitialized v \<longrightarrow> in_step key n es v')"
proof -
  obtain v1 v2 where lib: "lib_exchange L (lib_server L code SPAKE2AssociatedData) msgA = (Inr msgB, v1)"
    "lib_confirm L v1 confirmA = (Inr confirmB, v2)" "lib_key L v2 = Inr k"
    using assms(1) by (auto simp: spake_agrees_def)
  let ?d = "buildKeyDelivery i enc"
  note d = buildKeyDelivery_layout [OF assms(5), of enc]
  have len: "length (ep_Ciphertext enc) = length key + 16"
    using assms(7) by (auto simp: Open_Inr_iff Seal_Inr_iff)
  have u: "untyped ?d" using d assms(6) drawn_untyped [OF assms(5)] by simp
  let ?v1 = "v\<lparr>vw_sent := vw_sent v @ map (Cons MsgTypeSPAKE2) [[vw_clientTypeByte v], msgB, confirmB]\<rparr>"
  let ?v2 = "?v1\<lparr>vw_viewerID := i, vw_mem := vw_mem v @ [ak, key],
        vw_streamKey := Some (Suc (length (vw_mem v))), vw_authKey := Some (length (vw_mem v))\<rparr>"
  have key: "processKeyDelivery L kdf v2 ?d ?v1 = (None, lib_wipe L v2, ?v2)"
    using d assms(4-7) lib(3) len
    by (simp add: processKeyDelivery_def Let_def drawn_id_def DeriveAuthKey_cases)
  have "spake_exchange L kdf (\<lambda>_. None) (lib_server L code SPAKE2AssociatedData) v
        (map Got ([msgA, confirmA, ?d] @ rest))
      = Some (None, lib_wipe L v2, probe_call (HandshakeCompleted i) ?v2, map Got rest)"
    using lib key by (simp add: spake_exchange_def relay_send_def sendSPAKE2_def recv_untyped assms(2,3) u
        del: recvHandshakeMsg.simps)
  then show ?thesis
    by (intro exI [of _ "lib_wipe L v2"] exI [of _ "probe_call (HandshakeCompleted i) ?v2"])
      (simp add: key_bytes_def nth_append in_step_def vw_live_def list_all_iff, simp add: probe_call_def)
qed

text \<open>
  The whole handshake between honest ends: both finish and agree on the ID, the stream key and the auth key.
\<close>

lemma handshake_agrees:
  assumes agree: "spake_agrees L code msgA msgB confirmA confirmB k"
    and typed: "untyped msgA" "untyped confirmA"
    and s: "hs_view r s = (None, ss, code, None, sent)" "sess_wf ss" "\<not> s_closed ss"
      "length r = ViewerIDLen" "code \<noteq> []"
    and env: "en_send en1 = None" "en_send en2 = None" "en_send en3 = None"
      "GenerateViewerID (en_rand en3) = Inr i"
    and ak: "auth_key kdf k = Some ak"
  shows "let s' = confirm_finish L kdf now err (fold (sharer_act L kdf)
      [spake_in en1 ord r [vw_clientTypeByte v], spake_in en2 ord r msgB, spake_in en3 ord r confirmB] s)
    in \<exists>delivery fs w.
      sh_sent s' = sent @ map (unicast_msg r) [msgA, confirmA, delivery] @ fs \<and> sizes_only fs
      \<and> mget (s_viewers (sh_sess s')) i = Some w
      \<and> v_clientType w = clientTypeFromByte [vw_clientTypeByte v] \<and> mget (sh_viewerIDMap s') i = Some r
      \<and> (\<forall>rest. \<exists>h v'. spake_exchange L kdf (\<lambda>_. None) (lib_server L code SPAKE2AssociatedData) v
            (map Got ([msgA, confirmA, delivery] @ rest)) = Some (None, h, v', map Got rest)
          \<and> vw_sent v' = vw_sent v @ map (Cons MsgTypeSPAKE2) [[vw_clientTypeByte v], msgB, confirmB]
          \<and> vw_viewerID v' = i \<and> key_bytes (vw_mem v') (vw_streamKey v') = stream_key (sh_sess s')
          \<and> key_bytes (vw_mem v') (vw_authKey v') = auth_key_of (sh_sess s') w \<and> vw_output v' = vw_output v
          \<and> (\<forall>n es. vw_lastNonce v \<le> n \<and> \<not> vw_epochInitialized v
                \<longrightarrow> in_step (stream_key (sh_sess s')) n es v'))"
proof -
  obtain c1 c2 c3 where lib: "lib_start L (lib_client L code SPAKE2AssociatedData) = (Inr msgA, c1)"
    "lib_finish L c1 msgB = (Inr confirmA, c2)" "lib_verify L c2 confirmB = (None, c3)" "lib_key L c3 = Inr k"
    using agree by (auto simp: spake_agrees_def)
  let ?a1 = "spake_in en1 ord r [vw_clientTypeByte v]" and ?a2 = "spake_in en2 ord r msgB"
    and ?a3 = "spake_in en3 ord r confirmB"
  let ?hs = "\<lparr>hs_state = hsWaitConfirmB, hs_spake = c2, hs_viewerID = r,
      hs_clientType = clientTypeFromByte [vw_clientTypeByte v]\<rparr>"
  note s1 = start_step [OF s(1,4) env(1) s(5) lib(1), of kdf ord "[vw_clientTypeByte v]"]
  have "lib_finish L (hs_spake (?hs\<lparr>hs_spake := c1, hs_state := hsWaitMsgB\<rparr>)) msgB = (Inr confirmA, c2)"
    using lib(2) by simp
  then have s2: "hs_view r (sharer_act L kdf ?a2 (sharer_act L kdf ?a1 s)) =
      (Some ?hs, ss, code, None, (sent @ [unicast_msg r msgA]) @ [unicast_msg r confirmA])"
    using msg_b_step [OF s1 _ s(4) env(2)] by simp
  let ?s3 = "sharer_act L kdf ?a3 (sharer_act L kdf ?a2 (sharer_act L kdf ?a1 s))"
  obtain w enc ss' where s3: "hs_view r ?s3 = (Some (?hs\<lparr>hs_spake := c3\<rparr>), ss', code, Some (r, i, length (s_mem ss)),
       ((sent @ [unicast_msg r msgA]) @ [unicast_msg r confirmA]) @ [unicast_msg r (buildKeyDelivery i enc)])"
    and w: "mget (s_viewers ss') i = Some w" "v_clientType w = clientTypeFromByte [vw_clientTypeByte v]"
      "auth_key_of ss' w = ak" "v_authKey w \<noteq> length (s_mem ss)" "v_authKey w < length (s_mem ss')"
    and k: "length (s_mem ss) < length (s_mem ss')" "s_streamKey ss' < length (s_mem ss')" "s_streamKey ss' \<noteq> length (s_mem ss)"
      "stream_key ss' = stream_key ss"
    and enc: "length (ep_Nonce enc) = 12" "Open ak (ep_Nonce enc) (ep_Ciphertext enc) = Inr (stream_key ss)"
    using confirm_step [OF s2 _ s(4) env(3) _ lib(4) ak env(4) s(2,3), where confirmB = confirmB and ord = ord]
      lib(3) by auto
  obtain fs s' where fin: "confirm_finish L kdf now err ?s3 = s'"
    "sh_sent s' = (((sent @ [unicast_msg r msgA]) @ [unicast_msg r confirmA])
        @ [unicast_msg r (buildKeyDelivery i enc)]) @ fs" "sizes_only fs"
    "mget (sh_viewerIDMap s') i = Some r" "stream_key (sh_sess s') = stream_key ss'"
    "mget (s_viewers (sh_sess s')) i = Some w" "auth_key_of (sh_sess s') w = auth_key_of ss' w"
    using finish_step [OF s3 k(1,2,3) w(1,5,4), of L kdf now err] by blast
  have "stream_key ss \<noteq> []"
    using sess_wf_stream_key [OF s(2,3)] by (auto simp: key_buf_def stream_key_def)
  note v' = viewer_side [OF agree typed ak GenerateViewerID_drawn [OF env(4)] enc this, of v]
  have sent: "sh_sent s' = sent @ map (unicast_msg r) [msgA, confirmA, buildKeyDelivery i enc] @ fs"
    using fin(2) by simp
  have run: "confirm_finish L kdf now err (fold (sharer_act L kdf) [?a1, ?a2, ?a3] s) = s'"
    using fin(1) by (simp del: sharer_act.simps)
  show ?thesis
    unfolding run Let_def using sent fin(3-7) v' w k(4)
    by (intro exI [of _ "buildKeyDelivery i enc"] exI [of _ fs] exI [of _ w] conjI allI) simp_all
qed

section \<open>Late frames\<close>

lemma stream_frames_nonces:
  assumes "unat (s_nonce s) + length xs < 2 ^ 64" "f \<in> set (stream_frames kdf s xs)"
  shows "s_nonce s < nonce_val (frame_nonce f)"
  using assms
proof (induction xs arbitrary: s)
  case (Cons x xs)
  obtain now p where x: "x = (now, p)" by (cases x)
  note num = nonce_step [of "s_nonce s" "length xs"]
  show ?case
  proof (cases "s_closed s \<or> epoch_key kdf (stream_key s) (epoch_at now) = None")
    case True
    with Cons.prems(2) x show ?thesis
      by (cases "s_closed s") (simp_all add: EncryptFrame_closed EncryptFrame_open)
  next
    case False
    then obtain ek where ek: "epoch_key kdf (stream_key s) (epoch_at now) = Some ek" and op: "\<not> s_closed s" by blast
    obtain fr s1 where enc: "EncryptFrame kdf s p now = (Inr fr, s1)" "s_nonce s1 = s_nonce s + 1"
      "f_nonce fr = fst (Next (s_nonce s))"
      using EncryptFrame_open [OF op, of kdf p now] ek by simp
    have less: "s_nonce s < s_nonce s1" using num Cons.prems(1) enc(2) by simp
    have bound: "unat (s_nonce s1) + length xs < 2 ^ 64" using num Cons.prems(1) enc(2) by simp
    from Cons.prems(2) x enc consider "f = buildStreamFrame (f_ciphertext fr) (f_nonce fr) (f_epoch fr)"
      | "f \<in> set (stream_frames kdf s1 xs)" by auto
    then show ?thesis
    proof cases
      case 1
      then show ?thesis using enc less stream_frame.read_back(2) [of "f_nonce fr"] by simp
    next
      case 2
      with Cons.IH [OF bound] less show ?thesis by (meson less_trans)
    qed
  qed
qed simp

lemma stream_frames_sorted:
  assumes "unat (s_nonce s) + length xs < 2 ^ 64"
  shows "sorted_wrt (\<lambda>f g. nonce_val (frame_nonce f) < nonce_val (frame_nonce g)) (stream_frames kdf s xs)"
  using assms
proof (induction xs arbitrary: s)
  case (Cons x xs)
  obtain now p where x: "x = (now, p)" by (cases x)
  note num = nonce_step [of "s_nonce s" "length xs"]
  show ?case
  proof (cases "fst (EncryptFrame kdf s p now)")
    case (Inl e)
    then show ?thesis by (cases "EncryptFrame kdf s p now") (simp add: x)
  next
    case (Inr fr)
    then obtain s1 where enc: "EncryptFrame kdf s p now = (Inr fr, s1)" by (cases "EncryptFrame kdf s p now") simp
    then have n: "f_nonce fr = fst (Next (s_nonce s))" "s_nonce s1 = s_nonce s + 1"
      by (cases "s_closed s"; auto simp: EncryptFrame_closed EncryptFrame_open split: option.splits)+
    have bound: "unat (s_nonce s1) + length xs < 2 ^ 64" using num Cons.prems n by simp
    show ?thesis
      using Cons.IH [OF bound] stream_frames_nonces [OF bound] n stream_frame.read_back(2) [of "f_nonce fr"]
      by (simp add: x enc)
  qed
qed simp

text \<open>Their epochs are those of the times at which they were made.\<close>

lemma stream_frames_epochs:
  "i < length (stream_frames kdf s xs) \<Longrightarrow>
     i < length xs \<and> frame_epoch (stream_frames kdf s xs ! i) = epochs_of xs ! i"
proof (induction xs arbitrary: s i)
  case (Cons x xs)
  obtain now p where x: "x = (now, p)" by (cases x)
  obtain r s1 where enc: "EncryptFrame kdf s p now = (r, s1)" by fastforce
  show ?case
  proof (cases r)
    case (Inl e)
    with Cons.prems show ?thesis by (simp add: x enc)
  next
    case (Inr fr)
    with enc have "f_nonce fr = fst (Next (s_nonce s))" "f_epoch fr = epoch_at now"
      by (cases "s_closed s"; auto simp: EncryptFrame_closed EncryptFrame_open split: option.splits)+
    then have "frame_epoch (buildStreamFrame (f_ciphertext fr) (f_nonce fr) (f_epoch fr)) = epoch_at now"
      using stream_frame.read_back(1) [of "f_nonce fr"] by simp
    with Cons Inr show ?thesis by (cases i) (auto simp: x enc epochs_of_def)
  qed
qed simp

lemma stream_frames_by_epoch:
  assumes "sorted (epochs_of xs)" "i < length (stream_frames kdf s xs)" "j < length (stream_frames kdf s xs)"
    and "frame_epoch (stream_frames kdf s xs ! i) < frame_epoch (stream_frames kdf s xs ! j)"
  shows "i < j"
proof (rule ccontr)
  assume "\<not> i < j"
  then have "epochs_of xs ! j \<le> epochs_of xs ! i"
    using assms(1) stream_frames_epochs [OF assms(2)] by (intro sorted_nth_mono) (simp_all add: epochs_of_def)
  with assms(4) stream_frames_epochs [OF assms(2)] stream_frames_epochs [OF assms(3)] show False by simp
qed

text \<open>A frame whose nonce is not above the last one changes nothing that is shown.\<close>

lemma stale_frame_fails:
  assumes "nonce_val (frame_nonce g) \<le> vw_lastNonce v"
  shows "fst (decryptAndWrite kdf now g v) \<noteq> None"
    "vw_output (snd (decryptAndWrite kdf now g v)) = vw_output v"
proof -
  have "vw_output (snd (validateEpoch now (frame_epoch g) v)) = vw_output v"
    using validateEpoch_with [of v now "frame_epoch g"] by (simp add: with_epoch_def)
  with assms show "fst (decryptAndWrite kdf now g v) \<noteq> None"
    "vw_output (snd (decryptAndWrite kdf now g v)) = vw_output v"
    by (cases rule: decryptAndWrite_cases [of g kdf now v]; auto)+
qed

text \<open>In the stream loop it leaves the output and the size of the sharer as they are.\<close>

lemma stale_turn:
  assumes "nonce_val (frame_nonce g) \<le> vw_lastNonce v" and "g \<noteq> []" "hd g = MsgTypeStream"
  shows "vw_output (snd (stream_turn kdf now (Got g) v)) = vw_output v"
    "vw_sharerSize (snd (stream_turn kdf now (Got g) v)) = vw_sharerSize v"
proof -
  have "vw_sharerSize (snd (validateEpoch now (frame_epoch g) v)) = vw_sharerSize v"
    by (simp add: validateEpoch_def)
  then have "vw_sharerSize (snd (decryptAndWrite kdf now g v)) = vw_sharerSize v"
    using assms(1) by (cases rule: decryptAndWrite_cases [of g kdf now v]) auto
  with stale_frame_fails [OF assms(1), of kdf now]
  show "vw_output (snd (stream_turn kdf now (Got g) v)) = vw_output v"
    "vw_sharerSize (snd (stream_turn kdf now (Got g) v)) = vw_sharerSize v"
    using stream_turn_frame [OF assms(2,3), of kdf now v]
    by (auto simp: probe_call_def split: prod.split option.split)
qed

lemma late_frame_fails:
  assumes "fst (decryptAndWrite kdf now f v) = None" "nonce_val (frame_nonce g) \<le> nonce_val (frame_nonce f)"
  shows "fst (decryptAndWrite kdf now' g (snd (decryptAndWrite kdf now f v))) \<noteq> None
    \<and> vw_output (snd (decryptAndWrite kdf now' g (snd (decryptAndWrite kdf now f v))))
      = vw_output (snd (decryptAndWrite kdf now f v))"
proof -
  have "vw_lastNonce (snd (decryptAndWrite kdf now f v)) = nonce_val (frame_nonce f)"
    using assms(1) by (cases rule: decryptAndWrite_cases [of f kdf now v]) auto
  with assms(2) stale_frame_fails [of g "snd (decryptAndWrite kdf now f v)" kdf now'] show ?thesis by simp
qed

lemma length_stream_frames:
  assumes "sess_wf s" "\<not> s_closed s" "derivable kdf (stream_key s) xs"
  shows "length (stream_frames kdf s xs) = length xs"
  using assms
proof (induction xs arbitrary: s)
  case (Cons x xs)
  obtain now p where x: "x = (now, p)" by (cases x)
  from Cons.prems(3) x obtain ek where "epoch_key kdf (stream_key s) (epoch_at now) = Some ek"
    by (auto simp: derivable_def)
  with EncryptFrame_open [OF Cons.prems(2), of kdf p now] obtain fr s1
    where enc: "EncryptFrame kdf s p now = (Inr fr, s1)" by simp
  note keeps = EncryptFrame_stream_key [OF Cons.prems(1,2), of kdf p now, unfolded enc snd_conv]
  have "sess_wf s1" using sess_wf_EncryptFrame [OF Cons.prems(1), of kdf p now] enc by simp
  with Cons.IH [of s1] keeps Cons.prems(3) show ?case by (simp add: x enc derivable_def)
qed simp

section \<open>Samples\<close>

text \<open>The second viewer of \<open>ex_both\<close>, in step with its session.\<close>

definition ex_watching :: Viewer where
  "ex_watching = (NewViewer [1] 1)\<lparr>vw_viewerID := replicate 6 98, vw_mem := [replicate 32 7, replicate 32 9],
     vw_streamKey := Some 0, vw_authKey := Some 1\<rparr>"

definition ex_chunks :: "(time \<times> bytes) list" where
  "ex_chunks = [(0, [104]), (1, [105]), (60 * second, [33])]"

lemma ex_both_session:
  "sess_wf (sh_sess ex_both)" "\<not> s_closed (sh_sess ex_both)" "stream_key (sh_sess ex_both) = replicate 32 7"
  "s_nonce (sh_sess ex_both) = 5"
  using ex_session_wf by (simp_all add: ex_both_def NewSharer_def ex_session_def stream_key_def)

lemma ex_kdf_derivable: "derivable ex_kdf k xs"
  by (auto simp: derivable_def epoch_key_def ex_kdf_def list_all_iff)

lemma ex_watching_step: "in_step (replicate 32 7) 5 es ex_watching"
  by (simp add: in_step_def ex_watching_def NewViewer_def key_bytes_def vw_live_def list_all_iff)

lemma ex_watching_wf: "viewer_wf ex_watching"
  by (auto simp: viewer_wf_def ex_watching_def NewViewer_def vw_live_def clean_def less_Suc_eq)

lemma ex_drawn: "drawn_id (replicate 6 98)"
  by (auto simp: drawn_id_def ViewerIDCharset_def ascii_def)

lemma ex_second_frame:
  "fst (decryptAndWrite ex_kdf now (stream_frames ex_kdf (sh_sess ex_both) ex_chunks ! 1) ex_watching) = None"
proof -
  let ?s = "sh_sess ex_both"
  obtain s1 where s1: "stream_frames ex_kdf ?s ex_chunks ! 1 = stream_frames ex_kdf s1 (tl ex_chunks) ! 0"
    "s1 = snd (EncryptFrame ex_kdf ?s [104] 0)" "s_nonce s1 = 6" "\<not> s_closed s1"
    "stream_key s1 = replicate 32 7"
    using EncryptFrame_stream_key [OF ex_both_session(1,2), of ex_kdf "[104]" 0] ex_both_session
      EncryptFrame_open [OF ex_both_session(2), of ex_kdf "[104]" 0]
    by (auto simp: ex_chunks_def epoch_key_def ex_kdf_def split: prod.split sum.split)
  obtain ek where ek: "epoch_key ex_kdf (replicate 32 7) (epoch_at 1) = Some ek"
    by (simp add: epoch_key_def ex_kdf_def)
  have f: "stream_frames ex_kdf s1 (tl ex_chunks) ! 0
      = buildStreamFrame (gcm_seal (aes_encrypt ek) (fst (Next 6)) [105]) (fst (Next 6)) (epoch_at 1)"
    using EncryptFrame_open [OF s1(4), of ex_kdf "[105]" 1] ek s1 by (simp add: ex_chunks_def)
  have "decryptAndWrite ex_kdf now (buildStreamFrame (gcm_seal (aes_encrypt ek) (fst (Next 6)) [105]) (fst (Next 6)) (epoch_at 1))
      ex_watching = (None, probe_call (FrameDecrypted (epoch_at 1) (length [105 :: byte]))
      ((snd (validateEpoch now (epoch_at 1) ex_watching))\<lparr>vw_lastNonce := nonce_val (fst (Next 6)),
         vw_mem := vw_mem ex_watching @ [ZeroBytes ek], vw_output := vw_output ex_watching @ [[105]]\<rparr>))"
    using length_epoch_key [OF ek]
    by (intro frame_decrypts [OF ex_watching_step ek]) (simp_all add: Seal_ok)
  then show ?thesis unfolding s1(1) f by simp
qed

end
