(* ===== verification/Pipeline.thy ===== *)
theory Pipeline
  imports End_To_End
begin

text \<open>
  Sharer, relay and viewer in a row. First what a run of the relay leaves as it was about a viewer's
  connection, then what the relay is asked to forward to a viewer and what a sharer hears of one; from
  these the whole way of the shell's output, and a handshake whose messages go both ways.
\<close>

section \<open>A viewer's place\<close>

lemma chan_recv_closed: "chan_recv c = Some (m, c') \<Longrightarrow> ch_closed c' = ch_closed c"
  by (auto simp: chan_recv_def split: list.splits if_splits)

lemma handlers_keep_viewers [simp]:
  "sv_viewers (handleShare sid err s) = sv_viewers s" "sv_viewers (handleWatch sid err s) = sv_viewers s"
  by (auto simp: handleShare_def handleWatch_def Let_def websocket_Accept_def emit_def
      split: option.splits prod.splits sum.splits)

lemma act_keeps_viewer:
  assumes "reachable l s" "ready a s" "act a s = Inr s'" "v < length (sv_conns s)"
  shows "fst (sv_viewers s' ! v) = fst (sv_viewers s ! v)
    \<and> (ch_closed (vc_send (sv_conns s ! v)) \<longrightarrow> ch_closed (vc_send (sv_conns s' ! v)))"
proof -
  have ok: "sess_ok s" "entries_ok s" "ids_ok s"
    using reachable_ok [OF assms(1)] by simp_all
  have len: "v < length (sv_viewers s)" using ok(2) assms(4) by (simp add: entries_ok_def)
  show ?thesis
  proof (cases a)
    case (SharerMessage r order data)
    have r: "r < length (sv_sess s)" "range_order (viewers_of (sv_sess s ! r)) order"
      using assms(2) SharerMessage sess_ok_length [OF ok(1)] by simp_all
    consider "s' = s" | "broadcast r order data s = Inr s'" | "unicast r data s = Inr s'"
      | "sv_conns s' = sv_conns s" "sv_viewers s' = sv_viewers s"
      using assms(3) unfolding SharerMessage act.simps sharer_message_def
      by (auto split: list.splits if_splits)
    then show ?thesis
    proof cases
      case 2
      then show ?thesis by (cases rule: broadcast_result [OF ok(2) r, of data]) auto
    next
      case 3
      then show ?thesis
        by (cases rule: unicast_cases [OF ok(2) r(1), of data])
          (auto simp: nth_set_send nth_drop_viewer dest: entries_okD [OF ok(2)])
    qed auto
  next
    case (SharerExit r order)
    have r: "r < length (sv_sess s)" "range_order (viewers_of (sv_sess s ! r)) order"
      using assms(2) SharerExit sess_ok_length [OF ok(1)] by simp_all
    show ?thesis
      using assms(3) by (cases rule: sharer_exit_result [OF ok(2) r]) (auto simp: SharerExit)
  next
    case (WatchJoin i rand)
    then have i: "i < length (sv_joining s)" using assms(2) by simp
    show ?thesis
      using assms(3,4) len by (cases rule: watch_join_cases [OF ok(1) i, of rand])
        (auto simp: WatchJoin leave_joining_def add_viewer_def nth_append)
  next
    case (ViewerExit w)
    then show ?thesis
      using assms(2-4) len viewer_exit_result [OF ok(2,3), of w] entries_ok_viewer [OF ok(2), of w]
      by (auto simp: nth_drop_viewer nth_list_update)
  next
    case (WriterStep w b)
    then have "w < length (sv_conns s)" using assms(2) ok(2) by (auto simp: entries_ok_def)
    then show ?thesis
      using assms(3,4) len WriterStep
      by (auto simp: writer_step_def Let_def nth_set_send dest: chan_recv_closed split: option.splits)
  next
    case (WatchAck w)
    then show ?thesis
      using assms(3) len by (cases "w = v") (auto simp: watch_ack_def)
  next
    case (Share ip ck sid err)
    then show ?thesis
      using assms(3) handleShare_conn [of "snd (rateLimitWrap EventRegistration ip ck s)" sid err]
      by (auto simp: split_beta)
  next
    case (Watch ip ck sid err)
    then show ?thesis
      using assms(3) handleWatch_conn [of "snd (rateLimitWrap EventConnection ip ck s)" sid err]
      by (auto simp: split_beta)
  qed (use assms(3,4) len in \<open>auto simp: share_ack_def sharer_delete_def viewer_message_def Let_def split: list.splits\<close>)
qed

lemma registered_open:
  assumes "reachable l s" "v < length (sv_conns s)"
  shows "registered s v \<longleftrightarrow> \<not> ch_closed (vc_send (sv_conns s ! v))"
proof -
  have ok: "entries_ok s" "ids_ok s" using reachable_ok [OF assms(1)] by simp_all
  show ?thesis
    using assms(2) ok(2) entries_okD(5) [OF ok(1)] entry_at_fst [OF ok(1) assms(2)]
    unfolding registered_def ids_ok_def by metis
qed

text \<open>Connections and viewer IDs stay what they are; new ones are added behind.\<close>

lemma act_identities:
  assumes "act a s = Inr s'"
  shows "prefix (map conn_key (sv_conns s)) (map conn_key (sv_conns s'))
    \<and> prefix (map rs_sharer (sv_sess s)) (map rs_sharer (sv_sess s'))"
proof -
  have send: "map conn_key vcs' = map conn_key vcs" if "offer_all vs m vcs = Inr vcs'" for vs m vcs vcs'
    using that by (rule conn_key_offer_all)
  show ?thesis
  proof (cases a)
    case (Share ip ck sid err)
    then show ?thesis
      using assms handleShare_conn [of "snd (rateLimitWrap EventRegistration ip ck s)" sid err]
      by (auto simp: split_beta)
  next
    case (Watch ip ck sid err)
    then show ?thesis
      using assms handleWatch_conn [of "snd (rateLimitWrap EventConnection ip ck s)" sid err]
      by (auto simp: split_beta)
  next
    case (SharerMessage r order data)
    then show ?thesis
      using assms unfolding SharerMessage act.simps sharer_message_def broadcast_def unicast_def
      by (auto simp: Let_def set_sess_def map_rs_sharer_update dest: send
          split: list.splits if_splits sum.splits option.splits bool.splits)
  next
    case (SharerExit r order)
    then show ?thesis
      using assms by (auto simp: sharer_exit_def Let_def set_sess_def set_sharer_pc_def map_rs_sharer_update
          dest: conn_key_end_all split: sum.splits)
  next
    case (WatchJoin i rand)
    then show ?thesis
      using assms by (auto simp: watch_join_def Let_def set_sess_def map_rs_sharer_update split: prod.splits if_splits sum.splits option.splits)
  next
    case (ViewerExit w)
    then show ?thesis
      using assms by (auto simp: viewer_exit_def Let_def set_sess_def set_viewer_pc_def map_rs_sharer_update
          split: sum.splits option.splits if_splits)
  next
    case (WriterStep w b)
    then show ?thesis
      using assms by (auto simp: writer_step_def Let_def set_writer_pc_def split: option.splits if_splits)
  qed (use assms in \<open>auto simp: share_ack_def sharer_delete_def viewer_message_def watch_ack_def set_sharer_pc_def
      set_viewer_pc_def set_writer_pc_def Let_def split: list.splits\<close>)
qed

lemma nth_of_prefix:
  assumes "prefix (map f xs) (map f ys)" "n < length xs"
  shows "n < length ys" "f (ys ! n) = f (xs ! n)"
proof -
  from assms(1) obtain zs where zs: "map f ys = map f xs @ zs" by (auto simp: prefix_def)
  have "length ys = length xs + length zs" using arg_cong [OF zs, of length] by simp
  with assms(2) show n: "n < length ys" by simp
  have "map f ys ! n = map f xs ! n" using assms(2) zs by (simp add: nth_append)
  with n assms(2) show "f (ys ! n) = f (xs ! n)" by simp
qed

section \<open>What the relay is asked to forward\<close>

text \<open>The messages that the sharer of a session sends in a run.\<close>

definition sharer_sends :: "nat \<Rightarrow> action list \<Rightarrow> bytes list" where
  "sharer_sends r as =
     concat (map (\<lambda>a. case a of SharerMessage q order data \<Rightarrow> if q = r then [data] else [] | _ \<Rightarrow> []) as)"

text \<open>
  What of it is meant for a viewer with relay ID \<open>i\<close>, in the form in which it is handed on: broadcasts
  as they are, unicasts to that ID without type and address.
\<close>

definition addressed :: "bytes \<Rightarrow> bytes \<Rightarrow> bytes list" where
  "addressed i m =
     (if m = [] then []
      else if hd m = MsgTypeStream \<or> hd m = MsgTypeTermSize then [m]
      else if hd m = MsgTypeUnicast \<and> 7 \<le> length m \<and> take 6 (drop 1 m) = i then [drop 7 m] else [])"

definition all_addressed :: "bytes \<Rightarrow> bytes list \<Rightarrow> bytes list" where
  "all_addressed i ms = concat (map (addressed i) ms)"

lemma all_addressed_simps [simp]:
  "all_addressed i [] = []" "all_addressed i (m # ms) = addressed i m @ all_addressed i ms"
  "all_addressed i (ms @ ms') = all_addressed i ms @ all_addressed i ms'"
  by (simp_all add: all_addressed_def)

lemma length_all_addressed: "length (all_addressed i ms) \<le> length ms"
  by (induction ms) (auto simp: addressed_def)

lemma addressed_unicast: "length i = ViewerIDLen \<Longrightarrow> addressed i (unicast_msg i m) = [m]"
  by (simp add: addressed_def unicast_msg_def)

lemma offered_addressed:
  "offered v a s = (if registered s v
     then all_addressed (vc_id (sv_conns s ! v)) (sharer_sends (fst (sv_viewers s ! v)) [a]) else [])"
  by (cases a) (auto simp: offered_def sharer_sends_def addressed_def)

text \<open>
  A viewer is offered what is meant for it as long as it is in the session, and everything when it
  still is at the end.
\<close>

lemma offered_run_addressed:
  assumes "reachable l s" "runs as s = Some s'" "v < length (sv_conns s)"
  shows "subseq (offered_run v as s) (all_addressed (vc_id (sv_conns s ! v)) (sharer_sends (fst (sv_viewers s ! v)) as))
    \<and> (registered s' v \<longrightarrow> registered s v
        \<and> offered_run v as s = all_addressed (vc_id (sv_conns s ! v)) (sharer_sends (fst (sv_viewers s ! v)) as))"
  using assms
proof (induction as arbitrary: s)
  case Nil
  then show ?case by (simp add: sharer_sends_def)
next
  case (Cons a as)
  then obtain s1 where 1: "ready a s" "fresh_viewer_id a s" "act a s = Inr s1" "runs as s1 = Some s'"
    by (auto split: if_splits sum.splits)
  note keeps = act_keeps_viewer [OF Cons.prems(1) 1(1,3) Cons.prems(3)]
  have reach: "reachable l s1" using Cons.prems(1) 1 reachable.step by blast
  have len: "v < length (sv_conns s1)" and id: "vc_id (sv_conns s1 ! v) = vc_id (sv_conns s ! v)"
    using nth_of_prefix [OF act_identities [OF 1(3), THEN conjunct1] Cons.prems(3)] by (simp_all add: conn_key_def)
  let ?r = "fst (sv_viewers s ! v)" and ?i = "vc_id (sv_conns s ! v)"
  have split: "sharer_sends ?r (a # as) = sharer_sends ?r [a] @ sharer_sends ?r as" by (simp add: sharer_sends_def)
  note one = offered_addressed [of v a s]
  have rest: "subseq (offered_run v as s1) (all_addressed ?i (sharer_sends ?r as))
      \<and> (registered s' v \<longrightarrow> registered s1 v \<and> offered_run v as s1 = all_addressed ?i (sharer_sends ?r as))"
    using Cons.IH [OF reach 1(4) len] keeps id by simp
  have before: "registered s1 v \<Longrightarrow> registered s v"
    using keeps registered_open [OF reach len] registered_open [OF Cons.prems(1,3)] by blast
  have "subseq (offered v a s) (all_addressed ?i (sharer_sends ?r [a]))" using one by simp
  with rest have "subseq (offered v a s @ offered_run v as s1)
      (all_addressed ?i (sharer_sends ?r [a]) @ all_addressed ?i (sharer_sends ?r as))"
    by (intro list_emb_append_mono) simp_all
  with rest one before split 1(3) show ?case by simp
qed


lemma all_addressed_broadcast:
  "list_all (\<lambda>m. m \<noteq> [] \<and> (hd m = MsgTypeStream \<or> hd m = MsgTypeTermSize)) ms \<Longrightarrow> all_addressed i ms = ms"
  by (induction ms) (auto simp: addressed_def)



section \<open>From the shell to the viewer\<close>






section \<open>What the sharer hears\<close>

text \<open>The session of a viewer in the map is open.\<close>

lemma registered_session_open:
  assumes "reachable l s" "v < length (sv_conns s)" "registered s v"
  shows "fst (sv_viewers s ! v) < length (sv_sess s)" "\<not> rs_closed (sv_sess s ! fst (sv_viewers s ! v))"
    "snd (sv_viewers s ! v) \<noteq> VwDone" "length (vc_id (sv_conns s ! v)) = 6"
proof -
  have ok: "sess_ok s" "entries_ok s" using reachable_ok [OF assms(1)] by simp_all
  show r: "fst (sv_viewers s ! v) < length (sv_sess s)" using ok(2) assms(2) by (simp add: entries_ok_def)
  have "viewers_of (sv_sess s ! fst (sv_viewers s ! v)) \<noteq> []"
    using assms(3) by (auto simp: registered_def entry_at_def split: if_splits)
  then show "\<not> rs_closed (sv_sess s ! fst (sv_viewers s ! v))"
    using sess_ok_shape [OF ok(1) r] by (auto simp: sess_shape_def viewers_of_def)
  show "snd (sv_viewers s ! v) \<noteq> VwDone" using entries_okD(4) [OF ok(2)] assms(3) by (simp add: registered_def)
  show "length (vc_id (sv_conns s ! v)) = 6"
    by (rule conns_distinct(8) [OF reachable_conns_ok [OF assms(1)] assms(2)])
qed

lemma viewer_message_up:
  assumes "reachable l s" "v < length (sv_conns s)" "registered s v"
  shows "act (ViewerMessage v (MsgTypeSPAKE2 # p)) s = Inr (emit [WriteMsg (rs_sharer (sv_sess s ! fst (sv_viewers s ! v)))
    (MsgTypeSPAKE2 # vc_id (sv_conns s ! v) @ p)] s)"
  using registered_session_open [OF assms] by (simp add: viewer_message_def Let_def)

text \<open>
  What a run writes to a connection; what of it, at the sharer of viewer \<open>v\<close>, is a handshake message tagged
  with \<open>v\<close>'s ID; and the handshake messages that \<open>v\<close> sends in the run.
\<close>

definition written :: "conn \<Rightarrow> relay \<Rightarrow> relay \<Rightarrow> bytes list" where
  "written c s s' = concat (map (\<lambda>e. case e of WriteMsg d m \<Rightarrow> if d = c then [m] else [] | _ \<Rightarrow> []) (new_log s s'))"

definition heard_from :: "nat \<Rightarrow> relay \<Rightarrow> relay \<Rightarrow> bytes list" where
  "heard_from v s s' =
     filter (\<lambda>m. take 7 m = MsgTypeSPAKE2 # vc_id (sv_conns s ! v))
       (written (rs_sharer (sv_sess s ! fst (sv_viewers s ! v))) s s')"

definition spake_sends :: "nat \<Rightarrow> action list \<Rightarrow> bytes list" where
  "spake_sends v as =
     concat (map (\<lambda>a. case a of ViewerMessage w (b # p) \<Rightarrow> if w = v \<and> b = MsgTypeSPAKE2 then [p] else [] | _ \<Rightarrow> []) as)"

lemma spake_sends_Cons: "spake_sends v (a # as) = spake_sends v [a] @ spake_sends v as"
  unfolding spake_sends_def by simp

lemma written_in: "m \<in> set (written c s s') \<longleftrightarrow> WriteMsg c m \<in> set (new_log s s')"
  by (auto simp: written_def split: effect.splits if_splits)

lemma runs_log: "reachable l s \<Longrightarrow> runs as s = Some s' \<Longrightarrow> \<exists>es. sv_log s' = sv_log s @ es"
proof (induction as arbitrary: s)
  case (Cons a as)
  then obtain s1 where 1: "ready a s" "fresh_viewer_id a s" "act a s = Inr s1" "runs as s1 = Some s'"
    by (auto split: if_splits sum.splits)
  then have "reachable l s1" using Cons.prems(1) reachable.step by blast
  from Cons.IH [OF this 1(4)] act_logs [OF Cons.prems(1) 1(1,3)] show ?case by (auto simp: logs_def)
qed simp

lemma written_trans:
  assumes "sv_log s1 = sv_log s @ es" "sv_log s2 = sv_log s1 @ es'"
  shows "written c s s2 = written c s s1 @ written c s1 s2"
  using assms by (simp add: written_def new_log_def)

lemma heard_step:
  assumes "reachable l s" "ready a s" "act a s = Inr s'" "v < length (sv_conns s)" "registered s v"
  shows "heard_from v s s' = map (\<lambda>p. MsgTypeSPAKE2 # vc_id (sv_conns s ! v) @ p) (spake_sends v [a])"
proof (cases "\<exists>p. a = ViewerMessage v (MsgTypeSPAKE2 # p)")
  case True
  then obtain p where a: "a = ViewerMessage v (MsgTypeSPAKE2 # p)" by blast
  with assms(3) viewer_message_up [OF assms(1,4,5)] registered_session_open(4) [OF assms(1,4,5)] show ?thesis
    by (auto simp: heard_from_def written_def new_log_def emit_def spake_sends_def)
next
  case False
  let ?r = "fst (sv_viewers s ! v)" and ?i = "vc_id (sv_conns s ! v)"
  note open_session = registered_session_open [OF assms(1,4,5)]
  have "take 7 m \<noteq> MsgTypeSPAKE2 # ?i" if m: "m \<in> set (written (rs_sharer (sv_sess s ! ?r)) s s')" for m
  proof
    assume t: "take 7 m = MsgTypeSPAKE2 # ?i"
    from sharer_hears [OF assms(1-3) open_session(1) m [unfolded written_in]] t
    obtain u rest where u: "a = ViewerMessage u (MsgTypeSPAKE2 # rest)" "fst (sv_viewers s ! u) = ?r"
      "m = MsgTypeSPAKE2 # vc_id (sv_conns s ! u) @ rest" by auto
    from u(1) assms(2) have len: "u < length (sv_conns s)" and pc: "snd (sv_viewers s ! u) \<noteq> VwDone"
      using ready_bounds(2) [OF assms(1,2)] by auto
    have "length (vc_id (sv_conns s ! u)) = 6"
      by (rule conns_distinct(8) [OF reachable_conns_ok [OF assms(1)] len])
    with t u(3) have "vc_id (sv_conns s ! u) = ?i" by simp
    moreover have "ids_ok s" using reachable_ok [OF assms(1)] by simp
    ultimately have "u = v" using len assms(4) u(2) pc open_session(3) unfolding ids_ok_def by metis
    with u(1) False show False by blast
  qed
  then have "heard_from v s s' = []" by (auto simp: heard_from_def filter_empty_conv)
  moreover have "spake_sends v [a] = []"
    using False by (cases a) (auto simp: spake_sends_def split: list.split)
  ultimately show ?thesis by simp
qed

text \<open>
  A viewer that is joined throughout a run reaches its sharer with all its handshake messages, in order,
  and with its ID; nobody else's messages carry it.
\<close>

lemma heard_run:
  assumes "reachable l s" "runs as s = Some s'" "v < length (sv_conns s)" "registered s' v"
  shows "heard_from v s s' = map (\<lambda>p. MsgTypeSPAKE2 # vc_id (sv_conns s ! v) @ p) (spake_sends v as)"
  using assms
proof (induction as arbitrary: s)
  case Nil
  then show ?case by (simp add: heard_from_def written_def new_log_def spake_sends_def)
next
  case (Cons a as)
  then obtain s1 where 1: "ready a s" "fresh_viewer_id a s" "act a s = Inr s1" "runs as s1 = Some s'"
    by (auto split: if_splits sum.splits)
  have reach: "reachable l s1" using Cons.prems(1) 1 reachable.step by blast
  note ids = act_identities [OF 1(3)]
  have v1: "v < length (sv_conns s1)" "vc_id (sv_conns s1 ! v) = vc_id (sv_conns s ! v)"
    using nth_of_prefix [OF conjunct1 [OF ids] Cons.prems(3)] by (simp_all add: conn_key_def)
  have reg: "registered s v" using offered_run_addressed [OF Cons.prems(1-3)] Cons.prems(4) by blast
  have "fst (sv_viewers s1 ! v) = fst (sv_viewers s ! v)"
    using act_keeps_viewer [OF Cons.prems(1) 1(1,3) Cons.prems(3)] by simp
  moreover have "rs_sharer (sv_sess s1 ! fst (sv_viewers s ! v)) = rs_sharer (sv_sess s ! fst (sv_viewers s ! v))"
    using nth_of_prefix [OF conjunct2 [OF ids] registered_session_open(1) [OF Cons.prems(1,3) reg]] by simp
  moreover obtain es es' where "sv_log s1 = sv_log s @ es" "sv_log s' = sv_log s1 @ es'"
    using act_logs [OF Cons.prems(1) 1(1,3)] runs_log [OF reach 1(4)] by (auto simp: logs_def)
  ultimately have "heard_from v s s' = heard_from v s s1 @ heard_from v s1 s'"
    using v1(2) written_trans [of s1 s es s' es'] by (simp add: heard_from_def)
  also have "\<dots> = map (\<lambda>p. MsgTypeSPAKE2 # vc_id (sv_conns s ! v) @ p) (spake_sends v [a] @ spake_sends v as)"
    using heard_step [OF Cons.prems(1) 1(1,3) Cons.prems(3) reg] Cons.IH [OF reach 1(4) v1(1) Cons.prems(4)] v1(2) by simp
  finally show ?case by (simp only: spake_sends_Cons [of v a as])
qed

section \<open>A handshake through the relay\<close>

text \<open>
  C2. Two honest ends with the same code agree across the relay. Take any run of the relay, whatever else it
  serves meanwhile, in which a viewer that is joined at its end, with its queue empty before and after,
  sends its three handshake messages, and in which the sharer of its session sends what it has to send, every
  send succeeding. Of what the relay writes to the sharer, the handshake messages under that viewer's relay
  ID are exactly the viewer's, in order. The sharer, fed with them, and the viewer, fed with what the relay's
  writer took from its queue, both finish: the viewer has sent the messages that went through the run, it
  holds the session's stream key, the ID it is listed under and the auth key the session keeps for it, and
  the sharer has it listed with its client type and mapped to its relay ID. A viewer that had seen nothing
  before is then in step with the session's stream. (The handshake library computes one key at both ends; of
  its messages, the two that the viewer reads must not begin with the type byte of a relay message, since
  the viewer takes such a message for one of those.)
\<close>

theorem handshake_through_relay:
  assumes lib: "spake_agrees L code msgA msgB confirmA confirmB k" "untyped msgA" "untyped confirmA"
      "auth_key kdf k = Some ak"
    and relay: "reachable limiter rl" "runs as rl = Some rl'" "v < length (sv_conns rl)" "registered rl' v"
      "ch_buf (vc_send (sv_conns rl ! v)) = []" "ch_buf (vc_send (sv_conns rl' ! v)) = []"
    and sharer: "hs_view (vc_id (sv_conns rl ! v)) s = (None, ss, code, None, sent)" "sess_wf ss" "\<not> s_closed ss"
      "code \<noteq> []" "en_send en1 = None" "en_send en2 = None" "en_send en3 = None"
      "GenerateViewerID (en_rand en3) = Inr i"
    and up: "spake_sends v as = [[vw_clientTypeByte vw], msgB, confirmB]"
    and heard: "s' = confirm_finish L kdf now err (fold (sharer_act L kdf)
      (map2 (\<lambda>en m. OnRelay en ord (Got m)) [en1, en2, en3] (heard_from v rl rl')) s)"
    and down: "sh_sent s' = sent @ sharer_sends (fst (sv_viewers rl ! v)) as"
  shows "\<exists>h vw' rest w.
      spake_exchange L kdf (\<lambda>_. None) (lib_server L code SPAKE2AssociatedData) vw (map Got (taken_run v as rl))
        = Some (None, h, vw', map Got rest)
    \<and> heard_from v rl rl' = map (\<lambda>p. MsgTypeSPAKE2 # vc_id (sv_conns rl ! v) @ p) (spake_sends v as)
    \<and> vw_sent vw' = vw_sent vw @ map (Cons MsgTypeSPAKE2) (spake_sends v as)
    \<and> vw_viewerID vw' = i \<and> key_bytes (vw_mem vw') (vw_streamKey vw') = stream_key (sh_sess s')
    \<and> mget (s_viewers (sh_sess s')) i = Some w
    \<and> key_bytes (vw_mem vw') (vw_authKey vw') = auth_key_of (sh_sess s') w
    \<and> v_clientType w = clientTypeFromByte [vw_clientTypeByte vw]
    \<and> mget (sh_viewerIDMap s') i = Some (vc_id (sv_conns rl ! v))
    \<and> (\<forall>n es. vw_lastNonce vw \<le> n \<and> \<not> vw_epochInitialized vw \<longrightarrow> in_step (stream_key (sh_sess s')) n es vw')"
proof -
  let ?r = "vc_id (sv_conns rl ! v)"
  note all = offered_run_addressed [OF relay(1-3)]
  then have "registered rl v" using relay(4) by blast
  then have id: "length ?r = ViewerIDLen" using registered_session_open(4) [OF relay(1,3)] by simp
  have heard': "s' = confirm_finish L kdf now err (fold (sharer_act L kdf)
      [spake_in en1 ord ?r [vw_clientTypeByte vw], spake_in en2 ord ?r msgB, spake_in en3 ord ?r confirmB] s)"
    unfolding heard heard_run [OF relay(1-4)] up by (simp del: sharer_act.simps)
  from handshake_agrees [OF lib(1-3) sharer(1-3) id sharer(4-8) lib(4), of now err ord vw, folded heard', unfolded Let_def]
  obtain delivery fs w where sent: "sh_sent s' = sent @ map (unicast_msg ?r) [msgA, confirmA, delivery] @ fs"
    and fs: "sizes_only fs"
    and w: "mget (s_viewers (sh_sess s')) i = Some w" "v_clientType w = clientTypeFromByte [vw_clientTypeByte vw]"
      "mget (sh_viewerIDMap s') i = Some ?r"
    and both: "\<forall>rest. \<exists>h v'. spake_exchange L kdf (\<lambda>_. None) (lib_server L code SPAKE2AssociatedData) vw
            (map Got ([msgA, confirmA, delivery] @ rest)) = Some (None, h, v', map Got rest)
          \<and> vw_sent v' = vw_sent vw @ map (Cons MsgTypeSPAKE2) [[vw_clientTypeByte vw], msgB, confirmB]
          \<and> vw_viewerID v' = i \<and> key_bytes (vw_mem v') (vw_streamKey v') = stream_key (sh_sess s')
          \<and> key_bytes (vw_mem v') (vw_authKey v') = auth_key_of (sh_sess s') w \<and> vw_output v' = vw_output vw
          \<and> (\<forall>n es. vw_lastNonce vw \<le> n \<and> \<not> vw_epochInitialized vw
                \<longrightarrow> in_step (stream_key (sh_sess s')) n es v')"
    by blast
  have sends: "sharer_sends (fst (sv_viewers rl ! v)) as = map (unicast_msg ?r) [msgA, confirmA, delivery] @ fs"
    using down sent by simp
  have "all_addressed ?r fs = fs" using fs by (intro all_addressed_broadcast) (auto simp: list_all_iff)
  then have offered: "offered_run v as rl = [msgA, confirmA, delivery] @ fs"
    using all relay(4) sends addressed_unicast [OF id] by simp
  then have "taken_run v as rl = [msgA, confirmA, delivery] @ fs"
    using runs_moves [OF relay(1-3)] relay(5,6) fs by (simp add: moves_def)
  with both [THEN spec, of fs] w show ?thesis unfolding heard_run [OF relay(1-4)] up by auto
qed

text \<open>
  The sample server's first viewer and a new sharer: each message of the one is followed by the other's
  answer. What the sharer will have sent is named by the state it ends in.
\<close>

definition ex_finished :: "bytes Sharer" where
  "ex_finished = confirm_finish ex_spake ex_kdf 0 None (fold (sharer_act ex_spake ex_kdf)
     [spake_in ex_env [] ex_id [vw_clientTypeByte (NewViewer [1] 1)], spake_in ex_env [] ex_id [66],
      spake_in ex_env [] ex_id [68]] (NewSharer ex_sess0 [1]))"

definition ex_shaking :: "action list" where
  "ex_shaking =
     [ViewerMessage 0 [1, 1], SharerMessage 0 ex_order (sh_sent ex_finished ! 0), WriterStep 0 True,
      ViewerMessage 0 [1, 66], SharerMessage 0 ex_order (sh_sent ex_finished ! 1), WriterStep 0 True,
      ViewerMessage 0 [1, 68]]
     @ concat (map (\<lambda>m. [SharerMessage 0 ex_order m, WriterStep 0 True]) (drop 2 (sh_sent ex_finished)))"

lemma ex_agrees: "spake_agrees ex_spake [1] [65] [66] [67] [68] [1]" "untyped [65]" "untyped [67]"
  by (simp_all add: spake_agrees_def ex_spake_def untyped_def)

lemma ex_fresh: "hs_view r (NewSharer ex_sess0 [1]) = (None, ex_sess0, [1], None, [])" "sess_wf ex_sess0"
  "\<not> s_closed ex_sess0"
  using sess_wf_NewSession [OF ex_sess0_new] by (simp_all add: hs_view_def NewSharer_def ex_sess0_def)

lemma ex_finished_sent:
  obtains d fs where "sh_sent ex_finished = [unicast_msg ex_id [65], unicast_msg ex_id [67], unicast_msg ex_id d] @ fs"
    "sizes_only fs"
  using handshake_agrees [OF ex_agrees ex_fresh,
      of ex_id ex_env ex_env ex_env "replicate 6 99" ex_kdf _ 0 None "[]" "NewViewer [1] 1", folded ex_finished_def]
  by (auto simp: ex_env_def ex_draws ex_ak Let_def)

lemma ex_shaking_runs:
  obtains rl where "runs ex_shaking ex_relay = Some rl" "registered rl 0" "ch_buf (vc_send (sv_conns rl ! 0)) = []"
proof -
  obtain d fs where sent: "sh_sent ex_finished = [unicast_msg ex_id [65], unicast_msg ex_id [67], unicast_msg ex_id d] @ fs"
    and fs: "sizes_only fs" by (rule ex_finished_sent)
  from fs consider "fs = []" | q where "fs = [MsgTypeTermSize # q]"
    by (cases fs; cases "hd fs") auto
  then have "\<exists>rl. runs ex_shaking ex_relay = Some rl \<and> registered rl 0 \<and> ch_buf (vc_send (sv_conns rl ! 0)) = []"
  proof cases
    case 1
    then show ?thesis
      unfolding ex_shaking_def sent
      by (simp add: unicast_msg_def ex_relay_def run_simps message_simps registered_def entry_at_def)
  next
    case 2
    then show ?thesis
      unfolding ex_shaking_def sent
      by (simp add: unicast_msg_def ex_relay_def run_simps message_simps registered_def entry_at_def)
  qed
  with that show ?thesis by blast
qed

theorem handshake_through_relay_witness:
  "\<exists>h vw rest w. spake_exchange ex_spake ex_kdf (\<lambda>_. None) (lib_server ex_spake [1] SPAKE2AssociatedData) (NewViewer [1] 1)
      (map Got (taken_run 0 ex_shaking ex_relay)) = Some (None, h, vw, map Got rest)
    \<and> vw_sent vw = [[1, 1], [1, 66], [1, 68]] \<and> vw_viewerID vw = replicate 6 99
    \<and> key_bytes (vw_mem vw) (vw_streamKey vw) = stream_key (sh_sess ex_finished)
    \<and> mget (s_viewers (sh_sess ex_finished)) (replicate 6 99) = Some w
    \<and> key_bytes (vw_mem vw) (vw_authKey vw) = auth_key_of (sh_sess ex_finished) w
    \<and> mget (sh_viewerIDMap ex_finished) (replicate 6 99) = Some ex_id
    \<and> in_step (stream_key (sh_sess ex_finished)) (s_nonce (sh_sess ex_finished)) [1, 2] vw"
proof -
  obtain rl where rl: "runs ex_shaking ex_relay = Some rl" "registered rl 0" "ch_buf (vc_send (sv_conns rl ! 0)) = []"
    by (rule ex_shaking_runs)
  obtain d fs where sent: "sh_sent ex_finished = [unicast_msg ex_id [65], unicast_msg ex_id [67], unicast_msg ex_id d] @ fs"
    by (rule ex_finished_sent)
  have v: "0 < length (sv_conns ex_relay)" "ch_buf (vc_send (sv_conns ex_relay ! 0)) = []"
    "fst (sv_viewers ex_relay ! 0) = 0" "vc_id (sv_conns ex_relay ! 0) = ex_id"
    by (simp_all add: ex_relay_def make_chan_def)
  have sends: "spake_sends 0 (concat (map (\<lambda>m. [SharerMessage 0 ex_order m, WriterStep 0 True]) ms)) = []"
    "sharer_sends 0 (concat (map (\<lambda>m. [SharerMessage 0 ex_order m, WriterStep 0 True]) ms)) = ms" for ms
    by (induction ms) (simp_all add: spake_sends_def sharer_sends_def)
  have up: "spake_sends 0 ex_shaking = [[vw_clientTypeByte (NewViewer [1] 1)], [66], [68]]"
    using sends(1) by (simp add: ex_shaking_def spake_sends_def NewViewer_def)
  have down: "sharer_sends (fst (sv_viewers ex_relay ! 0)) ex_shaking = sh_sent ex_finished"
    using sends(2) sent by (simp add: ex_shaking_def sharer_sends_def v(3))
  have heard: "ex_finished = confirm_finish ex_spake ex_kdf 0 None (fold (sharer_act ex_spake ex_kdf)
      (map2 (\<lambda>en m. OnRelay en [] (Got m)) [ex_env, ex_env, ex_env] (heard_from 0 ex_relay rl)) (NewSharer ex_sess0 [1]))"
    unfolding ex_finished_def heard_run [OF ex_relay_reachable rl(1) v(1) rl(2)] up v(4)
    by (simp del: sharer_act.simps)
  from handshake_through_relay [OF ex_agrees ex_ak ex_relay_reachable rl(1) v(1) rl(2) v(2) rl(3) ex_fresh
      _ _ _ _ _ up heard, of "replicate 6 99"]
  show ?thesis using v(4) down unfolding up by (simp add: ex_env_def ex_draws) (auto simp: NewViewer_def)
qed

end
