(* ===== verification/Membership.thy ===== *)
theory Membership
  imports Pipeline
begin

text \<open>
  Viewers that leave a session, by their own will or the sharer's, followed through the relay: what the
  sharer's revocation does to the viewers that stay and to the one that goes, and what the end of a viewer's
  connection does to the sharer. First the IDs that a sharer keeps, by which viewers are told apart.
\<close>

section \<open>The IDs a sharer keeps\<close>

text \<open>
  Handshakes are kept under relay IDs, which are cut from a message and have their length; viewers are
  listed under IDs that were drawn for them.
\<close>

abbreviation hs_ids :: "'sp Sharer \<Rightarrow> bytes set" where
  "hs_ids s \<equiv> fst ` set (sh_handshakes s)"

definition ids_sized :: "'sp Sharer \<Rightarrow> bool" where
  "ids_sized s \<longleftrightarrow> (\<forall>r \<in> hs_ids s. length r = ViewerIDLen) \<and> (\<forall>i \<in> listed s. drawn_id i)"

lemma hs_ids_cleanup: "hs_ids (cleanupHandshake L r s) \<subseteq> hs_ids s"
  by (auto simp: cleanupHandshake_def split: option.split)

lemma hs_ids_unicast [simp]: "hs_ids (snd (sendUnicast err r m s)) = hs_ids s"
  by (simp add: sendUnicast_def sharer_send_def split: option.split)

lemma hs_ids_get: "hs_ids (snd (get_handshake L r p s)) \<subseteq> insert r (hs_ids s)"
  by (auto simp: get_handshake_def Let_def split: option.split sum.split)

lemma hs_ids_set: "r \<in> A \<Longrightarrow> hs_ids s \<subseteq> A \<Longrightarrow> hs_ids (set_hs r hs s) \<subseteq> A"
  by auto

lemma hs_ids_steps:
  assumes "r \<in> A" "hs_ids s \<subseteq> A"
  shows "hs_ids (snd (wait_init L err r hs s)) \<subseteq> A" "hs_ids (snd (wait_msg_b L err r p hs s)) \<subseteq> A"
    "hs_ids (snd (confirm_register L kdf rand now err r p hs s)) \<subseteq> A"
proof -
  have clean: "hs_ids s2 \<subseteq> A \<Longrightarrow> hs_ids (cleanupHandshake L r s2) \<subseteq> A" for s2 :: "'a Sharer"
    by (rule order_trans [OF hs_ids_cleanup])
  show "hs_ids (snd (wait_init L err r hs s)) \<subseteq> A"
    using assms by (simp add: wait_init_def split_beta split: sum.split option.split)
  show "hs_ids (snd (wait_msg_b L err r p hs s)) \<subseteq> A"
    using assms by (simp add: wait_msg_b_def split_beta clean split: sum.split option.split)
  show "hs_ids (snd (confirm_register L kdf rand now err r p hs s)) \<subseteq> A"
    using assms by (simp add: confirm_register_def Let_def split_beta clean split: sum.split option.split)
qed

lemma hs_ids_handle: "hs_ids (snd (handleSPAKE2 L kdf en r p s)) \<subseteq> insert r (hs_ids s)"
proof (cases "get_handshake L r p s")
  case (Pair x s1)
  with hs_ids_get [of L r p s] have "hs_ids s1 \<subseteq> insert r (hs_ids s)" by simp
  with Pair hs_ids_steps [of r "insert r (hs_ids s)" s1] show ?thesis
    by (cases x) (simp_all add: handleSPAKE2_def split: handshakeState.split)
qed

lemma hs_ids_finish: "hs_ids (confirm_finish L kdf now err s) \<subseteq> hs_ids s"
proof (cases "sh_joining s")
  case (Some t)
  obtain r i ak where t: "sh_joining s = Some (r, i, ak)" using Some by (cases t) auto
  show ?thesis
  proof (cases "mget (sh_handshakes s) r")
    case None
    with t show ?thesis by (simp add: confirm_finish_def)
  next
    case (Some hs)
    obtain ss pr st where "confirm_finish L kdf now err s =
      s\<lparr>sh_handshakes := mput r (hs\<lparr>hs_state := hsComplete, hs_spake := lib_wipe L (hs_spake hs)\<rparr>)
            (mput r (hs\<lparr>hs_state := hsComplete\<rparr>) (sh_handshakes s)),
        sh_viewerIDMap := mput i r (sh_viewerIDMap s), sh_sess := sess_zero ak ss,
        sh_joining := None, sh_sent := st, sh_probes := pr\<rparr>"
      by (rule confirm_finish_eq [OF t Some])
    with mget_in_keys [OF Some] show ?thesis by simp
  qed
qed (simp add: confirm_finish_def)

lemma hs_ids_quiet:
  "hs_ids (handleViewerDisconnect r ord s) = hs_ids s"
  "hs_ids (snd (output_turn kdf now se sd data re rd s)) = hs_ids s"
  "hs_ids (snd (sharer_heartbeat err s)) = hs_ids s"
  "hs_ids (snd (SetTermSize kdf now err cols rows s)) = hs_ids s"
  by (simp_all add: handleViewerDisconnect_def output_turn_def Let_def sharer_heartbeat_def SetTermSize_def
      broadcastTermSize_def sharer_send_def split: option.split sum.split prod.split)

lemma hs_ids_Revoke: "hs_ids (snd (Revoke errs i rand ord ord' s)) = hs_ids s"
proof -
  have "sh_handshakes (snd (deliver_rekeys errs rs t)) = sh_handshakes t" for errs rs and t :: "'a Sharer"
    using deliver_rekeys_fields [of errs rs t] by (cases "deliver_rekeys errs rs t") simp
  then show ?thesis by (simp add: Revoke_def split_beta split: option.split sum.split)
qed

lemma hs_ids_act:
  assumes "\<And>r. r \<in> hs_ids s \<Longrightarrow> length r = ViewerIDLen" "r \<in> hs_ids (sharer_act L kdf a s)"
  shows "length r = ViewerIDLen"
proof (cases a)
  case (OnRelay en ord m)
  show ?thesis
  proof (cases "sh_joining s")
    case None
    with OnRelay assms(2) have r: "r \<in> hs_ids (snd (relay_turn L kdf en ord m s))" by simp
    show ?thesis
    proof (cases rule: relay_turn_cases [where L = L and kdf = kdf and en = en and ord = ord and r = m and s = s])
      case (spake data)
      let ?h = "handleSPAKE2 L kdf en (take ViewerIDLen (drop 1 data)) (drop (1 + ViewerIDLen) data) s"
      have "r \<in> hs_ids (snd ?h)" using r spake(2) by (cases ?h) (simp split: option.splits)
      with hs_ids_handle have "r \<in> insert (take ViewerIDLen (drop 1 data)) (hs_ids s)" by blast
      with spake(3) assms(1) show ?thesis by auto
    qed (use r assms(1) in \<open>simp_all add: hs_ids_quiet\<close>)
  qed (use OnRelay assms in simp)
next
  case (FinishJoin now err)
  then have "r \<in> hs_ids (confirm_finish L kdf now err s)" using assms(2) by simp
  then show ?thesis by (rule assms(1) [OF subsetD [OF hs_ids_finish]])
qed (use assms in \<open>auto simp: hs_ids_quiet hs_ids_Revoke\<close>)

lemma sharer_reachable_ids:
  assumes "sharer_reachable L kdf s" "wiping_lib L"
  shows "ids_sized s"
  using assms(1)
proof (induction rule: sharer_reachable.induct)
  case (created argon2 code rand sess)
  then have "s_viewers sess = []"
    by (auto simp: NewSession_def GenerateStreamKey_cases split: option.splits)
  then show ?case by (simp add: ids_sized_def NewSharer_def listed_def)
next
  case (acted s a)
  have "drawn_id i" if i: "i \<in> listed (sharer_act L kdf a s)" for i
  proof (cases "i \<in> listed s")
    case True
    with acted.IH show ?thesis by (simp only: ids_sized_def)
  next
    case False
    with i have "i \<in> listed (sharer_act L kdf a s) - listed s" by blast
    from act_admits [OF sharer_reachable_ok [OF acted.hyps(1) assms(2)] acted.hyps(2) this]
    obtain en :: spake_env where "GenerateViewerID (en_rand en) = Inr i" by blast
    then show ?thesis by (rule GenerateViewerID_drawn)
  qed
  moreover have "length r = ViewerIDLen" if "r \<in> hs_ids (sharer_act L kdf a s)" for r
    using that acted.IH by (intro hs_ids_act [of s r L kdf a]) (simp_all only: ids_sized_def)
  ultimately show ?case unfolding ids_sized_def by (intro conjI ballI)
qed

text \<open>Relay IDs in the sharer's map have their length and name one viewer.\<close>

lemma relay_ids:
  assumes "sharer_ok L s" "ids_sized s"
  shows "list_all (\<lambda>r. length r = ViewerIDLen) (map snd (sh_viewerIDMap s))"
    and "mget (sh_viewerIDMap s) i = Some r \<Longrightarrow> mget (sh_viewerIDMap s) j = Some r \<Longrightarrow> i = j"
proof -
  have ok: "tables_ok s" using assms(1) by (simp add: sharer_ok_def)
  then show "list_all (\<lambda>r. length r = ViewerIDLen) (map snd (sh_viewerIDMap s))"
    using assms(2) mget_in_keys
    unfolding tables_ok_def ids_sized_def list_all_iff in_state_def by metis
  assume "mget (sh_viewerIDMap s) i = Some r" "mget (sh_viewerIDMap s) j = Some r"
  then have "(i, r) \<in> set (sh_viewerIDMap s)" "(j, r) \<in> set (sh_viewerIDMap s)" by (auto dest: map_of_SomeD)
  moreover have "inj_on snd (set (sh_viewerIDMap s))" using ok by (simp add: tables_ok_def distinct_map)
  ultimately show "i = j" by (metis inj_onD snd_conv prod.inject)
qed

section \<open>A revocation\<close>

text \<open>Of the rekeys, a viewer gets from the relay the one that goes to its relay ID, and no other.\<close>

lemma addressed_other:
  "length q = ViewerIDLen \<Longrightarrow> q \<noteq> r \<Longrightarrow> addressed r (unicast_msg q m) = []"
  by (simp add: addressed_def unicast_msg_def)

lemma rekeys_none:
  assumes "list_all2 (rekey_of s k) js ms" "list_all (\<lambda>q. length q = ViewerIDLen) (map snd (sh_viewerIDMap s))"
    and "\<And>j. j \<in> set js \<Longrightarrow> mget (sh_viewerIDMap s) j \<noteq> Some r"
  shows "all_addressed r ms = []"
  using assms(1,3)
proof (induction rule: list_all2_induct)
  case (Cons j js m ms)
  obtain q p where q: "mget (sh_viewerIDMap s) j = Some q" "m = unicast_msg q (buildKeyDelivery j p)"
    using Cons.hyps(1) by (auto simp: rekey_of_def)
  have "length q = ViewerIDLen" using map_of_SomeD [OF q(1)] assms(2) by (auto simp: list_all_iff)
  moreover have "q \<noteq> r" using Cons.prems [of j] q(1) by auto
  ultimately show ?case using Cons q(2) addressed_other by simp
qed simp

lemma rekeys_one:
  assumes "list_all2 (rekey_of s k) js ms" "list_all (\<lambda>q. length q = ViewerIDLen) (map snd (sh_viewerIDMap s))"
    and "\<And>j. mget (sh_viewerIDMap s) j = Some r \<Longrightarrow> j = i" "distinct js" "i \<in> set js" "mget (sh_viewerIDMap s) i = Some r"
  shows "\<exists>p w. all_addressed r ms = [buildKeyDelivery i p] \<and> mget (s_viewers (sh_sess s)) i = Some w
    \<and> Open (auth_key_of (sh_sess s) w) (ep_Nonce p) (ep_Ciphertext p) = Inr k"
  using assms(1,4,5)
proof (induction rule: list_all2_induct)
  case (Cons j js m ms)
  obtain q p w where q: "mget (sh_viewerIDMap s) j = Some q" "m = unicast_msg q (buildKeyDelivery j p)"
    "mget (s_viewers (sh_sess s)) j = Some w"
    "Open (auth_key_of (sh_sess s) w) (ep_Nonce p) (ep_Ciphertext p) = Inr k"
    using Cons.hyps(1) by (auto simp: rekey_of_def)
  have len: "length q = ViewerIDLen" using map_of_SomeD [OF q(1)] assms(2) by (auto simp: list_all_iff)
  show ?case
  proof (cases "j = i")
    case True
    have "all_addressed r ms = []"
      using True Cons.prems(1) assms(3) by (intro rekeys_none [OF Cons.hyps(2) assms(2)]) auto
    with True q assms(6) len addressed_unicast show ?thesis by auto
  next
    case False
    with assms(3) q(1) have "q \<noteq> r" by auto
    with False Cons.IH Cons.prems q(2) len addressed_other show ?thesis by simp
  qed
qed simp

text \<open>
  C5. A revocation that \<open>Revoke\<close> reports as done takes effect across the relay. Take a run of the relay in
  which the sharer of a session sends what this call of \<open>Revoke\<close> had it send, and nothing else. A viewer of
  the sharer that is mapped and still joined at the end, and whose queue was not full at the beginning, gets
  exactly one message more than was queued for it; in its stream loop, in step with the stream so far and with the
  auth key that the session has for it, this message makes it run on with the session's new stream key, in
  step with the stream under that key, its old one wiped. The revoked viewer gets nothing in the run but what was
  queued for it before, so no message with the new key. (What a call whose sends fail leaves is a property
  of its own. The two invariants of the sharer hold in every state it can reach.)
\<close>

theorem revocation_through_relay:
  assumes sharer: "sharer_ok L s" "ids_sized s"
      "range_order (mdel i (s_viewers (sh_sess s))) ord" "range_order (mdel i (s_viewers (sh_sess s))) ord'"
    and revoked: "Revoke errs i rand ord ord' s = (None, s')" "sh_sent s' = sh_sent s @ sharer_sends q as"
    and relay: "reachable limiter rl" "runs as rl = Some rl'"
    and v: "v < length (sv_conns rl)" "fst (sv_viewers rl ! v) = q" "registered rl' v" "length (buf_of rl v) < 256"
    and j: "mget (sh_viewerIDMap s) j = Some (vc_id (sv_conns rl ! v))" "mget (s_viewers (sh_sess s)) j = Some w" "j \<noteq> i"
    and vw: "vw_viewerID vw = j" "viewer_wf vw" "vw_streamKey vw = Some a" "vw_authKey vw = Some b"
      "key_bytes (vw_mem vw) (vw_authKey vw) = auth_key_of (sh_sess s) w" "in_step old n es vw"
    and u: "u < length (sv_conns rl)" "fst (sv_viewers rl ! u) = q"
      "mget (sh_viewerIDMap s) i = Some (vc_id (sv_conns rl ! u))"
  shows "\<exists>d vw'. taken_run v as rl @ buf_of rl' v = buf_of rl v @ [d]
    \<and> stream_turn kdf now (Got d) vw = (Running, vw')
    \<and> in_step (stream_key (sh_sess s')) n es vw' \<and> all_zero (vw_mem vw' ! a)
    \<and> taken_run u as rl @ buf_of rl' u = buf_of rl u"
proof -
  have wf: "sess_wf (sh_sess s)" using sharer(1) by (rule sharer_ok_wf)
  note ids = relay_ids [OF sharer(1,2)]
  from Revoke_succeeds [OF revoked(1)] obtain bs wi where wi: "mget (s_viewers (sh_sess s)) i = Some wi"
    and r: "Revoke (\<lambda>_. None) i (Some bs) ord ord' s = (None, s')" .
  obtain ms where ms: "list_all2 (rekey_of s (go_copy 32 bs)) (reached s ord') ms"
    and rev: "Revoke (\<lambda>_. None) i (Some bs) ord ord' s =
      (None, sharer_call (ViewerRevoked i)
        (s\<lparr>sh_sess := snd (RevokeViewer (sh_sess s) i (Some bs) ord),
           sh_viewerIDMap := mdel i (sh_viewerIDMap s), sh_sent := sh_sent s @ ms\<rparr>))"
    by (rule Revoke_sends [OF wf wi sharer(3,4) refl])
  from r rev have s': "s' = sharer_call (ViewerRevoked i)
        (s\<lparr>sh_sess := snd (RevokeViewer (sh_sess s) i (Some bs) ord),
           sh_viewerIDMap := mdel i (sh_viewerIDMap s), sh_sent := sh_sent s @ ms\<rparr>)" by simp
  then have sends: "sharer_sends q as = ms" using revoked(2) by simp
  have js: "distinct (reached s ord')" "i \<notin> set (reached s ord')" "j \<in> set (reached s ord')"
    using sharer(4) j mget_in_keys [OF j(2)] by (auto simp: reached_def range_order_def)
  have "\<not> s_closed (sh_sess s)" using wf wi by (auto simp: sess_wf_def)
  then have "s_streamKey (sh_sess s) \<noteq> length (s_mem (sh_sess s))"
    using sess_wf_stream_key [OF wf] by (auto simp: key_buf_def)
  from RevokeViewer_keeps(2) [OF wf wi sharer(3) this, of bs]
  have key: "stream_key (sh_sess s') = go_copy 32 bs" by (simp add: s')
  have ne: "go_copy 32 bs \<noteq> []" by (metis length_go_copy list.size(3) zero_neq_numeral)
  from rekeys_one [OF ms ids(1) _ js(1,3) j(1)] ids(2) [OF j(1)] j(2)
  obtain p where d: "all_addressed (vc_id (sv_conns rl ! v)) ms = [buildKeyDelivery j p]"
    "Open (auth_key_of (sh_sess s) w) (ep_Nonce p) (ep_Ciphertext p) = Inr (go_copy 32 bs)" by force
  have "drawn_id j"
    using sharer(2) mget_in_keys [OF j(2)] unfolding ids_sized_def listed_def by blast
  with rekey_in_step [of vw b a p "go_copy 32 bs" old n es kdf now] vw d(2) ne
  obtain vw' where vw': "stream_turn kdf now (Got (buildKeyDelivery j p)) vw = (Running, vw')"
    "in_step (go_copy 32 bs) n es vw'" "all_zero (vw_mem vw' ! a)" by auto
  have "offered_run v as rl = [buildKeyDelivery j p]"
    using offered_run_addressed [OF relay v(1)] v(2,3) sends d(1) by simp
  then have "taken_run v as rl @ buf_of rl' v = buf_of rl v @ [buildKeyDelivery j p]"
    using runs_moves [OF relay v(1)] v(4) by (simp add: moves_def)
  moreover have "all_addressed (vc_id (sv_conns rl ! u)) ms = []"
    using js(2) ids(2) [OF u(3)] by (intro rekeys_none [OF ms ids(1)]) blast
  then have "offered_run u as rl = []" using offered_run_addressed [OF relay u(1)] u(2) sends
    by (auto dest: list_emb_Nil2)
  then have "taken_run u as rl @ buf_of rl' u = buf_of rl u"
    using runs_moves [OF relay u(1)] entries_ok_buf [OF _ u(1)] reachable_ok [OF relay(1)] by (simp add: moves_def)
  ultimately show ?thesis using vw' key by auto
qed

text \<open>
  The sample server serves two viewers of a sharer: the first, which is watching, stays; the second is
  revoked.
\<close>

abbreviation ex_id2 :: bytes where
  "ex_id2 \<equiv> [98, 97, 97, 97, 97, 97]"

definition ex_pair :: "bytes Sharer" where
  "ex_pair = ex_both
     \<lparr>sh_viewerIDMap := [(replicate 6 97, ex_id2), (replicate 6 98, ex_id)],
      sh_handshakes := [(ex_id2, ex_ctx hsComplete [0] ex_id2), (ex_id, ex_ctx hsComplete [0] ex_id)]\<rparr>"

lemma ex_pair_ok: "sharer_ok ex_spake ex_pair" "ids_sized ex_pair"
proof -
  show "sharer_ok ex_spake ex_pair"
    using ex_session_wf ex_session_clean
    by (auto simp: sharer_ok_def secrets_ok_def tables_ok_def ex_pair_def ex_both_def NewSharer_def joining_buf_def
        in_state_def ex_ctx_def spent_def ex_spake_def all_zero_def split: if_splits)
  have "drawn_id (replicate 6 97)" by code_simp
  with ex_drawn show "ids_sized ex_pair"
    by (simp add: ids_sized_def ex_pair_def ex_both_def NewSharer_def listed_def ex_session_def)
qed

definition ex_revoked :: "bytes Sharer" where
  "ex_revoked = snd (Revoke (\<lambda>_. None) (replicate 6 97) (Some [5]) [replicate 6 98] [replicate 6 98] ex_pair)"

definition ex_rekeying :: "action list" where
  "ex_rekeying = concat (map (\<lambda>m. [SharerMessage 0 ex_order m, WriterStep 0 True]) (sh_sent ex_revoked))"

lemma ex_pair_tables:
  "mget (s_viewers (sh_sess ex_pair)) (replicate 6 97) = Some (ex_viewer (replicate 6 97) 1)"
  "mget (s_viewers (sh_sess ex_pair)) (replicate 6 98) = Some (ex_viewer (replicate 6 98) 2)"
  "range_order (mdel (replicate 6 97) (s_viewers (sh_sess ex_pair))) [replicate 6 98]"
  "reached ex_pair [replicate 6 98] = [replicate 6 98]" "sh_sent ex_pair = []"
  "mget (sh_viewerIDMap ex_pair) (replicate 6 97) = Some ex_id2"
  "mget (sh_viewerIDMap ex_pair) (replicate 6 98) = Some ex_id" "sh_joining ex_pair = None"
  by (simp_all add: ex_pair_def ex_both_def NewSharer_def ex_session_def range_order_def reached_def numeral_eq_Suc)

lemma ex_revoked_sends: obtains d where "sh_sent ex_revoked = [unicast_msg ex_id d]"
proof -
  obtain ms where ms: "list_all2 (rekey_of ex_pair (go_copy 32 [5])) (reached ex_pair [replicate 6 98]) ms"
    "Revoke (\<lambda>_. None) (replicate 6 97) (Some [5]) [replicate 6 98] [replicate 6 98] ex_pair =
      (None, sharer_call (ViewerRevoked (replicate 6 97))
        (ex_pair\<lparr>sh_sess := snd (RevokeViewer (sh_sess ex_pair) (replicate 6 97) (Some [5]) [replicate 6 98]),
           sh_viewerIDMap := mdel (replicate 6 97) (sh_viewerIDMap ex_pair), sh_sent := sh_sent ex_pair @ ms\<rparr>))"
    by (rule Revoke_sends [OF sharer_ok_wf [OF ex_pair_ok(1)] ex_pair_tables(1,3,3) refl, of "[5]"])
  then have "sh_sent ex_revoked = ms" by (simp add: ex_revoked_def ex_pair_tables(5))
  moreover obtain m where "ms = [m]" "rekey_of ex_pair (go_copy 32 [5]) (replicate 6 98) m"
    using ms(1) unfolding ex_pair_tables(4) by (auto simp: list_all2_Cons1)
  ultimately show ?thesis using that by (auto simp: rekey_of_def ex_pair_tables(7))
qed

theorem revocation_through_relay_witness:
  "\<exists>d vw'. taken_run 0 ex_rekeying ex_relay = [d] \<and> stream_turn ex_kdf 0 (Got d) ex_watching = (Running, vw')
    \<and> in_step (stream_key (sh_sess ex_revoked)) 5 [] vw' \<and> all_zero (vw_mem vw' ! 0)
    \<and> taken_run 1 ex_rekeying ex_relay = []"
proof -
  obtain d where d: "sh_sent ex_revoked = [unicast_msg ex_id d]" by (rule ex_revoked_sends)
  have "\<exists>rl. runs ex_rekeying ex_relay = Some rl \<and> registered rl 0 \<and> buf_of rl 0 = []"
    unfolding ex_rekeying_def d
    by (simp add: unicast_msg_def ex_relay_def run_simps message_simps registered_def entry_at_def)
  then obtain rl where rl: "runs ex_rekeying ex_relay = Some rl" "registered rl 0" "buf_of rl 0 = []"
    by blast
  have v: "0 < length (sv_conns ex_relay)" "1 < length (sv_conns ex_relay)" "fst (sv_viewers ex_relay ! 0) = 0"
    "fst (sv_viewers ex_relay ! 1) = 0" "buf_of ex_relay 0 = []"
    "buf_of ex_relay 1 = []" "vc_id (sv_conns ex_relay ! 0) = ex_id"
    "vc_id (sv_conns ex_relay ! 1) = ex_id2"
    by (simp_all add: ex_relay_def make_chan_def)
  have sends: "sh_sent ex_revoked = sh_sent ex_pair @ sharer_sends 0 ex_rekeying"
    by (simp add: ex_rekeying_def d sharer_sends_def ex_pair_tables(5))
  have vw: "vw_viewerID ex_watching = replicate 6 98" "vw_streamKey ex_watching = Some 0" "vw_authKey ex_watching = Some 1"
    "key_bytes (vw_mem ex_watching) (vw_authKey ex_watching) = auth_key_of (sh_sess ex_pair) (ex_viewer (replicate 6 98) 2)"
    by (simp_all add: ex_watching_def NewViewer_def key_bytes_def auth_key_of_def ex_viewer_def ex_pair_def ex_both_def
        NewSharer_def ex_session_def)
  have room: "length (buf_of ex_relay 0) < 256" by (simp add: v(5))
  have rev: "Revoke (\<lambda>_. None) (replicate 6 97) (Some [5]) [replicate 6 98] [replicate 6 98] ex_pair = (None, ex_revoked)"
    by (rule Revoke_sends [OF sharer_ok_wf [OF ex_pair_ok(1)] ex_pair_tables(1,3,3) refl, of "[5]"])
      (simp add: ex_revoked_def)
  show ?thesis
    using revocation_through_relay [OF ex_pair_ok ex_pair_tables(3,3) rev sends ex_relay_reachable rl(1)
          v(1,3) rl(2) room ex_pair_tables(7) [folded v(7)] ex_pair_tables(2) _ vw(1) ex_watching_wf vw(2-4)
          ex_watching_step [of "[]"] v(2,4) ex_pair_tables(6) [folded v(8)], of ex_kdf 0] v(5,6) rl(3)
    by (auto simp: numeral_eq_Suc)
qed

section \<open>A departure\<close>

text \<open>
  C3. When the connection of a joined viewer ends, the sharer forgets that viewer and nobody else. The relay
  takes it out of its session, writes one message, the viewer-gone notice with the viewer's relay ID, to the
  sharer of that session, and writes nothing else to anybody; the connection, the queue and the membership
  of every other viewer, of any session, are as they were. The sharer, unless a handshake is in its last step, when it is fed with what was written to it,
  unlists and unmaps the viewer that had joined under that relay ID, zeroes its auth key, reports it once
  and sends nothing. (The two invariants of the sharer hold in every state it can reach.)
\<close>

theorem departure_through_relay:
  assumes relay: "reachable limiter rl" "ready (ViewerExit v) rl" "registered rl v" "act (ViewerExit v) rl = Inr rl'"
    and sharer: "sharer_ok L s" "ids_sized s" "sh_joining s = None"
      "mget (sh_viewerIDMap s) j = Some (vc_id (sv_conns rl ! v))" "mget (s_viewers (sh_sess s)) j = Some w"
      "range_order (sh_viewerIDMap s) ord"
  shows "let c = rs_sharer (sv_sess rl ! fst (sv_viewers rl ! v));
      s' = fold (\<lambda>m. sharer_act L kdf (OnRelay en ord (Got m))) (written c rl rl') s
    in new_log rl rl' = [WriteMsg c (MsgTypeControl # CtrlViewerDisconnected # vc_id (sv_conns rl ! v))]
      \<and> listed s' = listed s - {j} \<and> sh_viewerIDMap s' = mdel j (sh_viewerIDMap s)
      \<and> all_zero (s_mem (sh_sess s') ! v_authKey w) \<and> sh_sent s' = sh_sent s
      \<and> sh_probes s' = sh_probes s @ [ViewerLeft j]
      \<and> \<not> registered rl' v
      \<and> (\<forall>u < length (sv_conns rl). u \<noteq> v \<longrightarrow> registered rl' u = registered rl u
          \<and> sv_conns rl' ! u = sv_conns rl ! u \<and> sv_viewers rl' ! u = sv_viewers rl ! u
          \<and> sv_writers rl' ! u = sv_writers rl ! u)"
proof -
  have ok: "entries_ok rl" "ids_ok rl" using reachable_ok [OF relay(1)] by simp_all
  have v: "v < length (sv_conns rl)" using ready_bounds(2) [OF relay(1,2)] by simp
  note up = registered_session_open [OF relay(1) v relay(3)]
  let ?r = "fst (sv_viewers rl ! v)" and ?i = "vc_id (sv_conns rl ! v)"
  have rl': "rl' = set_viewer_pc v VwDone (emit [WriteMsg (rs_sharer (sv_sess rl ! ?r))
      (MsgTypeControl # CtrlViewerDisconnected # ?i)] (drop_viewer v rl))"
    using viewer_exit_result [OF ok relay(2)] relay(3,4) up by (simp add: viewer_gone_def Let_def)
  have "sv_log (drop_viewer v rl) = sv_log rl" by (simp add: drop_viewer_def Let_def set_sess_def)
  then have log: "new_log rl rl' = [WriteMsg (rs_sharer (sv_sess rl ! ?r)) (MsgTypeControl # CtrlViewerDisconnected # ?i)]"
    by (simp add: rl' new_log_def emit_def set_viewer_pc_def)
  then have wr: "written (rs_sharer (sv_sess rl ! ?r)) rl rl' = [MsgTypeControl # CtrlViewerDisconnected # ?i]"
    by (simp add: written_def)
  have same: "sv_conns rl' ! u = sv_conns rl ! u \<and> sv_viewers rl' ! u = sv_viewers rl ! u
      \<and> sv_writers rl' ! u = sv_writers rl ! u" if "u \<noteq> v" for u
    using that by (simp add: rl' set_viewer_pc_def emit_def nth_drop_viewer [OF v])
  have fst_same: "fst (sv_viewers rl' ! u) = fst (sv_viewers rl ! u)" for u
    using v ok(1) by (cases "u = v") (simp_all add: rl' set_viewer_pc_def emit_def entries_ok_def)
  have reg: "registered rl' u = registered (drop_viewer v rl) u" for u
    unfolding registered_def fst_same by (simp add: rl' set_viewer_pc_def emit_def entry_at_def)
  have "\<not> registered rl' v" using not_registered_dropped [OF up(1) v] by (simp add: reg)
  moreover have "registered rl' u = registered rl u" if "u < length (sv_conns rl)" "u \<noteq> v" for u
    unfolding reg using that relay(3) up(1) by (auto simp: registered_def entry_at_drop_viewer nth_drop_viewer [OF v])
  moreover have "drawn_id j"
    using sharer(2) mget_in_keys [OF sharer(5)] unfolding ids_sized_def listed_def by blast
  then have "j \<noteq> []" by (auto simp: drawn_id_def)
  then have "let s' = handleViewerDisconnect ?i ord s
    in listed s' = listed s - {j} \<and> sh_viewerIDMap s' = mdel j (sh_viewerIDMap s)
      \<and> all_zero (s_mem (sh_sess s') ! v_authKey w) \<and> sh_sent s' = sh_sent s
      \<and> sh_probes s' = sh_probes s @ [ViewerLeft j] \<and> sh_handshakes s' = sh_handshakes s
      \<and> handleViewerDisconnect [] ord s = s"
    using relay_ids(1) [OF sharer(1,2)]
    by (intro disconnect_removes_its_viewer [OF sharer(1,4) _ sharer(5,6)])
      (auto simp: list_all_iff)
  moreover have "sharer_act L kdf (OnRelay en ord (Got (MsgTypeControl # CtrlViewerDisconnected # ?i))) s
      = handleViewerDisconnect ?i ord s"
    using up(4) sharer(3) by (simp add: relay_turn_def)
  ultimately show ?thesis using same log by (simp add: Let_def wr del: sharer_act.simps)
qed

theorem departure_through_relay_witness:
  "let s' = fold (\<lambda>m. sharer_act ex_spake ex_kdf (OnRelay ex_env [replicate 6 97, replicate 6 98] (Got m)))
      (written 0 ex_relay (case act (ViewerExit 0) ex_relay of Inr rl' \<Rightarrow> rl' | Inl p \<Rightarrow> ex_relay)) ex_pair
    in listed s' = {replicate 6 97} \<and> all_zero (s_mem (sh_sess s') ! 2) \<and> sh_sent s' = []
      \<and> sh_probes s' = [ViewerLeft (replicate 6 98)]"
proof -
  have v: "ready (ViewerExit 0) ex_relay" "registered ex_relay 0" "rs_sharer (sv_sess ex_relay ! fst (sv_viewers ex_relay ! 0)) = 0"
    "vc_id (sv_conns ex_relay ! 0) = ex_id"
    by (simp_all add: ex_relay_def registered_def entry_at_def viewers_of_def)
  obtain rl' where rl': "act (ViewerExit 0) ex_relay = Inr rl'"
    using viewer_exit_result [of ex_relay 0] reachable_ok [OF ex_relay_reachable] v(1) by auto
  have ord: "range_order (sh_viewerIDMap ex_pair) [replicate 6 97, replicate 6 98]"
    by (simp add: ex_pair_def range_order_def)
  have "listed ex_pair = {replicate 6 97, replicate 6 98}" "sh_probes ex_pair = []"
    by (simp_all add: listed_def ex_pair_def ex_both_def NewSharer_def ex_session_def)
  moreover have "{replicate 6 97, replicate 6 98} - {replicate 6 98} = {replicate 6 (97 :: byte)}"
    by (simp only: insert_Diff_if) (simp add: numeral_eq_Suc)
  moreover note departure_through_relay [OF ex_relay_reachable v(1,2) rl' ex_pair_ok ex_pair_tables(8)
      ex_pair_tables(7) [folded v(4)] ex_pair_tables(2) ord, of ex_kdf ex_env, unfolded v(3) Let_def]
  ultimately show ?thesis
    unfolding Let_def rl' sum.case ex_pair_tables(5) by (simp add: ex_viewer_def del: sharer_act.simps)
qed

end
