(* ===== verification/Session_Spec.thy ===== *)
theory Session_Spec
  imports Session_State
begin

text \<open>
  What the sharer's session promises, without buffers, nonces and ciphertexts: a key group.
  The group has a current key, or none once it is closed, a set of members with the keys they
  negotiated, and a set of revoked names; what it hands out are sealed messages, pairs of a key
  and a content. The session of \<open>Session_State\<close> is a refinement of the group: an abstraction
  function maps its states to group states, every method commutes with it, and every payload
  and frame that leaves the session opens to the message that the group hands out.
\<close>

section \<open>Simulation between two deterministic machines\<close>

text \<open>
  A machine answers each request with a reply and a new state. One machine refines another when
  an abstraction function commutes with its steps and relates the replies, wherever an
  invariant and a side condition on the request hold; then so do their runs.
\<close>

primrec machine_run :: "('s \<Rightarrow> 'q \<Rightarrow> 'r \<times> 's) \<Rightarrow> 's \<Rightarrow> 'q list \<Rightarrow> 'r list \<times> 's" where
  "machine_run call s [] = ([], s)"
| "machine_run call s (q # qs) =
     (fst (call s q) # fst (machine_run call (snd (call s q)) qs),
      snd (machine_run call (snd (call s q)) qs))"

primrec requests_ok :: "('s \<Rightarrow> 'q \<Rightarrow> 'r \<times> 's) \<Rightarrow> ('s \<Rightarrow> 'q \<Rightarrow> bool) \<Rightarrow> 's \<Rightarrow> 'q list \<Rightarrow> bool" where
  "requests_ok call P s [] = True"
| "requests_ok call P s (q # qs) = (P s q \<and> requests_ok call P (snd (call s q)) qs)"

locale simulation =
  fixes call :: "'s \<Rightarrow> 'q \<Rightarrow> 'r \<times> 's"
    and spec :: "'t \<Rightarrow> 'q \<Rightarrow> 'u \<times> 't"
    and abs :: "'s \<Rightarrow> 't"
    and inv :: "'s \<Rightarrow> bool"
    and ok :: "'s \<Rightarrow> 'q \<Rightarrow> bool"
    and rel :: "'r \<Rightarrow> 'u \<Rightarrow> bool"
  assumes inv_step: "inv s \<Longrightarrow> ok s q \<Longrightarrow> inv (snd (call s q))"
    and abs_step: "inv s \<Longrightarrow> ok s q \<Longrightarrow> abs (snd (call s q)) = snd (spec (abs s) q)"
    and rel_step: "inv s \<Longrightarrow> ok s q \<Longrightarrow> rel (fst (call s q)) (fst (spec (abs s) q))"
begin

lemma inv_run: "inv s \<Longrightarrow> requests_ok call ok s qs \<Longrightarrow> inv (snd (machine_run call s qs))"
  by (induction qs arbitrary: s) (simp_all add: inv_step)

lemma abs_run:
  "inv s \<Longrightarrow> requests_ok call ok s qs
    \<Longrightarrow> abs (snd (machine_run call s qs)) = snd (machine_run spec (abs s) qs)"
  by (induction qs arbitrary: s) (simp_all add: inv_step abs_step)

lemma rel_run:
  "inv s \<Longrightarrow> requests_ok call ok s qs
    \<Longrightarrow> list_all2 rel (fst (machine_run call s qs)) (fst (machine_run spec (abs s) qs))"
  by (induction qs arbitrary: s) (simp_all add: inv_step rel_step flip: abs_step)

end

section \<open>The key group\<close>

datatype sealed = Sealed (seal_key: bytes) (seal_content: bytes)

record key_group =
  g_key :: "bytes option"
  g_auth :: "bytes \<Rightarrow> bytes option"
  g_revoked :: "bytes set"

datatype group_reply =
    G_refused
  | G_delivered "bytes \<Rightarrow> sealed option"
  | G_framed u64 sealed
  | G_silent

definition group_join :: "bytes \<Rightarrow> bytes \<Rightarrow> bytes \<Rightarrow> key_group \<Rightarrow> group_reply \<times> key_group" where
  "group_join k i ak g = (G_delivered [i \<mapsto> Sealed ak k], g\<lparr>g_auth := (g_auth g)(i \<mapsto> ak)\<rparr>)"

definition group_expel :: "bytes \<Rightarrow> key_group \<Rightarrow> key_group" where
  "group_expel i g = g\<lparr>g_auth := (g_auth g)(i := None), g_revoked := insert i (g_revoked g)\<rparr>"

definition group_rekey :: "bytes \<Rightarrow> key_group \<Rightarrow> group_reply \<times> key_group" where
  "group_rekey k g = (G_delivered (\<lambda>j. map_option (\<lambda>a. Sealed a k) (g_auth g j)), g\<lparr>g_key := Some k\<rparr>)"

text \<open>
  One request. A revocation for which no random key can be drawn is refused, but the member is
  expelled all the same and the others keep the old key.
\<close>

fun group_call :: "kdf \<Rightarrow> key_group \<Rightarrow> session_op \<Rightarrow> group_reply \<times> key_group" where
  "group_call kdf g (Op_Register ak ct rand now) =
     (case (g_key g, GenerateViewerID rand) of
        (Some k, Inr i) \<Rightarrow> if length ak = 32 then group_join k i ak g else (G_refused, g)
      | _ \<Rightarrow> (G_refused, g))"
| "group_call kdf g (Op_Revoke i rand ord) =
     (if g_key g = None \<or> g_auth g i = None then (G_refused, g)
      else case rand of
        None \<Rightarrow> (G_refused, group_expel i g)
      | Some bs \<Rightarrow> group_rekey (go_copy 32 bs) (group_expel i g))"
| "group_call kdf g (Op_Remove i) = (G_silent, g\<lparr>g_auth := (g_auth g)(i := None)\<rparr>)"
| "group_call kdf g Op_NextNonce = (G_silent, g)"
| "group_call kdf g (Op_Encrypt p now) =
     (case Option.bind (g_key g) (\<lambda>k. epoch_key kdf k (epoch_at now)) of
        None \<Rightarrow> (G_refused, g)
      | Some ek \<Rightarrow> (G_framed (epoch_at now) (Sealed ek p), g))"
| "group_call kdf g Op_Close = (G_silent, g\<lparr>g_key := None, g_auth := (\<lambda>_. None)\<rparr>)"

section \<open>The session as a machine, and its abstraction\<close>

datatype sess_reply =
    Refused session_error
  | Delivered "(bytes, EncryptedPayload) gomap"
  | Framed Frame
  | Drew bytes
  | Silent

fun sess_call :: "kdf \<Rightarrow> session \<Rightarrow> session_op \<Rightarrow> sess_reply \<times> session" where
  "sess_call kdf s (Op_Register ak ct rand now) =
     (case RegisterViewer s ak ct rand now of
        (Inl e, s') \<Rightarrow> (Refused e, s')
      | (Inr (info, enc), s') \<Rightarrow> (Delivered [(vi_ID info, enc)], s'))"
| "sess_call kdf s (Op_Revoke i rand ord) =
     (case RevokeViewer s i rand ord of
        (Inl e, s') \<Rightarrow> (Refused e, s') | (Inr rekeys, s') \<Rightarrow> (Delivered rekeys, s'))"
| "sess_call kdf s (Op_Remove i) = (Silent, RemoveViewer s i)"
| "sess_call kdf s Op_NextNonce = (case NextNonce s of (n, s') \<Rightarrow> (Drew n, s'))"
| "sess_call kdf s (Op_Encrypt p now) =
     (case EncryptFrame kdf s p now of
        (Inl e, s') \<Rightarrow> (Refused e, s') | (Inr f, s') \<Rightarrow> (Framed f, s'))"
| "sess_call kdf s Op_Close = (Silent, Close s)"

definition abs_session :: "session \<Rightarrow> key_group" where
  "abs_session s =
     \<lparr>g_key = (if s_closed s then None else Some (stream_key s)),
      g_auth = (\<lambda>i. map_option (auth_key_of s) (mget (s_viewers s) i)),
      g_revoked = {i. WasRevoked s i}\<rparr>"

fun opens_to :: "EncryptedPayload \<Rightarrow> sealed \<Rightarrow> bool" where
  "opens_to p (Sealed k c) = (Open k (ep_Nonce p) (ep_Ciphertext p) = Inr c)"

fun frame_opens_to :: "Frame \<Rightarrow> sealed \<Rightarrow> bool" where
  "frame_opens_to f (Sealed k c) = (Open k (f_nonce f) (f_ciphertext f) = Inr c)"

fun reply_rel :: "sess_reply \<Rightarrow> group_reply \<Rightarrow> bool" where
  "reply_rel (Refused e) G_refused = True"
| "reply_rel (Delivered m) (G_delivered d) = (\<forall>i. rel_option opens_to (mget m i) (d i))"
| "reply_rel (Framed f) (G_framed e c) = (f_epoch f = e \<and> frame_opens_to f c)"
| "reply_rel (Drew n) G_silent = True"
| "reply_rel Silent G_silent = True"
| "reply_rel _ _ = False"

section \<open>The refinement\<close>

lemma snd_sess_call [simp]: "snd (sess_call kdf s op) = snd (sess_step kdf s op)"
  by (cases op) (simp_all split: prod.split sum.split)

lemma abs_session_simps [simp]:
  "g_key (abs_session s) = (if s_closed s then None else Some (stream_key s))"
  "g_auth (abs_session s) i = map_option (auth_key_of s) (mget (s_viewers s) i)"
  "g_revoked (abs_session s) = {i. WasRevoked s i}"
  by (simp_all add: abs_session_def)

lemma key_group_eqI:
  "g_key g = g_key h \<Longrightarrow> (\<And>i. g_auth g i = g_auth h i) \<Longrightarrow> g_revoked g = g_revoked h
    \<Longrightarrow> g = (h :: key_group)"
  by (cases g, cases h) auto

text \<open>
  Two sessions have the same abstraction when they agree on the stream key, the auth keys of
  the listed viewers and the revoked names.
\<close>

lemma abs_session_eqI:
  assumes "s_closed s' = s_closed s" "\<not> s_closed s \<Longrightarrow> stream_key s' = stream_key s"
    and "\<And>i. map_option (auth_key_of s') (mget (s_viewers s') i) = map_option (auth_key_of s) (mget (s_viewers s) i)"
    and "s_revokedIDs s' = s_revokedIDs s"
  shows "abs_session s' = abs_session s"
  by (rule key_group_eqI) (use assms in \<open>simp_all add: WasRevoked_def\<close>)

lemma viewer_key_lt:
  "sess_wf s \<Longrightarrow> mget (s_viewers s) i = Some v \<Longrightarrow> v_authKey v < length (s_mem s)"
  using sess_wf_viewer [OF _ map_of_SomeD] by (auto simp: key_buf_def)

lemma stream_key_lt: "sess_wf s \<Longrightarrow> \<not> s_closed s \<Longrightarrow> s_streamKey s < length (s_mem s)"
  using sess_wf_stream_key [of s] by (auto simp: key_buf_def)

lemma abs_session_append [simp]:
  "sess_wf s \<Longrightarrow> abs_session (s\<lparr>s_mem := s_mem s @ bs, s_nonce := n\<rparr>) = abs_session s"
  "sess_wf s \<Longrightarrow> abs_session (s\<lparr>s_mem := s_mem s @ bs\<rparr>) = abs_session s"
  by (rule abs_session_eqI;
      auto simp: stream_key_def auth_key_of_def nth_append viewer_key_lt stream_key_lt
        intro!: map_option_cong)+

lemma abs_session_nonce [simp]: "abs_session (s\<lparr>s_nonce := n\<rparr>) = abs_session s"
  by (rule abs_session_eqI) (simp_all add: stream_key_def auth_key_of_def [abs_def])

definition op_refines :: "kdf \<Rightarrow> session \<Rightarrow> session_op \<Rightarrow> bool" where
  "op_refines kdf s op \<longleftrightarrow>
     abs_session (snd (sess_step kdf s op)) = snd (group_call kdf (abs_session s) op)
     \<and> reply_rel (fst (sess_call kdf s op)) (fst (group_call kdf (abs_session s) op))"

lemma abs_session_register:
  assumes "sess_wf s" "\<not> s_closed s"
  shows "abs_session (s\<lparr>s_mem := s_mem s @ [ak], s_nonce := n,
      s_viewers := mput i \<lparr>v_id = i, v_authKey = length (s_mem s), v_joinTime = now, v_clientType = ct\<rparr>
        (s_viewers s)\<rparr>)
    = (abs_session s)\<lparr>g_auth := (g_auth (abs_session s))(i \<mapsto> ak)\<rparr>"
  by (rule key_group_eqI)
    (use assms in \<open>auto simp: stream_key_def auth_key_of_def nth_append viewer_key_lt stream_key_lt
      WasRevoked_def intro!: map_option_cong\<close>)

lemma register_refines:
  assumes wf: "sess_wf s"
  shows "op_refines kdf s (Op_Register ak ct rand now)"
  using wf
proof (cases rule: RegisterViewer_cases [where ak = ak and ct = ct and rand = rand and now = now])
  case (ok i)
  with wf show ?thesis
    by (simp add: op_refines_def Let_def group_join_def abs_session_register Open_cases)
qed (use wf in \<open>simp_all add: op_refines_def split: sum.split\<close>)

lemma abs_revoked_state:
  assumes wf: "sess_wf s" and get: "mget (s_viewers s) i = Some v"
  shows "abs_session (revoked_state s i v) = group_expel i (abs_session s)"
proof -
  have op: "\<not> s_closed s" using assms by (auto simp: sess_wf_def)
  have "v_authKey v \<noteq> s_streamKey s"
    using sess_wfD(3) [OF wf] op map_of_SomeD [OF get] by (force simp: live_def)
  then have "stream_key (revoked_state s i v) = stream_key s"
    by (simp add: stream_key_def revoked_state_def)
  moreover have "auth_key_of (revoked_state s i v) w = auth_key_of s w"
    if "j \<noteq> i" "mget (s_viewers s) j = Some w" for j w
  proof -
    from that have "mget (mdel i (s_viewers s)) j = Some w" by simp
    from other_auth_key_addr [OF wf get map_of_SomeD [OF this]] show ?thesis
      by (simp add: auth_key_of_def revoked_state_def)
  qed
  ultimately show ?thesis
    by (intro key_group_eqI)
      (auto simp: revoked_state_def group_expel_def WasRevoked_def intro!: map_option_cong)
qed

lemma abs_rekeyed:
  assumes wf: "sess_wf s" and op: "\<not> s_closed s"
  shows "abs_session (rekeyed s b n) = (abs_session s)\<lparr>g_key := Some b\<rparr>"
proof -
  have "auth_key_of (rekeyed s b n) v = auth_key_of s v" if "mget (s_viewers s) i = Some v" for i v
  proof -
    have "v_authKey v \<noteq> s_streamKey s"
      using sess_wfD(3) [OF wf] op map_of_SomeD [OF that] by (force simp: live_def)
    with viewer_key_lt [OF wf that] show ?thesis
      by (simp add: auth_key_of_def rekeyed_def nth_append)
  qed
  then show ?thesis
    using op stream_key_lt [OF wf op]
    by (intro key_group_eqI)
      (auto simp: rekeyed_def stream_key_def nth_append WasRevoked_def intro!: map_option_cong)
qed

lemma revoke_refines:
  assumes wf: "sess_wf s" and ord: "range_order (mdel i (s_viewers s)) ord"
  shows "op_refines kdf s (Op_Revoke i rand ord)"
  using wf
proof (cases rule: RevokeViewer_cases [where i = i and rand = rand and ord = ord])
  case (no_rand v)
  have "sess_wf (revoked_state s i v)" using wf by (rule sess_wf_revoked_state)
  with no_rand show ?thesis
    by (simp add: op_refines_def abs_revoked_state [OF wf])
next
  case (found v bs)
  let ?r = "go_range (mdel i (s_viewers s)) ord" and ?k = "go_copy 32 bs"
  let ?p = "rekey_payloads (s_mem s) ?k ?r (s_nonce s)"
  have op: "\<not> s_closed (revoked_state s i v)" using found by (simp add: revoked_state_def)
  have others: "rekeys_others s i ?p ?k" by (rule rekey_payloads_others [OF wf ord])
  have dom: "mget ?p j = None \<longleftrightarrow> mget (mdel i (s_viewers s)) j = None" for j
    using keys_rekeys [OF ord, of "s_mem s" ?k "s_nonce s"] by (simp add: mget_None_iff del: mget_mdel)
  have "rel_option opens_to (mget ?p j)
      (map_option (\<lambda>a. Sealed a ?k) (g_auth (group_expel i (abs_session s)) j))" for j
  proof (cases "mget ?p j")
    case None
    with dom [of j] show ?thesis by (auto simp: group_expel_def)
  next
    case (Some p)
    with others obtain w where "mget (s_viewers s) j = Some w"
      "Open (auth_key_of s w) (ep_Nonce p) (ep_Ciphertext p) = Inr ?k"
      unfolding rekeys_others_def by blast
    moreover have "j \<noteq> i" using Some dom [of j] by auto
    ultimately show ?thesis using Some by (simp add: group_expel_def)
  qed
  then show ?thesis
    using found RevokeViewer_rotates [OF wf found(2) ord, of bs] op
    by (simp add: op_refines_def group_rekey_def abs_rekeyed sess_wf_revoked_state [OF wf]
        abs_revoked_state [OF wf found(2)])
qed (use wf in \<open>simp_all add: op_refines_def\<close>)

lemma remove_refines:
  assumes wf: "sess_wf s"
  shows "op_refines kdf s (Op_Remove i)"
proof (cases "mget (s_viewers s) i")
  case None
  then have "(g_auth (abs_session s))(i := None) = g_auth (abs_session s)" by auto
  then show ?thesis
    using None by (auto simp: op_refines_def RemoveViewer_def intro: key_group_eqI)
next
  case (Some v)
  have "abs_session (revoked_state s i v) = group_expel i (abs_session s)"
    by (rule abs_revoked_state [OF wf Some])
  then have "abs_session (RemoveViewer s i) = (abs_session s)\<lparr>g_auth := (g_auth (abs_session s))(i := None)\<rparr>"
    using Some
    by (intro key_group_eqI)
      (auto simp: RemoveViewer_def revoked_state_def group_expel_def abs_session_def stream_key_def
        auth_key_of_def [abs_def] WasRevoked_def dest!: arg_cong [where f = g_key] fun_cong
        dest: arg_cong [where f = g_auth] split: if_splits)
  then show ?thesis by (simp add: op_refines_def)
qed

lemma encrypt_refines:
  assumes wf: "sess_wf s"
  shows "op_refines kdf s (Op_Encrypt p now)"
proof (cases "s_closed s")
  case True
  then show ?thesis by (simp add: op_refines_def EncryptFrame_closed)
next
  case op: False
  have "abs_session (s\<lparr>s_mem := zero_at (length (s_mem s)) (s_mem s @ [ek]), s_nonce := n\<rparr>)
      = abs_session s" for ek n
    by (rule abs_session_eqI)
      (use wf op in \<open>auto simp: stream_key_def auth_key_of_def nth_append viewer_key_lt stream_key_lt
        intro!: map_option_cong dest: viewer_key_lt stream_key_lt\<close>)
  with op wf show ?thesis
    by (auto simp: op_refines_def EncryptFrame_open Open_cases length_epoch_key split: option.split)
qed

lemma close_refines: "sess_wf s \<Longrightarrow> op_refines kdf s Op_Close"
  by (auto simp: op_refines_def Close_def WasRevoked_def sess_wf_def intro!: key_group_eqI)

interpretation session_group: simulation "sess_call kdf" "group_call kdf" abs_session sess_wf
  op_range_ok reply_rel
proof
  fix s op assume "sess_wf s" "op_range_ok s op"
  then show "sess_wf (snd (sess_call kdf s op))" by (simp add: sess_wf_step)
next
  fix s op assume asm: "sess_wf s" "op_range_ok s op"
  then have "op_refines kdf s op"
  proof (cases op)
    case Op_NextNonce
    then show ?thesis by (simp add: op_refines_def NextNonce_eq)
  qed (simp_all add: register_refines revoke_refines remove_refines encrypt_refines close_refines)
  then show "abs_session (snd (sess_call kdf s op)) = snd (group_call kdf (abs_session s) op)"
    and "reply_rel (fst (sess_call kdf s op)) (fst (group_call kdf (abs_session s) op))"
    by (simp_all add: op_refines_def)
qed

section \<open>Properties\<close>

text \<open>
  C6. The session refines the key group. Over any sequence of method calls, errors included,
  the abstraction of the session's state (its current stream key, the auth key retained for
  each listed viewer, the revoked names) is the state of the group, and the replies agree: the
  session refuses when the group does, the payloads it returns are for the members that
  the group addresses and open, under the key that the group seals with, to the content that the
  group sends, and so does every frame, for the group's epoch.
\<close>

theorem session_refines_key_group:
  assumes "sess_wf s" and "requests_ok (sess_call kdf) op_range_ok s ops"
  shows "abs_session (snd (machine_run (sess_call kdf) s ops))
      = snd (machine_run (group_call kdf) (abs_session s) ops)
    \<and> list_all2 reply_rel (fst (machine_run (sess_call kdf) s ops))
        (fst (machine_run (group_call kdf) (abs_session s) ops))"
  using session_group.abs_run [OF assms] session_group.rel_run [OF assms] by (rule conjI)

theorem session_refines_key_group_witness:
  "abs_session (snd (machine_run (sess_call ex_kdf) ex_session
       [Op_Revoke (replicate 6 97) (Some [1]) [replicate 6 98], Op_Encrypt [1, 2] 0]))
     = snd (machine_run (group_call ex_kdf) (abs_session ex_session)
         [Op_Revoke (replicate 6 97) (Some [1]) [replicate 6 98], Op_Encrypt [1, 2] 0])"
proof -
  have "requests_ok (sess_call ex_kdf) op_range_ok ex_session
      [Op_Revoke (replicate 6 97) (Some [1]) [replicate 6 98], Op_Encrypt [1, 2] 0]"
    by (simp add: ex_session_def range_order_def numeral_eq_Suc)
  from session_refines_key_group [OF ex_session_wf this] show ?thesis ..
qed

text \<open>
  In the group, whatever is delivered is the key the group has afterwards, sealed for the key the
  addressee has afterwards.
\<close>

lemma group_delivers_current_key:
  assumes "fst (group_call kdf g op) = G_delivered d" "d i = Some m"
  shows "g_auth (snd (group_call kdf g op)) i = Some (seal_key m)
    \<and> g_key (snd (group_call kdf g op)) = Some (seal_content m)"
  using assms
  by (cases op) (auto simp: group_join_def group_rekey_def split: option.splits sum.splits if_splits)

text \<open>
  Whatever the session delivers to a viewer is current. Every payload that any method of a
  well-formed session returns is for a viewer that is listed afterwards, and opens, under the
  auth key retained for that viewer, to the stream key that the session has afterwards: no
  method hands out a stale key, a key for a revoked viewer, or a payload that the
  viewer cannot open.
\<close>

theorem deliveries_are_current:
  assumes "sess_wf s" and "op_range_ok s op" and "fst (sess_call kdf s op) = Delivered m"
    and "mget m i = Some p"
  shows "\<exists>v. mget (s_viewers (snd (sess_call kdf s op))) i = Some v
    \<and> Open (auth_key_of (snd (sess_call kdf s op)) v) (ep_Nonce p) (ep_Ciphertext p)
        = Inr (stream_key (snd (sess_call kdf s op)))"
proof -
  let ?g = "group_call kdf (abs_session s) op" and ?s = "snd (sess_call kdf s op)"
  have "reply_rel (fst (sess_call kdf s op)) (fst ?g)" and abs: "abs_session ?s = snd ?g"
    using assms(1,2) by (rule session_group.rel_step, rule session_group.abs_step)
  with assms(3) obtain d where d: "fst ?g = G_delivered d" "rel_option opens_to (mget m i) (d i)"
    by (cases "fst ?g") auto
  with assms(4) obtain k c where m: "d i = Some (Sealed k c)"
    "Open k (ep_Nonce p) (ep_Ciphertext p) = Inr c"
    by (auto simp: option_rel_Some1 elim: opens_to.elims)
  from group_delivers_current_key [OF d(1) m(1)] m(2) abs [symmetric] show ?thesis
    by (auto split: if_splits)
qed

theorem deliveries_are_current_witness:
  "case sess_call ex_kdf ex_session (Op_Revoke (replicate 6 97) (Some [1]) [replicate 6 98]) of
     (r, s') \<Rightarrow> \<exists>(p :: EncryptedPayload) v. mget (s_viewers s') (replicate 6 98) = Some v
       \<and> Open (auth_key_of s' v) (ep_Nonce p) (ep_Ciphertext p) = Inr (stream_key s')"
proof -
  let ?op = "Op_Revoke (replicate 6 97) (Some [1]) [replicate 6 98]"
  have get: "mget (s_viewers ex_session) (replicate 6 97) = Some (ex_viewer (replicate 6 97) 1)"
    by (simp add: ex_session_def)
  have ord: "range_order (mdel (replicate 6 97) (s_viewers ex_session)) [replicate 6 98]"
    by (simp add: ex_session_def range_order_def numeral_eq_Suc)
  obtain m s' where c: "sess_call ex_kdf ex_session ?op = (Delivered m, s')"
    and "fst ` set m = fst ` set (mdel (replicate 6 97) (s_viewers ex_session))"
    using RevokeViewer_rotates [OF ex_session_wf get ord, of "[1]"] keys_rekeys [OF ord] by simp
  then have "replicate 6 98 \<in> fst ` set m" by (simp add: ex_session_def numeral_eq_Suc)
  then obtain p where p: "mget m (replicate 6 98) = Some p"
    by (metis map_of_eq_None_iff not_Some_eq)
  have ok: "op_range_ok ex_session ?op" using ord by simp
  have "fst (sess_call ex_kdf ex_session ?op) = Delivered m" by (simp only: c fst_conv)
  from deliveries_are_current [OF ex_session_wf ok this p] show ?thesis
    unfolding c snd_conv prod.case by (rule exI [of _ p])
qed

end
