(* ===== verification/Sharer_Wire.thy ===== *)
theory Sharer_Wire
  imports Sharer_Props
begin

text \<open>
  The grammar of the messages from a sharer to the relay (specs/relay, Message Framing), and the
  theorem that a sharer sends nothing else. The fields are given by their lengths: the epoch has
  8 bytes, a nonce 12, a relay ID and a session's viewer ID 6, an AES-GCM ciphertext 16 more
  than its plaintext.
\<close>

section \<open>The grammar\<close>

datatype wire_type = W_Heartbeat | W_Stream nat | W_TermSize | W_Handshake bytes bytes | W_KeyDelivery bytes

text \<open>A message of the SPAKE2 library: what \<open>Start\<close> or \<open>Finish\<close> returned at some time.\<close>

definition spake_output :: "'sp spake_lib \<Rightarrow> bytes \<Rightarrow> bool" where
  "spake_output L p \<longleftrightarrow> (\<exists>h h'. lib_start L h = (Inr p, h')) \<or> (\<exists>h h' x. lib_finish L h x = (Inr p, h'))"

lemma spake_outputs:
  "lib_start L h = (Inr p, h') \<Longrightarrow> spake_output L p" "lib_finish L h x = (Inr p, h') \<Longrightarrow> spake_output L p"
  by (auto simp: spake_output_def)

definition sealed_frame :: "byte \<Rightarrow> nat \<Rightarrow> bytes \<Rightarrow> bool" where
  "sealed_frame t n m \<longleftrightarrow> length m = 1 + 8 + NonceLen + (n + GCMTagLen) \<and> hd m = t"

definition unicast_to :: "bytes \<Rightarrow> bytes \<Rightarrow> bytes \<Rightarrow> bool" where
  "unicast_to r p m \<longleftrightarrow> length r = ViewerIDLen \<and> m = MsgTypeUnicast # r @ p"

fun has_type :: "'sp spake_lib \<Rightarrow> bytes \<Rightarrow> wire_type \<Rightarrow> bool" where
  "has_type L m W_Heartbeat \<longleftrightarrow> m = [MsgTypeHeartbeat]"
| "has_type L m (W_Stream n) \<longleftrightarrow> 0 < n \<and> sealed_frame MsgTypeStream n m"
| "has_type L m W_TermSize \<longleftrightarrow> sealed_frame MsgTypeTermSize 4 m"
| "has_type L m (W_Handshake r p) \<longleftrightarrow> spake_output L p \<and> unicast_to r p m"
| "has_type L m (W_KeyDelivery r) \<longleftrightarrow>
     (\<exists>p. length p = ViewerIDLen + NonceLen + (KeyLen + GCMTagLen) \<and> unicast_to r p m)"

definition well_typed :: "'sp spake_lib \<Rightarrow> bytes \<Rightarrow> bool" where
  "well_typed L m \<longleftrightarrow> (\<exists>t. has_type L m t)"

definition sent_typed :: "'sp spake_lib \<Rightarrow> 'sp Sharer \<Rightarrow> bool" where
  "sent_typed L s \<longleftrightarrow> list_all (well_typed L) (sh_sent s)"

lemma well_typedI: "has_type L m t \<Longrightarrow> well_typed L m"
  by (auto simp: well_typed_def)

section \<open>What the constructors of messages produce\<close>

lemma typed_heartbeat: "well_typed L [MsgTypeHeartbeat]"
  by (rule well_typedI [where t = W_Heartbeat]) simp

lemma typed_stream:
  "length ct = n + GCMTagLen \<Longrightarrow> 0 < n \<Longrightarrow> well_typed L (buildStreamFrame ct nonce epoch)"
  by (rule well_typedI [where t = "W_Stream n"]) (simp add: sealed_frame_def buildStreamFrame_def)

lemma typed_term_size: "length ct = 4 + GCMTagLen \<Longrightarrow> well_typed L (buildTermSizeFrame ct nonce epoch)"
  by (rule well_typedI [where t = W_TermSize]) (simp add: sealed_frame_def buildTermSizeFrame_def)

lemma typed_handshake: "spake_output L p \<Longrightarrow> well_typed L (unicast_msg r p)"
  by (rule well_typedI [where t = "W_Handshake (go_copy ViewerIDLen r) p"])
    (simp add: unicast_to_def unicast_msg_def)

lemma typed_key_delivery:
  "length (ep_Ciphertext enc) = KeyLen + GCMTagLen \<Longrightarrow> well_typed L (unicast_msg r (buildKeyDelivery i enc))"
  by (rule well_typedI [where t = "W_KeyDelivery (go_copy ViewerIDLen r)"])
    (simp add: unicast_to_def unicast_msg_def buildKeyDelivery_def)

lemma EncryptFrame_length:
  "EncryptFrame kdf s p now = (Inr f, s') \<Longrightarrow> length (f_ciphertext f) = length p + GCMTagLen"
  by (cases "s_closed s") (auto simp: EncryptFrame_closed EncryptFrame_open split: option.splits)

lemma RegisterViewer_length:
  assumes "sess_wf s" "RegisterViewer s ak ct rand now = (Inr (info, enc), s')"
  shows "length (ep_Ciphertext enc) = KeyLen + GCMTagLen"
  using assms(1)
proof (cases rule: RegisterViewer_cases [where ak = ak and ct = ct and rand = rand and now = now])
  case (ok i)
  with assms sess_wf_stream_key [of s] show ?thesis
    by (auto simp: Let_def stream_key_def key_buf_def)
qed (use assms in simp_all)

lemma rekey_loop_length:
  "rekey_loop m k vs nc acc = (Inr rekeys, nc')
    \<Longrightarrow> list_all (\<lambda>(i, p). length (ep_Ciphertext p) = length k + GCMTagLen) acc
    \<Longrightarrow> list_all (\<lambda>(i, p). length (ep_Ciphertext p) = length k + GCMTagLen) rekeys"
  by (induction m k vs nc acc rule: rekey_loop.induct)
    (auto simp: Seal_Inr_iff list_all_mput split: prod.splits sum.splits)

lemma RevokeViewer_length:
  "RevokeViewer s i rand ord = (Inr rekeys, s')
    \<Longrightarrow> list_all (\<lambda>(i, p). length (ep_Ciphertext p) = KeyLen + GCMTagLen) rekeys"
  by (auto simp: RevokeViewer_def Let_def GenerateStreamKey_cases nth_append dest!: rekey_loop_length
      split: if_splits option.splits prod.splits sum.splits)

section \<open>Every step sends well-typed messages\<close>

lemma sent_typed_cong: "sh_sent s' = sh_sent s \<Longrightarrow> sent_typed L s' = sent_typed L s"
  by (simp add: sent_typed_def)

lemma sent_typed_simps [simp]:
  "sent_typed L (sharer_call p s) = sent_typed L s"
  "sent_typed L (set_hs r hs s) = sent_typed L s"
  "sent_typed L (cleanupHandshake L' r s) = sent_typed L s"
  "sent_typed L (s\<lparr>sh_sess := ss\<rparr>) = sent_typed L s"
  "sent_typed L (s\<lparr>sh_viewerIDMap := m\<rparr>) = sent_typed L s"
  "sent_typed L (s\<lparr>sh_joining := j\<rparr>) = sent_typed L s"
  by (rule sent_typed_cong; simp add: cleanupHandshake_def split: option.split)+

lemma sent_typed_send:
  "sharer_send err m s = (e, s') \<Longrightarrow> well_typed L m \<Longrightarrow> sent_typed L s' \<longleftrightarrow> sent_typed L s"
  by (cases err) (auto simp: sharer_send_def sent_typed_def)

lemma sent_typed_unicast:
  "sendUnicast err r p s = (e, s') \<Longrightarrow> well_typed L (unicast_msg r p) \<Longrightarrow> sent_typed L s' \<longleftrightarrow> sent_typed L s"
  unfolding sendUnicast_def by (rule sent_typed_send)

lemma sent_typed_broadcast:
  "sent_typed L s \<Longrightarrow> sent_typed L (snd (broadcastTermSize kdf now err cols rows s))"
  by (auto simp: broadcastTermSize_def sent_typed_send typed_term_size EncryptFrame_length
      split: prod.split sum.split option.split)

lemma sent_typed_output:
  "sent_typed L s \<Longrightarrow> sent_typed L (snd (output_turn kdf now send_err send_done data read_err read_done s))"
  by (auto simp: output_turn_def Let_def sent_typed_send typed_stream EncryptFrame_length
      split: prod.split sum.split option.split)

lemma sent_typed_heartbeat: "sent_typed L s \<Longrightarrow> sent_typed L (snd (sharer_heartbeat err s))"
  by (auto simp: sharer_heartbeat_def sent_typed_send typed_heartbeat [simplified] split: prod.split option.split)

lemma sent_typed_wait_init: "sent_typed L s \<Longrightarrow> sent_typed L (snd (wait_init L err r hs s))"
  by (auto simp: wait_init_def sent_typed_unicast typed_handshake dest: spake_outputs
      split: prod.split sum.split option.split)

lemma sent_typed_wait_msg_b: "sent_typed L s \<Longrightarrow> sent_typed L (snd (wait_msg_b L err r p hs s))"
  by (auto simp: wait_msg_b_def sent_typed_unicast typed_handshake dest: spake_outputs
      split: prod.split sum.split option.split)

lemma sent_typed_confirm:
  assumes "sess_wf (sh_sess s)" "sent_typed L s"
  shows "sent_typed L (snd (confirm_register L kdf rand now err r p hs s))"
proof -
  have wf: "sess_wf ((sh_sess s)\<lparr>s_mem := m\<rparr>)" if "DeriveAuthKey kdf secret (s_mem (sh_sess s)) = (x, m)" for secret x m
    using that assms(1) by (auto simp: DeriveAuthKey_cases sess_wf_append split: option.splits)
  with assms(2) show ?thesis
    by (auto simp: confirm_register_def Let_def sent_typed_unicast typed_key_delivery
        dest: RegisterViewer_length [OF wf] split: prod.split sum.split option.split)
qed

lemma sent_typed_finish: "sent_typed L s \<Longrightarrow> sent_typed L (confirm_finish L kdf now err s)"
  by (auto simp: confirm_finish_def Let_def sent_typed_broadcast split: option.split)

lemma sent_typed_disconnect [simp]: "sent_typed L (handleViewerDisconnect r ord s) = sent_typed L s"
  by (rule sent_typed_cong) (simp add: handleViewerDisconnect_def sharer_call_def split: option.split prod.split)

lemma sent_typed_deliver:
  "list_all (\<lambda>(i, p). length (ep_Ciphertext p) = KeyLen + GCMTagLen) rs \<Longrightarrow> sent_typed L s
    \<Longrightarrow> sent_typed L (snd (deliver_rekeys errs rs s))"
  by (induction errs rs s rule: deliver_rekeys.induct)
    (auto simp: sent_typed_unicast typed_key_delivery split: option.split prod.split)

lemma sent_typed_delivered:
  "deliver_rekeys errs rs s = (e, s') \<Longrightarrow> list_all (\<lambda>(i, p). length (ep_Ciphertext p) = KeyLen + GCMTagLen) rs
    \<Longrightarrow> sent_typed L s \<Longrightarrow> sent_typed L s'"
  by (metis sent_typed_deliver snd_conv)

lemma list_all_go_range:
  "list_all P m \<Longrightarrow> list_all P (go_range m ks)"
  by (auto simp: list_all_iff set_go_range dest: map_of_SomeD)

lemma sent_typed_Revoke:
  "sent_typed L s \<Longrightarrow> sent_typed L (snd (Revoke errs i rand ord ord' s))"
  by (auto simp: Revoke_def list_all_go_range dest!: RevokeViewer_length
      elim!: sent_typed_delivered split: prod.split sum.split option.split)

lemma sent_typed_get: "get_handshake L r p s = (x, s1) \<Longrightarrow> sent_typed L' s1 = sent_typed L' s \<and> sh_sess s1 = sh_sess s"
  by (auto simp: get_handshake_def Let_def split: option.splits sum.splits)

lemma sent_typed_handle:
  "sess_wf (sh_sess s) \<Longrightarrow> sent_typed L s \<Longrightarrow> sent_typed L (snd (handleSPAKE2 L kdf en r p s))"
  by (auto simp: handleSPAKE2_def sent_typed_wait_init sent_typed_wait_msg_b sent_typed_confirm
      dest!: sent_typed_get [where L' = L] split: prod.split sum.split handshakeState.split)

lemma sent_typed_act:
  assumes "sess_wf (sh_sess s)" "sent_typed L s"
  shows "sent_typed L (sharer_act L kdf a s)"
proof (cases a)
  case (OnRelay en ord r)
  have "sent_typed L (snd (handleSPAKE2 L kdf en q p s))" for q p
    by (rule sent_typed_handle [OF assms])
  with assms(2) have "sent_typed L (snd (relay_turn L kdf en ord r s))"
    by (cases rule: relay_turn_cases [where L = L and kdf = kdf and en = en and ord = ord and r = r and s = s])
      (simp_all add: split_beta split: option.split)
  with OnRelay assms(2) show ?thesis by simp
qed (use assms(2) in \<open>simp_all add: sent_typed_finish sent_typed_output sent_typed_heartbeat sent_typed_Revoke
      SetTermSize_def sent_typed_broadcast sent_typed_def [where s = "s\<lparr>sh_termCols := c, sh_termRows := d\<rparr>" for c d]
      flip: sent_typed_def\<close>)

lemma sent_typed_reachable:
  assumes "sharer_reachable L kdf s" "wiping_lib L"
  shows "sent_typed L s"
  using assms
proof (induction rule: sharer_reachable.induct)
  case (created argon2 code rand sess)
  then show ?case by (simp add: sent_typed_def NewSharer_def)
next
  case (acted s a)
  then show ?case
    by (simp add: sent_typed_act sharer_ok_wf [OF sharer_reachable_ok])
qed

section \<open>Property\<close>

text \<open>
  C30. Wire typing. In every run of a sharer, each message it sends has one of the types of the
  message grammar: a heartbeat, a stream frame with a non-empty plaintext, a terminal-size frame
  with a four-byte plaintext, a handshake message of the SPAKE2 library for one relay ID, or a
  key delivery of exactly 66 bytes for one relay ID. Nothing it sends is truncated, carries a
  wrong tag or is too short for the relay to route.
\<close>

theorem sharer_messages_well_typed:
  assumes "sharer_reachable L kdf s" and "wiping_lib L" and "m \<in> set (sh_sent s)"
  shows "well_typed L m \<and> (hd m = MsgTypeUnicast \<longrightarrow> 1 + ViewerIDLen \<le> length m)"
  using sent_typed_reachable [OF assms(1,2)] assms(3)
  by (auto simp: sent_typed_def list_all_iff unicast_to_def well_typed_def sealed_frame_def elim!: has_type.elims)

theorem sharer_messages_well_typed_witness: "well_typed ex_spake (unicast_msg ex_A [67])"
proof -
  have "unicast_msg ex_A [67] \<in> set (sh_sent ex_asked)" by (simp add: ex_asked_def)
  with sharer_messages_well_typed [OF ex_asked_reachable ex_wiping] show ?thesis by blast
qed

end
