(* ===== verification/Go_Strings.thy ===== *)
theory Go_Strings
  imports Main
begin

text \<open>
  The functions of Go's \<open>strings\<close> and \<open>unicode\<close> packages that the program uses on text. A
  text is the list of its runes (code points). \<open>unicode.IsSpace\<close> is the White_Space
  property; the part of \<open>unicode.ToLower\<close> above ASCII is a table of the Unicode data base and
  stays an argument.
\<close>

type_synonym rune = nat
type_synonym gotext = "rune list"

definition runes :: "string \<Rightarrow> gotext" where
  "runes s = map of_char s"

definition IsSpace :: "rune \<Rightarrow> bool" where
  "IsSpace r \<longleftrightarrow> 9 \<le> r \<and> r \<le> 13 \<or> r = 32 \<or> r = 0x85 \<or> r = 0xA0 \<or> r = 0x1680
     \<or> 0x2000 \<le> r \<and> r \<le> 0x200A \<or> r = 0x2028 \<or> r = 0x2029 \<or> r = 0x202F \<or> r = 0x205F \<or> r = 0x3000"

definition lower_rune :: "(rune \<Rightarrow> rune) \<Rightarrow> rune \<Rightarrow> rune" where
  "lower_rune low r = (if r < 128 then (if 65 \<le> r \<and> r \<le> 90 then r + 32 else r) else low r)"

definition ToLower :: "(rune \<Rightarrow> rune) \<Rightarrow> gotext \<Rightarrow> gotext" where
  "ToLower low s = map (lower_rune low) s"

definition TrimSpace :: "gotext \<Rightarrow> gotext" where
  "TrimSpace s = rev (dropWhile IsSpace (rev (dropWhile IsSpace s)))"

text \<open>\<open>strings.ReplaceAll\<close> for a pattern and a replacement of one rune.\<close>

definition ReplaceAll :: "rune \<Rightarrow> rune \<Rightarrow> gotext \<Rightarrow> gotext" where
  "ReplaceAll old new s = map (\<lambda>r. if r = old then new else r) s"

function Fields :: "gotext \<Rightarrow> gotext list" where
  "Fields s =
     (case dropWhile IsSpace s of
        [] \<Rightarrow> []
      | r # rs \<Rightarrow> (r # takeWhile (\<lambda>r. \<not> IsSpace r) rs) # Fields (dropWhile (\<lambda>r. \<not> IsSpace r) rs))"
  by pat_completeness auto
termination
proof (relation "measure length")
  fix s :: gotext and r rs
  assume "dropWhile IsSpace s = r # rs"
  then have "length rs < length s"
    using length_dropWhile_le [of IsSpace s] by simp
  then show "(dropWhile (\<lambda>r. \<not> IsSpace r) rs, s) \<in> measure length"
    using length_dropWhile_le [of "\<lambda>r. \<not> IsSpace r" rs] by simp
qed simp

declare Fields.simps [simp del]

text \<open>
  \<open>strings.Split\<close> at a separator of one rune or byte, which always returns at least one part,
  and \<open>strings.Join\<close>.
\<close>

primrec Split :: "'a \<Rightarrow> 'a list \<Rightarrow> 'a list list" where
  "Split sep [] = [[]]"
| "Split sep (r # rs) =
     (if r = sep then [] # Split sep rs
      else (case Split sep rs of [] \<Rightarrow> [[r]] | w # ws \<Rightarrow> (r # w) # ws))"

fun Join :: "'a list list \<Rightarrow> 'a list \<Rightarrow> 'a list" where
  "Join [] sep = []"
| "Join [w] sep = w"
| "Join (w # v # ws) sep = w @ sep @ Join (v # ws) sep"

lemma Split_single: "sep \<notin> set w \<Longrightarrow> Split sep w = [w]"
  by (induction w) auto

lemma Split_append: "sep \<notin> set w \<Longrightarrow> Split sep (w @ sep # t) = w # Split sep t"
  by (induction w) auto

lemma Split_Join: "ws \<noteq> [] \<Longrightarrow> list_all (\<lambda>w. sep \<notin> set w) ws \<Longrightarrow> Split sep (Join ws [sep]) = ws"
  by (induction ws "[sep]" rule: Join.induct) (simp_all add: Split_single Split_append)

section \<open>Words and spaces\<close>

text \<open>A word is a non-empty text without spaces.\<close>

definition is_word :: "gotext \<Rightarrow> bool" where
  "is_word w \<longleftrightarrow> w \<noteq> [] \<and> list_all (\<lambda>r. \<not> IsSpace r) w"

lemma Fields_spaces [simp]: "list_all IsSpace s \<Longrightarrow> Fields s = []"
  by (subst Fields.simps) (simp add: dropWhile_eq_Nil_conv [THEN iffD2] list_all_iff)

lemma dropWhile_spaces: "list_all IsSpace s \<Longrightarrow> dropWhile IsSpace (s @ t) = dropWhile IsSpace t"
  by (simp add: dropWhile_append2 list_all_iff)

lemma Fields_skip: "list_all IsSpace s \<Longrightarrow> Fields (s @ t) = Fields t"
  by (subst (1 2) Fields.simps) (simp add: dropWhile_spaces)

lemma Fields_word:
  assumes "is_word w" "t = [] \<or> IsSpace (hd t)"
  shows "Fields (w @ t) = w # Fields t"
proof -
  obtain r rs where w: "w = r # rs" using assms(1) by (cases w) (auto simp: is_word_def)
  have "takeWhile (\<lambda>r. \<not> IsSpace r) (rs @ t) = rs" "dropWhile (\<lambda>r. \<not> IsSpace r) (rs @ t) = t"
    using assms w by (cases t; auto simp: is_word_def list_all_iff takeWhile_append2 dropWhile_append2)+
  then show ?thesis
    using assms(1) w by (subst Fields.simps) (simp add: is_word_def)
qed

lemma Fields_words: "list_all is_word (Fields s)"
proof (induction s rule: Fields.induct)
  case (1 s)
  show ?case
  proof (cases "dropWhile IsSpace s")
    case Nil
    then have "list_all IsSpace s" by (simp add: list_all_iff)
    then show ?thesis by simp
  next
    case (Cons r rs)
    then have "\<not> IsSpace r" by (metis hd_dropWhile list.distinct(1) list.sel(1))
    moreover have "list_all (\<lambda>r. \<not> IsSpace r) (takeWhile (\<lambda>r. \<not> IsSpace r) rs)"
      by (auto simp: list_all_iff dest: set_takeWhileD)
    ultimately have "is_word (r # takeWhile (\<lambda>r. \<not> IsSpace r) rs)" by (simp add: is_word_def)
    with 1 [OF Cons] Cons show ?thesis by (subst Fields.simps) simp
  qed
qed

text \<open>Trimming does not change the fields.\<close>

lemma Fields_append_spaces: "list_all IsSpace t \<Longrightarrow> Fields (s @ t) = Fields s"
proof (induction s rule: Fields.induct)
  case (1 s)
  show ?case
  proof (cases "dropWhile IsSpace s")
    case Nil
    then have "list_all IsSpace (s @ t)" using 1(2) by (auto simp: list_all_iff)
    moreover have "list_all IsSpace s" using Nil by (simp add: list_all_iff)
    ultimately show ?thesis by simp
  next
    case (Cons r rs)
    then have d: "dropWhile IsSpace (s @ t) = r # rs @ t"
      by (metis append_Cons dropWhile_append1 dropWhile_eq_Nil_conv list.distinct(1))
    have tk: "takeWhile (\<lambda>r. \<not> IsSpace r) (rs @ t) = takeWhile (\<lambda>r. \<not> IsSpace r) rs"
      using 1(2) by (cases t) (auto simp: takeWhile_append takeWhile_eq_all_conv [THEN iffD2])
    have "dropWhile (\<lambda>r. \<not> IsSpace r) (rs @ t) = dropWhile (\<lambda>r. \<not> IsSpace r) rs @ t"
      using 1(2) by (cases t) (auto simp: dropWhile_append)
    with tk d Cons 1(1) [OF Cons 1(2)] show ?thesis
      by (subst (1 2) Fields.simps) simp
  qed
qed

lemma TrimSpace_split: "\<exists>a b. s = a @ TrimSpace s @ b \<and> list_all IsSpace a \<and> list_all IsSpace b"
proof -
  let ?t = "dropWhile IsSpace s"
  have "s = takeWhile IsSpace s @ ?t" by simp
  moreover have "?t = TrimSpace s @ rev (takeWhile IsSpace (rev ?t))"
    by (metis TrimSpace_def rev_append rev_rev_ident takeWhile_dropWhile_id)
  ultimately show ?thesis
    by (intro exI [of _ "takeWhile IsSpace s"] exI [of _ "rev (takeWhile IsSpace (rev ?t))"])
      (auto simp: list_all_iff dest: set_takeWhileD)
qed

lemma dropWhile_hd: "s \<noteq> [] \<Longrightarrow> \<not> P (hd s) \<Longrightarrow> dropWhile P s = s"
  by (cases s) auto

lemma TrimSpace_fixed:
  "s \<noteq> [] \<Longrightarrow> \<not> IsSpace (hd s) \<Longrightarrow> \<not> IsSpace (last s) \<Longrightarrow> list_all IsSpace t
    \<Longrightarrow> TrimSpace (s @ t) = s"
  using dropWhile_spaces [of "rev t" "rev s"]
  by (simp add: TrimSpace_def dropWhile_hd hd_rev list_all_iff)

lemma word_ends: "is_word w \<Longrightarrow> w \<noteq> [] \<and> \<not> IsSpace (hd w) \<and> \<not> IsSpace (last w)"
  by (simp add: is_word_def list_all_iff)

lemma TrimSpace_is_word: "is_word w \<Longrightarrow> TrimSpace w = w"
  using TrimSpace_fixed [of w "[]"] by (simp add: word_ends)

section \<open>Decimal numbers (strconv, fmt)\<close>

text \<open>The decimal digits of a number, most significant first, as \<open>%d\<close> and \<open>Itoa\<close> write them.\<close>

fun digits :: "nat \<Rightarrow> nat list" where
  "digits n = (if n < 10 then [n] else digits (n div 10) @ [n mod 10])"

declare digits.simps [simp del]

definition of_digits :: "nat list \<Rightarrow> nat" where
  "of_digits ds = foldl (\<lambda>n d. 10 * n + d) 0 ds"

lemma of_digits_digits [simp]: "of_digits (digits n) = n"
  by (induction n rule: digits.induct) (subst digits.simps, simp add: of_digits_def)

lemma digits_less: "list_all (\<lambda>d. d < 10) (digits n)"
  by (induction n rule: digits.induct) (subst digits.simps, simp)

lemma digits_not_Nil [simp]: "digits n \<noteq> []"
  by (subst digits.simps) simp

lemma hd_digits: "10 \<le> n \<Longrightarrow> hd (digits n) \<noteq> 0"
proof (induction n rule: digits.induct)
  case (1 n)
  show ?case
  proof (cases "n < 100")
    case True
    then have "n div 10 < 10" "0 < n div 10" using 1(2) by (auto simp: div_greater_zero_iff)
    then show ?thesis using 1(2) by (subst digits.simps) (simp add: digits.simps [of "n div 10"])
  next
    case False
    then show ?thesis using 1 by (subst digits.simps) simp
  qed
qed

lemma digits_inject [simp]: "digits m = digits n \<longleftrightarrow> m = n"
  by (metis of_digits_digits)

text \<open>\<open>strconv.Itoa\<close>, which is also what \<open>%d\<close> writes, and \<open>strconv.Atoi\<close>.\<close>

definition decimal :: "nat \<Rightarrow> gotext" where
  "decimal n = map (\<lambda>d. 48 + d) (digits n)"

definition Itoa :: "int \<Rightarrow> gotext" where
  "Itoa i = (if i < 0 then 45 # decimal (nat (- i)) else decimal (nat i))"

definition is_digit :: "rune \<Rightarrow> bool" where
  "is_digit r \<longleftrightarrow> 48 \<le> r \<and> r \<le> 57"

definition Atoi :: "gotext \<Rightarrow> int option" where
  "Atoi s =
     (let neg = (s \<noteq> [] \<and> hd s = 45);
          ds = (if s \<noteq> [] \<and> (hd s = 45 \<or> hd s = 43) then tl s else s);
          n = int (of_digits (map (\<lambda>r. r - 48) ds))
      in if ds = [] \<or> \<not> list_all is_digit ds then None
         else if neg then (if n \<le> 2 ^ 63 then Some (- n) else None)
         else (if n < 2 ^ 63 then Some n else None))"

lemma decimal_digits: "decimal n \<noteq> [] \<and> list_all is_digit (decimal n)"
  using digits_less [of n] by (auto simp: decimal_def list_all_iff is_digit_def)

lemma decimal_inject [simp]: "decimal m = decimal n \<longleftrightarrow> m = n"
  by (simp add: decimal_def inj_map_eq_map inj_def)

lemma hd_decimal: "48 \<le> hd (decimal n)"
  using digits_not_Nil [of n] by (cases "digits n") (auto simp: decimal_def)

lemma of_digits_decimal [simp]: "of_digits (map (\<lambda>r. r - 48) (decimal n)) = n"
  by (simp add: decimal_def comp_def)

lemma Atoi_Itoa:
  assumes "- (2 ^ 63) \<le> i" "i < 2 ^ 63"
  shows "Atoi (Itoa i) = Some i"
  using assms decimal_digits hd_decimal [of "nat i"] by (auto simp: Atoi_def Itoa_def Let_def)

lemma Itoa_inject [simp]: "0 \<le> i \<Longrightarrow> 0 \<le> j \<Longrightarrow> Itoa i = Itoa j \<longleftrightarrow> i = j"
  by (simp add: Itoa_def nat_eq_iff)

end
