(* ===== verification/Relay_Url.thy ===== *)
theory Relay_Url
  imports Prelude Go_Strings
begin

text \<open>
  \<open>cmd/lw/root.go\<close> and \<open>buildWatchURL\<close> of \<open>cmd/lw/share.go\<close>: which relay addresses the commands accept,
  how they dial them, and the link that a viewer opens. First what they use of \<open>net/url\<close> (\<open>Parse\<close> in the version that
  \<open>go.mod\<close> asks for), on texts as bytes; errors of \<open>Parse\<close> are \<open>None\<close>, since only their presence counts.
\<close>

section \<open>Percent-encoding\<close>

definition url_digit :: "byte \<Rightarrow> bool" where
  "url_digit c \<longleftrightarrow> 48 \<le> c \<and> c \<le> 57"

definition url_letter :: "byte \<Rightarrow> bool" where
  "url_letter c \<longleftrightarrow> 97 \<le> c \<and> c \<le> 122 \<or> 65 \<le> c \<and> c \<le> 90"

definition ishex :: "byte \<Rightarrow> bool" where
  "ishex c \<longleftrightarrow> url_digit c \<or> 97 \<le> c \<and> c \<le> 102 \<or> 65 \<le> c \<and> c \<le> 70"

definition unhex :: "byte \<Rightarrow> byte" where
  "unhex c = (if url_digit c then c - 48 else if 97 \<le> c then c - 97 + 10 else c - 65 + 10)"

text \<open>Where a text stands in the URL: in a host, in the zone of a host, or elsewhere.\<close>

datatype encoding = encodeHost | encodeZone | encodeOther

text \<open>\<open>shouldEscape\<close> for the two modes of a host: all but letters, digits and some punctuation.\<close>

definition host_char :: "byte \<Rightarrow> bool" where
  "host_char c \<longleftrightarrow> url_letter c \<or> url_digit c
     \<or> c \<in> set (ascii ''!$&()*+,;=:[]<>-_.~'' @ [39, 34])"

text \<open>The escapes that \<open>unescape\<close> refuses although their digits are right.\<close>

definition bad_escape :: "encoding \<Rightarrow> byte \<Rightarrow> byte \<Rightarrow> bool" where
  "bad_escape mode h l \<longleftrightarrow>
     (case mode of
        encodeHost \<Rightarrow> unhex h < 8 \<and> \<not> (h = 50 \<and> l = 53)
      | encodeZone \<Rightarrow>
          (let v = push_bit 4 (unhex h) OR unhex l
           in \<not> (h = 50 \<and> l = 53) \<and> v \<noteq> 32 \<and> \<not> host_char v)
      | encodeOther \<Rightarrow> False)"

fun unescape :: "encoding \<Rightarrow> bytes \<Rightarrow> bytes option" where
  "unescape mode [] = Some []"
| "unescape mode (c # s) =
     (if c = 37 then
        (case s of
           h # l # r \<Rightarrow>
             if \<not> ishex h \<or> \<not> ishex l \<or> bad_escape mode h l then None
             else map_option ((#) (push_bit 4 (unhex h) OR unhex l)) (unescape mode r)
         | _ \<Rightarrow> None)
      else if mode \<noteq> encodeOther \<and> c < 0x80 \<and> \<not> host_char c then None
      else map_option ((#) c) (unescape mode s))"

section \<open>Parse\<close>

text \<open>\<open>strings.Cut\<close> at a byte: what is before the first one and what is after it.\<close>

definition cut :: "byte \<Rightarrow> bytes \<Rightarrow> bytes \<times> bytes" where
  "cut sep s = (takeWhile (\<lambda>c. c \<noteq> sep) s, drop 1 (dropWhile (\<lambda>c. c \<noteq> sep) s))"

text \<open>And at the last one, which is there.\<close>

definition cut_last :: "byte \<Rightarrow> bytes \<Rightarrow> bytes \<times> bytes" where
  "cut_last sep s = (case cut sep (rev s) of (post, pre) \<Rightarrow> (rev pre, rev post))"

definition has_prefix :: "bytes \<Rightarrow> bytes \<Rightarrow> bool" where
  "has_prefix p s \<longleftrightarrow> take (length p) s = p"

definition scheme_char :: "byte \<Rightarrow> bool" where
  "scheme_char c \<longleftrightarrow> url_letter c \<or> url_digit c \<or> c = 43 \<or> c = 45 \<or> c = 46"

text \<open>The scheme and the rest; \<open>None\<close> when the scheme is missing before a colon.\<close>

definition getScheme :: "bytes \<Rightarrow> (bytes \<times> bytes) option" where
  "getScheme raw =
     (let s = takeWhile scheme_char raw; rest = dropWhile scheme_char raw
      in if s \<noteq> [] \<and> \<not> url_letter (hd s) then Some ([], raw)
         else if rest = [] \<or> hd rest \<noteq> 58 then Some ([], raw)
         else if s = [] then None
         else Some (s, tl rest))"

definition lower_byte :: "byte \<Rightarrow> byte" where
  "lower_byte c = (if 65 \<le> c \<and> c \<le> 90 then c + 32 else c)"

definition validOptionalPort :: "bytes \<Rightarrow> bool" where
  "validOptionalPort port \<longleftrightarrow> port = [] \<or> hd port = 58 \<and> list_all url_digit (tl port)"

text \<open>\<open>i\<close> is the place of the first \<open>%25\<close>, if there is one.\<close>

fun index25 :: "bytes \<Rightarrow> nat option" where
  "index25 (a # b # c # s) = (if a = 37 \<and> b = 50 \<and> c = 53 then Some 0 else map_option Suc (index25 (b # c # s)))"
| "index25 _ = None"

definition parseHost :: "bytes \<Rightarrow> bytes option" where
  "parseHost h =
     (if h \<noteq> [] \<and> hd h = 91 then
        (if 93 \<notin> set h then None
         else
           let (pre, post) = cut_last 93 h
           in if \<not> validOptionalPort post then None
              else case index25 pre of
                None \<Rightarrow> unescape encodeHost h
              | Some z \<Rightarrow>
                  Option.bind (unescape encodeHost (take z pre)) (\<lambda>h1.
                  Option.bind (unescape encodeZone (drop z pre)) (\<lambda>h2.
                  map_option (\<lambda>h3. h1 @ h2 @ h3) (unescape encodeHost (93 # post)))))
      else if 58 \<in> set h \<and> \<not> validOptionalPort (58 # snd (cut_last 58 h)) then None
      else unescape encodeHost h)"

definition userinfo_char :: "byte \<Rightarrow> bool" where
  "userinfo_char c \<longleftrightarrow> url_letter c \<or> url_digit c \<or> c \<in> set (ascii ''-._:~!$&()*+,;=%@'' @ [39])"

definition parseAuthority :: "bytes \<Rightarrow> bytes option" where
  "parseAuthority auth =
     (if 64 \<notin> set auth then parseHost auth
      else
        let (userinfo, h) = cut_last 64 auth
        in case parseHost h of
             None \<Rightarrow> None
           | Some h1 \<Rightarrow>
               if \<not> list_all userinfo_char userinfo then None
               else if unescape encodeOther (fst (cut 58 userinfo)) = None
                 \<or> unescape encodeOther (snd (cut 58 userinfo)) = None then None
               else Some h1)"

record URL =
  u_Scheme :: bytes
  u_Host :: bytes
  u_Path :: bytes

definition url_parse :: "bytes \<Rightarrow> URL option" where
  "url_parse raw =
     (if list_ex (\<lambda>c. c < 32 \<or> c = 127) raw then None
      else if raw = [42] then Some \<lparr>u_Scheme = [], u_Host = [], u_Path = [42]\<rparr>
      else case getScheme raw of
        None \<Rightarrow> None
      | Some (s, r) \<Rightarrow>
          let scheme = map lower_byte s;
              rest = fst (cut 63 r)
          in if \<not> has_prefix [47] rest \<and> scheme \<noteq> [] then
               Some \<lparr>u_Scheme = scheme, u_Host = [], u_Path = []\<rparr>
             else if \<not> has_prefix [47] rest \<and> 58 \<in> set (fst (cut 47 rest)) then None
             else
               let authority = has_prefix [47, 47] rest \<and> (scheme \<noteq> [] \<or> \<not> has_prefix [47, 47, 47] rest);
                   auth = takeWhile (\<lambda>c. c \<noteq> 47) (drop 2 rest);
                   path = (if authority then dropWhile (\<lambda>c. c \<noteq> 47) (drop 2 rest) else rest)
               in case (if authority then parseAuthority auth else Some []) of
                    None \<Rightarrow> None
                  | Some h \<Rightarrow>
                      map_option (\<lambda>p. \<lparr>u_Scheme = scheme, u_Host = h, u_Path = p\<rparr>)
                        (unescape encodeOther path))"

text \<open>The fragment is cut off first; it has to be well encoded.\<close>

definition Parse :: "bytes \<Rightarrow> URL option" where
  "Parse rawURL =
     (let (u, frag) = cut 35 rawURL
      in case url_parse u of
           None \<Rightarrow> None
         | Some url \<Rightarrow> if unescape encodeOther frag = None then None else Some url)"

section \<open>The commands' checks\<close>

datatype url_error = UrlEmpty | MustUseWss | MustUseWssTLS | MustUseWsOrWss

definition validateRelayURL :: "bytes \<Rightarrow> url_error option" where
  "validateRelayURL raw =
     (if raw = [] then Some UrlEmpty
      else case Parse raw of
        None \<Rightarrow> Some MustUseWss
      | Some u \<Rightarrow>
          if u_Host u = [] then Some MustUseWss
          else if u_Scheme u \<noteq> ascii ''wss'' then Some MustUseWssTLS
          else None)"

definition validateRelayURLInsecure :: "bytes \<Rightarrow> url_error option" where
  "validateRelayURLInsecure raw =
     (if raw = [] then Some UrlEmpty
      else case Parse raw of
        None \<Rightarrow> Some MustUseWsOrWss
      | Some u \<Rightarrow>
          if u_Scheme u = [] then Some MustUseWsOrWss
          else if u_Scheme u \<noteq> ascii ''wss'' \<and> u_Scheme u \<noteq> ascii ''ws'' then Some MustUseWsOrWss
          else None)"

definition url_error_text :: "url_error \<Rightarrow> gotext" where
  "url_error_text e =
     (case e of
        UrlEmpty \<Rightarrow> runes ''relay URL must not be empty''
      | MustUseWss \<Rightarrow> runes ''relay URL must use wss://''
      | MustUseWssTLS \<Rightarrow> runes ''relay URL must use wss:// (TLS required)''
      | MustUseWsOrWss \<Rightarrow> runes ''relay URL must use ws:// or wss://'')"

text \<open>The choice that \<open>lw share\<close> and \<open>lw join\<close> make, and the address without \<open>--relay\<close>.\<close>

definition check_relay :: "bool \<Rightarrow> bytes \<Rightarrow> url_error option" where
  "check_relay insecure relayURL =
     (if insecure then validateRelayURLInsecure relayURL else validateRelayURL relayURL)"

definition defaultRelayURL :: bytes where
  "defaultRelayURL = ascii ''wss://lockwire.online''"

definition buildWatchURL :: "bytes \<Rightarrow> bytes \<Rightarrow> bytes" where
  "buildWatchURL relayURL pairingCode =
     (case Parse relayURL of
        None \<Rightarrow> relayURL @ ascii ''/join#'' @ pairingCode
      | Some u \<Rightarrow>
          (let scheme = (if u_Scheme u = ascii ''ws'' then ascii ''http'' else ascii ''https'')
           in scheme @ ascii ''://'' @ u_Host u @ u_Path u @ ascii ''/join#'' @ pairingCode))"

text \<open>
  \<open>dialRelay\<close> (\<open>cmd/lw/relayclient.go\<close>): \<open>Dial\<close> is what \<open>websocket.Dial\<close> answers for an address and for
  whether the certificate is accepted unseen.
\<close>

definition dialRelay :: "(bytes \<Rightarrow> bool \<Rightarrow> string option) \<Rightarrow> bytes \<Rightarrow> bool \<Rightarrow> string option" where
  "dialRelay Dial url insecure =
     (let InsecureSkipVerify = insecure
      in case Dial url InsecureSkipVerify of
           Some e \<Rightarrow> Some (''connecting to relay: '' @ e)
         | None \<Rightarrow> None)"

lemma dialRelay_simps [simp]:
  "Dial url insecure = None \<Longrightarrow> dialRelay Dial url insecure = None"
  "Dial url insecure = Some e \<Longrightarrow> dialRelay Dial url insecure = Some (''connecting to relay: '' @ e)"
  by (simp_all add: dialRelay_def)

section \<open>Only TLS without the flag\<close>

lemma getScheme_Some:
  assumes "getScheme raw = Some (s, r)" "s \<noteq> []"
  shows "raw = s @ 58 # r"
proof -
  from assms have "s = takeWhile scheme_char raw" "dropWhile scheme_char raw \<noteq> []"
    "hd (dropWhile scheme_char raw) = 58" "r = tl (dropWhile scheme_char raw)"
    unfolding getScheme_def Let_def by (simp_all split: if_splits)
  then show ?thesis
    using takeWhile_dropWhile_id [of scheme_char raw]
      list.collapse [of "dropWhile scheme_char raw"] by metis
qed

lemma has_prefix_append: "has_prefix p s \<longleftrightarrow> (\<exists>t. s = p @ t)"
  by (auto simp: has_prefix_def) (metis append_take_drop_id)

lemma parseAuthority_Nil [simp]: "parseAuthority [] = Some []"
  by (simp add: parseAuthority_def parseHost_def)

lemma url_parse_Some:
  assumes "url_parse raw = Some u" "u_Host u \<noteq> []"
  obtains s t where "getScheme raw = Some (s, t)" "map lower_byte s = u_Scheme u"
    "has_prefix [47, 47] (fst (cut 63 t))"
    "takeWhile (\<lambda>c. c \<noteq> 47) (drop 2 (fst (cut 63 t))) \<noteq> []"
proof (cases "getScheme raw")
  case None
  with assms show ?thesis by (simp add: url_parse_def split: if_splits) (use assms(2) in auto)
next
  case (Some st)
  obtain s t where st: "st = (s, t)" by (cases st)
  let ?auth = "takeWhile (\<lambda>c. c \<noteq> 47) (drop 2 (fst (cut 63 t)))"
  have "map lower_byte s = u_Scheme u \<and> has_prefix [47, 47] (fst (cut 63 t)) \<and> ?auth \<noteq> []"
    using assms Some st
    by (cases "?auth = []") (auto simp: url_parse_def Let_def split: if_splits option.splits)
  with that Some st show ?thesis by blast
qed

lemma url_parse_host:
  assumes "url_parse raw = Some u" "u_Host u \<noteq> []" "u_Scheme u \<noteq> []"
  obtains s r where "raw = s @ [58, 47, 47] @ r" "map lower_byte s = u_Scheme u" "r \<noteq> []" "hd r \<notin> {47, 63}"
proof -
  from url_parse_Some [OF assms(1,2)] obtain s t where g: "getScheme raw = Some (s, t)"
    and s: "map lower_byte s = u_Scheme u"
    and pre: "has_prefix [47, 47] (fst (cut 63 t))"
    and auth: "takeWhile (\<lambda>c. c \<noteq> 47) (drop 2 (fst (cut 63 t))) \<noteq> []" .
  from pre obtain t1 where t1: "takeWhile (\<lambda>c. c \<noteq> 63) t = 47 # 47 # t1"
    by (auto simp: has_prefix_append cut_def)
  with auth obtain c t2 where c: "t1 = c # t2" "c \<noteq> 47"
    by (cases t1) (auto simp: cut_def split: if_splits)
  have "c \<noteq> 63"
    using t1 c(1) set_takeWhileD [of c "\<lambda>c. c \<noteq> 63" t] by simp
  have t: "t = 47 # 47 # c # t2 @ dropWhile (\<lambda>c. c \<noteq> 63) t"
    using takeWhile_dropWhile_id [of "\<lambda>c. c \<noteq> 63" t] by (simp add: t1 c)
  have "s \<noteq> []" using s assms(3) by (metis list.map_disc_iff)
  then have "raw = s @ 58 # t" by (rule getScheme_Some [OF g])
  with t have "raw = s @ [58, 47, 47] @ (c # t2 @ dropWhile (\<lambda>c. c \<noteq> 63) t)" by simp
  from this s show ?thesis
    by (rule that) (use \<open>c \<noteq> 47\<close> \<open>c \<noteq> 63\<close> in simp_all)
qed

text \<open>
  Without the insecure flag the relay is reached over TLS only. An address that \<open>lw share\<close> and
  \<open>lw join\<close> accept begins with the scheme \<open>wss\<close> (in any case of letters), two slashes and a host:
  an address with another scheme, without one, or without a host is refused.
\<close>

lemma accepted_relay_is_tls:
  assumes "validateRelayURL raw = None"
  shows "\<exists>s r. raw = s @ [58, 47, 47] @ r \<and> map lower_byte s = ascii ''wss''
    \<and> r \<noteq> [] \<and> hd r \<notin> {35, 47, 63}"
proof -
  let ?u = "takeWhile (\<lambda>c. c \<noteq> 35) raw"
  from assms obtain u where u: "url_parse ?u = Some u" "u_Host u \<noteq> []" "u_Scheme u = ascii ''wss''"
    by (auto simp: validateRelayURL_def Parse_def cut_def split: if_splits option.splits)
  then have "u_Scheme u \<noteq> []" by (simp add: ascii_def)
  then obtain s r where r: "?u = s @ [58, 47, 47] @ r" "map lower_byte s = u_Scheme u" "r \<noteq> []" "hd r \<notin> {47, 63}"
    by (rule url_parse_host [OF u(1,2)])
  obtain c r1 where c: "r = c # r1" using r(3) by (cases r) simp_all
  have "c \<noteq> 35"
    using r(1) c set_takeWhileD [of c "\<lambda>c. c \<noteq> 35" raw] by simp
  moreover have "raw = s @ [58, 47, 47] @ (r @ dropWhile (\<lambda>c. c \<noteq> 35) raw)"
    using takeWhile_dropWhile_id [of "\<lambda>c. c \<noteq> 35" raw] r(1) by simp
  ultimately show ?thesis
    using r c u(3) by (intro exI [of _ s] exI [of _ "r @ dropWhile (\<lambda>c. c \<noteq> 35) raw"] conjI) simp_all
qed

lemma url_char_range:
  "url_letter c \<Longrightarrow> 64 < c \<and> c < 123" "url_digit c \<Longrightarrow> 47 < c \<and> c < 58"
  unfolding url_letter_def url_digit_def word_less_nat_alt word_le_nat_alt by auto

lemma unescape_plain:
  "list_all (\<lambda>c. c \<noteq> 37 \<and> (mode = encodeOther \<or> host_char c)) s \<Longrightarrow> unescape mode s = Some s"
  by (induction mode s rule: unescape.induct) auto

lemma takeWhile_all: "c \<notin> set s \<Longrightarrow> takeWhile (\<lambda>x. x \<noteq> c) s = s"
  by (subst takeWhile_eq_all_conv) blast

lemma dropWhile_all: "c \<notin> set s \<Longrightarrow> dropWhile (\<lambda>x. x \<noteq> c) s = []"
  by (subst dropWhile_eq_Nil_conv) blast

lemma cut_none [simp]: "c \<notin> set s \<Longrightarrow> cut c s = (s, [])"
  by (simp add: cut_def takeWhile_all dropWhile_all)

section \<open>Plain addresses\<close>

text \<open>
  A host name or IPv4 address, an optional port and a path that need no escapes; all of them keep to
  the characters of \<open>plain_char\<close>, none of which means anything else in a URL.
\<close>

definition plain_char :: "byte \<Rightarrow> bool" where
  "plain_char c \<longleftrightarrow> url_letter c \<or> url_digit c \<or> c \<in> {45, 46, 47, 58, 95, 126}"

definition plain_host :: "bytes \<Rightarrow> bool" where
  "plain_host h \<longleftrightarrow> h \<noteq> [] \<and> list_all (\<lambda>c. url_letter c \<or> url_digit c \<or> c = 45 \<or> c = 46) h"

definition plain_path :: "bytes \<Rightarrow> bool" where
  "plain_path p \<longleftrightarrow> p = [] \<or> hd p = 47 \<and> list_all (\<lambda>c. url_letter c \<or> url_digit c \<or> c \<in> {45, 46, 47, 95, 126}) p"

lemma plain_char_range:
  assumes "plain_char c"
  shows "c \<notin> {35, 37, 42, 63, 64, 91}" "\<not> c < 32" "c \<noteq> 127"
proof -
  have "c \<notin> {35, 37, 42, 63, 64, 91} \<and> \<not> c < 32 \<and> c \<noteq> 127"
    using assms unfolding plain_char_def url_letter_def url_digit_def word_less_nat_alt word_le_nat_alt by auto
  then show "c \<notin> {35, 37, 42, 63, 64, 91}" "\<not> c < 32" "c \<noteq> 127" by simp_all
qed

lemma plain_chars:
  assumes "list_all plain_char s"
  shows "35 \<notin> set s" "37 \<notin> set s" "63 \<notin> set s" "64 \<notin> set s" "91 \<notin> set s"
    "\<not> list_ex (\<lambda>c. c < 32 \<or> c = 127) s" "unescape encodeOther s = Some s"
proof -
  have *: "\<forall>c\<in>set s. c \<notin> {35, 37, 42, 63, 64, 91} \<and> \<not> c < 32 \<and> c \<noteq> 127"
    using assms plain_char_range by (auto simp: list_all_iff)
  then show "35 \<notin> set s" "37 \<notin> set s" "63 \<notin> set s" "64 \<notin> set s" "91 \<notin> set s" by blast+
  from * show "\<not> list_ex (\<lambda>c. c < 32 \<or> c = 127) s" by (simp add: list_ex_iff)
  from * show "unescape encodeOther s = Some s"
    by (intro unescape_plain) (simp add: list_all_iff)
qed

lemma plain_parts:
  "plain_host h \<Longrightarrow> list_all plain_char h" "plain_path q \<Longrightarrow> list_all plain_char q"
  "validOptionalPort p \<Longrightarrow> list_all plain_char p"
  by (auto simp: plain_host_def plain_path_def validOptionalPort_def plain_char_def list_all_iff)
     (cases p; auto)

lemma host_char_plain:
  "url_letter c \<or> url_digit c \<or> c = 45 \<or> c = 46 \<or> c = 58 \<Longrightarrow> host_char c"
  by (auto simp: host_char_def ascii_def)

lemma not_in_plain_host:
  "plain_host h \<Longrightarrow> 58 \<notin> set h" "plain_host h \<Longrightarrow> 47 \<notin> set h"
  "validOptionalPort p \<Longrightarrow> 47 \<notin> set p"
  using url_char_range [of 58] url_char_range [of 47]
  by (auto simp: plain_host_def validOptionalPort_def list_all_iff) (cases p; auto)

lemma cut_last_append: "c \<notin> set s \<Longrightarrow> cut_last c (r @ c # s) = (r, s)"
  using takeWhile_all [of c "rev s"] dropWhile_all [of c "rev s"]
  by (simp add: cut_last_def cut_def takeWhile_append dropWhile_append)

lemma parseAuthority_plain:
  assumes h: "plain_host h" and p: "validOptionalPort p"
  shows "parseAuthority (h @ p) = Some (h @ p)"
proof -
  have no: "64 \<notin> set (h @ p)" "91 \<notin> set (h @ p)" "37 \<notin> set (h @ p)"
    using plain_chars [OF plain_parts(1) [OF h]] plain_chars [OF plain_parts(3) [OF p]] by simp_all
  have "list_all host_char (h @ p)"
    using h p by (cases p) (auto simp: plain_host_def validOptionalPort_def list_all_iff intro: host_char_plain)
  with no(3) have u: "unescape encodeHost (h @ p) = Some (h @ p)"
    by (intro unescape_plain) (auto simp: list_all_iff)
  have port: "58 \<in> set (h @ p) \<Longrightarrow> validOptionalPort (58 # snd (cut_last 58 (h @ p)))"
  proof (cases p)
    case (Cons c ds)
    then have "c = 58" "58 \<notin> set ds"
      using p url_char_range [of 58] by (auto simp: validOptionalPort_def list_all_iff)
    then show ?thesis using p Cons by (simp add: cut_last_append)
  qed (use not_in_plain_host(1) [OF h] in simp)
  have "hd (h @ p) \<noteq> 91" using h no(2) by (cases h) (auto simp: plain_host_def)
  then show ?thesis
    using no(1) u port unfolding parseAuthority_def parseHost_def by (cases "58 \<in> set (h @ p)") auto
qed

lemma takeWhile_until: "c \<notin> set s \<Longrightarrow> takeWhile (\<lambda>x. x \<noteq> c) (s @ c # r) = s"
  and dropWhile_until: "c \<notin> set s \<Longrightarrow> dropWhile (\<lambda>x. x \<noteq> c) (s @ c # r) = c # r"
  using takeWhile_all [of c s] dropWhile_all [of c s]
  by (simp_all add: takeWhile_append dropWhile_append)

definition web_scheme :: "bytes \<Rightarrow> bool" where
  "web_scheme s \<longleftrightarrow> s = ascii ''wss'' \<or> s = ascii ''ws'' \<or> s = ascii ''https'' \<or> s = ascii ''http''"

lemma getScheme_plain:
  assumes "web_scheme s"
  shows "getScheme (s @ 58 # r) = Some (s, r)"
proof -
  have "list_all scheme_char s" "s \<noteq> []" "url_letter (hd s)" "\<not> scheme_char 58"
    using assms by (auto simp: web_scheme_def ascii_def scheme_char_def url_letter_def url_digit_def)
  moreover from this have "takeWhile scheme_char (s @ 58 # r) = s" "dropWhile scheme_char (s @ 58 # r) = 58 # r"
    by (simp_all add: takeWhile_append dropWhile_append list_all_iff)
  ultimately show ?thesis by (simp add: getScheme_def Let_def)
qed

lemma Parse_plain:
  assumes s: "web_scheme s" and h: "plain_host h" and p: "validOptionalPort p" and q: "plain_path q"
  shows "Parse (s @ ascii ''://'' @ h @ p @ q) = Some \<lparr>u_Scheme = s, u_Host = h @ p, u_Path = q\<rparr>"
proof -
  let ?r = "47 # 47 # h @ p @ q"
  have "list_all plain_char s" "s \<noteq> []" "map lower_byte s = s"
    using s by (auto simp: web_scheme_def ascii_def plain_char_def url_letter_def lower_byte_def)
  moreover have "plain_char 58" "plain_char 47" by (simp_all add: plain_char_def)
  ultimately have plain: "list_all plain_char (s @ 58 # ?r)" and low: "map lower_byte s = s" and ne: "s \<noteq> []"
    using plain_parts(1) [OF h] plain_parts(2) [OF q] plain_parts(3) [OF p] by auto
  note no = plain_chars [OF plain]
  have parts: "takeWhile (\<lambda>c. c \<noteq> 47) (h @ p @ q) = h @ p" "dropWhile (\<lambda>c. c \<noteq> 47) (h @ p @ q) = q"
  proof -
    have "47 \<notin> set (h @ p)" using not_in_plain_host(2) [OF h] not_in_plain_host(3) [OF p] by simp
    moreover have "q = [] \<or> (\<exists>t. q = 47 # t)" using q by (cases q) (auto simp: plain_path_def)
    ultimately show "takeWhile (\<lambda>c. c \<noteq> 47) (h @ p @ q) = h @ p" "dropWhile (\<lambda>c. c \<noteq> 47) (h @ p @ q) = q"
      using takeWhile_until [of 47 "h @ p"] dropWhile_until [of 47 "h @ p"]
        takeWhile_all [of 47 "h @ p"] dropWhile_all [of 47 "h @ p"] by auto
  qed
  have "url_parse (s @ 58 # ?r) = Some \<lparr>u_Scheme = s, u_Host = h @ p, u_Path = q\<rparr>"
  proof -
    have "63 \<notin> set ?r" using no(3) by simp
    then have cut: "fst (cut 63 ?r) = ?r" by simp
    have "s @ 58 # ?r \<noteq> [42]" using ne by (cases s) simp_all
    then show ?thesis
      using no(6) low ne cut parts plain_chars(7) [OF plain_parts(2) [OF q]]
      by (simp add: url_parse_def getScheme_plain [OF s] Let_def has_prefix_def parseAuthority_plain [OF h p])
  qed
  with no(1) show ?thesis by (simp add: Parse_def ascii_def)
qed

text \<open>
  Addresses as they are usually written work. With a host name or an IPv4 address, an optional port
  and a path without escapes, \<open>wss://\<close> is accepted with and without the insecure flag and \<open>ws://\<close> with it
  only; the link shown to the viewers has the same host, port and path, over HTTPS and over HTTP
  respectively, and carries the code in its fragment, which browsers keep to themselves.
\<close>

theorem plain_relays_are_accepted:
  assumes "plain_host h" "validOptionalPort p" "plain_path q"
  shows "validateRelayURL (ascii ''wss://'' @ h @ p @ q) = None
    \<and> validateRelayURLInsecure (ascii ''wss://'' @ h @ p @ q) = None
    \<and> validateRelayURL (ascii ''ws://'' @ h @ p @ q) = Some MustUseWssTLS
    \<and> validateRelayURLInsecure (ascii ''ws://'' @ h @ p @ q) = None
    \<and> buildWatchURL (ascii ''wss://'' @ h @ p @ q) code = ascii ''https://'' @ h @ p @ q @ ascii ''/join#'' @ code
    \<and> buildWatchURL (ascii ''ws://'' @ h @ p @ q) code = ascii ''http://'' @ h @ p @ q @ ascii ''/join#'' @ code"
proof -
  have ne: "h \<noteq> []" using assms(1) by (simp add: plain_host_def)
  have wss: "Parse (ascii ''wss://'' @ h @ p @ q) = Some \<lparr>u_Scheme = ascii ''wss'', u_Host = h @ p, u_Path = q\<rparr>"
    and ws: "Parse (ascii ''ws://'' @ h @ p @ q) = Some \<lparr>u_Scheme = ascii ''ws'', u_Host = h @ p, u_Path = q\<rparr>"
    using Parse_plain [OF _ assms(1-3), of "ascii ''wss''"] Parse_plain [OF _ assms(1-3), of "ascii ''ws''"]
    by (simp_all add: web_scheme_def ascii_def)
  have "ascii ''wss'' \<noteq> ascii ''ws''" "ascii ''ws'' \<noteq> []" "ascii ''wss'' \<noteq> []"
    "ascii ''wss://'' @ h @ p @ q \<noteq> []" "ascii ''ws://'' @ h @ p @ q \<noteq> []"
    by (simp_all add: ascii_def)
  with ne show ?thesis
    by (simp add: validateRelayURL_def validateRelayURLInsecure_def buildWatchURL_def wss ws)
      (simp add: ascii_def)
qed

lemma plain_relays_are_accepted_witness:
  "validateRelayURL (ascii ''wss://relay.example:8443/lw'') = None
   \<and> buildWatchURL (ascii ''ws://relay.example:8443/lw'') (ascii ''1-a-b'')
     = ascii ''http://relay.example:8443/lw/join#1-a-b''"
proof -
  have "plain_host (ascii ''relay.example'')" "validOptionalPort (ascii '':8443'')" "plain_path (ascii ''/lw'')"
    by (simp_all add: plain_host_def validOptionalPort_def plain_path_def ascii_def url_letter_def url_digit_def)
  from plain_relays_are_accepted [OF this, of "ascii ''1-a-b''"] show ?thesis by (simp add: ascii_def)
qed

end
