(* ===== verification/Tty.thy ===== *)
theory Tty
  imports Prelude
begin

text \<open>
  \<open>cmd/lw/terminal_linux.go\<close> and \<open>cmd/lw/terminal_darwin.go\<close>: the raw mode of the terminal, in
  which \<open>lw share\<close> and \<open>lw join\<close> run. The flag words have 32 bits on Linux and 64 on macOS, and the
  bits have other places, so the definitions are generic in the word and take the constants of
  \<open>golang.org/x/sys/unix\<close> as a record; \<open>consts_ok\<close> says what the code relies on.
\<close>

section \<open>The attributes of a terminal\<close>

record 'w termios =
  Iflag :: 'w
  Oflag :: 'w
  Cflag :: 'w
  Lflag :: 'w
  Cc :: "byte list"

record 'w tty_consts =
  k_IGNBRK :: 'w
  k_BRKINT :: 'w
  k_PARMRK :: 'w
  k_ISTRIP :: 'w
  k_INLCR :: 'w
  k_IGNCR :: 'w
  k_ICRNL :: 'w
  k_IXON :: 'w
  k_OPOST :: 'w
  k_ECHO :: 'w
  k_ECHONL :: 'w
  k_ICANON :: 'w
  k_ISIG :: 'w
  k_IEXTEN :: 'w
  k_CSIZE :: 'w
  k_PARENB :: 'w
  k_CS8 :: 'w
  k_VMIN :: nat
  k_VTIME :: nat

unbundle bit_operations_syntax

definition raw_iflags :: "'w::len word tty_consts \<Rightarrow> 'w word" where
  "raw_iflags K = k_IGNBRK K OR k_BRKINT K OR k_PARMRK K OR k_ISTRIP K OR k_INLCR K OR k_IGNCR K
     OR k_ICRNL K OR k_IXON K"

definition raw_lflags :: "'w::len word tty_consts \<Rightarrow> 'w word" where
  "raw_lflags K = k_ECHO K OR k_ECHONL K OR k_ICANON K OR k_ISIG K OR k_IEXTEN K"

definition raw_termios :: "'w::len word tty_consts \<Rightarrow> 'w word termios \<Rightarrow> 'w word termios" where
  "raw_termios K t =
     t\<lparr>Iflag := Iflag t AND NOT (raw_iflags K),
       Oflag := Oflag t AND NOT (k_OPOST K),
       Lflag := Lflag t AND NOT (raw_lflags K),
       Cflag := (Cflag t AND NOT (k_CSIZE K OR k_PARENB K)) OR k_CS8 K,
       Cc := (Cc t)[k_VMIN K := 1, k_VTIME K := 0]\<rparr>"

text \<open>
  \<open>get_err\<close> and \<open>set_err\<close> are what the two calls of the kernel return; the terminal itself is the
  state. The result is the attributes to go back to.
\<close>

definition setRawMode ::
  "'w::len word tty_consts \<Rightarrow> string option \<Rightarrow> string option \<Rightarrow> 'w word termios
    \<Rightarrow> (string + 'w word termios) \<times> 'w word termios" where
  "setRawMode K get_err set_err tty =
     (case get_err of
        Some e \<Rightarrow> (Inl (''getting terminal attributes: '' @ e), tty)
      | None \<Rightarrow>
          (let old = tty; raw = raw_termios K tty
           in case set_err of
                Some e \<Rightarrow> (Inl (''setting raw mode: '' @ e), tty)
              | None \<Rightarrow> (Inr old, raw)))"

definition restoreTerminal :: "string option \<Rightarrow> 'w termios \<Rightarrow> 'w termios \<Rightarrow> 'w termios" where
  "restoreTerminal err saved tty = (case err of Some e \<Rightarrow> tty | None \<Rightarrow> saved)"

text \<open>The file for macOS has the same code; its flag words have 64 bits.\<close>

definition setRawMode_darwin ::
  "64 word tty_consts \<Rightarrow> string option \<Rightarrow> string option \<Rightarrow> 64 word termios
    \<Rightarrow> (string + 64 word termios) \<times> 64 word termios" where
  "setRawMode_darwin K get_err set_err tty = setRawMode K get_err set_err tty"

section \<open>Entering and leaving\<close>

text \<open>
  What the commands rely on: a failure to enter changes nothing, and leaving with what entering returned
  brings back what was there.
\<close>

locale raw_terminal =
  fixes enter :: "'t \<Rightarrow> (string + 't) \<times> 't"
    and leave :: "'t \<Rightarrow> 't \<Rightarrow> 't"
  assumes enter_fails: "enter t = (Inl e, t') \<Longrightarrow> t' = t"
    and enter_saves: "enter t = (Inr old, t') \<Longrightarrow> old = t"
    and leave_restores: "leave old t = old"
begin

lemma left_as_found: "enter t = (Inr old, t') \<Longrightarrow> leave old t'' = t"
  using enter_saves leave_restores by metis

end

interpretation linux_terminal: raw_terminal "setRawMode K get_err set_err" "restoreTerminal None"
  by unfold_locales (auto simp: setRawMode_def restoreTerminal_def Let_def split: option.splits)

interpretation darwin_terminal: raw_terminal "setRawMode_darwin K get_err set_err" "restoreTerminal None"
  by unfold_locales (auto simp: setRawMode_darwin_def setRawMode_def restoreTerminal_def Let_def split: option.splits)

section \<open>What raw mode means\<close>

definition flag_off :: "'w::len word \<Rightarrow> 'w word \<Rightarrow> bool" where
  "flag_off flags f \<longleftrightarrow> flags AND f = 0"

text \<open>
  The constants: \<open>CS8\<close> is a value of the field \<open>CSIZE\<close>, outside the parity bit, and the two characters
  have different slots among the \<open>n\<close> there are.
\<close>

definition consts_ok :: "'w::len word tty_consts \<Rightarrow> nat \<Rightarrow> bool" where
  "consts_ok K n \<longleftrightarrow> k_CS8 K AND k_CSIZE K = k_CS8 K \<and> k_CS8 K AND k_PARENB K = 0
     \<and> k_VMIN K < n \<and> k_VTIME K < n \<and> k_VMIN K \<noteq> k_VTIME K"

lemma flag_off_cleared: "f AND m = f \<Longrightarrow> flag_off (x AND NOT m) f"
  unfolding flag_off_def by (auto simp: bit_eq_iff bit_simps)

lemma cleared_or: "(x AND NOT m) OR m = x OR (m :: 'w::len word)"
  by (rule bit_word_eqI) (auto simp: bit_simps)

lemma flag_in_mask: "f AND (f OR m) = f" "f AND m = f \<Longrightarrow> f AND (g OR m) = (f :: 'w::len word)"
  by (auto simp: bit_eq_iff bit_simps)

lemma raw_flags:
  "list_all (\<lambda>f. f AND raw_lflags K = f) [k_ECHO K, k_ECHONL K, k_ICANON K, k_ISIG K, k_IEXTEN K]"
  "list_all (\<lambda>f. f AND raw_iflags K = f) [k_IGNBRK K, k_BRKINT K, k_PARMRK K, k_ISTRIP K, k_INLCR K,
     k_IGNCR K, k_ICRNL K, k_IXON K]"
  by (simp_all add: raw_lflags_def raw_iflags_def flag_in_mask)

lemma raw_off:
  "list_all (flag_off (Lflag (raw_termios K t))) [k_ECHO K, k_ECHONL K, k_ICANON K, k_ISIG K, k_IEXTEN K]"
  "list_all (flag_off (Iflag (raw_termios K t))) [k_IGNBRK K, k_BRKINT K, k_PARMRK K, k_ISTRIP K, k_INLCR K,
     k_IGNCR K, k_ICRNL K, k_IXON K]"
  "flag_off (Oflag (raw_termios K t)) (k_OPOST K)"
  using raw_flags [of K] by (simp_all add: raw_termios_def flag_off_cleared)

lemma raw_cflag:
  assumes "k_CS8 K AND k_CSIZE K = k_CS8 K" "k_CS8 K AND k_PARENB K = 0"
  shows "Cflag (raw_termios K t) AND k_CSIZE K = k_CS8 K" "flag_off (Cflag (raw_termios K t)) (k_PARENB K)"
    "Cflag (raw_termios K t) OR (k_CSIZE K OR k_PARENB K) = Cflag t OR (k_CSIZE K OR k_PARENB K)"
proof -
  have bits: "bit (k_CS8 K) n \<Longrightarrow> bit (k_CSIZE K) n \<and> \<not> bit (k_PARENB K) n" for n
    using assms by (metis bit_0_eq bit_and_iff bot_apply bot_bool_def)
  show "Cflag (raw_termios K t) AND k_CSIZE K = k_CS8 K"
    "Cflag (raw_termios K t) OR (k_CSIZE K OR k_PARENB K) = Cflag t OR (k_CSIZE K OR k_PARENB K)"
    by (rule bit_word_eqI; use bits in \<open>auto simp: raw_termios_def bit_simps\<close>)+
  show "flag_off (Cflag (raw_termios K t)) (k_PARENB K)"
    unfolding flag_off_def by (rule bit_word_eqI) (use bits in \<open>auto simp: raw_termios_def bit_simps\<close>)
qed

text \<open>
  Raw mode and back. In raw mode the terminal neither echoes nor collects lines, does not turn
  control characters into signals or flow control, changes neither carriage returns nor output,
  and delivers characters of eight bits without parity one at a time; every flag outside those named
  is as it was. What \<open>setRawMode\<close> returns restores the terminal exactly, and when it fails nothing
  has changed.
\<close>

theorem raw_mode_and_back:
  assumes "consts_ok K (length (Cc tty))"
  shows "case setRawMode K get_err set_err tty of
      (Inl e, tty') \<Rightarrow> tty' = tty
    | (Inr saved, tty') \<Rightarrow>
        restoreTerminal None saved tty' = tty
        \<and> list_all (flag_off (Lflag tty')) [k_ECHO K, k_ECHONL K, k_ICANON K, k_ISIG K, k_IEXTEN K]
        \<and> list_all (flag_off (Iflag tty')) [k_IGNBRK K, k_BRKINT K, k_PARMRK K, k_ISTRIP K, k_INLCR K,
            k_IGNCR K, k_ICRNL K, k_IXON K]
        \<and> flag_off (Oflag tty') (k_OPOST K) \<and> flag_off (Cflag tty') (k_PARENB K)
        \<and> Cflag tty' AND k_CSIZE K = k_CS8 K
        \<and> Cc tty' ! k_VMIN K = 1 \<and> Cc tty' ! k_VTIME K = 0
        \<and> Iflag tty' OR raw_iflags K = Iflag tty OR raw_iflags K
        \<and> Lflag tty' OR raw_lflags K = Lflag tty OR raw_lflags K
        \<and> Oflag tty' OR k_OPOST K = Oflag tty OR k_OPOST K
        \<and> Cflag tty' OR (k_CSIZE K OR k_PARENB K) = Cflag tty OR (k_CSIZE K OR k_PARENB K)"
proof -
  let ?t = "raw_termios K tty"
  have c: "k_CS8 K AND k_CSIZE K = k_CS8 K" "k_CS8 K AND k_PARENB K = 0"
    and cc: "k_VMIN K < length (Cc tty)" "k_VTIME K < length (Cc tty)" "k_VMIN K \<noteq> k_VTIME K"
    using assms by (simp_all add: consts_ok_def)
  have "Cc ?t ! k_VMIN K = 1" "Cc ?t ! k_VTIME K = 0" "Iflag ?t OR raw_iflags K = Iflag tty OR raw_iflags K"
    "Lflag ?t OR raw_lflags K = Lflag tty OR raw_lflags K" "Oflag ?t OR k_OPOST K = Oflag tty OR k_OPOST K"
    using cc by (simp_all add: raw_termios_def cleared_or)
  with raw_off [of K tty] raw_cflag [OF c, of tty] show ?thesis
    unfolding setRawMode_def Let_def restoreTerminal_def by (simp split: option.split)
qed

text \<open>The constants of Linux.\<close>

definition linux_consts :: "32 word tty_consts" where
  "linux_consts =
     \<lparr>k_IGNBRK = 0x1, k_BRKINT = 0x2, k_PARMRK = 0x8, k_ISTRIP = 0x20, k_INLCR = 0x40, k_IGNCR = 0x80,
      k_ICRNL = 0x100, k_IXON = 0x400, k_OPOST = 0x1, k_ECHO = 0x8, k_ECHONL = 0x40, k_ICANON = 0x2,
      k_ISIG = 0x1, k_IEXTEN = 0x8000, k_CSIZE = 0x30, k_PARENB = 0x100, k_CS8 = 0x30,
      k_VMIN = 6, k_VTIME = 5\<rparr>"

definition cooked_tty :: "32 word termios" where
  "cooked_tty = \<lparr>Iflag = 0x500, Oflag = 0x5, Cflag = 0xBF, Lflag = 0x8A3B, Cc = replicate 19 0\<rparr>"

theorem raw_mode_and_back_witness:
  "case setRawMode linux_consts None None cooked_tty of
      (Inl e, tty') \<Rightarrow> False
    | (Inr saved, tty') \<Rightarrow> restoreTerminal None saved tty' = cooked_tty \<and> tty' \<noteq> cooked_tty
        \<and> flag_off (Lflag tty') 0x8 \<and> Cc tty' ! 6 = 1"
proof -
  have ok: "consts_ok linux_consts (length (Cc cooked_tty))"
    by (simp add: consts_ok_def linux_consts_def cooked_tty_def)
  have "Lflag (raw_termios linux_consts cooked_tty) \<noteq> Lflag cooked_tty"
    by (simp add: raw_termios_def raw_lflags_def linux_consts_def cooked_tty_def)
  with raw_mode_and_back [OF ok, of None None] show ?thesis
    by (auto simp: setRawMode_def Let_def) (simp_all add: linux_consts_def)
qed

end
