(* ===== verification/Pty.thy ===== *)
theory Pty
  imports Prelude
begin

text \<open>
  \<open>internal/pty/pty.go\<close>: the shell of a sharer behind a pseudo-terminal. The package
  \<open>creack/pty\<close> and the operating system come in through their results: whether the process starts,
  what reads and writes return, whether the kernel takes a new size, how the process ends. The size
  that the kernel holds is part of the state, so that it can be compared with the one the
  struct remembers.
\<close>

section \<open>The terminal\<close>

record pty_size =
  sz_Cols :: u16
  sz_Rows :: u16

datatype pty_probe =
    ShellStarted nat u16 u16
  | OutputRead nat
  | PtyResized u16 u16
  | ShellExited "string option"

datatype pty_error = ArgvEmpty | StartingPty string | ResizingPty string

text \<open>
  \<open>t_done\<close> says whether the channel is closed, \<open>t_open\<close> whether the master side is open, \<open>t_kernel\<close> is
  the window size of the device.
\<close>

record Terminal =
  t_pid :: "nat option"
  t_size :: pty_size
  t_done :: bool
  t_exitErr :: "string option"
  t_open :: bool
  t_kernel :: pty_size
  t_probes :: "pty_probe list"

definition pty_call :: "pty_probe \<Rightarrow> Terminal \<Rightarrow> Terminal" where
  "pty_call p t = t\<lparr>t_probes := t_probes t @ [p]\<rparr>"

text \<open>\<open>started\<close> is the process that \<open>StartWithSize\<close> made, or its error.\<close>

definition Start :: "bytes list \<Rightarrow> pty_size \<Rightarrow> string + nat \<Rightarrow> pty_error + Terminal" where
  "Start argv sz started =
     (if length argv = 0 then Inl ArgvEmpty
      else case started of
        Inl e \<Rightarrow> Inl (StartingPty e)
      | Inr pid \<Rightarrow>
          Inr (pty_call (ShellStarted pid (sz_Cols sz) (sz_Rows sz))
            \<lparr>t_pid = Some pid, t_size = sz, t_done = False, t_exitErr = None, t_open = True,
             t_kernel = sz, t_probes = []\<rparr>))"

definition pty_Read :: "nat \<times> string option \<Rightarrow> Terminal \<Rightarrow> (nat \<times> string option) \<times> Terminal" where
  "pty_Read result t = (result, if 0 < fst result then pty_call (OutputRead (fst result)) t else t)"

definition pty_Write :: "nat \<times> string option \<Rightarrow> Terminal \<Rightarrow> (nat \<times> string option) \<times> Terminal" where
  "pty_Write result t = (result, t)"

definition pty_Resize :: "string option \<Rightarrow> u16 \<Rightarrow> u16 \<Rightarrow> Terminal \<Rightarrow> pty_error option \<times> Terminal" where
  "pty_Resize err cols rows t =
     (case err of
        Some e \<Rightarrow> (Some (ResizingPty e), t)
      | None \<Rightarrow>
          (let z = \<lparr>sz_Cols = cols, sz_Rows = rows\<rparr>
           in (None, pty_call (PtyResized cols rows) (t\<lparr>t_kernel := z, t_size := z\<rparr>))))"

definition pty_Size :: "Terminal \<Rightarrow> pty_size" where
  "pty_Size t = t_size t"

definition Pid :: "Terminal \<Rightarrow> nat" where
  "Pid t = (case t_pid t of None \<Rightarrow> 0 | Some pid \<Rightarrow> pid)"

text \<open>
  The goroutine \<open>waitForExit\<close>, which ends with the process. \<open>Wait\<close> and the second half of \<open>Close\<close>
  block until the channel is closed: \<open>None\<close> stands for a call that does not return yet.
\<close>

definition waitForExit :: "string option \<Rightarrow> Terminal \<Rightarrow> Terminal" where
  "waitForExit err t = (pty_call (ShellExited err) (t\<lparr>t_exitErr := err\<rparr>))\<lparr>t_done := True\<rparr>"

definition pty_Wait :: "Terminal \<Rightarrow> string option option" where
  "pty_Wait t = (if t_done t then Some (t_exitErr t) else None)"

definition pty_Close :: "Terminal \<Rightarrow> unit option \<times> Terminal" where
  "pty_Close t = (if t_done t then Some () else None, t\<lparr>t_open := False\<rparr>)"

section \<open>Runs\<close>

text \<open>The goroutine \<open>waitForExit\<close> ends once, so there is no second \<open>Exits\<close>.\<close>

datatype pty_event =
    Reads "nat \<times> string option"
  | Writes "nat \<times> string option"
  | Resizes "string option" u16 u16
  | Exits "string option"
  | Closes

inductive pty_step :: "Terminal \<Rightarrow> pty_event \<Rightarrow> Terminal \<Rightarrow> bool" where
  reads: "pty_step t (Reads r) (snd (pty_Read r t))"
| writes: "pty_step t (Writes r) (snd (pty_Write r t))"
| resizes: "pty_step t (Resizes err cols rows) (snd (pty_Resize err cols rows t))"
| exits: "\<not> t_done t \<Longrightarrow> pty_step t (Exits err) (waitForExit err t)"
| closes: "pty_step t Closes (snd (pty_Close t))"

inductive pty_run :: "Terminal \<Rightarrow> pty_event list \<Rightarrow> Terminal \<Rightarrow> bool" where
  rests: "pty_run t [] t"
| goes: "pty_step t e t1 \<Longrightarrow> pty_run t1 es t2 \<Longrightarrow> pty_run t (e # es) t2"

inductive_simps pty_step_simps [simp]:
  "pty_step t (Reads r) t'" "pty_step t (Writes r) t'" "pty_step t (Resizes err cols rows) t'"
  "pty_step t (Exits err) t'" "pty_step t Closes t'"

inductive_simps pty_run_simps [simp]: "pty_run t [] t'" "pty_run t (e # es) t'"

lemma pty_call_simps [simp]:
  "t_pid (pty_call p t) = t_pid t" "t_size (pty_call p t) = t_size t" "t_done (pty_call p t) = t_done t"
  "t_exitErr (pty_call p t) = t_exitErr t" "t_open (pty_call p t) = t_open t"
  "t_kernel (pty_call p t) = t_kernel t" "t_probes (pty_call p t) = t_probes t @ [p]"
  by (simp_all add: pty_call_def)

lemmas pty_ops = pty_Read_def pty_Write_def pty_Resize_def waitForExit_def pty_Close_def Let_def

text \<open>What a run does to the size and how it ends.\<close>

fun last_size :: "pty_size \<Rightarrow> pty_event list \<Rightarrow> pty_size" where
  "last_size z [] = z"
| "last_size z (Resizes None cols rows # es) = last_size \<lparr>sz_Cols = cols, sz_Rows = rows\<rparr> es"
| "last_size z (_ # es) = last_size z es"

definition exit_errs :: "pty_event list \<Rightarrow> string option list" where
  "exit_errs es = List.map_filter (\<lambda>e. case e of Exits err \<Rightarrow> Some err | _ \<Rightarrow> None) es"

definition exit_reports :: "pty_probe list \<Rightarrow> string option list" where
  "exit_reports ps = List.map_filter (\<lambda>p. case p of ShellExited err \<Rightarrow> Some err | _ \<Rightarrow> None) ps"

lemma exit_reports_append [simp]: "exit_reports (ps @ qs) = exit_reports ps @ exit_reports qs"
  by (induction ps) (simp_all add: exit_reports_def List.map_filter_simps split: pty_probe.split)

lemma exit_reports_Cons [simp]:
  "exit_reports [] = []" "exit_reports (ShellExited err # ps) = err # exit_reports ps"
  "exit_reports (ShellStarted pid c r # ps) = exit_reports ps" "exit_reports (OutputRead n # ps) = exit_reports ps"
  "exit_reports (PtyResized c r # ps) = exit_reports ps"
  by (simp_all add: exit_reports_def List.map_filter_simps)

lemma exit_errs_Cons [simp]:
  "exit_errs [] = []" "exit_errs (Exits err # es) = err # exit_errs es"
  "exit_errs (Reads r # es) = exit_errs es" "exit_errs (Writes r # es) = exit_errs es"
  "exit_errs (Resizes e c q # es) = exit_errs es" "exit_errs (Closes # es) = exit_errs es"
  by (simp_all add: exit_errs_def List.map_filter_simps)

lemma pty_run_effect:
  "pty_run t es t' \<Longrightarrow> t_kernel t = t_size t \<Longrightarrow>
    t_size t' = last_size (t_size t) es \<and> t_kernel t' = t_size t' \<and> t_pid t' = t_pid t
    \<and> exit_reports (t_probes t') = exit_reports (t_probes t) @ exit_errs es
    \<and> length (exit_errs es) \<le> (if t_done t then 0 else 1)
    \<and> t_done t' = (t_done t \<or> exit_errs es \<noteq> [])
    \<and> (t_done t \<or> exit_errs es \<noteq> [] \<longrightarrow> t_exitErr t' = last (t_exitErr t # exit_errs es))"
proof (induction rule: pty_run.induct)
  case (goes t e t1 es t2)
  show ?case
  proof (cases e)
    case (Resizes err cols rows)
    with goes show ?thesis by (cases err) (auto simp: pty_ops)
  qed (use goes in \<open>auto simp: pty_ops split: if_splits\<close>)
qed auto

text \<open>
  The terminal object tells the truth about the device. After any run of reads, writes, resizes
  and closings, the size that \<open>Size\<close> returns is the one the kernel holds, which is that of the last
  resize that succeeded; the end of the shell is reported once at most, and \<open>Wait\<close> returns,
  with the error of the process, exactly when the shell has ended.
\<close>

theorem terminal_tells_the_truth:
  assumes "Start argv sz (Inr pid) = Inr t0" and "pty_run t0 es t"
  shows "pty_Size t = last_size sz es \<and> pty_Size t = t_kernel t \<and> Pid t = pid
    \<and> exit_reports (t_probes t) = exit_errs es
    \<and> pty_Wait t = (case exit_errs es of [] \<Rightarrow> None | err # _ \<Rightarrow> Some err) \<and> length (exit_errs es) \<le> 1"
proof -
  from assms(1) have t0: "t0 = pty_call (ShellStarted pid (sz_Cols sz) (sz_Rows sz))
      \<lparr>t_pid = Some pid, t_size = sz, t_done = False, t_exitErr = None, t_open = True,
       t_kernel = sz, t_probes = []\<rparr>"
    by (simp add: Start_def split: if_splits)
  from pty_run_effect [OF assms(2)] show ?thesis
    by (cases "exit_errs es") (simp_all add: t0 pty_Size_def Pid_def pty_Wait_def)
qed

theorem terminal_tells_the_truth_witness:
  "\<exists>t0 t. Start [[115, 104]] \<lparr>sz_Cols = 80, sz_Rows = 23\<rparr> (Inr 7) = Inr t0
    \<and> pty_run t0 [Reads (5, None), Resizes None 100 39, Resizes (Some ''EBADF'') 1 1, Exits None, Closes] t
    \<and> pty_Size t = \<lparr>sz_Cols = 100, sz_Rows = 39\<rparr> \<and> pty_Wait t = Some None \<and> Pid t = 7"
proof -
  let ?z = "\<lparr>sz_Cols = 80, sz_Rows = 23\<rparr>"
    and ?es = "[Reads (5, None), Resizes None 100 39, Resizes (Some ''EBADF'') 1 1, Exits None, Closes]"
  obtain t0 where t0: "Start [[115, 104]] ?z (Inr 7) = Inr t0" by (simp add: Start_def)
  then have "\<not> t_done t0" by (auto simp: Start_def)
  then obtain t where t: "pty_run t0 ?es t" by (simp add: pty_ops)
  from terminal_tells_the_truth [OF t0 t] t0 t show ?thesis by auto
qed

end
