(* ===== verification/Status_Bar.thy ===== *)
theory Status_Bar
  imports Prelude Go_Strings
begin

text \<open>
  \<open>cmd/lw/statusbar.go\<close>: the line at the bottom of the terminal that shows the state of a session.
  Texts are lists of runes; what reaches the terminal is a log in which the bytes of the shell
  and the texts of the bar keep their order. A bar lives in several goroutines: the shell's
  output, the callers of \<open>ShowEvent\<close> and \<open>Resize\<close>, and the callbacks of its timer, which wait for
  its lock. Each critical section is one step.
\<close>

section \<open>Texts\<close>

definition esc :: "string \<Rightarrow> gotext" where
  "esc s = 27 # runes s"

definition colorCyberCyan :: gotext where
  "colorCyberCyan = esc ''[30;48;2;0;240;255m''"

definition colorWarningAmber :: gotext where
  "colorWarningAmber = esc ''[30;48;2;255;176;0m''"

definition colorReset :: gotext where
  "colorReset = esc ''[0m''"

definition boldOn :: gotext where
  "boldOn = esc ''[1m''"

definition boldOff :: gotext where
  "boldOff = esc ''[22m''"

definition bold :: "gotext \<Rightarrow> gotext" where
  "bold s = boldOn @ s @ boldOff"

text \<open>The loop of \<open>visibleLen\<close>: \<open>inEsc\<close> is its flag, the number of runes counted the result.\<close>

fun visible_loop :: "bool \<Rightarrow> gotext \<Rightarrow> nat" where
  "visible_loop inEsc [] = 0"
| "visible_loop inEsc (c # s) =
     (if c = 27 then visible_loop True s
      else if inEsc then visible_loop (c \<noteq> 109) s
      else Suc (visible_loop False s))"

definition visibleLen :: "gotext \<Rightarrow> nat" where
  "visibleLen s = visible_loop False s"

definition padOrTruncate :: "gotext \<Rightarrow> nat \<Rightarrow> gotext" where
  "padOrTruncate s width =
     (let vLen = visibleLen s
      in if width \<le> vLen then s else s @ replicate (width - vLen) 32)"

section \<open>The bar\<close>

datatype terminal_write = ShellOut bytes | BarOut gotext

text \<open>
  \<open>sb_revertTimer\<close> is the instant at which the timer fires; \<open>None\<close> when there is none, it fired or
  it was stopped. \<open>sb_callbacks\<close> counts the callbacks that were started and wait for the lock.
  \<open>'p\<close> is what the function \<open>content\<close> reads.
\<close>

record 'p statusBar =
  sb_out :: "terminal_write list"
  sb_cols :: u16
  sb_totalRows :: u16
  sb_colorSeq :: gotext
  sb_content :: "'p \<Rightarrow> gotext"
  sb_transient :: gotext
  sb_revertTimer :: "time option"
  sb_revertDelay :: duration
  sb_callbacks :: nat

record 'p statusBarConfig =
  cfg_cols :: u16
  cfg_totalRows :: u16
  cfg_color :: gotext
  cfg_content :: "'p \<Rightarrow> gotext"

definition newStatusBar :: "'p statusBarConfig \<Rightarrow> 'p statusBar" where
  "newStatusBar cfg =
     \<lparr>sb_out = [], sb_cols = cfg_cols cfg, sb_totalRows = cfg_totalRows cfg,
      sb_colorSeq = cfg_color cfg, sb_content = cfg_content cfg, sb_transient = [],
      sb_revertTimer = None, sb_revertDelay = 5 * second, sb_callbacks = 0\<rparr>"

definition bar_print :: "gotext \<Rightarrow> 'p statusBar \<Rightarrow> 'p statusBar" where
  "bar_print s sb = sb\<lparr>sb_out := sb_out sb @ [BarOut s]\<rparr>"

text \<open>The sequence that makes rows 1 to \<open>totalRows - 1\<close> the scroll region; \<open>uint16\<close> wraps.\<close>

definition scroll_region :: "u16 \<Rightarrow> gotext" where
  "scroll_region totalRows = esc ''[1;'' @ decimal (unat (totalRows - 1)) @ runes ''r''"

definition SetScrollRegion :: "'p statusBar \<Rightarrow> 'p statusBar" where
  "SetScrollRegion sb = bar_print (scroll_region (sb_totalRows sb)) sb"

definition bar_text :: "'p \<Rightarrow> 'p statusBar \<Rightarrow> gotext" where
  "bar_text p sb = (if sb_transient sb \<noteq> [] then sb_transient sb else sb_content sb p)"

definition drawLocked :: "'p \<Rightarrow> 'p statusBar \<Rightarrow> 'p statusBar" where
  "drawLocked p sb =
     (let padded = padOrTruncate (bar_text p sb) (unat (sb_cols sb))
      in bar_print (esc ''7'' @ scroll_region (sb_totalRows sb)
           @ esc ''['' @ decimal (unat (sb_totalRows sb)) @ runes '';1H''
           @ sb_colorSeq sb @ padded @ colorReset @ esc ''8'') sb)"

definition Draw :: "'p \<Rightarrow> 'p statusBar \<Rightarrow> 'p statusBar" where
  "Draw p sb = drawLocked p sb"

text \<open>\<open>Stop\<close> on the old timer has no effect when it has fired: its callback still runs.\<close>

definition ShowEvent :: "time \<Rightarrow> gotext \<Rightarrow> 'p \<Rightarrow> 'p statusBar \<Rightarrow> 'p statusBar" where
  "ShowEvent now msg p sb =
     drawLocked p (sb\<lparr>sb_transient := runes ''lw | '' @ msg,
                      sb_revertTimer := Some (now + sb_revertDelay sb)\<rparr>)"

definition timer_fires :: "'p statusBar \<Rightarrow> 'p statusBar" where
  "timer_fires sb = sb\<lparr>sb_revertTimer := None, sb_callbacks := Suc (sb_callbacks sb)\<rparr>"

definition revert_callback :: "'p \<Rightarrow> 'p statusBar \<Rightarrow> 'p statusBar" where
  "revert_callback p sb =
     drawLocked p (sb\<lparr>sb_transient := [], sb_callbacks := sb_callbacks sb - 1\<rparr>)"

definition bar_Resize :: "u16 \<Rightarrow> u16 \<Rightarrow> 'p \<Rightarrow> 'p statusBar \<Rightarrow> 'p statusBar" where
  "bar_Resize cols totalRows p sb =
     drawLocked p (bar_print (scroll_region totalRows) (sb\<lparr>sb_cols := cols, sb_totalRows := totalRows\<rparr>))"

definition bar_Close :: "'p statusBar \<Rightarrow> 'p statusBar" where
  "bar_Close sb = sb\<lparr>sb_revertTimer := None\<rparr>"

text \<open>
  \<open>barRedrawWriter\<close>, whose writer is the bar's terminal. \<open>n\<close> and \<open>err\<close> are what the terminal
  returned for the bytes, \<open>bw_last\<close> is the zero time at first.
\<close>

record barRedrawWriter =
  bw_last :: time

definition bar_Write ::
  "nat \<times> string option \<Rightarrow> time \<Rightarrow> bytes \<Rightarrow> 'p \<Rightarrow> barRedrawWriter \<Rightarrow> 'p statusBar
    \<Rightarrow> (nat \<times> string option) \<times> barRedrawWriter \<times> 'p statusBar" where
  "bar_Write result now data p bw sb =
     (let sb1 = sb\<lparr>sb_out := sb_out sb @ [ShellOut (take (fst result) data)]\<rparr>
      in if 100000000 \<le> time_sub now (bw_last bw)
         then (result, bw\<lparr>bw_last := now\<rparr>, Draw p sb1)
         else (result, bw, sb1))"

section \<open>Widths\<close>

text \<open>The flag after a text.\<close>

fun esc_after :: "bool \<Rightarrow> gotext \<Rightarrow> bool" where
  "esc_after inEsc [] = inEsc"
| "esc_after inEsc (c # s) = esc_after (c = 27 \<or> inEsc \<and> c \<noteq> 109) s"

lemma visible_append: "visible_loop e (s @ t) = visible_loop e s + visible_loop (esc_after e s) t"
  by (induction e s rule: visible_loop.induct) auto

lemma esc_after_append [simp]: "esc_after e (s @ t) = esc_after (esc_after e s) t"
  by (induction s arbitrary: e) auto

lemma visible_spaces: "visible_loop e (replicate n 32) = (if e then 0 else n)"
  by (induction n) auto

text \<open>A text whose escape sequences are complete.\<close>

definition complete_text :: "gotext \<Rightarrow> bool" where
  "complete_text s \<longleftrightarrow> \<not> esc_after False s"

lemma complete_append: "complete_text s \<Longrightarrow> complete_text t \<Longrightarrow> complete_text (s @ t)"
  by (simp add: complete_text_def)

lemma visibleLen_append: "complete_text s \<Longrightarrow> visibleLen (s @ t) = visibleLen s + visibleLen t"
  by (simp add: visibleLen_def visible_append complete_text_def)

lemma no_escapes: "27 \<notin> set s \<Longrightarrow> complete_text s \<and> visibleLen s = length s"
  unfolding complete_text_def visibleLen_def by (induction s) auto

lemma complete_bold: "complete_text s \<Longrightarrow> complete_text (bold s) \<and> visibleLen (bold s) = visibleLen s"
  by (simp add: bold_def boldOn_def boldOff_def esc_def runes_def complete_text_def visibleLen_def visible_append)

lemma visible_padded:
  "complete_text s \<Longrightarrow> visibleLen (padOrTruncate s w) = max w (visibleLen s)"
  by (simp add: padOrTruncate_def Let_def visibleLen_append max_def)
    (simp add: visibleLen_def visible_spaces)

section \<open>Runs of a bar\<close>

text \<open>
  The steps, each under the lock: drawing (which \<open>bar_Write\<close> asks for, too), an event, the end of
  the delay, a callback that gets the lock, a new window size, the end. \<open>p\<close> is what \<open>content\<close>
  would read.
\<close>

datatype 'p bar_event =
    Drawn 'p
  | Shown time gotext 'p
  | DelayOver time
  | Reverted 'p
  | Resized u16 u16 'p
  | Closed

inductive bar_step :: "'p statusBar \<Rightarrow> 'p bar_event \<Rightarrow> 'p statusBar \<Rightarrow> bool" where
  drawn: "bar_step sb (Drawn p) (Draw p sb)"
| shown: "bar_step sb (Shown now msg p) (ShowEvent now msg p sb)"
| delay_over: "sb_revertTimer sb = Some t \<Longrightarrow> t \<le> now \<Longrightarrow> bar_step sb (DelayOver now) (timer_fires sb)"
| reverted: "0 < sb_callbacks sb \<Longrightarrow> bar_step sb (Reverted p) (revert_callback p sb)"
| resized: "bar_step sb (Resized cols totalRows p) (bar_Resize cols totalRows p sb)"
| closed: "bar_step sb Closed (bar_Close sb)"

inductive bar_run :: "'p statusBar \<Rightarrow> 'p bar_event list \<Rightarrow> 'p statusBar \<Rightarrow> bool" where
  stays: "bar_run sb [] sb"
| steps: "bar_step sb e sb1 \<Longrightarrow> bar_run sb1 es sb2 \<Longrightarrow> bar_run sb (e # es) sb2"

inductive_simps bar_step_simps [simp]:
  "bar_step sb (Drawn p) sb'" "bar_step sb (Shown now msg p) sb'" "bar_step sb (DelayOver now) sb'"
  "bar_step sb (Reverted p) sb'" "bar_step sb (Resized cols totalRows p) sb'" "bar_step sb Closed sb'"

inductive_simps bar_run_simps [simp]: "bar_run sb [] sb'" "bar_run sb (e # es) sb'"

lemma bar_print_simps [simp]:
  "sb_out (bar_print s sb) = sb_out sb @ [BarOut s]" "sb_cols (bar_print s sb) = sb_cols sb"
  "sb_totalRows (bar_print s sb) = sb_totalRows sb" "sb_colorSeq (bar_print s sb) = sb_colorSeq sb"
  "sb_content (bar_print s sb) = sb_content sb" "sb_transient (bar_print s sb) = sb_transient sb"
  "sb_revertTimer (bar_print s sb) = sb_revertTimer sb" "sb_revertDelay (bar_print s sb) = sb_revertDelay sb"
  "sb_callbacks (bar_print s sb) = sb_callbacks sb"
  by (simp_all add: bar_print_def)

lemma drawLocked_simps [simp]:
  "sb_cols (drawLocked p sb) = sb_cols sb"
  "sb_totalRows (drawLocked p sb) = sb_totalRows sb" "sb_colorSeq (drawLocked p sb) = sb_colorSeq sb"
  "sb_content (drawLocked p sb) = sb_content sb" "sb_transient (drawLocked p sb) = sb_transient sb"
  "sb_revertTimer (drawLocked p sb) = sb_revertTimer sb" "sb_revertDelay (drawLocked p sb) = sb_revertDelay sb"
  "sb_callbacks (drawLocked p sb) = sb_callbacks sb"
  by (simp_all add: drawLocked_def Let_def)

lemmas bar_ops = Draw_def ShowEvent_def timer_fires_def revert_callback_def bar_Resize_def bar_Close_def

text \<open>What is on the bar's line.\<close>

definition displays :: "gotext \<Rightarrow> 'p statusBar \<Rightarrow> bool" where
  "displays s sb \<longleftrightarrow> sb_out sb \<noteq> [] \<and> (\<exists>pre. last (sb_out sb) =
     BarOut (pre @ padOrTruncate s (unat (sb_cols sb)) @ colorReset @ esc ''8''))"

lemma drawLocked_displays: "displays (bar_text p sb) (drawLocked p sb)"
  unfolding displays_def drawLocked_def Let_def by (auto simp del: append_assoc simp: append_assoc [symmetric])

text \<open>Until the bar is closed, an event that is shown has a timer or a callback that ends it.\<close>

definition reverts_later :: "'p statusBar \<Rightarrow> bool" where
  "reverts_later sb \<longleftrightarrow> sb_transient sb = [] \<or> sb_revertTimer sb \<noteq> None \<or> 0 < sb_callbacks sb"

lemma bar_step_reverts_later:
  "bar_step sb e sb' \<Longrightarrow> e \<noteq> Closed \<Longrightarrow> reverts_later sb \<Longrightarrow> reverts_later sb'"
  by (induction rule: bar_step.induct) (auto simp: reverts_later_def bar_ops)

lemma bar_run_reverts_later:
  "bar_run sb es sb' \<Longrightarrow> Closed \<notin> set es \<Longrightarrow> reverts_later sb \<Longrightarrow> reverts_later sb'"
  by (induction rule: bar_run.induct) (auto dest: bar_step_reverts_later)

text \<open>The steps that are left when nothing new happens: the timer fires and the callbacks run.\<close>

definition settle :: "time \<Rightarrow> 'p \<Rightarrow> 'p statusBar \<Rightarrow> 'p bar_event list" where
  "settle t p sb =
     (if sb_revertTimer sb = None then [] else [DelayOver t])
     @ replicate (sb_callbacks sb + (if sb_revertTimer sb = None then 0 else 1)) (Reverted p)"

lemma run_callbacks:
  "\<exists>sb'. bar_run sb (replicate (sb_callbacks sb) (Reverted p)) sb' \<and> sb_callbacks sb' = 0
    \<and> sb_revertTimer sb' = sb_revertTimer sb \<and> sb_content sb' = sb_content sb
    \<and> (0 < sb_callbacks sb \<longrightarrow> sb_transient sb' = [] \<and> displays (sb_content sb p) sb')
    \<and> (sb_callbacks sb = 0 \<longrightarrow> sb' = sb)"
proof (induction "sb_callbacks sb" arbitrary: sb)
  case (Suc n)
  let ?s1 = "revert_callback p sb"
  have s1: "sb_callbacks ?s1 = n" "sb_transient ?s1 = []" "sb_content ?s1 = sb_content sb"
    "sb_revertTimer ?s1 = sb_revertTimer sb"
    using Suc.hyps(2) by (simp_all add: revert_callback_def)
  have sh: "displays (sb_content sb p) ?s1"
    using drawLocked_displays [of p "sb\<lparr>sb_transient := [], sb_callbacks := sb_callbacks sb - 1\<rparr>"]
    by (simp add: revert_callback_def bar_text_def)
  from Suc.hyps(1) [OF s1(1) [symmetric]] obtain sb' where
    "bar_run ?s1 (replicate n (Reverted p)) sb'" "sb_callbacks sb' = 0"
    "sb_revertTimer sb' = sb_revertTimer sb" "sb_content sb' = sb_content sb"
    "0 < n \<longrightarrow> sb_transient sb' = [] \<and> displays (sb_content sb p) sb'" "n = 0 \<longrightarrow> sb' = ?s1"
    unfolding s1 by blast
  with s1 sh show ?case
    unfolding Suc.hyps(2) [symmetric]
    by (intro exI [of _ sb']) (cases n; simp add: Suc.hyps(2) [symmetric])
qed auto

lemma bar_step_content: "bar_step sb e sb' \<Longrightarrow> sb_content sb' = sb_content sb \<and> sb_revertDelay sb' = sb_revertDelay sb"
  by (induction rule: bar_step.induct) (simp_all add: bar_ops)

lemma bar_run_content: "bar_run sb es sb' \<Longrightarrow> sb_content sb' = sb_content sb"
  by (induction rule: bar_run.induct) (simp_all add: bar_step_content)

lemma bar_run_append: "bar_run sb es sb1 \<Longrightarrow> bar_run sb1 es' sb2 \<Longrightarrow> bar_run sb (es @ es') sb2"
  by (induction rule: bar_run.induct) (auto intro: steps)

text \<open>
  A passing message gives way to the steady text. In any run of a bar that was not closed, while
  a message is shown there is a timer or a waiting callback for it; once these have run, however
  many there are, the message is gone and the bar's line shows what the session's state is then.
\<close>

theorem event_gives_way:
  assumes "bar_run (newStatusBar cfg) es sb" and "Closed \<notin> set es" and "sb_transient sb \<noteq> []"
    and "sb_revertTimer sb = None \<or> the (sb_revertTimer sb) \<le> t"
  shows "\<exists>sb'. bar_run sb (settle t p sb) sb' \<and> displays (cfg_content cfg p) sb' \<and> sb_transient sb' = []
    \<and> sb_revertTimer sb' = None \<and> sb_callbacks sb' = 0"
proof -
  have content: "sb_content sb = cfg_content cfg"
    using bar_run_content [OF assms(1)] by (simp add: newStatusBar_def)
  have later: "reverts_later sb"
    using bar_run_reverts_later [OF assms(1,2)] by (simp add: reverts_later_def newStatusBar_def)
  show ?thesis
  proof (cases "sb_revertTimer sb")
    case None
    with later assms(3) have "0 < sb_callbacks sb" by (simp add: reverts_later_def)
    with None run_callbacks [of sb p] show ?thesis by (auto simp: settle_def content)
  next
    case (Some d)
    with assms(4) have "bar_step sb (DelayOver t) (timer_fires sb)" by simp
    with run_callbacks [of "timer_fires sb" p] Some show ?thesis
      by (auto simp: settle_def content timer_fires_def)
  qed
qed

text \<open>
  A callback that is already running is not stopped. When an event arrives while the callback of
  the previous event waits for the lock, the callback hides the new event at once, five seconds
  before its own timer; and when the bar is closed in that moment, it draws on the
  terminal after the bar was taken away.
\<close>

theorem late_callback_still_runs:
  "\<exists>sb sb'. bar_run (newStatusBar cfg)
      [Shown t m1 p, DelayOver (t + 5 * second), Shown (t + 5 * second) m2 p, Reverted p] sb
    \<and> displays (cfg_content cfg p) sb \<and> sb_transient sb = [] \<and> sb_revertTimer sb = Some (t + 10 * second)
    \<and> bar_run (newStatusBar cfg) [Shown t m1 p, DelayOver (t + 5 * second), Closed] sb'
    \<and> (\<exists>sb''. bar_run sb' [Reverted p] sb'' \<and> displays (cfg_content cfg p) sb'' \<and> sb_out sb'' \<noteq> sb_out sb')"
proof -
  have callback: "displays (sb_content sb p) (revert_callback p sb)" for sb :: "'a statusBar"
    using drawLocked_displays [of p "sb\<lparr>sb_transient := [], sb_callbacks := sb_callbacks sb - 1\<rparr>"]
    by (simp add: revert_callback_def bar_text_def)
  let ?n = "newStatusBar cfg"
  let ?f = "timer_fires (ShowEvent t m1 p ?n)"
  let ?s = "ShowEvent (t + 5 * second) m2 p ?f"
  have c: "sb_content ?s = cfg_content cfg" "sb_content (bar_Close ?f) = cfg_content cfg"
    by (simp_all add: bar_ops newStatusBar_def)
  have "bar_run ?n [Shown t m1 p, DelayOver (t + 5 * second), Shown (t + 5 * second) m2 p, Reverted p]
      (revert_callback p ?s)"
    by (simp add: bar_ops newStatusBar_def)
  moreover have "sb_transient (revert_callback p ?s) = []"
    "sb_revertTimer (revert_callback p ?s) = Some (t + 10 * second)"
    by (simp_all add: bar_ops newStatusBar_def)
  moreover have "bar_run ?n [Shown t m1 p, DelayOver (t + 5 * second), Closed] (bar_Close ?f)"
    "bar_run (bar_Close ?f) [Reverted p] (revert_callback p (bar_Close ?f))"
    by (simp_all add: bar_ops newStatusBar_def)
  moreover have "sb_out (revert_callback p (bar_Close ?f)) \<noteq> sb_out (bar_Close ?f)"
    by (simp add: revert_callback_def drawLocked_def Let_def)
  ultimately show ?thesis
    using callback [of ?s] callback [of "bar_Close ?f"] unfolding c by blast
qed

section \<open>The shell's output\<close>

text \<open>Complete writes, one after the other.\<close>

fun bar_writes :: "(time \<times> bytes \<times> 'p) list \<Rightarrow> barRedrawWriter \<Rightarrow> 'p statusBar \<Rightarrow> barRedrawWriter \<times> 'p statusBar" where
  "bar_writes [] bw sb = (bw, sb)"
| "bar_writes ((now, data, p) # ws) bw sb =
     (case bar_Write (length data, None) now data p bw sb of (r, bw1, sb1) \<Rightarrow> bar_writes ws bw1 sb1)"

definition shell_bytes :: "terminal_write list \<Rightarrow> bytes" where
  "shell_bytes log = concat (map (\<lambda>w. case w of ShellOut b \<Rightarrow> b | BarOut s \<Rightarrow> []) log)"

definition bar_draws :: "terminal_write list \<Rightarrow> nat" where
  "bar_draws log = length (filter (\<lambda>w. case w of ShellOut b \<Rightarrow> False | BarOut s \<Rightarrow> True) log)"

lemma log_simps [simp]:
  "shell_bytes (l @ l') = shell_bytes l @ shell_bytes l'" "bar_draws (l @ l') = bar_draws l + bar_draws l'"
  "shell_bytes [ShellOut b] = b" "shell_bytes [BarOut s] = []"
  "bar_draws [ShellOut b] = 0" "bar_draws [BarOut s] = 1"
  by (simp_all add: shell_bytes_def bar_draws_def)

lemma log_Draw [simp]:
  "shell_bytes (sb_out (Draw p sb)) = shell_bytes (sb_out sb)"
  "bar_draws (sb_out (Draw p sb)) = Suc (bar_draws (sb_out sb))"
  by (simp_all add: Draw_def drawLocked_def Let_def)

lemma bar_writes_bytes:
  "shell_bytes (sb_out (snd (bar_writes ws bw sb))) = shell_bytes (sb_out sb) @ concat (map (\<lambda>(now, data, p). data) ws)"
  by (induction ws bw sb rule: bar_writes.induct) (simp_all add: bar_Write_def Let_def)

lemma bar_writes_draws:
  assumes "sorted (map fst ws)" "list_all (\<lambda>w. bw_last bw \<le> fst w \<and> fst w \<le> t) ws" "bw_last bw \<le> t"
  shows "int (bar_draws (sb_out (snd (bar_writes ws bw sb)))) * 100000000
    \<le> int (bar_draws (sb_out sb)) * 100000000 + (t - bw_last bw)"
  using assms
proof (induction ws bw sb rule: bar_writes.induct)
  case (2 now data p ws bw sb)
  let ?sb1 = "sb\<lparr>sb_out := sb_out sb @ [ShellOut data]\<rparr>"
  show ?case
  proof (cases "100000000 \<le> time_sub now (bw_last bw)")
    case True
    then have gap: "bw_last bw + 100000000 \<le> now" by (subst (asm) time_sub_ge_iff) simp_all
    have w: "bar_Write (length data, None) now data p bw sb = ((length data, None), bw\<lparr>bw_last := now\<rparr>, Draw p ?sb1)"
      using True by (simp add: bar_Write_def)
    from 2(1) [OF w [symmetric] refl] 2(2,3) gap show ?thesis by (auto simp: w list_all_iff)
  next
    case False
    have w: "bar_Write (length data, None) now data p bw sb = ((length data, None), bw, ?sb1)"
      using False by (simp add: bar_Write_def)
    from 2(1) [OF w [symmetric] refl] 2(2-4) show ?thesis by (auto simp: w)
  qed
qed simp

text \<open>
  The bar does not get in the way of the shell. The bytes that the shell prints all reach the
  terminal, in order and unchanged, with drawings of the bar between them; over a stretch of
  time there is at most one drawing for each tenth of a second, and one more.
\<close>

theorem shell_output_passes:
  assumes "sorted (map fst ws)" and "ws \<noteq> []" and "bw_last bw \<le> fst (hd ws)"
  shows "case bar_writes ws bw sb of (bw', sb') \<Rightarrow>
    shell_bytes (sb_out sb') = shell_bytes (sb_out sb) @ concat (map (\<lambda>(now, data, p). data) ws)
    \<and> int (bar_draws (sb_out sb')) \<le> int (bar_draws (sb_out sb)) + (fst (last ws) - fst (hd ws)) div 100000000 + 1"
proof -
  obtain now data p ws1 where ws: "ws = (now, data, p) # ws1" using assms(2) by (cases ws) auto
  let ?t = "fst (last ws)"
  have le: "fst w \<le> ?t" if "w \<in> set ws" for w
    using that assms(1,2) by (auto simp: in_set_conv_nth last_conv_nth sorted_iff_nth_mono)
  then have all: "list_all (\<lambda>w. now \<le> fst w \<and> fst w \<le> ?t) ws1" "now \<le> ?t"
    using assms(1) by (auto simp: ws list_all_iff split: if_splits)
  let ?sb1 = "sb\<lparr>sb_out := sb_out sb @ [ShellOut data]\<rparr>"
  have "int (bar_draws (sb_out (snd (bar_writes ws bw sb)))) * 100000000
      \<le> int (bar_draws (sb_out sb)) * 100000000 + (?t - now + 100000000)"
  proof (cases "100000000 \<le> time_sub now (bw_last bw)")
    case True
    then have "bar_writes ws bw sb = bar_writes ws1 (bw\<lparr>bw_last := now\<rparr>) (Draw p ?sb1)"
      by (simp add: ws bar_Write_def)
    moreover have "sorted (map fst ws1)" using assms(1) by (simp add: ws)
    ultimately show ?thesis
      using bar_writes_draws [of ws1 "bw\<lparr>bw_last := now\<rparr>" ?t "Draw p ?sb1"] all by simp
  next
    case False
    then have near: "now < bw_last bw + 100000000" "bw_last bw \<le> now"
      using assms(3) by (simp_all add: ws not_le time_sub_less_iff)
    from False have "bar_writes ws bw sb = bar_writes ws1 bw ?sb1"
      by (simp add: ws bar_Write_def)
    moreover have "list_all (\<lambda>w. bw_last bw \<le> fst w \<and> fst w \<le> ?t) ws1"
      using all(1) near(2) by (auto simp: list_all_iff)
    moreover have "sorted (map fst ws1)" using assms(1) by (simp add: ws)
    ultimately show ?thesis
      using bar_writes_draws [of ws1 bw ?t ?sb1] all(2) near by simp
  qed
  moreover have "fst (hd ws) = now" by (simp add: ws)
  ultimately have "int (bar_draws (sb_out (snd (bar_writes ws bw sb)))) - int (bar_draws (sb_out sb))
      \<le> (?t - fst (hd ws)) div 100000000 + 1"
    by linarith
  then show ?thesis using bar_writes_bytes [of ws bw sb] by (simp add: split_beta)
qed

definition ex_bar :: "gotext statusBar" where
  "ex_bar = newStatusBar \<lparr>cfg_cols = 80, cfg_totalRows = 24, cfg_color = colorCyberCyan, cfg_content = (\<lambda>s. s)\<rparr>"

theorem shell_output_passes_witness:
  "case bar_writes [(second, [104], runes ''a''), (second + 7, [105], runes ''a''), (2 * second, [10], runes ''b'')]
      \<lparr>bw_last = 0\<rparr> ex_bar of (bw', sb') \<Rightarrow>
    shell_bytes (sb_out sb') = [104, 105, 10] \<and> int (bar_draws (sb_out sb')) \<le> 11"
  using shell_output_passes [of "[(second, [104], runes ''a''), (second + 7, [105], runes ''a''), (2 * second, [10], runes ''b'')]"
      "\<lparr>bw_last = 0\<rparr>" ex_bar]
  by (simp add: split_beta ex_bar_def newStatusBar_def second_def) (simp add: shell_bytes_def bar_draws_def)

theorem event_gives_way_witness:
  "\<exists>sb sb'. bar_run ex_bar [Shown 0 (runes ''revoked: abc'') [], Drawn []] sb
    \<and> bar_run sb (settle (5 * second) (runes ''steady'') sb) sb' \<and> displays (runes ''steady'') sb' \<and> sb_transient sb' = []"
proof -
  let ?c = "\<lparr>cfg_cols = 80, cfg_totalRows = 24, cfg_color = colorCyberCyan, cfg_content = (\<lambda>s. s)\<rparr>"
  let ?sb = "Draw [] (ShowEvent 0 (runes ''revoked: abc'') [] ex_bar)"
  have run: "bar_run (newStatusBar ?c) [Shown 0 (runes ''revoked: abc'') [], Drawn []] ?sb"
    by (simp add: ex_bar_def)
  have "sb_transient ?sb \<noteq> []" "sb_revertTimer ?sb = None \<or> the (sb_revertTimer ?sb) \<le> 5 * second"
    by (simp_all add: bar_ops runes_def ex_bar_def newStatusBar_def)
  from event_gives_way [OF run _ this, of "runes ''steady''"] run show ?thesis
    unfolding ex_bar_def by auto
qed

end
