(* ===== verification/Ipc.thy ===== *)
theory Ipc
  imports Prelude Protocol
begin

text \<open>
  \<open>internal/ipc/ipc.go\<close>: the control socket of a sharer, over which \<open>lw list\<close>, \<open>lw revoke\<close> and
  \<open>lw stop\<close> talk to it. A connection carries one JSON request and one JSON response. JSON is
  modelled as values, with the marshalling that the struct tags ask for; texts are bytes, and
  the text of an instant, which depends on the local time zone, is given by a codec.
\<close>

section \<open>JSON values (encoding/json)\<close>

datatype json =
    JNull
  | JBool bool
  | JNumber bytes
  | JStr bytes
  | JArr "json list"
  | JObj "(bytes \<times> json) list"

text \<open>
  A text as it arrives: the encoder writes valid UTF-8, each byte that is not part of a valid
  encoding as the replacement character.
\<close>

definition cont :: "byte \<Rightarrow> bool" where
  "cont c \<longleftrightarrow> 0x80 \<le> c \<and> c \<le> 0xBF"

fun utf8_len :: "bytes \<Rightarrow> nat" where
  "utf8_len (a # r) =
     (if a < 0x80 then 1
      else case r of
        b # r1 \<Rightarrow>
          if 0xC2 \<le> a \<and> a \<le> 0xDF \<and> cont b then 2
          else (case r1 of
            c # r2 \<Rightarrow>
              if 0xE0 \<le> a \<and> a \<le> 0xEF \<and> cont b \<and> cont c
                \<and> (a = 0xE0 \<longrightarrow> 0xA0 \<le> b) \<and> (a = 0xED \<longrightarrow> b \<le> 0x9F) then 3
              else (case r2 of
                d # _ \<Rightarrow>
                  if 0xF0 \<le> a \<and> a \<le> 0xF4 \<and> cont b \<and> cont c \<and> cont d
                    \<and> (a = 0xF0 \<longrightarrow> 0x90 \<le> b) \<and> (a = 0xF4 \<longrightarrow> b \<le> 0x8F) then 4 else 0
              | [] \<Rightarrow> 0)
          | [] \<Rightarrow> 0)
      | [] \<Rightarrow> 0)"
| "utf8_len [] = 0"

function json_text :: "bytes \<Rightarrow> bytes" where
  "json_text s =
     (if s = [] then []
      else if utf8_len s = 0 then [0xEF, 0xBF, 0xBD] @ json_text (drop 1 s)
      else take (utf8_len s) s @ json_text (drop (utf8_len s) s))"
  by pat_completeness auto
termination by (relation "measure length") auto

declare json_text.simps [simp del]

text \<open>Field names match exactly or up to case folding; the Kelvin sign folds to k, the long s to s.\<close>

function fold_name :: "bytes \<Rightarrow> bytes" where
  "fold_name s =
     (if s = [] then []
      else if take 2 s = [0xC5, 0xBF] then 115 # fold_name (drop 2 s)
      else if take 3 s = [0xE2, 0x84, 0xAA] then 107 # fold_name (drop 3 s)
      else (if 65 \<le> hd s \<and> hd s \<le> 90 then hd s + 32 else hd s) # fold_name (tl s))"
  by pat_completeness auto
termination by (relation "measure length") auto

declare fold_name.simps [simp del]

text \<open>
  \<open>Unmarshal\<close> into a field of type string or bool; \<open>null\<close> leaves it alone, another kind of value
  is an error. Into a struct: each field of the object, in order, goes to the field whose name
  matches, if there is one; a later one overwrites.
\<close>

definition json_string :: "json \<Rightarrow> bytes \<Rightarrow> bytes option" where
  "json_string j old = (case j of JStr s \<Rightarrow> Some s | JNull \<Rightarrow> Some old | _ \<Rightarrow> None)"

definition json_bool :: "json \<Rightarrow> bool \<Rightarrow> bool option" where
  "json_bool j old = (case j of JBool b \<Rightarrow> Some b | JNull \<Rightarrow> Some old | _ \<Rightarrow> None)"

definition named :: "string \<Rightarrow> bytes \<Rightarrow> bool" where
  "named name key \<longleftrightarrow> fold_name key = ascii name"

fun json_fields :: "(bytes \<Rightarrow> json \<Rightarrow> 'a \<Rightarrow> 'a option) \<Rightarrow> (bytes \<times> json) list \<Rightarrow> 'a \<Rightarrow> 'a option" where
  "json_fields put [] x = Some x"
| "json_fields put ((key, j) # fs) x =
     (case put key j x of None \<Rightarrow> None | Some x1 \<Rightarrow> json_fields put fs x1)"

definition json_struct :: "(bytes \<Rightarrow> json \<Rightarrow> 'a \<Rightarrow> 'a option) \<Rightarrow> json \<Rightarrow> 'a \<Rightarrow> 'a option" where
  "json_struct put j x = (case j of JObj fs \<Rightarrow> json_fields put fs x | JNull \<Rightarrow> Some x | _ \<Rightarrow> None)"

text \<open>A field with \<open>omitempty\<close>, and one without.\<close>

definition field :: "string \<Rightarrow> json \<Rightarrow> (bytes \<times> json) list" where
  "field name j = [(ascii name, j)]"

definition omitempty :: "bool \<Rightarrow> (bytes \<times> json) list \<Rightarrow> (bytes \<times> json) list" where
  "omitempty no_value fs = (if no_value then [] else fs)"

record time_codec =
  tc_format :: "time \<Rightarrow> bytes"
  tc_parse :: "bytes \<Rightarrow> time option"

section \<open>Messages\<close>

record ipc_viewer =
  iv_ID :: bytes
  iv_ClientType :: bytes
  iv_JoinTime :: time

record Request =
  rq_Command :: bytes
  rq_ViewerID :: bytes

record Response =
  rs_OK :: bool
  rs_Viewers :: "ipc_viewer list"
  rs_Error :: bytes

text \<open>The zero values that decoding starts from; the zero time is 0.\<close>

definition zero_viewer :: ipc_viewer where
  "zero_viewer = \<lparr>iv_ID = [], iv_ClientType = [], iv_JoinTime = 0\<rparr>"

definition zero_request :: Request where
  "zero_request = \<lparr>rq_Command = [], rq_ViewerID = []\<rparr>"

definition zero_response :: Response where
  "zero_response = \<lparr>rs_OK = False, rs_Viewers = [], rs_Error = []\<rparr>"

definition viewer_json :: "time_codec \<Rightarrow> ipc_viewer \<Rightarrow> json" where
  "viewer_json T v = JObj (field ''id'' (JStr (json_text (iv_ID v)))
     @ field ''client_type'' (JStr (json_text (iv_ClientType v)))
     @ field ''join_time'' (JStr (tc_format T (iv_JoinTime v))))"

definition request_json :: "Request \<Rightarrow> json" where
  "request_json r = JObj (field ''command'' (JStr (json_text (rq_Command r)))
     @ omitempty (rq_ViewerID r = []) (field ''viewer_id'' (JStr (json_text (rq_ViewerID r)))))"

definition response_json :: "time_codec \<Rightarrow> Response \<Rightarrow> json" where
  "response_json T r = JObj (field ''ok'' (JBool (rs_OK r))
     @ omitempty (rs_Viewers r = []) (field ''viewers'' (JArr (map (viewer_json T) (rs_Viewers r))))
     @ omitempty (rs_Error r = []) (field ''error'' (JStr (json_text (rs_Error r)))))"

definition put_viewer :: "time_codec \<Rightarrow> bytes \<Rightarrow> json \<Rightarrow> ipc_viewer \<Rightarrow> ipc_viewer option" where
  "put_viewer T key j v =
     (if named ''id'' key then map_option (\<lambda>s. v\<lparr>iv_ID := s\<rparr>) (json_string j (iv_ID v))
      else if named ''client_type'' key then
        map_option (\<lambda>s. v\<lparr>iv_ClientType := s\<rparr>) (json_string j (iv_ClientType v))
      else if named ''join_time'' key then
        (case j of
           JNull \<Rightarrow> Some v
         | JStr s \<Rightarrow> map_option (\<lambda>t. v\<lparr>iv_JoinTime := t\<rparr>) (tc_parse T s)
         | _ \<Rightarrow> None)
      else Some v)"

definition put_request :: "bytes \<Rightarrow> json \<Rightarrow> Request \<Rightarrow> Request option" where
  "put_request key j r =
     (if named ''command'' key then map_option (\<lambda>s. r\<lparr>rq_Command := s\<rparr>) (json_string j (rq_Command r))
      else if named ''viewer_id'' key then
        map_option (\<lambda>s. r\<lparr>rq_ViewerID := s\<rparr>) (json_string j (rq_ViewerID r))
      else Some r)"

text \<open>
  A slice is overwritten from its start: elements that were there before keep the fields that the
  new ones do not set. (An object with two arrays of viewers is the only case where any were.)
\<close>

fun put_viewers :: "time_codec \<Rightarrow> json list \<Rightarrow> ipc_viewer list \<Rightarrow> ipc_viewer list option" where
  "put_viewers T [] old = Some []"
| "put_viewers T (j # js) old =
     (case json_struct (put_viewer T) j (case old of [] \<Rightarrow> zero_viewer | v # _ \<Rightarrow> v) of
        None \<Rightarrow> None
      | Some v \<Rightarrow> map_option ((#) v) (put_viewers T js (tl old)))"

definition put_response :: "time_codec \<Rightarrow> bytes \<Rightarrow> json \<Rightarrow> Response \<Rightarrow> Response option" where
  "put_response T key j r =
     (if named ''ok'' key then map_option (\<lambda>b. r\<lparr>rs_OK := b\<rparr>) (json_bool j (rs_OK r))
      else if named ''viewers'' key then
        (case j of
           JNull \<Rightarrow> Some (r\<lparr>rs_Viewers := []\<rparr>)
         | JArr js \<Rightarrow> map_option (\<lambda>vs. r\<lparr>rs_Viewers := vs\<rparr>) (put_viewers T js (rs_Viewers r))
         | _ \<Rightarrow> None)
      else if named ''error'' key then map_option (\<lambda>s. r\<lparr>rs_Error := s\<rparr>) (json_string j (rs_Error r))
      else Some r)"

definition decode_request :: "json \<Rightarrow> Request option" where
  "decode_request j = json_struct put_request j zero_request"

definition decode_response :: "time_codec \<Rightarrow> json \<Rightarrow> Response option" where
  "decode_response T j = json_struct (put_response T) j zero_response"

section \<open>Server\<close>

datatype ipc_error = IpcViewerNotFound | IpcOther bytes

datatype ipc_probe = ListRequested | RevokeRequested bytes | RequestFailed bytes

text \<open>\<open>SessionHandler\<close>: its methods, over the state of the process.\<close>

record 's session_handler =
  sh_ListViewers :: "'s \<Rightarrow> ipc_viewer list \<times> 's"
  sh_RevokeViewer :: "bytes \<Rightarrow> 's \<Rightarrow> ipc_error option \<times> 's"
  sh_StopSession :: "'s \<Rightarrow> ipc_error option \<times> 's"

definition error_text :: "ipc_error \<Rightarrow> bytes" where
  "error_text e = (case e of IpcViewerNotFound \<Rightarrow> ascii ''viewer not found'' | IpcOther t \<Rightarrow> t)"

text \<open>
  One connection: \<open>input\<close> is the request as JSON, or why there is none; \<open>bad_type\<close> is the text of the
  decoder's error for JSON that is not a request. The reply is \<open>None\<close> when the connection is closed
  without one.
\<close>

definition ipc_handle ::
  "bytes \<Rightarrow> 's session_handler \<Rightarrow> bytes + json \<Rightarrow> 's \<Rightarrow> (Response option \<times> ipc_probe list) \<times> 's" where
  "ipc_handle bad_type H input s =
     (case (case input of Inl e \<Rightarrow> Inl e
            | Inr j \<Rightarrow> (case decode_request j of None \<Rightarrow> Inl bad_type | Some req \<Rightarrow> Inr req)) of
        Inl e \<Rightarrow> ((None, [RequestFailed (ascii ''decoding request: '' @ e)]), s)
      | Inr req \<Rightarrow>
          if rq_Command req = ascii IPCCommandList then
            (let (viewers, s1) = sh_ListViewers H s
             in ((Some (zero_response\<lparr>rs_OK := True, rs_Viewers := viewers\<rparr>), [ListRequested]), s1))
          else if rq_Command req = ascii IPCCommandRevoke then
            (case sh_RevokeViewer H (rq_ViewerID req) s of
               (Some e, s1) \<Rightarrow>
                 ((Some (zero_response\<lparr>rs_Error := if e = IpcViewerNotFound then ascii ''viewer not found''
                                                  else error_text e\<rparr>),
                   [RevokeRequested (rq_ViewerID req), RequestFailed (error_text e)]), s1)
             | (None, s1) \<Rightarrow>
                 ((Some (zero_response\<lparr>rs_OK := True\<rparr>), [RevokeRequested (rq_ViewerID req)]), s1))
          else if rq_Command req = ascii IPCCommandStop then
            (case sh_StopSession H s of
               (Some e, s1) \<Rightarrow>
                 ((Some (zero_response\<lparr>rs_Error := error_text e\<rparr>), [RequestFailed (error_text e)]), s1)
             | (None, s1) \<Rightarrow> ((Some (zero_response\<lparr>rs_OK := True\<rparr>), []), s1))
          else
            (let t = ascii ''unknown command: '' @ rq_Command req
             in ((Some (zero_response\<lparr>rs_Error := t\<rparr>), [RequestFailed t]), s)))"

text \<open>
  The life of a server. \<open>Serve\<close> takes connections until \<open>Accept\<close> fails, which it does once the
  listener is closed; the handlers of the connections run one after the other on the state of the
  process, since each makes one call of the session. \<open>Close\<close> closes the listener and removes the
  socket and its directory, once, and waits for \<open>Serve\<close> to return.
\<close>

record ipc_server =
  sr_listening :: bool
  sr_socket :: bool
  sr_done :: bool

definition NewIpcServer :: "string option \<Rightarrow> string option \<Rightarrow> string + ipc_server" where
  "NewIpcServer mkdir_err listen_err =
     (case mkdir_err of
        Some e \<Rightarrow> Inl (''creating socket directory: '' @ e)
      | None \<Rightarrow> (case listen_err of
          Some e \<Rightarrow> Inl (''listening on socket: '' @ e)
        | None \<Rightarrow> Inr \<lparr>sr_listening = True, sr_socket = True, sr_done = False\<rparr>))"

fun Serve ::
  "bytes \<Rightarrow> 's session_handler \<Rightarrow> (bytes + json) list \<Rightarrow> 's \<Rightarrow> Response option list \<times> 's" where
  "Serve bad_type H [] s = ([], s)"
| "Serve bad_type H (c # cs) s =
     (let ((reply, ps), s1) = ipc_handle bad_type H c s; (replies, s2) = Serve bad_type H cs s1
      in (reply # replies, s2))"

definition Serve_returns :: "ipc_server \<Rightarrow> ipc_server option" where
  "Serve_returns v = (if sr_listening v then None else Some (v\<lparr>sr_done := True\<rparr>))"

definition Server_Close :: "ipc_server \<Rightarrow> ipc_server" where
  "Server_Close v = (if sr_listening v then v\<lparr>sr_listening := False, sr_socket := False\<rparr> else v)"

section \<open>Client\<close>

datatype client_error =
    ConnectingToSocket
  | SendingRequest
  | ReadingResponse
  | Replied bytes

text \<open>What the operating system lets through: the connection, the write and the read.\<close>

record socket_io =
  io_dial :: bool
  io_write :: bool
  io_read :: bool

text \<open>
  \<open>sendClientRequest\<close> against a server: what the client reads is the reply of the handler, or the
  end of the connection. A request that was not written whole is none for the server.
\<close>

definition sendClientRequest ::
  "time_codec \<Rightarrow> bytes \<Rightarrow> socket_io \<Rightarrow> 's session_handler \<Rightarrow> Request \<Rightarrow> 's \<Rightarrow> (client_error + Response) \<times> 's" where
  "sendClientRequest T bad_type io H req s =
     (if \<not> io_dial io then (Inl ConnectingToSocket, s)
      else if \<not> io_write io then (Inl SendingRequest, snd (ipc_handle bad_type H (Inl []) s))
      else
        let ((reply, ps), s1) = ipc_handle bad_type H (Inr (request_json req)) s
        in case Option.bind (if io_read io then reply else None) (\<lambda>r. decode_response T (response_json T r)) of
             None \<Rightarrow> (Inl ReadingResponse, s1)
           | Some r \<Rightarrow> (Inr r, s1))"

definition ClientList ::
  "time_codec \<Rightarrow> bytes \<Rightarrow> socket_io \<Rightarrow> 's session_handler \<Rightarrow> 's \<Rightarrow> (client_error + ipc_viewer list) \<times> 's" where
  "ClientList T bad_type io H s =
     (case sendClientRequest T bad_type io H \<lparr>rq_Command = ascii IPCCommandList, rq_ViewerID = []\<rparr> s of
        (Inl e, s1) \<Rightarrow> (Inl e, s1)
      | (Inr r, s1) \<Rightarrow> (if rs_Error r \<noteq> [] then Inl (Replied (rs_Error r)) else Inr (rs_Viewers r), s1))"

definition ClientRevoke ::
  "time_codec \<Rightarrow> bytes \<Rightarrow> socket_io \<Rightarrow> 's session_handler \<Rightarrow> bytes \<Rightarrow> 's \<Rightarrow> client_error option \<times> 's" where
  "ClientRevoke T bad_type io H viewerID s =
     (case sendClientRequest T bad_type io H \<lparr>rq_Command = ascii IPCCommandRevoke, rq_ViewerID = viewerID\<rparr> s of
        (Inl e, s1) \<Rightarrow> (Some e, s1)
      | (Inr r, s1) \<Rightarrow> (if rs_Error r \<noteq> [] then Some (Replied (rs_Error r)) else None, s1))"

definition ClientStop ::
  "time_codec \<Rightarrow> bytes \<Rightarrow> socket_io \<Rightarrow> 's session_handler \<Rightarrow> 's \<Rightarrow> client_error option \<times> 's" where
  "ClientStop T bad_type io H s =
     (case sendClientRequest T bad_type io H \<lparr>rq_Command = ascii IPCCommandStop, rq_ViewerID = []\<rparr> s of
        (Inl e, s1) \<Rightarrow> (Some e, s1)
      | (Inr r, s1) \<Rightarrow> (if rs_Error r \<noteq> [] then Some (Replied (rs_Error r)) else None, s1))"

section \<open>Round trips\<close>

text \<open>A text that JSON carries unchanged: valid UTF-8.\<close>

definition utf8_text :: "bytes \<Rightarrow> bool" where
  "utf8_text s \<longleftrightarrow> json_text s = s"

definition codec_ok :: "time_codec \<Rightarrow> bool" where
  "codec_ok T \<longleftrightarrow> (\<forall>t. tc_parse T (tc_format T t) = Some t)"

lemma json_text_Nil [simp]: "json_text [] = []"
  by (subst json_text.simps) simp

lemma ascii_utf8: "list_all (\<lambda>c. c < 0x80) s \<Longrightarrow> json_text s = s"
proof (induction s)
  case (Cons c s)
  then show ?case by (subst json_text.simps) simp
qed simp

lemma fold_lower: "list_all (\<lambda>c. c < 0x80 \<and> \<not> (65 \<le> c \<and> c \<le> 90)) s \<Longrightarrow> fold_name s = s"
proof (induction s)
  case (Cons c s)
  then have "c \<noteq> 0xC5" "c \<noteq> 0xE2" by auto
  with Cons show ?case by (subst fold_name.simps) (auto simp: take_Suc)
qed (simp add: fold_name.simps)

text \<open>The field names of the structs.\<close>

lemma names_lower:
  "fold_name (ascii ''id'') = ascii ''id''" "fold_name (ascii ''client_type'') = ascii ''client_type''"
  "fold_name (ascii ''join_time'') = ascii ''join_time''" "fold_name (ascii ''command'') = ascii ''command''"
  "fold_name (ascii ''viewer_id'') = ascii ''viewer_id''" "fold_name (ascii ''ok'') = ascii ''ok''"
  "fold_name (ascii ''viewers'') = ascii ''viewers''" "fold_name (ascii ''error'') = ascii ''error''"
  by (rule fold_lower, simp add: ascii_def)+

lemmas json_laws = named_def names_lower field_def omitempty_def json_struct_def json_string_def json_bool_def

lemma decode_request_json:
  "decode_request (request_json r)
    = Some \<lparr>rq_Command = json_text (rq_Command r), rq_ViewerID = json_text (rq_ViewerID r)\<rparr>"
  by (simp add: decode_request_def request_json_def json_laws put_request_def zero_request_def)
    (simp add: ascii_def)

definition coerce_viewer :: "ipc_viewer \<Rightarrow> ipc_viewer" where
  "coerce_viewer v = v\<lparr>iv_ID := json_text (iv_ID v), iv_ClientType := json_text (iv_ClientType v)\<rparr>"

lemma struct_viewer_json:
  "codec_ok T \<Longrightarrow> json_struct (put_viewer T) (viewer_json T v) x = Some (coerce_viewer v)"
  by (simp add: viewer_json_def json_laws put_viewer_def codec_ok_def)
    (simp add: ascii_def coerce_viewer_def)

lemma put_viewers_json:
  "codec_ok T \<Longrightarrow> put_viewers T (map (viewer_json T) vs) old = Some (map coerce_viewer vs)"
  by (induction vs arbitrary: old) (simp_all add: struct_viewer_json)

lemma decode_response_json:
  "codec_ok T \<Longrightarrow> decode_response T (response_json T r)
    = Some \<lparr>rs_OK = rs_OK r, rs_Viewers = map coerce_viewer (rs_Viewers r), rs_Error = json_text (rs_Error r)\<rparr>"
  by (simp add: decode_response_def response_json_def json_laws put_response_def zero_response_def
      put_viewers_json)
    (simp add: ascii_def)

lemma utf8_viewer: "utf8_text (iv_ID v) \<Longrightarrow> utf8_text (iv_ClientType v) \<Longrightarrow> coerce_viewer v = v"
  by (simp add: coerce_viewer_def utf8_text_def)

section \<open>The commands over a well-behaved session\<close>

lemma commands_distinct:
  "ascii IPCCommandList \<noteq> ascii IPCCommandRevoke" "ascii IPCCommandList \<noteq> ascii IPCCommandStop"
  "ascii IPCCommandRevoke \<noteq> ascii IPCCommandStop"
  by (simp_all add: IPCCommandList_def IPCCommandRevoke_def IPCCommandStop_def ascii_def)

lemma commands_utf8:
  "json_text (ascii IPCCommandList) = ascii IPCCommandList"
  "json_text (ascii IPCCommandRevoke) = ascii IPCCommandRevoke"
  "json_text (ascii IPCCommandStop) = ascii IPCCommandStop"
  by (rule ascii_utf8, simp add: IPCCommandList_def IPCCommandRevoke_def IPCCommandStop_def ascii_def)+

lemma not_found_reply [simp]: "json_text (error_text IpcViewerNotFound) = ascii ''viewer not found''"
  by (simp add: error_text_def) (rule ascii_utf8, simp add: ascii_def)

lemma ascii_not_Nil [simp]: "ascii (c # cs) \<noteq> []"
  by (simp add: ascii_def)

lemma not_found_text [simp]:
  "(if e = IpcViewerNotFound then ascii ''viewer not found'' else error_text e) = error_text e"
  by (cases e) (simp_all add: error_text_def)

lemmas ipc_steps = sendClientRequest_def ipc_handle_def decode_request_json commands_utf8
  commands_distinct commands_distinct [symmetric]

text \<open>A client and a server between which nothing is lost.\<close>

definition io_ok :: "socket_io \<Rightarrow> bool" where
  "io_ok io \<longleftrightarrow> io_dial io \<and> io_write io \<and> io_read io"

text \<open>
  What the commands rely on: listing reports the viewers of the state and changes nothing;
  revoking a name that is not among them changes nothing and says so; revoking one that is
  either fails with a text or removes it; stopping reports no error. The names are plain texts.
\<close>

locale session_control =
  fixes H :: "'s session_handler"
    and view :: "'s \<Rightarrow> ipc_viewer list"
    and inv :: "'s \<Rightarrow> bool"
  assumes lists: "inv s \<Longrightarrow> sh_ListViewers H s = (view s, s)"
    and plain_names: "inv s \<Longrightarrow> v \<in> set (view s) \<Longrightarrow> utf8_text (iv_ID v) \<and> utf8_text (iv_ClientType v)"
    and revokes_missing: "inv s \<Longrightarrow> i \<notin> iv_ID ` set (view s)
      \<Longrightarrow> sh_RevokeViewer H i s = (Some IpcViewerNotFound, s)"
    and revokes_listed: "inv s \<Longrightarrow> sh_RevokeViewer H i s = (None, s') \<Longrightarrow> i \<notin> iv_ID ` set (view s')"
    and revoke_errors: "inv s \<Longrightarrow> i \<in> iv_ID ` set (view s) \<Longrightarrow> sh_RevokeViewer H i s = (Some e, s')
      \<Longrightarrow> json_text (error_text e) \<noteq> []"
begin

lemma client_list:
  assumes "inv s" "codec_ok T" "io_ok io"
  shows "ClientList T bt io H s = (Inr (view s), s)"
proof -
  have "map coerce_viewer (view s) = view s"
    using plain_names [OF assms(1)] by (intro map_idI) (simp add: utf8_viewer)
  then show ?thesis
    using assms
    by (simp add: ClientList_def ipc_steps decode_response_json lists zero_response_def io_ok_def)
qed

lemma client_revoke_reply:
  assumes "codec_ok T" "io_ok io" "utf8_text i" "sh_RevokeViewer H i s = (x, s1)"
    and "\<And>e. x = Some e \<Longrightarrow> json_text (error_text e) \<noteq> []"
  shows "ClientRevoke T bt io H i s = (map_option (\<lambda>e. Replied (json_text (error_text e))) x, s1)"
  using assms
  by (cases x)
    (simp_all add: ClientRevoke_def ipc_steps decode_response_json zero_response_def io_ok_def utf8_text_def)

lemma client_revoke_missing:
  assumes "inv s" "codec_ok T" "io_ok io" "utf8_text i" "i \<notin> iv_ID ` set (view s)"
  shows "ClientRevoke T bt io H i s = (Some (Replied (ascii ''viewer not found'')), s)"
  using client_revoke_reply [OF assms(2-4) revokes_missing [OF assms(1,5)], of bt] by simp

lemma client_revoke_listed:
  assumes "inv s" "codec_ok T" "io_ok io" "i \<in> iv_ID ` set (view s)"
    and "sh_RevokeViewer H i s = (x, s1)"
  shows "ClientRevoke T bt io H i s = (map_option (\<lambda>e. Replied (json_text (error_text e))) x, s1)"
proof (rule client_revoke_reply [OF assms(2,3) _ assms(5)])
  from assms(4) obtain v where "v \<in> set (view s)" "iv_ID v = i" by blast
  with plain_names [OF assms(1)] show "utf8_text i" by blast
next
  fix e assume "x = Some e"
  with assms(5) revoke_errors [OF assms(1,4)] show "json_text (error_text e) \<noteq> []" by simp
qed

lemma client_revoke_done:
  assumes "inv s" "codec_ok T" "io_ok io" "utf8_text i" "ClientRevoke T bt io H i s = (None, s')"
  shows "i \<notin> iv_ID ` set (view s') \<and> sh_RevokeViewer H i s = (None, s')"
proof -
  obtain x s1 where x: "sh_RevokeViewer H i s = (x, s1)" by fastforce
  have "i \<in> iv_ID ` set (view s)"
    using client_revoke_missing [OF assms(1-4), of bt] assms(5) by fastforce
  from client_revoke_listed [OF assms(1-3) this x, of bt] assms(5) x
  have "sh_RevokeViewer H i s = (None, s')" by simp
  with revokes_listed [OF assms(1)] show ?thesis by simp
qed

end

end
