(* ===== verification/Control.thy ===== *)
theory Control
  imports Ipc Sharer_Props
begin

text \<open>
  \<open>cmd/lw/ipcadapter.go\<close>: the process of \<open>lw share\<close> as the session that the control socket
  serves, and what \<open>lw list\<close>, \<open>lw revoke\<close> and \<open>lw stop\<close> do to it from end to end.
\<close>

section \<open>The adapter\<close>

text \<open>
  What \<open>runShare\<close> connects: the sharer (with its session) and the context that \<open>stop\<close> cancels.
  \<open>control_env\<close> gives what a call takes from outside: the range orders, the random bytes and the
  results of the sends of a revocation.
\<close>

record 'sp share_process =
  sp_sharer :: "'sp Sharer"
  sp_ctx :: context_state

record control_env =
  ce_list_order :: "bytes list"
  ce_errs :: "nat \<Rightarrow> string option"
  ce_rand :: "bytes option"
  ce_order :: "bytes list"
  ce_rekey_order :: "bytes list"

text \<open>The texts of the errors that \<open>Revoke\<close> returns; \<open>detail\<close> is the text of a wrapped one.\<close>

definition revoke_error_text :: "(crypto_error \<Rightarrow> bytes) \<Rightarrow> sharer_error \<Rightarrow> bytes" where
  "revoke_error_text detail e =
     (case e of
        RevokingViewer ErrSessionClosed \<Rightarrow> ascii ''session closed''
      | RevokingViewer (ErrViewerNotFound i) \<Rightarrow> ascii ''viewer not found: '' @ i
      | RevokingViewer (GeneratingStreamKey c) \<Rightarrow> ascii ''generating new stream key: '' @ detail c
      | RevokingViewer (EncryptingRekey i c) \<Rightarrow>
          ascii ''encrypting K'' @ [39] @ ascii '' for viewer '' @ i @ ascii '': '' @ detail c
      | DeliveringRekey i t \<Rightarrow> ascii ''delivering rekey to '' @ i @ ascii '': '' @ ascii t
      | _ \<Rightarrow> ascii ''error'')"

definition adapter_ListViewers ::
  "control_env \<Rightarrow> 'sp share_process \<Rightarrow> ipc_viewer list \<times> 'sp share_process" where
  "adapter_ListViewers en p =
     (map (\<lambda>v. \<lparr>iv_ID = vi_ID v, iv_ClientType = ascii (vi_ClientType v), iv_JoinTime = vi_JoinTime v\<rparr>)
        (ListViewers (sh_sess (sp_sharer p)) (ce_list_order en)), p)"

definition adapter_RevokeViewer ::
  "(crypto_error \<Rightarrow> bytes) \<Rightarrow> control_env \<Rightarrow> bytes \<Rightarrow> 'sp share_process \<Rightarrow> ipc_error option \<times> 'sp share_process" where
  "adapter_RevokeViewer detail en i p =
     (case Revoke (ce_errs en) i (ce_rand en) (ce_order en) (ce_rekey_order en) (sp_sharer p) of
        (None, s) \<Rightarrow> (None, p\<lparr>sp_sharer := s\<rparr>)
      | (Some e, s) \<Rightarrow>
          (Some (case e of RevokingViewer (ErrViewerNotFound _) \<Rightarrow> IpcViewerNotFound
                 | _ \<Rightarrow> IpcOther (revoke_error_text detail e)), p\<lparr>sp_sharer := s\<rparr>))"

definition adapter_StopSession ::
  "('sp share_process \<Rightarrow> 'sp share_process) option \<Rightarrow> 'sp share_process
    \<Rightarrow> ipc_error option \<times> 'sp share_process" where
  "adapter_StopSession stop p = (None, case stop of None \<Rightarrow> p | Some f \<Rightarrow> f p)"

definition ipcSessionAdapter ::
  "(crypto_error \<Rightarrow> bytes) \<Rightarrow> ('sp share_process \<Rightarrow> 'sp share_process) option \<Rightarrow> control_env
    \<Rightarrow> 'sp share_process session_handler" where
  "ipcSessionAdapter detail stop en =
     \<lparr>sh_ListViewers = adapter_ListViewers en, sh_RevokeViewer = adapter_RevokeViewer detail en,
      sh_StopSession = adapter_StopSession stop\<rparr>"

text \<open>The \<open>stop\<close> of \<open>runShare\<close> cancels the context of the whole process.\<close>

definition cancel_process :: "'sp share_process \<Rightarrow> 'sp share_process" where
  "cancel_process p = p\<lparr>sp_ctx := context_cancel (sp_ctx p)\<rparr>"

section \<open>The adapter keeps the contract of the commands\<close>

definition plain_name :: "bytes \<Rightarrow> bool" where
  "plain_name s \<longleftrightarrow> list_all (\<lambda>c. c < 0x80) s"

definition plain_entry :: "bytes \<times> viewer \<Rightarrow> bool" where
  "plain_entry e \<longleftrightarrow> plain_name (fst e) \<and> plain_name (ascii (v_clientType (snd e)))"

definition process_ok :: "control_env \<Rightarrow> 'sp share_process \<Rightarrow> bool" where
  "process_ok en p \<longleftrightarrow> (let ss = sh_sess (sp_sharer p) in
     sess_wf ss \<and> \<not> s_closed ss \<and> range_order (s_viewers ss) (ce_list_order en)
     \<and> list_all plain_entry (s_viewers ss))"

definition process_view :: "control_env \<Rightarrow> 'sp share_process \<Rightarrow> ipc_viewer list" where
  "process_view en p = fst (adapter_ListViewers en p)"

lemma json_text_eq_Nil [simp]: "json_text s = [] \<longleftrightarrow> s = []"
  by (cases s) (auto simp: json_text.simps)

lemma plain_replicate [simp]: "plain_name (replicate n c) \<longleftrightarrow> n = 0 \<or> c < 0x80"
  by (auto simp: plain_name_def list_all_iff)

lemma plain_utf8: "plain_name s \<Longrightarrow> utf8_text s"
  by (simp add: plain_name_def utf8_text_def ascii_utf8)

lemma view_entry:
  assumes "list_all viewer_entry_ok (s_viewers (sh_sess (sp_sharer p)))" "v \<in> set (process_view en p)"
  shows "\<exists>w. mget (s_viewers (sh_sess (sp_sharer p))) (iv_ID v) = Some w
    \<and> iv_ClientType v = ascii (v_clientType w)"
proof -
  from assms(2) obtain k w where kw: "mget (s_viewers (sh_sess (sp_sharer p))) k = Some w"
    "iv_ID v = v_id w" "iv_ClientType v = ascii (v_clientType w)"
    by (auto simp: process_view_def adapter_ListViewers_def ListViewers_def set_go_range)
  with assms(1) have "v_id w = k"
    by (auto simp: list_all_iff viewer_entry_ok_def dest!: map_of_SomeD)
  with kw show ?thesis by auto
qed

lemma view_names:
  assumes "process_ok en p"
  shows "iv_ID ` set (process_view en p) = fst ` set (s_viewers (sh_sess (sp_sharer p)))"
proof (intro equalityI subsetI)
  let ?ss = "sh_sess (sp_sharer p)"
  from assms have wf: "sess_wf ?ss" and ord: "range_order (s_viewers ?ss) (ce_list_order en)"
    by (simp_all add: process_ok_def Let_def)
  fix i
  {
    assume "i \<in> iv_ID ` set (process_view en p)"
    with view_entry [OF sess_wfD(2) [OF wf]] show "i \<in> fst ` set (s_viewers ?ss)"
      by (force dest: map_of_SomeD)
  next
    assume i: "i \<in> fst ` set (s_viewers ?ss)"
    then obtain w where w: "mget (s_viewers ?ss) i = Some w"
      by (metis map_of_eq_None_iff not_Some_eq)
    moreover have "v_id w = i"
      using sess_wfD(2) [OF wf] map_of_SomeD [OF w] by (auto simp: list_all_iff viewer_entry_ok_def)
    moreover have "i \<in> set (ce_list_order en)" using ord i by (simp add: range_order_def)
    ultimately have "(i, w) \<in> set (go_range (s_viewers ?ss) (ce_list_order en))"
      by (simp add: set_go_range)
    with \<open>v_id w = i\<close> show "i \<in> iv_ID ` set (process_view en p)"
      by (force simp: process_view_def adapter_ListViewers_def ListViewers_def)
  }
qed

lemma RevokeViewer_Inr_viewers:
  "RevokeViewer ss i rand ord = (Inr rekeys, ss') \<Longrightarrow> s_viewers ss' = mdel i (s_viewers ss)"
  by (auto simp: RevokeViewer_def Let_def GenerateStreamKey_cases
      split: if_splits option.splits prod.splits sum.splits)

lemma Revoke_None_viewers:
  assumes "Revoke errs i rand ord ord' s = (None, s')"
  shows "s_viewers (sh_sess s') = mdel i (s_viewers (sh_sess s))"
proof -
  from assms obtain rekeys ss s1 where r: "RevokeViewer (sh_sess s) i rand ord = (Inr rekeys, ss)"
    and d: "deliver_rekeys errs (go_range rekeys ord')
        (s\<lparr>sh_sess := ss, sh_viewerIDMap := mdel i (sh_viewerIDMap s)\<rparr>) = (None, s1)"
    and s': "s' = sharer_call (ViewerRevoked i) s1"
    by (auto simp: Revoke_def split: prod.splits sum.splits option.splits)
  from deliver_rekeys_fields [OF d] s' RevokeViewer_Inr_viewers [OF r] show ?thesis by simp
qed

lemma Revoke_missing:
  "\<not> s_closed (sh_sess s) \<Longrightarrow> mget (s_viewers (sh_sess s)) i = None
    \<Longrightarrow> Revoke errs i rand ord ord' s = (Some (RevokingViewer (ErrViewerNotFound i)), s)"
  by (simp add: Revoke_def RevokeViewer_missing)

lemma revoke_error_not_Nil [simp]: "revoke_error_text detail e \<noteq> []"
  by (cases e) (auto simp: revoke_error_text_def ascii_def split: session_error.split)

interpretation share_control: session_control "ipcSessionAdapter detail stop en" "process_view en" "process_ok en"
proof
  fix p :: "'a share_process" assume "process_ok en p"
  show "sh_ListViewers (ipcSessionAdapter detail stop en) p = (process_view en p, p)"
    by (simp add: ipcSessionAdapter_def process_view_def adapter_ListViewers_def)
next
  fix p :: "'a share_process" and v assume p: "process_ok en p" and v: "v \<in> set (process_view en p)"
  from view_entry [OF sess_wfD(2) v] p obtain w where "mget (s_viewers (sh_sess (sp_sharer p))) (iv_ID v) = Some w"
    "iv_ClientType v = ascii (v_clientType w)" by (auto simp: process_ok_def Let_def)
  with p show "utf8_text (iv_ID v) \<and> utf8_text (iv_ClientType v)"
    by (auto simp: process_ok_def Let_def list_all_iff plain_entry_def plain_utf8 dest!: map_of_SomeD)
next
  fix p :: "'a share_process" and i assume p: "process_ok en p" and i: "i \<notin> iv_ID ` set (process_view en p)"
  then have "mget (s_viewers (sh_sess (sp_sharer p))) i = None"
    using view_names [OF p] by (simp add: mget_None_iff)
  with p show "sh_RevokeViewer (ipcSessionAdapter detail stop en) i p = (Some IpcViewerNotFound, p)"
    by (simp add: ipcSessionAdapter_def adapter_RevokeViewer_def Revoke_missing process_ok_def Let_def)
next
  fix p p' :: "'a share_process" and i
  assume p: "process_ok en p" and "sh_RevokeViewer (ipcSessionAdapter detail stop en) i p = (None, p')"
  then have gone: "s_viewers (sh_sess (sp_sharer p')) = mdel i (s_viewers (sh_sess (sp_sharer p)))"
    by (auto simp: ipcSessionAdapter_def adapter_RevokeViewer_def dest: Revoke_None_viewers
        split: prod.splits option.splits)
  moreover have "list_all viewer_entry_ok (s_viewers (sh_sess (sp_sharer p')))"
    using sess_wfD(2) p by (simp add: gone list_all_mdel process_ok_def Let_def)
  ultimately show "i \<notin> iv_ID ` set (process_view en p')"
    using view_entry by fastforce
next
  fix p p' :: "'a share_process" and i e
  assume "sh_RevokeViewer (ipcSessionAdapter detail stop en) i p = (Some e, p')"
  then show "json_text (error_text e) \<noteq> []"
    by (auto simp: ipcSessionAdapter_def adapter_RevokeViewer_def error_text_def ascii_def
        split: prod.splits option.splits sharer_error.splits session_error.splits)
qed

section \<open>The commands\<close>

lemma view_matches:
  assumes "process_ok en p"
  shows "distinct (map iv_ID (process_view en p))"
    and "v \<in> set (process_view en p) \<Longrightarrow> \<exists>w. mget (s_viewers (sh_sess (sp_sharer p))) (iv_ID v) = Some w
      \<and> iv_ClientType v = ascii (v_clientType w) \<and> iv_JoinTime v = v_joinTime w"
proof -
  let ?m = "s_viewers (sh_sess (sp_sharer p))" and ?o = "ce_list_order en"
  from assms have ok: "list_all viewer_entry_ok ?m" and ord: "range_order ?m ?o"
    by (simp_all add: process_ok_def Let_def sess_wfD)
  have id: "v_id w = k" if "(k, w) \<in> set (go_range ?m ?o)" for k w
    using that ok by (auto simp: set_go_range list_all_iff viewer_entry_ok_def dest!: map_of_SomeD)
  have "map iv_ID (process_view en p) = keys (go_range ?m ?o)"
    using id by (auto simp: process_view_def adapter_ListViewers_def ListViewers_def)
  then show "distinct (map iv_ID (process_view en p))"
    using ord by (simp add: keys_go_range range_order_def)
  assume "v \<in> set (process_view en p)"
  then show "\<exists>w. mget ?m (iv_ID v) = Some w \<and> iv_ClientType v = ascii (v_clientType w) \<and> iv_JoinTime v = v_joinTime w"
    using id by (force simp: process_view_def adapter_ListViewers_def ListViewers_def set_go_range)
qed

text \<open>
  \<open>lw list\<close> prints the viewers of the session. Over a working connection to a running sharer it
  returns each listed viewer exactly once, with the client type and the join time that were
  recorded at registration, and changes nothing in the sharer.
\<close>

theorem list_reports_the_viewers:
  assumes "process_ok en p" and "codec_ok T" and "io_ok io"
  shows "\<exists>vs. ClientList T bt io (ipcSessionAdapter detail stop en) p = (Inr vs, p)
    \<and> distinct (map iv_ID vs) \<and> set (map iv_ID vs) = listed (sp_sharer p)
    \<and> list_all (\<lambda>v. \<exists>w. mget (s_viewers (sh_sess (sp_sharer p))) (iv_ID v) = Some w
         \<and> iv_ClientType v = ascii (v_clientType w) \<and> iv_JoinTime v = v_joinTime w) vs"
  using share_control.client_list [OF assms] view_matches [OF assms(1)] view_names [OF assms(1)]
  by (auto simp: list_all_iff listed_def)

lemma sh_RevokeViewer_adapter:
  "Revoke (ce_errs en) i (ce_rand en) (ce_order en) (ce_rekey_order en) (sp_sharer p) = (None, s)
    \<Longrightarrow> sh_RevokeViewer (ipcSessionAdapter detail stop en) i p = (None, p\<lparr>sp_sharer := s\<rparr>)"
  by (simp add: ipcSessionAdapter_def adapter_RevokeViewer_def)

text \<open>
  \<open>lw revoke\<close> reports success exactly for a viewer that was there. For a listed viewer, when the
  random source and the sends work, it succeeds and leaves the sharer as a revocation does: the
  viewer unlisted, the stream key replaced, every other viewer still listed. For any other
  name it prints that the viewer was not found, and the sharer is as before.
\<close>

theorem revoke_command_revokes:
  assumes ok: "process_ok en p" and "codec_ok T" and "io_ok io"
    and "ce_rand en = Some bs" and "\<And>n. ce_errs en n = None"
    and ord: "range_order (mdel i (s_viewers (sh_sess (sp_sharer p)))) (ce_order en)"
    and ord': "range_order (mdel i (s_viewers (sh_sess (sp_sharer p)))) (ce_rekey_order en)"
    and "utf8_text i"
  shows "case ClientRevoke T bt io (ipcSessionAdapter detail stop en) i p of (r, p') \<Rightarrow>
    if i \<in> listed (sp_sharer p)
    then r = None \<and> listed (sp_sharer p') = listed (sp_sharer p) - {i}
      \<and> stream_key (sh_sess (sp_sharer p')) = go_copy 32 bs
      \<and> sh_probes (sp_sharer p') = sh_probes (sp_sharer p) @ [ViewerRevoked i] \<and> sp_ctx p' = sp_ctx p
    else r = Some (Replied (ascii ''viewer not found'')) \<and> p' = p"
proof (cases "i \<in> listed (sp_sharer p)")
  case True
  from ok have wf: "sess_wf (sh_sess (sp_sharer p))" and op: "\<not> s_closed (sh_sess (sp_sharer p))"
    by (simp_all add: process_ok_def Let_def)
  from True obtain v where v: "mget (s_viewers (sh_sess (sp_sharer p))) i = Some v"
    unfolding listed_def by (metis mget_None_iff not_None_eq)
  obtain ms where rev: "Revoke (ce_errs en) i (ce_rand en) (ce_order en) (ce_rekey_order en) (sp_sharer p) =
      (None, sharer_call (ViewerRevoked i)
        ((sp_sharer p)\<lparr>sh_sess := snd (RevokeViewer (sh_sess (sp_sharer p)) i (Some bs) (ce_order en)),
           sh_viewerIDMap := mdel i (sh_viewerIDMap (sp_sharer p)), sh_sent := sh_sent (sp_sharer p) @ ms\<rparr>))"
    unfolding assms(4) by (rule Revoke_sends [OF wf v ord ord' assms(5)])
  from sess_wf_stream_key [OF wf op] have "s_streamKey (sh_sess (sp_sharer p)) \<noteq> length (s_mem (sh_sess (sp_sharer p)))"
    by (auto simp: key_buf_def)
  note key = RevokeViewer_keeps [OF wf v ord this, of bs]
  have "i \<in> iv_ID ` set (process_view en p)" using True view_names [OF ok] by (simp add: listed_def)
  note reply = share_control.client_revoke_listed [OF ok assms(2,3) this sh_RevokeViewer_adapter [OF rev], of bt detail stop]
  show ?thesis using True key by (simp add: reply sharer_call_def listed_def)
next
  case False
  then have "i \<notin> iv_ID ` set (process_view en p)" using view_names [OF ok] by (simp add: listed_def)
  from share_control.client_revoke_missing [OF ok assms(2,3,8) this, of bt detail stop] False
  show ?thesis by simp
qed

lemma Revoke_keeps:
  assumes wf: "sess_wf (sh_sess s)" and op: "\<not> s_closed (sh_sess s)" and i: "i \<in> listed s"
    and ord: "range_order (mdel i (s_viewers (sh_sess s))) ord"
  shows "case Revoke errs i (Some bs) ord ord' s of (e, s') \<Rightarrow>
    s_viewers (sh_sess s') = mdel i (s_viewers (sh_sess s)) \<and> stream_key (sh_sess s') = go_copy 32 bs
    \<and> sess_wf (sh_sess s') \<and> \<not> s_closed (sh_sess s')"
proof -
  from i obtain v where v: "mget (s_viewers (sh_sess s)) i = Some v"
    unfolding listed_def by (metis mget_None_iff not_None_eq)
  from sess_wf_stream_key [OF wf op] have "s_streamKey (sh_sess s) \<noteq> length (s_mem (sh_sess s))"
    by (auto simp: key_buf_def)
  note rot = RevokeViewer_rotates [OF wf v ord, of bs] and keeps = RevokeViewer_keeps [OF wf v ord this, of bs]
  have "sh_sess (snd (Revoke errs i (Some bs) ord ord' s)) = snd (RevokeViewer (sh_sess s) i (Some bs) ord)"
    by (simp add: Revoke_def rot split: prod.split option.split) (auto dest: deliver_rekeys_fields)
  moreover have "\<not> s_closed (snd (RevokeViewer (sh_sess s) i (Some bs) ord))"
    unfolding rot using op by (simp add: rekeyed_def revoked_state_def)
  ultimately show ?thesis
    using keeps sess_wf_RevokeViewer [OF wf ord, of "Some bs"] by (simp add: split_beta)
qed

text \<open>
  C39. A revocation that fails half way cannot be repeated. If \<open>lw revoke\<close> reports an error for a
  listed viewer because a rekey could not be sent, the viewer is gone and the stream key is
  already replaced; running the command again only says that the viewer was not found and
  sends nothing, so the viewers whose rekey was not sent never get the new key this way.
\<close>

theorem failed_revoke_cannot_be_repeated:
  assumes ok: "process_ok en p" and "codec_ok T" and "io_ok io"
    and i: "i \<in> listed (sp_sharer p)" and rand: "ce_rand en = Some bs"
    and ord: "range_order (mdel i (s_viewers (sh_sess (sp_sharer p)))) (ce_order en)"
    and failed: "ClientRevoke T bt io (ipcSessionAdapter detail stop en) i p = (Some e, p1)"
    and later: "range_order (mdel i (s_viewers (sh_sess (sp_sharer p)))) (ce_list_order en')"
  shows "i \<notin> listed (sp_sharer p1) \<and> stream_key (sh_sess (sp_sharer p1)) = go_copy 32 bs
    \<and> ClientRevoke T bt io (ipcSessionAdapter detail stop en') i p1
        = (Some (Replied (ascii ''viewer not found'')), p1)"
proof -
  from ok have wf: "sess_wf (sh_sess (sp_sharer p))" "\<not> s_closed (sh_sess (sp_sharer p))"
    and plain: "list_all plain_entry (s_viewers (sh_sess (sp_sharer p)))"
    by (simp_all add: process_ok_def Let_def)
  have view: "i \<in> iv_ID ` set (process_view en p)" using i view_names [OF ok] by (simp add: listed_def)
  obtain x s1 where rev: "Revoke (ce_errs en) i (ce_rand en) (ce_order en) (ce_rekey_order en) (sp_sharer p) = (x, s1)"
    by fastforce
  from Revoke_keeps [OF wf i ord, where errs = "ce_errs en" and bs = bs and ord' = "ce_rekey_order en"] rev
  have s1: "s_viewers (sh_sess s1) = mdel i (s_viewers (sh_sess (sp_sharer p)))"
    "stream_key (sh_sess s1) = go_copy 32 bs" "sess_wf (sh_sess s1)" "\<not> s_closed (sh_sess s1)"
    by (simp_all add: rand)
  obtain y where "sh_RevokeViewer (ipcSessionAdapter detail stop en) i p = (y, p\<lparr>sp_sharer := s1\<rparr>)"
    by (cases x) (simp_all add: ipcSessionAdapter_def adapter_RevokeViewer_def rev)
  from share_control.client_revoke_listed [OF ok assms(2,3) view this, of bt] failed
  have p1: "sp_sharer p1 = s1" by auto
  have gone: "i \<notin> listed s1" by (simp add: listed_def s1(1) mget_None_iff [symmetric])
  have ok': "process_ok en' p1"
    using s1 later plain by (simp add: process_ok_def p1 list_all_mdel)
  from gone view_names [OF ok'] have "i \<notin> iv_ID ` set (process_view en' p1)"
    by (simp add: listed_def p1)
  moreover from view have "utf8_text i"
    using share_control.plain_names [OF ok] by blast
  ultimately show ?thesis
    using share_control.client_revoke_missing [OF ok' assms(2,3)] gone s1(2) by (simp add: p1)
qed

text \<open>
  \<open>lw stop\<close> ends the session. The command returns without an error and the context of the
  sharer's process is cancelled; when the sharer's \<open>Run\<close> then returns, no handshake is left.
\<close>

theorem stop_command_cancels:
  assumes "codec_ok T" and "io_ok io"
  shows "case ClientStop T bt io (ipcSessionAdapter detail (Some cancel_process) en) p of (r, p') \<Rightarrow>
    r = None \<and> cx_cancelled (sp_ctx p') \<and> sp_sharer p' = sp_sharer p
    \<and> sh_handshakes (snd (Run_end L (sp_ctx p') e (sp_sharer p'))) = []"
  using assms
  by (simp add: ClientStop_def ipc_steps decode_response_json zero_response_def io_ok_def ipcSessionAdapter_def
      adapter_StopSession_def cancel_process_def context_cancel_def Run_end_fields)

section \<open>A sample\<close>

text \<open>A codec that writes an instant in unary.\<close>

definition ex_codec :: time_codec where
  "ex_codec = \<lparr>tc_format = (\<lambda>t. (if t < 0 then [45] else [43]) @ replicate (nat (abs t)) 49),
     tc_parse = (\<lambda>s. case s of [] \<Rightarrow> None | c # r \<Rightarrow> Some (if c = 45 then - int (length r) else int (length r)))\<rparr>"

definition ex_io :: socket_io where
  "ex_io = \<lparr>io_dial = True, io_write = True, io_read = True\<rparr>"

definition ex_control :: "(nat \<Rightarrow> string option) \<Rightarrow> control_env" where
  "ex_control errs = \<lparr>ce_list_order = [replicate 6 98, replicate 6 97], ce_errs = errs, ce_rand = Some [5],
     ce_order = [replicate 6 98], ce_rekey_order = [replicate 6 98]\<rparr>"

definition ex_process :: "bytes share_process" where
  "ex_process = \<lparr>sp_sharer = ex_both, sp_ctx = \<lparr>cx_cancelled = False\<rparr>\<rparr>"

lemma ex_codec_ok: "codec_ok ex_codec"
  by (simp add: codec_ok_def ex_codec_def)

lemma ex_io_ok: "io_ok ex_io"
  by (simp add: io_ok_def ex_io_def)

lemma ex_listed: "listed (sp_sharer ex_process) = {replicate 6 97, replicate 6 98}"
  by (simp add: ex_process_def ex_both_def listed_def NewSharer_def ex_session_def)

lemma ex_others: "range_order (mdel (replicate 6 97) (s_viewers (sh_sess (sp_sharer ex_process)))) [replicate 6 98]"
  by (simp add: ex_process_def ex_both_def NewSharer_def ex_session_def range_order_def)

lemma ex_process_ok: "process_ok (ex_control errs) ex_process"
  using ex_session_wf
  by (simp add: process_ok_def ex_control_def ex_process_def ex_both_def NewSharer_def range_order_def insert_commute)
    (simp add: ex_session_def ex_viewer_def plain_entry_def ClientTypeCLI_def plain_name_def [of "[_, _, _]"] ascii_def insert_commute)

lemma ex_broken:
  assumes "i = replicate 6 97"
  obtains e p1 where "ClientRevoke ex_codec [] ex_io (ipcSessionAdapter (\<lambda>_. []) None (ex_control (\<lambda>_. Some ''broken''))) i ex_process
      = (Some e, p1)" "sh_sent (sp_sharer p1) = sh_sent (sp_sharer ex_process)"
proof -
  let ?s = "sp_sharer ex_process" and ?e = "ex_control (\<lambda>_. Some ''broken'')"
  have "mget (s_viewers (sh_sess ?s)) i = Some (ex_viewer i 1)" "sess_wf (sh_sess ?s)"
    using ex_session_wf by (simp_all add: assms ex_process_def ex_both_def NewSharer_def ex_session_def)
  note rot = RevokeViewer_rotates [OF this(2,1) ex_others [folded assms], of "[5]"]
  have "\<exists>s1. Revoke (ce_errs ?e) i (ce_rand ?e) (ce_order ?e) (ce_rekey_order ?e) ?s
      = (Some (DeliveringRekey (replicate 6 98) ''broken''), s1) \<and> sh_sent s1 = sh_sent ?s"
    using rot by (simp add: assms Revoke_def ex_control_def ex_process_def ex_both_def NewSharer_def ex_session_def
        sendUnicast_def sharer_send_def)
  then obtain s1 where rev: "Revoke (ce_errs ?e) i (ce_rand ?e) (ce_order ?e) (ce_rekey_order ?e) ?s
      = (Some (DeliveringRekey (replicate 6 98) ''broken''), s1)" "sh_sent s1 = sh_sent ?s" by blast
  obtain e where "sh_RevokeViewer (ipcSessionAdapter (\<lambda>_. []) None ?e) i ex_process
      = (Some e, ex_process\<lparr>sp_sharer := s1\<rparr>)"
    by (simp add: ipcSessionAdapter_def adapter_RevokeViewer_def rev)
  moreover have "i \<in> iv_ID ` set (process_view ?e ex_process)"
    using view_names [OF ex_process_ok, of "\<lambda>_. Some ''broken''"] ex_listed by (simp add: listed_def assms)
  ultimately show ?thesis
    using share_control.client_revoke_listed [OF ex_process_ok ex_codec_ok ex_io_ok] that rev(2) by force
qed

theorem list_reports_the_viewers_witness:
  "\<exists>vs. ClientList ex_codec [] ex_io (ipcSessionAdapter (\<lambda>_. []) None (ex_control (\<lambda>_. None))) ex_process = (Inr vs, ex_process)
    \<and> distinct (map iv_ID vs) \<and> set (map iv_ID vs) = listed (sp_sharer ex_process)
    \<and> list_all (\<lambda>v. \<exists>w. mget (s_viewers (sh_sess (sp_sharer ex_process))) (iv_ID v) = Some w
         \<and> iv_ClientType v = ascii (v_clientType w) \<and> iv_JoinTime v = v_joinTime w) vs"
  by (rule list_reports_the_viewers [OF ex_process_ok ex_codec_ok ex_io_ok])

theorem revoke_command_revokes_witness:
  "case ClientRevoke ex_codec [] ex_io (ipcSessionAdapter (\<lambda>_. []) None (ex_control (\<lambda>_. None))) (replicate 6 97) ex_process of
    (r, p') \<Rightarrow> r = None \<and> listed (sp_sharer p') = {replicate 6 98}
      \<and> stream_key (sh_sess (sp_sharer p')) = go_copy 32 [5]"
proof -
  have "utf8_text (replicate 6 97)" by (rule plain_utf8) simp
  from revoke_command_revokes [OF ex_process_ok ex_codec_ok ex_io_ok, of _ "[5]", OF _ _ _ _ this,
      of "\<lambda>_. None" "[]" "\<lambda>_. []" None]
  show ?thesis by (simp add: ex_listed ex_others ex_control_def split_beta insert_Diff_if)
qed

theorem failed_revoke_cannot_be_repeated_witness:
  "case ClientRevoke ex_codec [] ex_io (ipcSessionAdapter (\<lambda>_. []) None (ex_control (\<lambda>_. Some ''broken''))) (replicate 6 97) ex_process of
    (r, p1) \<Rightarrow> r \<noteq> None \<and> sh_sent (sp_sharer p1) = sh_sent (sp_sharer ex_process)
      \<and> ClientRevoke ex_codec [] ex_io (ipcSessionAdapter (\<lambda>_. []) None
          ((ex_control (\<lambda>_. None))\<lparr>ce_list_order := [replicate 6 98]\<rparr>)) (replicate 6 97) p1
        = (Some (Replied (ascii ''viewer not found'')), p1)"
proof -
  let ?en' = "(ex_control (\<lambda>_. None))\<lparr>ce_list_order := [replicate 6 98]\<rparr>"
  obtain e p1 where r: "ClientRevoke ex_codec [] ex_io (ipcSessionAdapter (\<lambda>_. []) None (ex_control (\<lambda>_. Some ''broken'')))
      (replicate 6 97) ex_process = (Some e, p1)" "sh_sent (sp_sharer p1) = sh_sent (sp_sharer ex_process)"
    by (rule ex_broken [OF refl])
  from failed_revoke_cannot_be_repeated [OF ex_process_ok ex_codec_ok ex_io_ok _ _ _ r(1), of "[5]" ?en']
  show ?thesis using r by (simp add: ex_listed ex_others ex_control_def)
qed

theorem stop_command_cancels_witness:
  "case ClientStop ex_codec [] ex_io (ipcSessionAdapter (\<lambda>_. []) (Some cancel_process) (ex_control (\<lambda>_. None))) ex_process of
    (r, p') \<Rightarrow> r = None \<and> cx_cancelled (sp_ctx p') \<and> sp_sharer p' = sp_sharer ex_process
    \<and> sh_handshakes (snd (Run_end ex_spake (sp_ctx p') None (sp_sharer p'))) = []"
  by (rule stop_command_cancels [OF ex_codec_ok ex_io_ok])

end
