(* ===== verification/Share_Probe.thy ===== *)
theory Share_Probe
  imports Status_Bar Control
begin

text \<open>
  \<open>cmd/lw/shareprobe.go\<close>: the probe that connects a sharer to its status bar, and how the number of
  viewers it shows relates to the viewers the sharer serves.
\<close>

section \<open>Go strings as texts\<close>

text \<open>
  \<open>range\<close> over a string decodes UTF-8; a byte that belongs to no valid encoding is one item of its
  own. Here it is the number \<open>0x110000\<close> plus its value, above all runes.
\<close>

definition decode_rune :: "bytes \<Rightarrow> rune" where
  "decode_rune s =
     (let c = (\<lambda>k. unat (s ! k) mod 64) in
      case utf8_len s of
        0 \<Rightarrow> 0x110000 + unat (s ! 0)
      | Suc 0 \<Rightarrow> unat (s ! 0)
      | Suc (Suc 0) \<Rightarrow> (unat (s ! 0) mod 32) * 64 + c 1
      | Suc (Suc (Suc 0)) \<Rightarrow> (unat (s ! 0) mod 16) * 4096 + c 1 * 64 + c 2
      | _ \<Rightarrow> (unat (s ! 0) mod 8) * 262144 + c 1 * 4096 + c 2 * 64 + c 3)"

function go_string :: "bytes \<Rightarrow> gotext" where
  "go_string s = (if s = [] then [] else decode_rune s # go_string (drop (max 1 (utf8_len s)) s))"
  by pat_completeness auto
termination by (relation "measure length") auto

declare go_string.simps [simp del]

lemma go_string_ascii: "list_all (\<lambda>c. c < 0x80) s \<Longrightarrow> go_string s = map unat s"
proof (induction s)
  case (Cons c s)
  then show ?case by (subst go_string.simps) (simp add: decode_rune_def)
qed (simp add: go_string.simps)

section \<open>The probe\<close>

record statusBarSharerProbe =
  pb_bar :: "32 word statusBar"
  pb_viewerCount :: "32 word"

definition share_content :: "gotext \<Rightarrow> 32 word \<Rightarrow> gotext" where
  "share_content pairingCode viewerCount =
     (let n = sint viewerCount;
          noun = (if n = 1 then runes ''viewer'' else runes ''viewers'')
      in runes ''lw | code: '' @ bold pairingCode @ runes '' | ''
           @ Itoa n @ [32] @ noun
           @ runes '' | lw stop to end'')"

definition newSharerProbe :: "u16 \<Rightarrow> u16 \<Rightarrow> gotext \<Rightarrow> statusBarSharerProbe" where
  "newSharerProbe cols totalRows pairingCode =
     \<lparr>pb_bar = newStatusBar \<lparr>cfg_cols = cols, cfg_totalRows = totalRows, cfg_color = colorCyberCyan,
                            cfg_content = share_content pairingCode\<rparr>,
      pb_viewerCount = 0\<rparr>"

definition show_event :: "time \<Rightarrow> gotext \<Rightarrow> statusBarSharerProbe \<Rightarrow> statusBarSharerProbe" where
  "show_event now msg p = p\<lparr>pb_bar := ShowEvent now msg (pb_viewerCount p) (pb_bar p)\<rparr>"

text \<open>The methods, one for each call of the sharer.\<close>

definition status_event :: "time \<Rightarrow> sharer_probe \<Rightarrow> statusBarSharerProbe \<Rightarrow> statusBarSharerProbe" where
  "status_event now call p =
     (case call of
        ViewerJoined viewerID clientType \<Rightarrow>
          show_event now (runes ''viewer joined: '' @ go_string viewerID @ runes '' ('' @ runes clientType @ runes '')'')
            (p\<lparr>pb_viewerCount := pb_viewerCount p + 1\<rparr>)
      | ViewerLeft viewerID \<Rightarrow>
          show_event now (runes ''viewer left: '' @ go_string viewerID) (p\<lparr>pb_viewerCount := pb_viewerCount p - 1\<rparr>)
      | ViewerRevoked viewerID \<Rightarrow>
          show_event now (runes ''revoked: '' @ go_string viewerID) (p\<lparr>pb_viewerCount := pb_viewerCount p - 1\<rparr>)
      | SharerHandshakeFailed viewerID err \<Rightarrow>
          show_event now (runes ''handshake failed: '' @ go_string viewerID) p
      | _ \<Rightarrow> p)"

text \<open>The calls of a sharer, in order, each with the time it was made.\<close>

definition status_events :: "(time \<times> sharer_probe) list \<Rightarrow> statusBarSharerProbe \<Rightarrow> statusBarSharerProbe" where
  "status_events calls p = fold (\<lambda>(now, call). status_event now call) calls p"

section \<open>The count\<close>

definition counted :: "sharer_probe \<Rightarrow> int" where
  "counted call = (case call of ViewerJoined _ _ \<Rightarrow> 1 | ViewerLeft _ \<Rightarrow> -1 | ViewerRevoked _ \<Rightarrow> -1 | _ \<Rightarrow> 0)"

definition viewer_count :: "sharer_probe list \<Rightarrow> int" where
  "viewer_count calls = sum_list (map counted calls)"

lemma viewer_count_simps [simp]:
  "viewer_count [] = 0" "viewer_count (c # cs) = counted c + viewer_count cs"
  "viewer_count (cs @ ds) = viewer_count cs + viewer_count ds"
  by (simp_all add: viewer_count_def)

lemma counted_simps [simp]:
  "counted (ViewerJoined i ct) = 1" "counted (ViewerLeft i) = -1" "counted (ViewerRevoked i) = -1"
  "counted (SharerHandshakeFailed i e) = 0" "counted RelayConnected = 0" "counted (FrameStreamed k n) = 0"
  "counted SharerHeartbeatSent = 0" "counted (TerminalSizeBroadcast c r) = 0"
  by (simp_all add: counted_def)

lemma sint_small: "n < 2 ^ 31 \<Longrightarrow> sint (of_nat n :: 32 word) = int n"
  by (simp add: signed_of_nat signed_take_bit_int_eq_self)

lemma status_event_count: "pb_viewerCount (status_event now call p) = pb_viewerCount p + of_int (counted call)"
  by (simp add: status_event_def counted_def show_event_def split: sharer_probe.split)

lemma status_events_count:
  "pb_viewerCount (status_events calls p) = pb_viewerCount p + of_int (viewer_count (map snd calls))"
  unfolding status_events_def
  by (induction calls arbitrary: p) (simp_all add: status_event_count split_beta)

lemma status_event_content [simp]: "sb_content (pb_bar (status_event now call p)) = sb_content (pb_bar p)"
  by (simp add: status_event_def show_event_def ShowEvent_def split: sharer_probe.split)

text \<open>What the sharer's calls have counted above the viewers that it has mapped.\<close>

definition excess :: "'sp Sharer \<Rightarrow> int" where
  "excess s = viewer_count (sh_probes s) - int (length (sh_viewerIDMap s))"

text \<open>
  The revocations after which the count is right: those that remove a viewer that has joined, and
  those that find no viewer.
\<close>

fun tidy :: "sharer_action \<Rightarrow> 'sp Sharer \<Rightarrow> bool" where
  "tidy (OnRevoke errs i rand ord ord') s \<longleftrightarrow>
     (case Revoke errs i rand ord ord' s of
        (None, s') \<Rightarrow> i \<in> fst ` set (sh_viewerIDMap s)
      | (Some e, s') \<Rightarrow> s' = s)"
| "tidy _ s \<longleftrightarrow> True"

fun tidy_run :: "'sp spake_lib \<Rightarrow> kdf \<Rightarrow> sharer_action list \<Rightarrow> 'sp Sharer \<Rightarrow> bool" where
  "tidy_run L kdf [] s \<longleftrightarrow> True"
| "tidy_run L kdf (a # as) s \<longleftrightarrow> tidy a s \<and> tidy_run L kdf as (sharer_act L kdf a s)"

definition mapped_listed :: "'sp Sharer \<Rightarrow> bool" where
  "mapped_listed s \<longleftrightarrow> fst ` set (sh_viewerIDMap s) \<subseteq> listed s
     \<and> (case sh_joining s of None \<Rightarrow> True
        | Some (r, i, ak) \<Rightarrow> i \<in> listed s \<and> i \<notin> fst ` set (sh_viewerIDMap s))"

section \<open>Steps that leave the count alone\<close>

text \<open>A handshake step reports nothing, keeps the map and lists at most the viewer that is joining.\<close>

definition joins_at_most :: "'sp Sharer \<Rightarrow> 'sp Sharer \<Rightarrow> bool" where
  "joins_at_most s s1 \<longleftrightarrow> sh_viewerIDMap s1 = sh_viewerIDMap s \<and> sh_probes s1 = sh_probes s
     \<and> listed s \<subseteq> listed s1
     \<and> (case sh_joining s1 of None \<Rightarrow> True | Some (r, i, ak) \<Rightarrow> i \<in> listed s1 \<and> i \<notin> listed s)"

lemma RegisterViewer_viewers:
  assumes "RegisterViewer s ak ct rand now = (x, s')"
  shows "case x of Inl e \<Rightarrow> s_viewers s' = s_viewers s
     | Inr (info, enc) \<Rightarrow> GenerateViewerID rand = Inr (vi_ID info)
         \<and> fst ` set (s_viewers s') = insert (vi_ID info) (fst ` set (s_viewers s))"
proof -
  have "case RegisterViewer s ak ct rand now of
      (Inl e, s') \<Rightarrow> s_viewers s' = s_viewers s
    | (Inr (info, enc), s') \<Rightarrow> GenerateViewerID rand = Inr (vi_ID info)
         \<and> fst ` set (s_viewers s') = insert (vi_ID info) (fst ` set (s_viewers s))"
    by (simp add: RegisterViewer_def Let_def split: sum.split prod.split)
  with assms show ?thesis by (simp split: sum.splits prod.splits)
qed

lemma joins_refl: "sh_joining s = None \<Longrightarrow> joins_at_most s s"
  by (simp add: joins_at_most_def)

lemma joins_trans:
  "joins_at_most s s1 \<Longrightarrow> sh_joining s1 = None \<Longrightarrow> joins_at_most s1 s2 \<Longrightarrow> joins_at_most s s2"
  by (auto simp: joins_at_most_def split: option.splits)

lemma cleanup_fields [simp]:
  "sh_viewerIDMap (cleanupHandshake L r s) = sh_viewerIDMap s" "sh_probes (cleanupHandshake L r s) = sh_probes s"
  "sh_joining (cleanupHandshake L r s) = sh_joining s" "sh_probes (set_hs r hs s) = sh_probes s"
  by (simp_all add: cleanupHandshake_def set_hs_def split: option.split)

lemma sendUnicast_fields:
  "sendUnicast err r p s = (e, s') \<Longrightarrow> sh_viewerIDMap s' = sh_viewerIDMap s \<and> sh_probes s' = sh_probes s
    \<and> sh_joining s' = sh_joining s \<and> listed s' = listed s"
  by (cases err) (auto simp: sendUnicast_def sharer_send_def listed_def)

lemma joins_confirm:
  assumes "sh_joining s = None" "fresh_id (sh_sess s) rand"
  shows "joins_at_most s (snd (confirm_register L kdf rand now err r payload hs s))"
proof -
  have reg: "(case x of Inl e \<Rightarrow> fst ` set (s_viewers ss1) = listed s
      | Inr (info, enc) \<Rightarrow> vi_ID info \<notin> listed s \<and> fst ` set (s_viewers ss1) = insert (vi_ID info) (listed s))"
    if "RegisterViewer ((sh_sess s)\<lparr>s_mem := m\<rparr>) ak ct rand now = (x, ss1)" for x ss1 m ak ct
    using RegisterViewer_viewers [OF that] assms(2)
    by (auto simp: fresh_id_def listed_def mget_None_iff split: sum.splits)
  obtain ve h where v: "lib_verify L (hs_spake hs) payload = (ve, h)" by fastforce
  obtain y m where d: "\<And>secret. lib_key L h = Inr secret \<Longrightarrow> DeriveAuthKey kdf secret (s_mem (sh_sess s)) = (y, m)"
    by (cases "lib_key L h") (simp, metis sum.inject(2) surj_pair)
  note start = confirm_register_def v Let_def joins_at_most_def assms(1)
  show ?thesis
  proof (cases "ve = None \<and> (\<exists>secret ak. lib_key L h = Inr secret \<and> y = Inr ak)")
    case False
    then show ?thesis
      by (cases ve; cases "lib_key L h"; cases y) (simp_all add: start d listed_def)
  next
    case True
    then obtain secret ak where k: "ve = None" "lib_key L h = Inr secret" "y = Inr ak" by blast
    obtain x ss1 where x: "RegisterViewer ((sh_sess s)\<lparr>s_mem := m\<rparr>) (m ! ak) (hs_clientType hs) rand now = (x, ss1)"
      by fastforce
    note r = reg [OF x]
    show ?thesis
    proof (cases x)
      case (Inl e)
      with r show ?thesis by (simp add: start d k x) (simp add: listed_def)
    next
      case (Inr y')
      obtain info enc where y': "y' = (info, enc)" by (cases y')
      let ?s1 = "set_hs r (hs\<lparr>hs_spake := h\<rparr>) s\<lparr>sh_sess := ss1\<rparr>"
      obtain e s2 where u: "sendUnicast err r (buildKeyDelivery (vi_ID info) enc) ?s1 = (e, s2)" by fastforce
      from sendUnicast_fields [OF u] r Inr y' have s2: "sh_viewerIDMap s2 = sh_viewerIDMap s" "sh_probes s2 = sh_probes s"
        "sh_joining s2 = None" "listed s2 = insert (vi_ID info) (listed s)" "vi_ID info \<notin> listed s"
        using assms(1) by (simp_all add: listed_def)
      with r Inr y' show ?thesis
        by (cases e) (simp_all add: start d k x u, auto simp: listed_def)
    qed
  qed
qed

lemma joins_handle:
  assumes "sh_joining s = None" "fresh_id (sh_sess s) (en_rand en)"
  shows "joins_at_most s (snd (handleSPAKE2 L kdf en r payload s))"
proof -
  obtain x s1 where g: "get_handshake L r payload s = (x, s1)" by fastforce
  then have s1: "sh_viewerIDMap s1 = sh_viewerIDMap s" "sh_probes s1 = sh_probes s" "sh_joining s1 = None"
    "sh_sess s1 = sh_sess s" "listed s1 = listed s"
    using assms(1) by (auto simp: get_handshake_def Let_def split: option.splits sum.splits)
  then have j1: "joins_at_most s s1" by (simp add: joins_at_most_def)
  have "joins_at_most s1 (snd (wait_init L err r hs s1))" for err hs
    unfolding wait_init_def using s1
    by (simp add: joins_at_most_def split: prod.split sum.split option.split) (fastforce dest: sendUnicast_fields)
  moreover have "joins_at_most s1 (snd (wait_msg_b L err r payload hs s1))" for err hs
    unfolding wait_msg_b_def using s1
    by (simp add: joins_at_most_def split: prod.split sum.split option.split) (fastforce dest: sendUnicast_fields)
  moreover have "joins_at_most s1 (snd (confirm_register L kdf (en_rand en) now err r payload hs s1))" for err hs now
    by (rule joins_confirm) (use s1 assms(2) in simp_all)
  ultimately have "joins_at_most s1 (snd (case hs_state hs of
      hsWaitInit \<Rightarrow> wait_init L (en_send en) r hs s1
    | hsWaitMsgB \<Rightarrow> wait_msg_b L (en_send en) r payload hs s1
    | hsWaitConfirmB \<Rightarrow> confirm_register L kdf (en_rand en) (en_now en) (en_send en) r payload hs s1
    | hsComplete \<Rightarrow> (None, s1)))" for hs
    by (simp add: joins_refl s1 split: handshakeState.split)
  from joins_trans [OF j1 s1(3) this] j1 show ?thesis
    by (cases x) (simp_all add: handleSPAKE2_def g)
qed

section \<open>The count over a run\<close>

text \<open>A step that touches neither the tables nor the count.\<close>

definition quiet :: "'sp Sharer \<Rightarrow> 'sp Sharer \<Rightarrow> bool" where
  "quiet s s1 \<longleftrightarrow> sh_viewerIDMap s1 = sh_viewerIDMap s \<and> sh_joining s1 = sh_joining s \<and> listed s1 = listed s
     \<and> viewer_count (sh_probes s1) = viewer_count (sh_probes s)"

lemma quiet_keeps: "quiet s s1 \<Longrightarrow> mapped_listed s \<Longrightarrow> mapped_listed s1 \<and> excess s1 = excess s"
  by (auto simp: quiet_def mapped_listed_def excess_def split: option.splits)

lemma probes_call [simp]: "sh_probes (sharer_call c s) = sh_probes s @ [c]"
  by (simp add: sharer_call_def)

lemma mapped_listed_call [simp]: "mapped_listed (sharer_call c s) = mapped_listed s"
  by (simp add: mapped_listed_def split: option.split)

lemma quiet_broadcast: "quiet s (snd (broadcastTermSize kdf now err cols rows s))"
  using listed_broadcast [of kdf now err cols rows s]
  by (auto simp: quiet_def broadcastTermSize_def sharer_send_def sharer_call_def split: prod.split sum.split option.split)

lemma quiet_size: "quiet s (snd (SetTermSize kdf now err cols rows s))"
  using quiet_broadcast [of "s\<lparr>sh_termCols := cols, sh_termRows := rows\<rparr>" kdf now err cols rows]
  by (simp add: quiet_def SetTermSize_def)

lemma quiet_output: "quiet s (snd (output_turn kdf now send_err send_done data read_err read_done s))"
  using listed_output [of kdf now send_err send_done data read_err read_done s]
  by (auto simp: quiet_def output_turn_def Let_def sharer_send_def sharer_call_def
      split: prod.split sum.split option.split if_split)

lemma quiet_heartbeat: "quiet s (snd (sharer_heartbeat err s))"
  by (simp add: quiet_def sharer_heartbeat_def sharer_send_def sharer_call_def listed_def split: option.split)

lemma joins_keeps:
  "joins_at_most s s1 \<Longrightarrow> mapped_listed s \<Longrightarrow> mapped_listed s1 \<and> excess s1 = excess s"
  by (auto simp: joins_at_most_def mapped_listed_def excess_def split: option.splits)

lemma length_mdel: "distinct (keys m) \<Longrightarrow> k \<in> fst ` set m \<Longrightarrow> length m = Suc (length (mdel k m))"
  using card_Suc_Diff1 [of "fst ` set m" k] by (simp only: length_keys distinct_keys_mdel set_keys_mdel) simp

lemma disconnect_keeps:
  assumes "distinct (keys (sh_viewerIDMap s))" "sh_joining s = None" "mapped_listed s"
  shows "mapped_listed (handleViewerDisconnect r ord s) \<and> excess (handleViewerDisconnect r ord s) = excess s"
proof (cases "List.find (\<lambda>(sid, rid). rid = r) (go_range (sh_viewerIDMap s) ord)")
  case None
  then show ?thesis using assms(3) by (simp add: handleViewerDisconnect_def)
next
  case (Some x)
  obtain sid q where x: "x = (sid, q)" by (cases x)
  from Some have "x \<in> set (go_range (sh_viewerIDMap s) ord)"
    by (metis (no_types, lifting) find_Some_iff nth_mem)
  with x have key: "sid \<in> fst ` set (sh_viewerIDMap s)"
    by (force simp: set_go_range dest: map_of_SomeD)
  then have "length (sh_viewerIDMap s) = Suc (length (mdel sid (sh_viewerIDMap s)))"
    using assms(1) by (rule length_mdel [rotated])
  moreover have "listed s - {sid} \<subseteq> fst ` set (s_viewers (RemoveViewer (sh_sess s) sid))"
    by (auto simp: listed_def RemoveViewer_def split: option.split)
  then have "fst ` set (mdel sid (sh_viewerIDMap s)) \<subseteq> fst ` set (s_viewers (RemoveViewer (sh_sess s) sid))"
    using assms(3) unfolding mapped_listed_def set_keys_mdel by blast
  ultimately show ?thesis
    using assms(2,3) by (simp add: handleViewerDisconnect_def Some x mapped_listed_def excess_def listed_def)
qed

lemma finish_keeps:
  assumes "distinct (keys (sh_viewerIDMap s))" "mapped_listed s"
  shows "mapped_listed (confirm_finish L kdf now err s) \<and> excess (confirm_finish L kdf now err s) = excess s"
proof (cases "\<exists>r i ak hs. sh_joining s = Some (r, i, ak) \<and> mget (sh_handshakes s) r = Some hs")
  case False
  then have "confirm_finish L kdf now err s = s" by (auto simp: confirm_finish_def split: option.split)
  with assms(2) show ?thesis by simp
next
  case True
  then obtain r i ak hs where j: "sh_joining s = Some (r, i, ak)" "mget (sh_handshakes s) r = Some hs" by blast
  let ?s1 = "set_hs r (hs\<lparr>hs_state := hsComplete\<rparr>) s"
  let ?s2 = "sharer_call (ViewerJoined i (hs_clientType hs)) (?s1\<lparr>sh_viewerIDMap := mput i r (sh_viewerIDMap ?s1)\<rparr>)"
  define s3 where "s3 = (if 0 < sh_termCols ?s2 \<and> 0 < sh_termRows ?s2
      then snd (broadcastTermSize kdf now err (sh_termCols ?s2) (sh_termRows ?s2) ?s2) else ?s2)"
  have "quiet ?s2 s3" using quiet_broadcast [of ?s2] by (simp add: s3_def) (simp add: quiet_def)
  moreover have "confirm_finish L kdf now err s =
      set_hs r (hs\<lparr>hs_state := hsComplete, hs_spake := lib_wipe L (hs_spake hs)\<rparr>)
        (s3\<lparr>sh_sess := sess_zero ak (sh_sess s3), sh_joining := None\<rparr>)"
    unfolding s3_def using j by (simp only: confirm_finish_def Let_def option.case prod.case)
  moreover have "length (mput i r (sh_viewerIDMap s)) = Suc (length (sh_viewerIDMap s))"
    using assms j by (intro length_mput_new) (auto simp: mapped_listed_def mget_None_iff)
  ultimately show ?thesis
    using assms(2) j by (simp add: mapped_listed_def excess_def quiet_def listed_def)
qed

lemma deliver_rekeys_probes: "sh_probes (snd (deliver_rekeys errs rs s)) = sh_probes s"
proof (induction errs rs s rule: deliver_rekeys.induct)
  case (2 errs sid enc rs s)
  then show ?case by (auto simp: sendUnicast_def sharer_send_def comp_def split: option.split prod.split)
qed simp

text \<open>What \<open>Revoke\<close> does to the tables once the session has removed the viewer.\<close>

lemma Revoke_tables:
  assumes "Revoke errs i rand ord ord' s = (e, s')" "\<And>x. e \<noteq> Some (RevokingViewer x)"
  shows "s_viewers (sh_sess s') = mdel i (s_viewers (sh_sess s))
    \<and> sh_viewerIDMap s' = mdel i (sh_viewerIDMap s) \<and> sh_joining s' = sh_joining s
    \<and> sh_probes s' = sh_probes s @ (if e = None then [ViewerRevoked i] else [])"
proof -
  from assms obtain rekeys ss where r: "RevokeViewer (sh_sess s) i rand ord = (Inr rekeys, ss)"
    by (auto simp: Revoke_def split: prod.splits sum.splits)
  let ?s = "s\<lparr>sh_sess := ss, sh_viewerIDMap := mdel i (sh_viewerIDMap s)\<rparr>"
  obtain x s1 where d: "deliver_rekeys errs (go_range rekeys ord') ?s = (x, s1)" by fastforce
  from deliver_rekeys_fields [OF d] deliver_rekeys_probes [of errs "go_range rekeys ord'" ?s] assms(1)
    RevokeViewer_Inr_viewers [OF r]
  show ?thesis by (cases x) (auto simp: Revoke_def r d sharer_call_def)
qed

lemmas Revoke_None = Revoke_tables [where e = None, simplified]

lemma Revoke_keeps_count:
  assumes "distinct (keys (sh_viewerIDMap s))" "mapped_listed s" "tidy (OnRevoke errs i rand ord ord') s"
  shows "mapped_listed (snd (Revoke errs i rand ord ord' s)) \<and> excess (snd (Revoke errs i rand ord ord' s)) = excess s"
proof -
  obtain e s' where r: "Revoke errs i rand ord ord' s = (e, s')" by fastforce
  show ?thesis
  proof (cases e)
    case (Some x)
    with r assms show ?thesis by simp
  next
    case None
    from Revoke_None [OF r [unfolded None]] None r assms length_mdel [OF assms(1), of i]
    show ?thesis
      by (auto simp: mapped_listed_def excess_def listed_def split: option.splits)
  qed
qed

lemma act_keeps_count:
  assumes ok: "sharer_ok L s" and inp: "inputs_ok a s" and "tidy a s" and ml: "mapped_listed s"
  shows "mapped_listed (sharer_act L kdf a s) \<and> excess (sharer_act L kdf a s) = excess s"
proof -
  have dist: "distinct (keys (sh_viewerIDMap s))" using ok by (simp add: sharer_ok_def tables_ok_def)
  show ?thesis
  proof (cases a)
    case (OnRelay en ord m)
    show ?thesis
    proof (cases "sh_joining s")
      case None
      have handle: "joins_at_most s (snd (handleSPAKE2 L kdf en q p s))" for q p
        by (rule joins_handle) (use None inp OnRelay in simp_all)
      have called: "joins_at_most s s1 \<Longrightarrow> counted c = 0
          \<Longrightarrow> mapped_listed (sharer_call c s1) \<and> excess (sharer_call c s1) = excess s" for c s1
        using joins_keeps [of s s1] ml by (simp add: excess_def)
      have "mapped_listed (snd (relay_turn L kdf en ord m s)) \<and> excess (snd (relay_turn L kdf en ord m s)) = excess s"
      proof (cases rule: relay_turn_cases [where L = L and kdf = kdf and en = en and ord = ord and r = m and s = s])
        case (spake data)
        let ?h = "handleSPAKE2 L kdf en (take ViewerIDLen (drop 1 data)) (drop (1 + ViewerIDLen) data) s"
        have h: "joins_at_most s (snd ?h)" by (rule handle)
        show ?thesis
        proof (cases "fst ?h")
          case None
          with spake(2) joins_keeps [OF h ml] show ?thesis by (simp add: split_beta)
        next
          case (Some e)
          with spake(2) called [OF h, of "SharerHandshakeFailed q e" for q] show ?thesis by (simp add: split_beta)
        qed
      qed (use ml called [OF joins_refl [OF None]] disconnect_keeps [OF dist None ml] in simp_all)
      with OnRelay None show ?thesis by simp
    qed (use OnRelay ml in simp)
  qed (use assms(3) in \<open>simp_all add: finish_keeps [OF dist ml] Revoke_keeps_count [OF dist ml]
      quiet_keeps [OF _ ml] quiet_size quiet_output quiet_heartbeat del: tidy.simps\<close>)
qed

lemma tidy_run_keeps_count:
  assumes "sharer_runs L kdf as s = Some s'" "tidy_run L kdf as s" "sharer_ok L s" "wiping_lib L" "mapped_listed s"
  shows "mapped_listed s' \<and> excess s' = excess s"
  using assms
proof (induction as arbitrary: s)
  case (Cons a as)
  then have inp: "inputs_ok a s" by (simp split: if_splits)
  from act_keeps_count [OF Cons.prems(3) inp _ Cons.prems(5), of kdf] Cons.prems(2)
  have "mapped_listed (sharer_act L kdf a s)" "excess (sharer_act L kdf a s) = excess s" by simp_all
  with Cons inp sharer_ok_act [OF Cons.prems(3,4) inp, of kdf] show ?case by simp
qed simp

text \<open>
  C40. The status bar counts the viewers. In any run of a sharer whose revocations each removed a viewer
  that had joined (or found none), the number on the bar is the number of viewers the sharer
  has entered in its map, as long as that fits 31 bits.
\<close>

theorem status_counts_viewers:
  fixes L :: "'sp spake_lib"
  assumes "NewSession argon2 code rand = Inr sess" and "wiping_lib L"
    and "sharer_runs L kdf as (NewSharer sess code) = Some s" and "tidy_run L kdf as (NewSharer sess code)"
    and "map snd calls = sh_probes s" and "length (sh_viewerIDMap s) < 2 ^ 31"
  shows "sint (pb_viewerCount (status_events calls (newSharerProbe cols rows text)))
      = int (length (sh_viewerIDMap s))"
proof -
  have "s_viewers sess = []" using assms(1) by (auto simp: NewSession_def GenerateStreamKey_cases split: option.splits)
  then have "mapped_listed (NewSharer sess code :: 'sp Sharer)" "excess (NewSharer sess code :: 'sp Sharer) = 0"
    by (simp_all add: NewSharer_def mapped_listed_def excess_def)
  with tidy_run_keeps_count [OF assms(3,4) sharer_ok_NewSharer [OF assms(1)] assms(2)]
  have "excess s = 0" by simp
  then have "viewer_count (map snd calls) = int (length (sh_viewerIDMap s))"
    by (simp add: assms(5) excess_def)
  then show ?thesis
    using assms(6) by (simp add: status_events_count newSharerProbe_def sint_small)
qed

text \<open>
  A revocation that fails half way leaves the bar wrong for good. When a rekey cannot be sent, the
  viewer is removed but not reported; from then on, in every run whose other revocations work,
  the number on the bar is that of the viewers in the map and one more (if it was right before).
\<close>

theorem failed_revocation_miscounts:
  assumes ok: "sharer_ok L s" and "wiping_lib L" and ml: "mapped_listed s" and right: "excess s = 0"
    and i: "i \<in> fst ` set (sh_viewerIDMap s)" and ord: "range_order (mdel i (s_viewers (sh_sess s))) ord"
    and failed: "Revoke errs i rand ord ord' s = (Some (DeliveringRekey j e), s1)"
    and run: "sharer_runs L kdf as s1 = Some s2" "tidy_run L kdf as s1"
  shows "i \<notin> listed s1 \<and> sh_probes s1 = sh_probes s
    \<and> viewer_count (sh_probes s2) = int (length (sh_viewerIDMap s2)) + 1"
proof -
  have dist: "distinct (keys (sh_viewerIDMap s))" using ok by (simp add: sharer_ok_def tables_ok_def)
  from Revoke_tables [OF failed] have s1: "s_viewers (sh_sess s1) = mdel i (s_viewers (sh_sess s))"
    "sh_viewerIDMap s1 = mdel i (sh_viewerIDMap s)" "sh_joining s1 = sh_joining s" "sh_probes s1 = sh_probes s"
    by simp_all
  have "sharer_ok L s1" using sharer_ok_Revoke [OF ok ord, of errs rand ord'] failed by simp
  moreover have "mapped_listed s1"
    using ml i by (auto simp: mapped_listed_def s1 listed_def split: option.splits)
  ultimately have "excess s2 = excess s1" using tidy_run_keeps_count [OF run _ assms(2)] by blast
  also have "excess s1 = excess s + 1"
    using length_mdel [OF dist i] by (simp add: excess_def s1)
  finally have "excess s2 = 1" by (simp add: right)
  then show ?thesis by (simp add: excess_def s1 listed_def)
qed

section \<open>Samples\<close>

lemma ex_joined_map: "sh_viewerIDMap ex_joined = [(replicate 6 99, ex_A)]"
  by (simp add: ex_joined_def ex_confirmed Let_def)
    (simp add: confirm_finish_def ex_asked_def NewSharer_def Let_def ex_ctx_def set_hs_def sharer_call_def)

theorem status_counts_viewers_witness:
  "sint (pb_viewerCount (status_events (map (Pair 0) (sh_probes ex_joined)) (newSharerProbe 80 24 (runes ''code'')))) = 1"
proof -
  have "tidy_run ex_spake ex_kdf [ex_msg [1], ex_msg [66], ex_msg [68], FinishJoin 0 None] (NewSharer ex_sess0 [1])"
    by (simp add: ex_msg_def del: sharer_act.simps)
  from status_counts_viewers [OF ex_sess0_new ex_wiping ex_joined_runs this, of "map (Pair 0) (sh_probes ex_joined)"]
  show ?thesis by (simp add: ex_joined_map comp_def)
qed

text \<open>Two viewers that have joined and were reported.\<close>

definition ex_counted :: "bytes Sharer" where
  "ex_counted = ex_both\<lparr>sh_probes :=
     [ViewerJoined (replicate 6 97) ClientTypeCLI, ViewerJoined (replicate 6 98) ClientTypeCLI]\<rparr>"

lemma ex_counted_ok: "sharer_ok ex_spake ex_counted" "mapped_listed ex_counted" "excess ex_counted = 0"
proof -
  show "sharer_ok ex_spake ex_counted"
    using ex_both_ok sharer_ok_cong [of ex_counted ex_both] by (simp add: ex_counted_def)
qed (simp_all add: ex_counted_def ex_both_def NewSharer_def ex_session_def mapped_listed_def listed_def excess_def)

lemma ex_counted_revoke:
  obtains s1 where "Revoke (\<lambda>_. Some ''broken'') (replicate 6 97) (Some [5]) [replicate 6 98] [replicate 6 98] ex_counted
    = (Some (DeliveringRekey (replicate 6 98) ''broken''), s1)"
proof -
  have "mget (s_viewers (sh_sess ex_counted)) (replicate 6 97) = Some (ex_viewer (replicate 6 97) 1)"
    "sess_wf (sh_sess ex_counted)" "range_order (mdel (replicate 6 97) (s_viewers (sh_sess ex_counted))) [replicate 6 98]"
    using ex_session_wf by (simp_all add: ex_counted_def ex_both_def NewSharer_def ex_session_def range_order_def)
  note rot = RevokeViewer_rotates [OF this(2,1,3), of "[5]"]
  with that show ?thesis
    by (simp add: Revoke_def ex_counted_def ex_both_def NewSharer_def ex_session_def sendUnicast_def sharer_send_def)
qed

theorem failed_revocation_miscounts_witness:
  "\<exists>s1. Revoke (\<lambda>_. Some ''broken'') (replicate 6 97) (Some [5]) [replicate 6 98] [replicate 6 98] ex_counted
      = (Some (DeliveringRekey (replicate 6 98) ''broken''), s1)
    \<and> viewer_count (sh_probes s1) = 2 \<and> length (sh_viewerIDMap s1) = 1"
proof -
  obtain s1 where r: "Revoke (\<lambda>_. Some ''broken'') (replicate 6 97) (Some [5]) [replicate 6 98] [replicate 6 98] ex_counted
      = (Some (DeliveringRekey (replicate 6 98) ''broken''), s1)" by (rule ex_counted_revoke)
  have i: "replicate 6 97 \<in> fst ` set (sh_viewerIDMap ex_counted)"
    and ord: "range_order (mdel (replicate 6 97) (s_viewers (sh_sess ex_counted))) [replicate 6 98]"
    by (simp_all add: ex_counted_def ex_both_def NewSharer_def ex_session_def range_order_def)
  have "sharer_runs ex_spake ex_kdf [] s1 = Some s1" "tidy_run ex_spake ex_kdf [] s1" by simp_all
  from failed_revocation_miscounts [OF ex_counted_ok(1) ex_wiping ex_counted_ok(2,3) i ord r this]
  have "viewer_count (sh_probes s1) = int (length (sh_viewerIDMap s1)) + 1" "sh_probes s1 = sh_probes ex_counted"
    by blast+
  moreover have "viewer_count (sh_probes ex_counted) = 2" by (simp add: ex_counted_def)
  ultimately show ?thesis using r by auto
qed

end
