(* ===== verification/Cli_Session.thy ===== *)
theory Cli_Session
  imports Go_Strings Ipc "HOL-Library.List_Lexorder"
begin

text \<open>
  How the commands of one user find each other: \<open>cmd/lw/pidfile.go\<close>, \<open>SocketPath\<close> of
  \<open>internal/ipc/ipc.go\<close> and \<open>resolveSocketPath\<close> of \<open>cmd/lw/list.go\<close>. The file system is a map from
  paths to contents, in which a socket is a file without content, and a list of directories; paths and
  contents are texts. The temporary directory is a path that \<open>filepath.Clean\<close> leaves alone and that has no characters that
  mean something in a pattern, so joining is concatenation.
\<close>

section \<open>The host\<close>

text \<open>\<open>h_alive\<close> holds for a process that \<open>FindProcess\<close> finds and that takes the signal 0.\<close>

record host =
  h_tmp :: gotext
  h_files :: "(gotext, gotext) gomap"
  h_dirs :: "gotext list"
  h_alive :: "int \<Rightarrow> bool"

datatype cli_error = AlreadyActive int | NoActiveSession

definition pidFilePath :: "host \<Rightarrow> gotext" where
  "pidFilePath h = h_tmp h @ runes ''/lw.pid''"

definition os_remove :: "gotext \<Rightarrow> host \<Rightarrow> host" where
  "os_remove path h = h\<lparr>h_files := mdel path (h_files h)\<rparr>"

definition checkExistingSession :: "host \<Rightarrow> cli_error option \<times> host" where
  "checkExistingSession h =
     (case mget (h_files h) (pidFilePath h) of
        None \<Rightarrow> (None, h)
      | Some data \<Rightarrow>
          (case Atoi (TrimSpace data) of
             None \<Rightarrow> (None, os_remove (pidFilePath h) h)
           | Some pid \<Rightarrow>
               (if \<not> h_alive h pid then (None, os_remove (pidFilePath h) h)
                else (Some (AlreadyActive pid), h))))"

text \<open>
  \<open>os.WriteFile\<close> creates the file or cuts it to nothing before it writes: when it fails after that, the
  first bytes of the text, or none, are what the file holds.
\<close>

datatype write_result = Written | NotOpened string | WrittenPartly string nat

definition writePIDFile :: "write_result \<Rightarrow> int \<Rightarrow> host \<Rightarrow> string option \<times> host" where
  "writePIDFile res pid h =
     (case res of
        Written \<Rightarrow> (None, h\<lparr>h_files := mput (pidFilePath h) (Itoa pid) (h_files h)\<rparr>)
      | NotOpened e \<Rightarrow> (Some e, h)
      | WrittenPartly e n \<Rightarrow> (Some e, h\<lparr>h_files := mput (pidFilePath h) (take n (Itoa pid)) (h_files h)\<rparr>))"

definition removePIDFile :: "host \<Rightarrow> host" where
  "removePIDFile h = os_remove (pidFilePath h) h"

text \<open>\<open>os.MkdirAll\<close> that succeeds, and \<open>os.Remove\<close> of a directory, which fails when it holds something.\<close>

definition below :: "gotext \<Rightarrow> gotext \<Rightarrow> bool" where
  "below dir path \<longleftrightarrow> take (length dir + 1) path = dir @ [47]"

definition occupied :: "gotext \<Rightarrow> host \<Rightarrow> bool" where
  "occupied dir h \<longleftrightarrow> list_ex (below dir) (map fst (h_files h)) \<or> list_ex (below dir) (h_dirs h)"

definition os_mkdir :: "gotext \<Rightarrow> host \<Rightarrow> host" where
  "os_mkdir dir h = h\<lparr>h_dirs := List.insert dir (h_dirs h)\<rparr>"

definition os_rmdir :: "gotext \<Rightarrow> host \<Rightarrow> host" where
  "os_rmdir dir h = (if occupied dir h then h else h\<lparr>h_dirs := removeAll dir (h_dirs h)\<rparr>)"

definition SocketDir :: "gotext \<Rightarrow> int \<Rightarrow> gotext" where
  "SocketDir tmp pid = tmp @ runes ''/'' @ runes IPCSocketPrefix @ Itoa pid"

definition SocketPath :: "gotext \<Rightarrow> int \<Rightarrow> gotext" where
  "SocketPath tmp pid = tmp @ runes ''/'' @ runes IPCSocketPrefix @ Itoa pid @ runes ''/ctl.sock''"

definition isProcessAlive :: "int \<Rightarrow> host \<Rightarrow> bool" where
  "isProcessAlive pid h \<longleftrightarrow> h_alive h pid"

text \<open>
  \<open>filepath.Glob\<close> for \<open>lw-*/ctl.sock\<close> below the temporary directory: what the star stands for in
  the existing paths, in the order of the directory's names.
\<close>

definition star_of :: "gotext \<Rightarrow> gotext \<Rightarrow> gotext option" where
  "star_of tmp path =
     (let pre = tmp @ runes ''/lw-''; post = runes ''/ctl.sock'';
          mid = drop (length pre) (take (length path - length post) path)
      in if path = pre @ mid @ post \<and> 47 \<notin> set mid then Some mid else None)"

definition Glob_stars :: "host \<Rightarrow> gotext list" where
  "Glob_stars h = sort (List.map_filter (\<lambda>(path, _). star_of (h_tmp h) path) (h_files h))"

definition resolveSocketPath :: "host \<Rightarrow> cli_error + gotext" where
  "resolveSocketPath h =
     (let by_glob =
        (case List.find (\<lambda>x. case Atoi x of None \<Rightarrow> False | Some pid \<Rightarrow> isProcessAlive pid h) (Glob_stars h) of
           Some x \<Rightarrow> Inr (h_tmp h @ runes ''/lw-'' @ x @ runes ''/ctl.sock'')
         | None \<Rightarrow> Inl NoActiveSession)
      in case Option.bind (mget (h_files h) (pidFilePath h)) (\<lambda>data. Atoi (TrimSpace data)) of
           None \<Rightarrow> by_glob
         | Some pid \<Rightarrow>
             let path = SocketPath (h_tmp h) pid
             in if mget (h_files h) path \<noteq> None then Inr path else by_glob)"

section \<open>Finding the session\<close>

lemma Itoa_word: "0 \<le> i \<Longrightarrow> list_all is_digit (Itoa i) \<and> Itoa i \<noteq> [] \<and> is_word (Itoa i)"
  using decimal_digits [of "nat i"] by (auto simp: Itoa_def is_word_def list_all_iff is_digit_def IsSpace_def)

lemma TrimSpace_Itoa: "0 \<le> i \<Longrightarrow> TrimSpace (Itoa i) = Itoa i"
  using TrimSpace_is_word [of "Itoa i"] Itoa_word by blast

lemma read_pid: "0 \<le> pid \<Longrightarrow> pid < 2 ^ 63 \<Longrightarrow> Atoi (TrimSpace (Itoa pid)) = Some pid"
  by (simp add: TrimSpace_Itoa Atoi_Itoa)

lemma paths_distinct: "SocketPath tmp pid \<noteq> tmp @ runes ''/lw.pid''"
  by (simp add: SocketPath_def IPCSocketPrefix_def runes_def)

lemma SocketPath_below: "below (SocketDir tmp pid) (SocketPath tmp pid)"
  by (simp add: below_def SocketDir_def SocketPath_def runes_def)

lemma pid_not_below: "\<not> below (SocketDir tmp pid) (tmp @ runes ''/lw.pid'')"
  by (simp add: below_def SocketDir_def IPCSocketPrefix_def runes_def take_Cons')

lemma occupied_iff:
  "occupied dir h \<longleftrightarrow> (\<exists>path. mget (h_files h) path \<noteq> None \<and> below dir path) \<or> (\<exists>d \<in> set (h_dirs h). below dir d)"
  by (auto simp: occupied_def list_ex_iff mget_None_iff)

lemma occupied_cong:
  assumes "\<And>path. below dir path \<Longrightarrow> mget (h_files h') path = None \<longleftrightarrow> mget (h_files h) path = None"
    and "\<And>d. below dir d \<Longrightarrow> d \<in> set (h_dirs h') \<longleftrightarrow> d \<in> set (h_dirs h)"
  shows "occupied dir h' = occupied dir h"
proof -
  have "(\<exists>path. mget (h_files h') path \<noteq> None \<and> below dir path) = (\<exists>path. mget (h_files h) path \<noteq> None \<and> below dir path)"
    using assms(1) by metis
  moreover have "(\<exists>d \<in> set (h_dirs h'). below dir d) = (\<exists>d \<in> set (h_dirs h). below dir d)"
    using assms(2) by metis
  ultimately show ?thesis unfolding occupied_iff by simp
qed

lemma not_below_itself: "\<not> below dir dir"
  by (simp add: below_def)

lemma star_of_path:
  assumes "47 \<notin> set x"
  shows "star_of tmp (tmp @ runes ''/lw-'' @ x @ runes ''/ctl.sock'') = Some x"
proof -
  let ?pre = "tmp @ runes ''/lw-''" and ?post = "runes ''/ctl.sock''"
  have "drop (length ?pre) (take (length (?pre @ x @ ?post) - length ?post) (?pre @ x @ ?post)) = x" by simp
  with assms show ?thesis by (simp add: star_of_def)
qed

lemma SocketPath_lw: "SocketPath tmp pid = tmp @ runes ''/lw-'' @ Itoa pid @ runes ''/ctl.sock''"
  by (simp add: SocketPath_def IPCSocketPrefix_def runes_def)

lemma set_stars: "x \<in> set (Glob_stars h) \<longleftrightarrow> (\<exists>path \<in> fst ` set (h_files h). star_of (h_tmp h) path = Some x)"
  unfolding Glob_stars_def set_sort by (induction "h_files h") (force simp: List.map_filter_def)+

lemma star_of_SocketPath:
  assumes "0 \<le> pid"
  shows "star_of tmp (SocketPath tmp pid) = Some (Itoa pid)"
proof -
  have "47 \<notin> set (Itoa pid)" using Itoa_word [OF assms] by (auto simp: list_all_iff is_digit_def)
  then show ?thesis unfolding SocketPath_lw by (rule star_of_path)
qed

lemma Glob_stars_SocketPath:
  "0 \<le> pid \<Longrightarrow> SocketPath (h_tmp h) pid \<in> fst ` set (h_files h) \<Longrightarrow> Itoa pid \<in> set (Glob_stars h)"
  using star_of_SocketPath [of pid "h_tmp h"] unfolding set_stars by blast

text \<open>
  One session at a time. Once a process has written its PID file, \<open>lw share\<close> refuses to start a
  second session and leaves the file alone as long as that process lives; when it is gone without
  cleaning up, the file is removed and the next session may start.
\<close>

theorem one_session_at_a_time:
  assumes "0 \<le> pid" and "pid < 2 ^ 63" and "writePIDFile Written pid h = (None, h')"
  shows "checkExistingSession h' =
    (if h_alive h pid then (Some (AlreadyActive pid), h') else (None, removePIDFile h'))
    \<and> checkExistingSession (removePIDFile h') = (None, removePIDFile h')"
  using assms read_pid [OF assms(1,2)]
  by (auto simp: writePIDFile_def checkExistingSession_def pidFilePath_def removePIDFile_def os_remove_def)

text \<open>
  The commands find the session. With the PID file in place, \<open>resolveSocketPath\<close> returns the socket of
  the process it names; without the file it finds the socket by its name, when it belongs to the
  only live process that has one.
\<close>

theorem commands_find_the_session:
  assumes "0 \<le> pid" and "pid < 2 ^ 63" and "SocketPath (h_tmp h) pid \<in> fst ` set (h_files h)"
    and "mget (h_files h) (pidFilePath h) = Some (Itoa pid)
      \<or> mget (h_files h) (pidFilePath h) = None \<and> h_alive h pid
        \<and> (\<forall>x \<in> set (Glob_stars h). x = Itoa pid \<or> (case Atoi x of None \<Rightarrow> True | Some q \<Rightarrow> \<not> h_alive h q))"
  shows "resolveSocketPath h = Inr (SocketPath (h_tmp h) pid)"
proof (cases "mget (h_files h) (pidFilePath h) = Some (Itoa pid)")
  case True
  with assms(3) read_pid [OF assms(1,2)] show ?thesis
    by (auto simp: resolveSocketPath_def Let_def mget_None_iff)
next
  case False
  let ?P = "\<lambda>x. case Atoi x of None \<Rightarrow> False | Some q \<Rightarrow> isProcessAlive q h"
  from False assms(4) have none: "mget (h_files h) (pidFilePath h) = None" and live: "?P (Itoa pid)"
    and only: "\<And>x. x \<in> set (Glob_stars h) \<Longrightarrow> ?P x \<Longrightarrow> x = Itoa pid"
    using Atoi_Itoa [of pid] assms(1,2) by (auto simp: isProcessAlive_def split: option.splits)
  from Glob_stars_SocketPath [OF assms(1,3)] live obtain x where x: "List.find ?P (Glob_stars h) = Some x"
    by (metis (no_types, lifting) find_None_iff not_Some_eq)
  then have "x \<in> set (Glob_stars h)" "?P x" by (metis (no_types, lifting) find_Some_iff nth_mem)+
  with only have "x = Itoa pid" by blast
  with x none show ?thesis
    by (simp add: resolveSocketPath_def SocketPath_lw)
qed

section \<open>Samples\<close>

definition ex_host :: "(gotext, gotext) gomap \<Rightarrow> host" where
  "ex_host files = \<lparr>h_tmp = runes ''/tmp'', h_files = files, h_dirs = [], h_alive = (\<lambda>pid. pid = 42)\<rparr>"

theorem one_session_at_a_time_witness:
  "\<exists>h'. writePIDFile Written 42 (ex_host []) = (None, h') \<and> checkExistingSession h' = (Some (AlreadyActive 42), h')
    \<and> checkExistingSession (removePIDFile h') = (None, removePIDFile h')"
proof -
  obtain h' where h': "writePIDFile Written 42 (ex_host []) = (None, h')" by (simp add: writePIDFile_def)
  from one_session_at_a_time [OF _ _ h'] h' show ?thesis by (simp add: ex_host_def)
qed

theorem commands_find_the_session_witness:
  "resolveSocketPath (ex_host [(SocketPath (runes ''/tmp'') 42, [])]) = Inr (SocketPath (runes ''/tmp'') 42)"
proof -
  let ?h = "ex_host [(SocketPath (runes ''/tmp'') 42, [])]"
  have "star_of (runes ''/tmp'') (SocketPath (runes ''/tmp'') 42) = Some (Itoa 42)"
    by (rule star_of_SocketPath) simp
  then have "Glob_stars ?h = [Itoa 42]"
    by (simp add: Glob_stars_def ex_host_def List.map_filter_simps)
  then show ?thesis
    using commands_find_the_session [of 42 ?h] paths_distinct [of "runes ''/tmp''" 42]
    by (simp add: ex_host_def pidFilePath_def)
qed

end
