(* ===== verification/Pairing_Code.thy ===== *)
theory Pairing_Code
  imports Wordlist Crypto
begin

text \<open>
  \<open>internal/code/code.go\<close>: the pairing code, six words of the list joined by hyphens.
  \<open>Generate\<close> draws one for the sharer, \<open>Normalize\<close> reads what a viewer typed. The embedded file
  is one word per line.
\<close>

section \<open>The word list and the code\<close>

definition bip39Raw :: gotext where
  "bip39Raw = concat (map (\<lambda>w. runes w @ [10]) bip39_words)"

definition wordlist :: "gotext list" where
  "wordlist = Split 10 (TrimSpace bip39Raw)"

definition isValidWord :: "gotext \<Rightarrow> bool" where
  "isValidWord w \<longleftrightarrow> w \<in> set (map TrimSpace wordlist)"

datatype code_error = GeneratingCodeWord crypto_error | WordCount nat | InvalidWord gotext

text \<open>The loop of \<open>Generate\<close>: one draw of \<open>rand.Int\<close> per word.\<close>

fun code_loop :: "nat \<Rightarrow> nat option list \<Rightarrow> code_error + gotext list" where
  "code_loop 0 rs = Inr []"
| "code_loop (Suc n) [] = Inl (GeneratingCodeWord RandFailed)"
| "code_loop (Suc n) (r # rs) =
     (case rand_int (length wordlist) r of
        Inl e \<Rightarrow> Inl (GeneratingCodeWord e)
      | Inr idx \<Rightarrow> (case code_loop n rs of
            Inl e \<Rightarrow> Inl e
          | Inr ws \<Rightarrow> Inr (wordlist ! idx # ws)))"

definition Generate :: "nat option list \<Rightarrow> code_error + gotext" where
  "Generate rs = (case code_loop CodeWordCount rs of Inl e \<Rightarrow> Inl e | Inr ws \<Rightarrow> Inr (Join ws [45]))"

definition Normalize :: "(rune \<Rightarrow> rune) \<Rightarrow> gotext \<Rightarrow> code_error + gotext" where
  "Normalize low input =
     (let s = ReplaceAll 45 32 (ToLower low (TrimSpace input));
          words = Fields s
      in if length words \<noteq> CodeWordCount then Inl (WordCount (length words))
         else case List.find (\<lambda>w. \<not> isValidWord w) words of
                Some w \<Rightarrow> Inl (InvalidWord w)
              | None \<Rightarrow> Inr (Join words [45]))"

section \<open>The word list in memory\<close>

text \<open>Texts of lower-case letters, as all words are.\<close>

definition plain :: "gotext \<Rightarrow> bool" where
  "plain w \<longleftrightarrow> w \<noteq> [] \<and> list_all (\<lambda>r. 97 \<le> r \<and> r \<le> 122) w"

lemma plain_no_space: "97 \<le> r \<Longrightarrow> r \<le> 122 \<Longrightarrow> \<not> IsSpace r"
  by (simp add: IsSpace_def)

lemma plain_is_word: "plain w \<Longrightarrow> is_word w"
  by (auto simp: plain_def is_word_def list_all_iff plain_no_space)

lemma plain_words: "list_all plain (map runes bip39_words)"
  using plain_bip39
  by (auto simp: list_all_iff plain_word_def plain_def runes_def dest: lower_letter_range)

lemma lines_Join: "ws \<noteq> [] \<Longrightarrow> concat (map (\<lambda>w. w @ [10 :: rune]) ws) = Join ws [10] @ [10]"
  by (induction ws "[10 :: rune]" rule: Join.induct) auto

lemma Join_ends: "list_all (\<lambda>w. w \<noteq> []) (w # ws) \<Longrightarrow> Join (w # ws) sep \<noteq> []
    \<and> hd (Join (w # ws) sep) = hd w \<and> last (Join (w # ws) sep) = last (last (w # ws))"
  by (induction ws arbitrary: w) auto

lemma TrimSpace_lines:
  assumes "list_all plain (w # ws)"
  shows "TrimSpace (Join (w # ws) [10] @ [10]) = Join (w # ws) [10]"
proof -
  have "is_word w" "is_word (last (w # ws))"
    using assms last_in_set [of "w # ws"] by (auto simp: list_all_iff plain_is_word)
  moreover have "list_all (\<lambda>w. w \<noteq> []) (w # ws)" using assms by (auto simp: plain_def list_all_iff)
  ultimately show ?thesis
    using Join_ends [of w ws "[10]"]
    by (intro TrimSpace_fixed) (auto simp: word_ends IsSpace_def [of 10])
qed

lemma plain_free: "plain w \<Longrightarrow> r < 97 \<Longrightarrow> r \<notin> set w"
  by (auto simp: plain_def list_all_iff)

lemma wordlist_eq: "wordlist = map runes bip39_words"
proof -
  obtain w ws where ws: "map runes bip39_words = w # ws"
    using length_bip39 by (cases "map runes bip39_words") auto
  have "bip39Raw = concat (map (\<lambda>w. w @ [10]) (map runes bip39_words))"
    by (simp add: bip39Raw_def comp_def)
  then have "TrimSpace bip39Raw = Join (w # ws) [10]"
    using plain_words lines_Join [of "w # ws"] TrimSpace_lines [of w ws] unfolding ws by simp
  moreover have "list_all (\<lambda>w. 10 \<notin> set w) (w # ws)"
    using plain_words unfolding ws by (auto simp: list_all_iff plain_free)
  ultimately show ?thesis unfolding wordlist_def ws by (simp add: Split_Join)
qed

lemma wordlist_facts:
  "length wordlist = 2048" "distinct wordlist" "list_all plain wordlist"
  using length_bip39 distinct_bip39 plain_words by (simp_all add: wordlist_eq)

lemma isValidWord_iff: "isValidWord w \<longleftrightarrow> w \<in> set wordlist"
proof -
  have "map TrimSpace wordlist = wordlist"
    using wordlist_facts(3) by (auto simp: list_all_iff intro!: map_idI TrimSpace_is_word plain_is_word)
  then show ?thesis by (simp add: isValidWord_def)
qed

section \<open>Generate and Normalize\<close>

text \<open>The code of six positions in the list.\<close>

definition code_of :: "nat list \<Rightarrow> gotext" where
  "code_of is = Join (map ((!) wordlist) is) [45]"

definition code_words :: "gotext list \<Rightarrow> bool" where
  "code_words ws \<longleftrightarrow> length ws = CodeWordCount \<and> set ws \<subseteq> set wordlist"

lemma code_loop_Inr:
  "code_loop n rs = Inr ws \<Longrightarrow> length ws = n \<and> set ws \<subseteq> set wordlist"
proof (induction n rs arbitrary: ws rule: code_loop.induct)
  case (3 n r rs)
  from "3.prems" obtain i vs where i: "rand_int (length wordlist) r = Inr i"
    and vs: "code_loop n rs = Inr vs" and ws: "ws = wordlist ! i # vs"
    by (simp split: sum.splits)
  have "wordlist ! i \<in> set wordlist"
    using rand_int_Inr [OF i] by (simp add: wordlist_facts)
  with "3.IH" [OF i vs] ws show ?case by simp
qed simp_all

lemma Generate_words: "Generate rs = Inr c \<Longrightarrow> \<exists>ws. code_words ws \<and> c = Join ws [45]"
  by (auto simp: Generate_def code_words_def split: sum.splits dest: code_loop_Inr)

lemma code_loop_drawn:
  "list_all (\<lambda>i. i < length wordlist) is \<Longrightarrow> code_loop (length is) (map Some is) = Inr (map ((!) wordlist) is)"
  by (induction "is") (simp_all add: rand_int_def)

lemma Generate_drawn:
  "length is = CodeWordCount \<Longrightarrow> list_all (\<lambda>i. i < length wordlist) is
    \<Longrightarrow> Generate (map Some is) = Inr (code_of is)"
  using code_loop_drawn [of "is"] by (simp add: Generate_def code_of_def)

lemma find_invalid: "List.find (\<lambda>w. \<not> isValidWord w) ws = None \<longleftrightarrow> set ws \<subseteq> set wordlist"
  by (auto simp: find_None_iff isValidWord_iff)

lemma Normalize_Inr_iff:
  "Normalize low input = Inr c \<longleftrightarrow>
    (let ws = Fields (ReplaceAll 45 32 (ToLower low (TrimSpace input)))
     in code_words ws \<and> c = Join ws [45])"
proof -
  let ?ws = "Fields (ReplaceAll 45 32 (ToLower low (TrimSpace input)))"
  show ?thesis
    using find_invalid [of ?ws]
    by (cases "List.find (\<lambda>w. \<not> isValidWord w) ?ws") (auto simp: Normalize_def Let_def code_words_def)
qed

lemma code_words_facts:
  assumes "code_words ws"
  shows "ws \<noteq> []" "list_all plain ws" "Split 45 (Join ws [45]) = ws"
proof -
  show "ws \<noteq> []" "list_all plain ws"
    using assms wordlist_facts(3) by (auto simp: code_words_def list_all_iff)
  then show "Split 45 (Join ws [45]) = ws"
    by (intro Split_Join) (auto simp: list_all_iff plain_free)
qed

section \<open>Spellings\<close>

text \<open>
  What a viewer may type for a code: each letter in either case, and between the words, before
  the first and after the last any mixture of hyphens and ASCII spaces, not empty between words.
  A spelling is the leading separators and, for each word, its letters and what follows it.
\<close>

definition same_letter :: "rune \<Rightarrow> rune \<Rightarrow> bool" where
  "same_letter a b \<longleftrightarrow> b = a \<or> b + 32 = a"

definition is_sep :: "rune \<Rightarrow> bool" where
  "is_sep r \<longleftrightarrow> r = 45 \<or> r < 128 \<and> IsSpace r"

definition spell :: "gotext \<Rightarrow> (gotext \<times> gotext) list \<Rightarrow> gotext" where
  "spell lead parts = lead @ concat (map (\<lambda>(v, s). v @ s) parts)"

definition spelling :: "gotext \<Rightarrow> gotext \<Rightarrow> (gotext \<times> gotext) list \<Rightarrow> bool" where
  "spelling code lead parts \<longleftrightarrow>
     list_all is_sep lead \<and> list_all (\<lambda>(v, s). list_all is_sep s) parts
     \<and> list_all (\<lambda>(v, s). s \<noteq> []) (butlast parts)
     \<and> list_all2 (list_all2 same_letter) (Split 45 code) (map fst parts)"

text \<open>What \<open>ToLower\<close> and \<open>ReplaceAll\<close> do to one rune.\<close>

definition fold_rune :: "(rune \<Rightarrow> rune) \<Rightarrow> rune \<Rightarrow> rune" where
  "fold_rune low r = (if lower_rune low r = 45 then 32 else lower_rune low r)"

lemma fold_runes: "ReplaceAll 45 32 (ToLower low s) = map (fold_rune low) s"
  by (simp add: ReplaceAll_def ToLower_def fold_rune_def)

lemma fold_sep: "is_sep r \<Longrightarrow> IsSpace (fold_rune low r)"
  by (auto simp: is_sep_def fold_rune_def lower_rune_def IsSpace_def)

lemma fold_seps: "list_all is_sep s \<Longrightarrow> list_all IsSpace (map (fold_rune low) s)"
  by (simp add: list_all_iff fold_sep)

lemma fold_letter: "same_letter a b \<Longrightarrow> 97 \<le> a \<Longrightarrow> a \<le> 122 \<Longrightarrow> fold_rune low b = a"
  by (auto simp: same_letter_def fold_rune_def lower_rune_def)

lemma fold_word: "plain w \<Longrightarrow> list_all2 same_letter w v \<Longrightarrow> map (fold_rune low) v = w"
  by (rule nth_equalityI) (auto simp: plain_def list_all_length list_all2_conv_all_nth fold_letter)

lemma Fields_spelling:
  assumes "list_all plain ws" "list_all2 (list_all2 same_letter) ws (map fst parts)"
    and "list_all (\<lambda>(v, s). list_all is_sep s) parts" "list_all (\<lambda>(v, s). s \<noteq> []) (butlast parts)"
  shows "Fields (map (fold_rune low) (concat (map (\<lambda>(v, s). v @ s) parts))) = ws"
  using assms
proof (induction parts arbitrary: ws)
  case Nil
  then show ?case by simp
next
  case (Cons p parts)
  obtain v s where p: "p = (v, s)" by (cases p)
  from Cons.prems p obtain w ws' where ws: "ws = w # ws'" "plain w" "list_all2 same_letter w v"
    "list_all plain ws'" "list_all2 (list_all2 same_letter) ws' (map fst parts)"
    by (cases ws) auto
  let ?t = "map (fold_rune low) (concat (map (\<lambda>(v, s). v @ s) parts))" and ?s = "map (fold_rune low) s"
  have sp: "list_all IsSpace ?s" using Cons.prems p by (simp add: fold_seps)
  have "s \<noteq> [] \<or> parts = []" using Cons.prems(4) p by (auto split: if_splits)
  with sp have "?s @ ?t = [] \<or> IsSpace (hd (?s @ ?t))" by (cases s) auto
  then have "Fields (w @ ?s @ ?t) = w # Fields (?s @ ?t)"
    using ws by (intro Fields_word plain_is_word)
  also have "Fields (?s @ ?t) = ws'"
    using Cons.IH [OF ws(4,5)] Cons.prems(3,4) sp by (auto simp: Fields_skip split: if_splits)
  finally show ?case
    using ws p by (simp add: fold_word)
qed

lemma spelling_runes:
  assumes "spelling code lead parts" "list_all plain (Split 45 code)" "r \<in> set (spell lead parts)" "IsSpace r"
  shows "is_sep r"
proof -
  have "is_sep r \<or> (\<exists>w v. plain w \<and> list_all2 same_letter w v \<and> r \<in> set v)"
    using assms(1-3)
    by (fastforce simp: spelling_def spell_def list_all_iff list_all2_conv_all_nth in_set_conv_nth)
  moreover have "\<not> IsSpace r" if "plain w" "list_all2 same_letter w v" "r \<in> set v" for w v
  proof -
    from that obtain a where "97 \<le> a" "a \<le> 122" "same_letter a r"
      by (auto simp: plain_def list_all_length list_all2_conv_all_nth in_set_conv_nth)
    then show ?thesis by (auto simp: same_letter_def IsSpace_def)
  qed
  ultimately show ?thesis using assms(4) by blast
qed

lemma Normalize_spelling:
  assumes ws: "code_words ws" and sp: "spelling (Join ws [45]) lead parts"
  shows "Normalize low (spell lead parts) = Inr (Join ws [45])"
proof -
  note facts = code_words_facts [OF ws]
  let ?i = "spell lead parts" and ?f = "map (fold_rune low)"
  obtain a b where ab: "?i = a @ TrimSpace ?i @ b" "list_all IsSpace a" "list_all IsSpace b"
    using TrimSpace_split [of ?i] by blast
  have set_i: "set ?i = set a \<union> set (TrimSpace ?i) \<union> set b"
    by (subst ab(1)) auto
  have "is_sep r" if "r \<in> set a \<union> set b" for r
    using spelling_runes [OF sp, of r] facts ab(2,3) that set_i by (auto simp: list_all_iff)
  then have spaces: "list_all IsSpace (?f a)" "list_all IsSpace (?f b)"
    by (auto simp: list_all_iff fold_sep)
  have "Fields (?f (TrimSpace ?i)) = Fields (?f a @ ?f (TrimSpace ?i) @ ?f b)"
    using spaces by (simp add: Fields_skip Fields_append_spaces)
  moreover have "?f a @ ?f (TrimSpace ?i) @ ?f b = ?f ?i"
    using arg_cong [OF ab(1), of ?f] by simp
  moreover have "Fields (?f ?i) = ws"
    using sp facts Fields_spelling [of ws parts low] fold_seps [of lead low]
    by (simp add: spelling_def spell_def Fields_skip)
  ultimately show ?thesis
    using ws by (simp add: Normalize_Inr_iff fold_runes)
qed

text \<open>The code as \<open>Generate\<close> writes it is a spelling of itself: each word with the hyphen after it.\<close>

fun plain_parts :: "gotext list \<Rightarrow> (gotext \<times> gotext) list" where
  "plain_parts [] = []"
| "plain_parts [w] = [(w, [])]"
| "plain_parts (w # v # ws) = (w, [45]) # plain_parts (v # ws)"

lemma plain_parts_facts:
  "map fst (plain_parts ws) = ws" "list_all (\<lambda>(v, s). list_all is_sep s) (plain_parts ws)"
  "plain_parts ws = [] \<longleftrightarrow> ws = []"
  by (induction ws rule: plain_parts.induct) (auto simp: is_sep_def)

lemma plain_parts_seps: "list_all (\<lambda>(v, s). s \<noteq> []) (butlast (plain_parts ws))"
  by (induction ws rule: plain_parts.induct) (auto simp: plain_parts_facts)

lemma spell_plain_parts: "spell [] (plain_parts ws) = Join ws [45]"
  by (induction ws rule: plain_parts.induct) (simp_all add: spell_def)

lemma canonical_spelling:
  assumes "code_words ws"
  shows "spelling (Join ws [45]) [] (plain_parts ws)"
proof -
  have "list_all2 same_letter w w" for w by (rule list_all2_refl) (simp add: same_letter_def)
  then have "list_all2 (list_all2 same_letter) ws ws" by (rule list_all2_refl)
  then show ?thesis
    using code_words_facts(3) [OF assms] by (simp add: spelling_def plain_parts_facts plain_parts_seps)
qed

lemma Normalize_code: "code_words ws \<Longrightarrow> Normalize low (Join ws [45]) = Inr (Join ws [45])"
  using Normalize_spelling [OF _ canonical_spelling] by (simp add: spell_plain_parts)

section \<open>Properties\<close>

text \<open>
  A code survives being typed. However a viewer writes down a generated code, in any mixture of
  upper and lower case, with hyphens, spaces, tabs or line breaks between the words and
  around them, \<open>Normalize\<close> gives back exactly the code that \<open>Generate\<close> made, so that
  both sides run SPAKE2 and derive the session ID from the same bytes.
\<close>

theorem typed_code_normalizes:
  assumes "Generate rs = Inr code" and "spelling code lead parts"
  shows "Normalize low (spell lead parts) = Inr code"
  using Generate_words [OF assms(1)] assms(2) Normalize_spelling by blast

lemma ex_code:
  "Generate (replicate 6 (Some 0)) = Inr (Join (replicate 6 (runes ''abandon'')) [45])"
proof -
  have "wordlist ! 0 = runes ''abandon''"
    using length_bip39 by (simp add: wordlist_eq first_bip39)
  then show ?thesis
    using Generate_drawn [of "replicate 6 0"] by (simp add: wordlist_facts list_all_iff code_of_def)
qed

lemma ex_words:
  "runes ''abandon'' = [97, 98, 97, 110, 100, 111, 110]"
  "runes ''Abandon'' = [65, 98, 97, 110, 100, 111, 110]"
  "runes ''ABANDON'' = [65, 66, 65, 78, 68, 79, 78]"
  by (simp_all add: runes_def)

lemma ex_replicate:
  "replicate 5 x = [x, x, x, x, x]" "replicate 6 x = [x, x, x, x, x, x]"
  by (simp_all add: numeral_eq_Suc)

theorem typed_code_normalizes_witness:
  "Normalize (\<lambda>r. r) (spell [9] (replicate 5 (runes ''Abandon'', [32]) @ [(runes ''ABANDON'', [10])]))
    = Inr (Join (replicate 6 (runes ''abandon'')) [45])"
proof (rule typed_code_normalizes [OF ex_code])
  have "Split 45 (Join (replicate 6 (runes ''abandon'')) [45]) = replicate 6 (runes ''abandon'')"
    by (rule Split_Join) (simp_all add: ex_words ex_replicate)
  then show "spelling (Join (replicate 6 (runes ''abandon'')) [45]) [9]
      (replicate 5 (runes ''Abandon'', [32]) @ [(runes ''ABANDON'', [10])])"
    by (simp add: spelling_def ex_words ex_replicate is_sep_def IsSpace_def same_letter_def)
qed

text \<open>The indices that \<open>Generate\<close> may draw, and the codes that \<open>Normalize\<close> may return.\<close>

abbreviation drawn_indices :: "nat list set" where
  "drawn_indices \<equiv> {is. length is = CodeWordCount \<and> set is \<subseteq> {..<2048}}"

lemma drawn_words: "is \<in> drawn_indices \<Longrightarrow> code_words (map ((!) wordlist) is)"
proof -
  have "i < 2048 \<Longrightarrow> wordlist ! i \<in> set wordlist" for i by (simp add: wordlist_facts(1))
  then show "is \<in> drawn_indices \<Longrightarrow> code_words (map ((!) wordlist) is)" by (auto simp: code_words_def)
qed

lemma inj_code_of: "inj_on code_of drawn_indices"
proof (rule inj_onI)
  fix xs ys assume xs: "xs \<in> drawn_indices" and ys: "ys \<in> drawn_indices" and "code_of xs = code_of ys"
  then have "map ((!) wordlist) xs = map ((!) wordlist) ys"
    using code_words_facts(3) [OF drawn_words [OF xs]] code_words_facts(3) [OF drawn_words [OF ys]]
    unfolding code_of_def by metis
  moreover have "inj_on ((!) wordlist) (set xs \<union> set ys)"
    using xs ys by (intro inj_on_nth wordlist_facts(2)) (auto simp: wordlist_facts(1))
  ultimately show "xs = ys" by (rule map_inj_on)
qed

lemma code_of_onto: "code_of ` drawn_indices = {code. \<exists>input. Normalize low input = Inr code}"
proof (intro equalityI subsetI)
  fix c assume "c \<in> code_of ` drawn_indices"
  then show "c \<in> {code. \<exists>input. Normalize low input = Inr code}"
    using drawn_words Normalize_code by (auto simp: code_of_def)
next
  fix c assume "c \<in> {code. \<exists>input. Normalize low input = Inr code}"
  then obtain ws where ws: "code_words ws" "c = Join ws [45]"
    by (auto simp: Normalize_Inr_iff Let_def)
  then have "\<forall>w \<in> set ws. \<exists>i < 2048. wordlist ! i = w"
    by (auto simp: code_words_def in_set_conv_nth wordlist_facts)
  then obtain f where f: "\<forall>w \<in> set ws. f w < 2048 \<and> wordlist ! f w = w" by metis
  then have "c = code_of (map f ws)" using ws(2) by (simp add: code_of_def map_idI)
  moreover have "map f ws \<in> drawn_indices" using ws(1) f by (auto simp: code_words_def)
  ultimately show "c \<in> code_of ` drawn_indices" by blast
qed

text \<open>
  C31. The accepted codes are exactly the generated ones. \<open>Generate\<close>, on six draws, is a
  bijection from the 2048 to the sixth power sequences of positions to the codes that
  \<open>Normalize\<close> can return, whatever it is given and whatever the Unicode table above ASCII
  says: every code it accepts can have been generated, no two draws give the same code, and a
  code carries 66 bits.
\<close>

theorem codes_are_the_generated_ones:
  "bij_betw (\<lambda>is. projr (Generate (map Some is))) {is. length is = CodeWordCount \<and> set is \<subseteq> {..<2048}}
     {code. \<exists>input. Normalize low input = Inr code}
   \<and> card {code. \<exists>input. Normalize low input = Inr code} = 2 ^ 66"
proof -
  let ?C = "{code. \<exists>input. Normalize low input = Inr code}"
  have gen: "projr (Generate (map Some is)) = code_of is" if "is \<in> drawn_indices" for "is"
  proof -
    have "list_all (\<lambda>i. i < length wordlist) is" using that by (auto simp: list_all_iff wordlist_facts)
    with that Generate_drawn [of "is"] show ?thesis by simp
  qed
  have "bij_betw code_of drawn_indices ?C" using inj_code_of code_of_onto by (simp add: bij_betw_def)
  moreover have "card drawn_indices = 2048 ^ 6"
    using card_lists_length_eq [of "{..<2048 :: nat}" 6] by (simp add: conj_commute)
  ultimately show ?thesis
    using bij_betw_same_card [of code_of drawn_indices ?C] bij_betw_cong [of drawn_indices, OF gen] by simp
qed

end
