(* ===== verification/Share.thy ===== *)
theory Share
  imports Relay_Url Tty Pty Share_Probe Cli_Session Control Pairing_Code
begin

text \<open>
  \<open>cmd/lw/share.go\<close> and \<open>cmd/lw/banner.go\<close>: the command \<open>lw share\<close>, which puts the components
  together. First the process while it shares, as the steps of its goroutines; then the command as a
  whole, with the cleaning up that its deferred calls do on every path.
\<close>

section \<open>The banner\<close>

definition fgCyberCyan :: gotext where
  "fgCyberCyan = esc ''[38;2;0;240;255m''"

definition fgAmber :: gotext where
  "fgAmber = esc ''[38;2;255;176;0m''"

definition dim :: gotext where
  "dim = esc ''[2m''"

definition bannerLines :: nat where
  "bannerLines = 8"

definition crlf :: gotext where
  "crlf = [13, 10]"

text \<open>The two spaces, the colour and the bar of box-drawing characters at the left of a line.\<close>

definition banner_edge :: "gotext \<Rightarrow> gotext" where
  "banner_edge edge = [32, 32] @ dim @ edge @ colorReset"

definition printWelcomeBanner :: "gotext \<Rightarrow> gotext \<Rightarrow> gotext" where
  "printWelcomeBanner code link =
     crlf
     @ [32, 32] @ dim @ [0x250F, 0x2578] @ colorReset @ fgCyberCyan @ runes ''lockwire'' @ colorReset @ crlf
     @ banner_edge [0x2503] @ crlf
     @ banner_edge [0x2503] @ runes ''  code  '' @ boldOn @ code @ colorReset @ crlf
     @ banner_edge [0x2503] @ runes ''  link  '' @ dim @ link @ colorReset @ crlf
     @ banner_edge [0x2517, 0x2578] @ crlf
     @ crlf"

definition resetScrollRegion :: gotext where
  "resetScrollRegion = esc ''[r''"

definition clearLine :: "u16 \<Rightarrow> gotext" where
  "clearLine row = esc ''['' @ decimal (unat row) @ runes '';1H'' @ esc ''[2K''"

section \<open>Window sizes\<close>

text \<open>The height of the shell in a window, whose last line the bar takes when there are three or more.\<close>

definition ptyRows :: "u16 \<Rightarrow> u16" where
  "ptyRows rows = (if rows < 3 then rows else rows - 1)"

text \<open>\<open>outerCols\<close> and \<open>outerRows\<close>: what the terminal reports, else 80 by 24.\<close>

definition outer_size :: "(u16 \<times> u16) option \<Rightarrow> u16 \<times> u16" where
  "outer_size ws = (case ws of None \<Rightarrow> (80, 24) | Some z \<Rightarrow> z)"

section \<open>The process while it shares\<close>

text \<open>
  \<open>lv_outer\<close> is the context of \<open>runShare\<close>, \<open>lv_inner\<close> the one that \<open>Run\<close> derives from it, \<open>lv_ends\<close>
  the errors that the relay loop and the output loop have sent when they returned, in order,
  \<open>lv_relay\<close> and \<open>lv_output\<close> whether they still run.
\<close>

record 'sp live =
  lv_sharer :: "'sp Sharer"
  lv_outer :: context_state
  lv_inner :: context_state
  lv_term :: Terminal
  lv_writer :: barRedrawWriter
  lv_probe :: statusBarSharerProbe
  lv_relay :: bool
  lv_output :: bool
  lv_ends :: "sharer_error option list"

text \<open>
  A step of the sharer: what it tells its probe goes to the status bar. \<open>now\<close> is the clock there.
\<close>

definition told :: "time \<Rightarrow> 'sp Sharer \<Rightarrow> 'sp live \<Rightarrow> 'sp live" where
  "told now s lv =
     lv\<lparr>lv_sharer := s,
        lv_probe := status_events (map (Pair now) (drop (length (sh_probes (lv_sharer lv))) (sh_probes s)))
          (lv_probe lv)\<rparr>"

text \<open>
  The relay loop receives: \<open>err\<close> or a message. Its handler holds the loop while a viewer is
  half-joined.
\<close>

definition relay_step ::
  "'sp spake_lib \<Rightarrow> kdf \<Rightarrow> time \<Rightarrow> spake_env \<Rightarrow> bytes list \<Rightarrow> string + bytes \<Rightarrow> 'sp live \<Rightarrow> 'sp live" where
  "relay_step L kdf now en ord r lv =
     (if \<not> lv_relay lv \<or> sh_joining (lv_sharer lv) \<noteq> None then lv
      else case relay_turn L kdf en ord
                  (case r of Inl e \<Rightarrow> RecvFailed e (cx_cancelled (lv_inner lv)) | Inr data \<Rightarrow> Got data)
                  (lv_sharer lv) of
             (Going, s) \<Rightarrow> told now s lv
           | (Ended e, s) \<Rightarrow> (told now s lv)\<lparr>lv_relay := False, lv_ends := lv_ends lv @ [e]\<rparr>)"

text \<open>
  The output loop reads from \<open>io.TeeReader(term, barRedrawWriter)\<close>: what the shell printed goes to the
  terminal of the sharer first. \<open>read_err\<close> is the error of the terminal (\<open>Some None\<close> is the end
  of the file), \<open>written\<close> the result of writing to the standard output.
\<close>

definition tee_Read ::
  "bytes \<Rightarrow> string option option \<Rightarrow> nat \<times> string option \<Rightarrow> time \<Rightarrow> 'sp live
    \<Rightarrow> (bytes \<times> string option option) \<times> 'sp live" where
  "tee_Read data read_err written now lv =
     (let lv1 = lv\<lparr>lv_term := snd (pty_Read (length data, map_option (case_option ''EOF'' id) read_err) (lv_term lv))\<rparr>
      in if data = [] then ((data, read_err), lv1)
         else case bar_Write written now data (pb_viewerCount (lv_probe lv)) (lv_writer lv) (pb_bar (lv_probe lv)) of
           ((n, err), bw, bar) \<Rightarrow>
             (case err of None \<Rightarrow> (data, read_err) | Some e \<Rightarrow> (take n data, Some (Some e)),
              lv1\<lparr>lv_writer := bw, lv_probe := (lv_probe lv)\<lparr>pb_bar := bar\<rparr>\<rparr>))"

definition output_step ::
  "kdf \<Rightarrow> time \<Rightarrow> bytes \<Rightarrow> string option option \<Rightarrow> nat \<times> string option \<Rightarrow> string option \<Rightarrow> 'sp live \<Rightarrow> 'sp live" where
  "output_step kdf now data read_err written send_err lv =
     (if \<not> lv_output lv then lv
      else case tee_Read data read_err written now lv of
        ((got, err), lv1) \<Rightarrow>
          (case output_turn kdf now send_err (cx_cancelled (lv_inner lv)) got err (cx_cancelled (lv_inner lv))
                  (lv_sharer lv1) of
             (Going, s) \<Rightarrow> told now s lv1
           | (Ended e, s) \<Rightarrow> (told now s lv1)\<lparr>lv_output := False, lv_ends := lv_ends lv1 @ [e]\<rparr>))"

text \<open>The handler of \<open>SIGWINCH\<close>; \<open>ws\<close> is what the terminal reports.\<close>

definition sigwinch ::
  "kdf \<Rightarrow> (u16 \<times> u16) option \<Rightarrow> string option \<Rightarrow> time \<Rightarrow> string option \<Rightarrow> 'sp live \<Rightarrow> 'sp live" where
  "sigwinch kdf ws resize_err now send_err lv =
     (case ws of
        None \<Rightarrow> lv
      | Some (newCols, newRows) \<Rightarrow>
          (let newPtyRows = ptyRows newRows;
               lv1 = lv\<lparr>lv_term := snd (pty_Resize resize_err newCols newPtyRows (lv_term lv))\<rparr>;
               lv2 = told now (snd (SetTermSize kdf now send_err newCols newPtyRows (lv_sharer lv1))) lv1;
               p = lv_probe lv2
           in lv2\<lparr>lv_probe := p\<lparr>pb_bar := bar_Resize newCols newRows (pb_viewerCount p) (pb_bar p)\<rparr>\<rparr>))"

text \<open>
  Everything that may happen: the loops of the sharer, the end of a handshake, the heartbeat, a revocation from
  the control socket, a new window size, keys typed, the timer of the bar, the end of the shell, \<open>cancel\<close> by a
  signal or \<open>lw stop\<close>, the goroutine that then closes the terminal, and \<open>Run\<close> taking the first error.
\<close>

datatype share_event =
    RelaySends time spake_env "bytes list" "string + bytes"
  | JoinFinishes time time "string option"
  | ShellPrints time bytes "string option option" "nat \<times> string option" "string option"
  | HeartbeatDue time "string option"
  | RevokeAsked time "nat \<Rightarrow> string option" bytes "bytes option" "bytes list" "bytes list"
  | WindowChanges "(u16 \<times> u16) option" "string option" time "string option"
  | KeysTyped "nat \<times> string option"
  | BarDue time
  | BarReverts
  | ShellEnds "string option"
  | Cancelled
  | TermCloses
  | FirstErrorTaken

definition on_bar :: "(32 word statusBar \<Rightarrow> 32 word statusBar) \<Rightarrow> 'sp live \<Rightarrow> 'sp live" where
  "on_bar f lv = lv\<lparr>lv_probe := (lv_probe lv)\<lparr>pb_bar := f (pb_bar (lv_probe lv))\<rparr>\<rparr>"

definition live_step :: "'sp spake_lib \<Rightarrow> kdf \<Rightarrow> share_event \<Rightarrow> 'sp live \<Rightarrow> 'sp live" where
  "live_step L kdf ev lv =
     (case ev of
        RelaySends now en ord r \<Rightarrow> relay_step L kdf now en ord r lv
      | JoinFinishes now t err \<Rightarrow> told now (confirm_finish L kdf t err (lv_sharer lv)) lv
      | ShellPrints now data read_err written send_err \<Rightarrow> output_step kdf now data read_err written send_err lv
      | HeartbeatDue now err \<Rightarrow> told now (snd (sharer_heartbeat err (lv_sharer lv))) lv
      | RevokeAsked now errs i rand ord ord' \<Rightarrow> told now (snd (Revoke errs i rand ord ord' (lv_sharer lv))) lv
      | WindowChanges ws resize_err now send_err \<Rightarrow> sigwinch kdf ws resize_err now send_err lv
      | KeysTyped written \<Rightarrow> lv\<lparr>lv_term := snd (pty_Write written (lv_term lv))\<rparr>
      | BarDue now \<Rightarrow>
          on_bar (\<lambda>b. case sb_revertTimer b of None \<Rightarrow> b | Some t \<Rightarrow> if t \<le> now then timer_fires b else b) lv
      | BarReverts \<Rightarrow>
          on_bar (\<lambda>b. if 0 < sb_callbacks b then revert_callback (pb_viewerCount (lv_probe lv)) b else b) lv
      | ShellEnds err \<Rightarrow> if t_done (lv_term lv) then lv else lv\<lparr>lv_term := waitForExit err (lv_term lv)\<rparr>
      | Cancelled \<Rightarrow> lv\<lparr>lv_outer := context_cancel (lv_outer lv), lv_inner := context_cancel (lv_inner lv)\<rparr>
      | TermCloses \<Rightarrow>
          if cx_cancelled (lv_outer lv) then lv\<lparr>lv_term := snd (pty_Close (lv_term lv))\<rparr> else lv
      | FirstErrorTaken \<Rightarrow> if lv_ends lv = [] then lv else lv\<lparr>lv_inner := context_cancel (lv_inner lv)\<rparr>)"

definition live_run :: "'sp spake_lib \<Rightarrow> kdf \<Rightarrow> share_event list \<Rightarrow> 'sp live \<Rightarrow> 'sp live" where
  "live_run L kdf evs lv = fold (live_step L kdf) evs lv"

text \<open>
  \<open>Run\<close> returns when it has taken the first error and both loops have sent theirs: \<open>None\<close> before.
\<close>

definition Run_result :: "'sp spake_lib \<Rightarrow> 'sp live \<Rightarrow> (sharer_error option \<times> 'sp Sharer) option" where
  "Run_result L lv =
     (if length (lv_ends lv) < 2 \<or> \<not> cx_cancelled (lv_inner lv) then None
      else case Run_end L (lv_inner lv) (hd (lv_ends lv)) (lv_sharer lv) of ((e, _), s) \<Rightarrow> Some (e, s))"

section \<open>The command\<close>

datatype share_error =
    BadRelay url_error
  | SessionRefused cli_error
  | WritingPIDFile string
  | GeneratingCode code_error
  | CreatingShare session_error
  | NoRelay bytes
  | SettingRawMode string
  | StartingTerminal pty_error
  | StartingControl string
  | RunFailed sharer_error

text \<open>
  What the calls of the operating system, the random source and the relay return, and what the goroutines
  do that \<open>runShare\<close> does not wait for: the handler of \<open>SIGWINCH\<close>, the calls of \<open>Revoke\<close> for the control
  socket and the callbacks of the bar's timer go on after \<open>Run\<close> has returned. \<open>se_late\<close> are their events
  before the status bar is closed, \<open>se_later\<close> those from then until the process ends. (The session, the
  last of these objects, is closed behind them; the code may close it between two of them, and then the
  sharer's part of those that follow only fails.)
\<close>

record share_env =
  se_pid :: int
  se_write :: write_result
  se_code_rand :: "nat option list"
  se_argon2 :: argon2
  se_key_rand :: "bytes option"
  se_dial :: "bytes \<Rightarrow> bool \<Rightarrow> string option"
  se_shell :: bytes
  se_winsize :: "(u16 \<times> u16) option"
  se_consts :: "32 word tty_consts"
  se_get_err :: "string option"
  se_set_err :: "string option"
  se_restore_err :: "string option"
  se_start :: "string + nat"
  se_exit :: "string option"
  se_mkdir_err :: "string option"
  se_listen_err :: "string option"
  se_size_now :: time
  se_size_err :: "string option"
  se_late :: "share_event list"
  se_later :: "share_event list"

text \<open>
  The world of the command: files, terminal, what was printed, the relays dialled and whether the
  connection is open, and the objects it made. \<open>w_late\<close> is the status bar as the goroutines leave it that
  still run after it was closed.
\<close>

record share_world =
  w_host :: host
  w_tty :: "32 word termios"
  w_screen :: "terminal_write list"
  w_dials :: "(bytes \<times> bool) list"
  w_conn :: bool
  w_sess :: "session option"
  w_bar :: "32 word statusBar option"
  w_late :: "32 word statusBar option"
  w_term :: "Terminal option"
  w_ipc :: "ipc_server option"

definition new_world :: "host \<Rightarrow> 32 word termios \<Rightarrow> share_world" where
  "new_world h tty =
     \<lparr>w_host = h, w_tty = tty, w_screen = [], w_dials = [], w_conn = False, w_sess = None, w_bar = None,
      w_late = None, w_term = None, w_ipc = None\<rparr>"

text \<open>A deferred call runs on every return; \<open>None\<close> is a command that has not returned.\<close>

definition deferred :: "('w \<Rightarrow> 'w) \<Rightarrow> ('e \<times> 'w) option \<Rightarrow> ('e \<times> 'w) option" where
  "deferred f r = map_option (\<lambda>(e, w). (e, f w)) r"

text \<open>
  The deferred function that closes the bar, resets the scroll region and clears the last line; what is
  drawn later comes behind it.
\<close>

definition leave_bar :: "u16 \<Rightarrow> share_world \<Rightarrow> share_world" where
  "leave_bar outerRows w =
     (case w_bar w of
        None \<Rightarrow> w
      | Some b \<Rightarrow>
          (let closed = bar_Close b;
               later = (case w_late w of None \<Rightarrow> closed | Some b' \<Rightarrow> b')
           in w\<lparr>w_bar := Some later,
                w_screen := w_screen w @ sb_out b @ [BarOut resetScrollRegion, BarOut (clearLine outerRows)]
                  @ drop (length (sb_out closed)) (sb_out later)\<rparr>))"

text \<open>
  \<open>Close\<close> of the terminal waits for the end of the shell, which the hangup brings about: \<open>se_exit\<close> is
  what it then returns.
\<close>

definition close_term :: "share_env \<Rightarrow> share_world \<Rightarrow> share_world" where
  "close_term en w =
     (case w_term w of
        None \<Rightarrow> w
      | Some t \<Rightarrow>
          (let t1 = snd (pty_Close t)
           in w\<lparr>w_term := Some (if t_done t1 then t1 else waitForExit (se_exit en) t1)\<rparr>))"

text \<open>
  The control socket as a file of the host, in a directory of its own: listening fails where there is a
  socket already, and then the directory stays.
\<close>

definition share_NewServer :: "share_env \<Rightarrow> host \<Rightarrow> (string + ipc_server) \<times> host" where
  "share_NewServer en h =
     (let path = SocketPath (h_tmp h) (se_pid en);
          h1 = (if se_mkdir_err en = None then os_mkdir (SocketDir (h_tmp h) (se_pid en)) h else h)
      in case NewIpcServer (se_mkdir_err en)
                (if mget (h_files h) path \<noteq> None then Some ''address already in use'' else se_listen_err en) of
           Inl e \<Rightarrow> (Inl e, h1)
         | Inr v \<Rightarrow> (Inr v, h1\<lparr>h_files := mput path [] (h_files h1)\<rparr>))"

definition close_ipc :: "share_env \<Rightarrow> share_world \<Rightarrow> share_world" where
  "close_ipc en w =
     (case w_ipc w of
        None \<Rightarrow> w
      | Some v \<Rightarrow>
          (let h = w_host w
           in w\<lparr>w_ipc := Some (Server_Close v),
                w_host := if sr_listening v
                  then os_rmdir (SocketDir (h_tmp h) (se_pid en)) (os_remove (SocketPath (h_tmp h) (se_pid en)) h)
                  else h\<rparr>))"

text \<open>
  From the innermost part outwards. First the sharer with its control socket, until \<open>Run\<close> returns
  after the events \<open>evs\<close>; then the goroutines that are left, before and after the bar is closed.
\<close>

definition new_live :: "'sp Sharer \<Rightarrow> Terminal \<Rightarrow> statusBarSharerProbe \<Rightarrow> 'sp live" where
  "new_live sh term probe =
     \<lparr>lv_sharer = sh, lv_outer = \<lparr>cx_cancelled = False\<rparr>, lv_inner = \<lparr>cx_cancelled = False\<rparr>, lv_term = term,
      lv_writer = \<lparr>bw_last = 0\<rparr>, lv_probe = probe, lv_relay = True, lv_output = True, lv_ends = []\<rparr>"

definition start_live ::
  "kdf \<Rightarrow> share_env \<Rightarrow> session \<Rightarrow> bytes \<Rightarrow> pty_size \<Rightarrow> Terminal \<Rightarrow> statusBarSharerProbe \<Rightarrow> 'sp live" where
  "start_live kdf en sess code z term probe =
     (let lv = new_live (NewSharer sess code) term probe
      in told (se_size_now en)
           (snd (SetTermSize kdf (se_size_now en) (se_size_err en) (sz_Cols z) (sz_Rows z) (lv_sharer lv))) lv)"

definition lingering :: "'sp spake_lib \<Rightarrow> kdf \<Rightarrow> share_env \<Rightarrow> 'sp Sharer \<Rightarrow> 'sp live \<Rightarrow> 'sp live" where
  "lingering L kdf en s lv = live_run L kdf (se_late en) (lv\<lparr>lv_sharer := s\<rparr>)"

definition outlasting :: "'sp spake_lib \<Rightarrow> kdf \<Rightarrow> share_env \<Rightarrow> 'sp Sharer \<Rightarrow> 'sp live \<Rightarrow> 'sp live" where
  "outlasting L kdf en s lv = live_run L kdf (se_later en) (on_bar bar_Close (lingering L kdf en s lv))"

definition share_control ::
  "'sp spake_lib \<Rightarrow> kdf \<Rightarrow> share_env \<Rightarrow> share_event list \<Rightarrow> session \<Rightarrow> bytes \<Rightarrow> pty_size \<Rightarrow> Terminal
    \<Rightarrow> statusBarSharerProbe \<Rightarrow> share_world \<Rightarrow> (share_error option \<times> share_world) option" where
  "share_control L kdf en evs sess code z term probe w =
     (case share_NewServer en (w_host w) of
        (Inl e, h) \<Rightarrow> Some (Some (StartingControl e), w\<lparr>w_host := h\<rparr>)
      | (Inr v, h) \<Rightarrow>
          deferred (close_ipc en)
            (let lv = live_run L kdf evs (start_live kdf en sess code z term probe)
             in case Run_result L lv of
                  None \<Rightarrow> None
                | Some (e, s) \<Rightarrow>
                    (let late = lingering L kdf en s lv; later = outlasting L kdf en s lv
                     in Some (map_option RunFailed e,
                          w\<lparr>w_host := h, w_ipc := Some v, w_sess := Some (sh_sess (lv_sharer later)),
                            w_term := Some (lv_term later), w_bar := Some (pb_bar (lv_probe late)),
                            w_late := Some (pb_bar (lv_probe later))\<rparr>))))"

definition share_shell ::
  "'sp spake_lib \<Rightarrow> kdf \<Rightarrow> share_env \<Rightarrow> share_event list \<Rightarrow> session \<Rightarrow> bytes \<Rightarrow> pty_size
    \<Rightarrow> statusBarSharerProbe \<Rightarrow> share_world \<Rightarrow> (share_error option \<times> share_world) option" where
  "share_shell L kdf en evs sess code z probe w =
     (let shell = (if se_shell en = [] then ascii ''/bin/sh'' else se_shell en)
      in case Start [shell] z (se_start en) of
           Inl e \<Rightarrow> Some (Some (StartingTerminal e), w)
         | Inr term \<Rightarrow>
             deferred (close_term en) (share_control L kdf en evs sess code z term probe (w\<lparr>w_term := Some term\<rparr>)))"

text \<open>The pairing code is ASCII, so its bytes are its characters.\<close>

definition code_bytes :: "gotext \<Rightarrow> bytes" where
  "code_bytes c = map of_nat c"

definition share_terminal ::
  "'sp spake_lib \<Rightarrow> kdf \<Rightarrow> share_env \<Rightarrow> share_event list \<Rightarrow> bytes \<Rightarrow> gotext \<Rightarrow> session \<Rightarrow> share_world
    \<Rightarrow> (share_error option \<times> share_world) option" where
  "share_terminal L kdf en evs relayURL code sess w =
     (let watchURL = buildWatchURL relayURL (code_bytes code);
          (outerCols, outerRows) = outer_size (se_winsize en);
          z = \<lparr>sz_Cols = outerCols, sz_Rows = ptyRows outerRows\<rparr>
      in case setRawMode (se_consts en) (se_get_err en) (se_set_err en) (w_tty w) of
           (Inl e, tty) \<Rightarrow> Some (Some (SettingRawMode e), w\<lparr>w_tty := tty\<rparr>)
         | (Inr oldTermios, tty) \<Rightarrow>
             deferred (\<lambda>w. w\<lparr>w_tty := restoreTerminal (se_restore_err en) oldTermios (w_tty w)\<rparr>)
               (let probe = newSharerProbe outerCols outerRows code;
                    bar = bar_print (esc ''['' @ decimal bannerLines @ runes '';1H'')
                            (Draw 0 (SetScrollRegion (pb_bar probe)))
                in deferred (leave_bar outerRows)
                     (share_shell L kdf en evs sess (code_bytes code) z (probe\<lparr>pb_bar := bar\<rparr>)
                        (w\<lparr>w_tty := tty,
                           w_screen := w_screen w @ [BarOut (esc ''[2J'' @ esc ''[H''),
                                                     BarOut (printWelcomeBanner code (go_string watchURL))],
                           w_bar := Some bar\<rparr>))))"

definition share_relay ::
  "'sp spake_lib \<Rightarrow> kdf \<Rightarrow> share_env \<Rightarrow> share_event list \<Rightarrow> bytes \<Rightarrow> bool \<Rightarrow> gotext \<Rightarrow> session \<Rightarrow> share_world
    \<Rightarrow> (share_error option \<times> share_world) option" where
  "share_relay L kdf en evs relayURL insecure code sess w =
     (let shareURL = relayURL @ ascii ''/api/share/'' @ SessionID sess;
          w1 = w\<lparr>w_dials := w_dials w @ [(shareURL, insecure)]\<rparr>
      in case dialRelay (se_dial en) shareURL insecure of
           Some e \<Rightarrow> Some (Some (NoRelay relayURL), w1)
         | None \<Rightarrow>
             deferred (\<lambda>w. w\<lparr>w_conn := False\<rparr>)
               (share_terminal L kdf en evs relayURL code sess (w1\<lparr>w_conn := True\<rparr>)))"

definition share_session ::
  "'sp spake_lib \<Rightarrow> kdf \<Rightarrow> share_env \<Rightarrow> share_event list \<Rightarrow> bytes \<Rightarrow> bool \<Rightarrow> share_world
    \<Rightarrow> (share_error option \<times> share_world) option" where
  "share_session L kdf en evs relayURL insecure w =
     (case Generate (se_code_rand en) of
        Inl e \<Rightarrow> Some (Some (GeneratingCode e), w)
      | Inr code \<Rightarrow>
          (case NewSession (se_argon2 en) (code_bytes code) (se_key_rand en) of
             Inl e \<Rightarrow> Some (Some (CreatingShare e), w)
           | Inr sess \<Rightarrow>
               deferred (\<lambda>w. w\<lparr>w_sess := map_option Close (w_sess w)\<rparr>)
                 (share_relay L kdf en evs relayURL insecure code sess (w\<lparr>w_sess := Some sess\<rparr>))))"

definition runShare ::
  "'sp spake_lib \<Rightarrow> kdf \<Rightarrow> share_env \<Rightarrow> share_event list \<Rightarrow> bytes \<Rightarrow> bool \<Rightarrow> share_world
    \<Rightarrow> (share_error option \<times> share_world) option" where
  "runShare L kdf en evs relayURL insecure w =
     (case checkExistingSession (w_host w) of
        (Some e, h) \<Rightarrow> Some (Some (SessionRefused e), w\<lparr>w_host := h\<rparr>)
      | (None, h) \<Rightarrow>
          (case writePIDFile (se_write en) (se_pid en) h of
             (Some e, h1) \<Rightarrow> Some (Some (WritingPIDFile e), w\<lparr>w_host := h1\<rparr>)
           | (None, h1) \<Rightarrow>
               deferred (\<lambda>w. w\<lparr>w_host := removePIDFile (w_host w)\<rparr>)
                 (share_session L kdf en evs relayURL insecure (w\<lparr>w_host := h1\<rparr>))))"

text \<open>The command with its flags.\<close>

definition newShareCmd ::
  "'sp spake_lib \<Rightarrow> kdf \<Rightarrow> share_env \<Rightarrow> share_event list \<Rightarrow> bytes \<Rightarrow> bool \<Rightarrow> share_world
    \<Rightarrow> (share_error option \<times> share_world) option" where
  "newShareCmd L kdf en evs relayURL insecure w =
     (case check_relay insecure relayURL of
        Some e \<Rightarrow> Some (Some (BadRelay e), w)
      | None \<Rightarrow> runShare L kdf en evs relayURL insecure w)"

section \<open>Cleaning up\<close>

lemma deferred_Some: "deferred f r = Some (e, w) \<longleftrightarrow> (\<exists>w1. r = Some (e, w1) \<and> w = f w1)"
  by (auto simp: deferred_def)

text \<open>Each part of the command leaves what it made closed, and does not touch what it was not given.\<close>

definition term_closed :: "share_world \<Rightarrow> bool" where
  "term_closed w \<longleftrightarrow> (case w_term w of None \<Rightarrow> True | Some t \<Rightarrow> \<not> t_open t \<and> t_done t)"

definition ipc_closed :: "share_world \<Rightarrow> bool" where
  "ipc_closed w \<longleftrightarrow> (case w_ipc w of None \<Rightarrow> True | Some v \<Rightarrow> \<not> sr_listening v \<and> \<not> sr_socket v)"

definition sess_closed :: "share_world \<Rightarrow> bool" where
  "sess_closed w \<longleftrightarrow> (case w_sess w of None \<Rightarrow> True | Some s \<Rightarrow> s_closed s)"

text \<open>
  The events after the closing of the bar that may draw on the screen: a change of the window, a revocation that
  is reported, a callback that was already started, and those that the loops and the handshake had before
  \<open>Run\<close> returned.
\<close>

definition may_draw :: "share_event \<Rightarrow> bool" where
  "may_draw ev \<longleftrightarrow>
     (case ev of HeartbeatDue _ _ \<Rightarrow> False | KeysTyped _ \<Rightarrow> False | BarDue _ \<Rightarrow> False | ShellEnds _ \<Rightarrow> False
      | Cancelled \<Rightarrow> False | TermCloses \<Rightarrow> False | FirstErrorTaken \<Rightarrow> False | _ \<Rightarrow> True)"

abbreviation nothing_draws :: "share_env \<Rightarrow> bool" where
  "nothing_draws en \<equiv> list_all (\<lambda>ev. \<not> may_draw ev) (se_later en)"

text \<open>
  The screen has its full scroll region again and its last line is clear. Only what was drawn after the bar was
  closed stands behind that: nothing, and no timer will draw, when none of the later events may.
\<close>

definition screen_left :: "share_env \<Rightarrow> share_world \<Rightarrow> bool" where
  "screen_left en w \<longleftrightarrow>
     (case w_bar w of
        None \<Rightarrow> True
      | Some b \<Rightarrow>
          \<exists>pre late. w_screen w =
              pre @ [BarOut resetScrollRegion, BarOut (clearLine (snd (outer_size (se_winsize en))))] @ late
            \<and> (nothing_draws en \<longrightarrow> late = [] \<and> sb_revertTimer b = None))"

text \<open>The directory of the control socket, by how far the command came.\<close>

definition dirs_left :: "share_env \<Rightarrow> host \<Rightarrow> share_error option \<Rightarrow> share_world \<Rightarrow> bool" where
  "dirs_left en h r w \<longleftrightarrow>
     (let dir = SocketDir (h_tmp h) (se_pid en); before = set (h_dirs h)
      in set (h_dirs (w_host w)) =
          (if w_ipc w \<noteq> None then (if occupied dir h then insert dir before else before - {dir})
           else if (\<exists>e. r = Some (StartingControl e)) \<and> se_mkdir_err en = None then insert dir before
           else before))"

lemma closed_updates [simp]:
  "sess_closed (w\<lparr>w_host := h\<rparr>) = sess_closed w" "ipc_closed (w\<lparr>w_host := h\<rparr>) = ipc_closed w"
  "term_closed (w\<lparr>w_host := h\<rparr>) = term_closed w" "screen_left en (w\<lparr>w_host := h\<rparr>) = screen_left en w"
  "ipc_closed (w\<lparr>w_conn := c\<rparr>) = ipc_closed w" "term_closed (w\<lparr>w_conn := c\<rparr>) = term_closed w"
  "screen_left en (w\<lparr>w_conn := c\<rparr>) = screen_left en w" "dirs_left en h r (w\<lparr>w_conn := c\<rparr>) = dirs_left en h r w"
  "ipc_closed (w\<lparr>w_sess := s\<rparr>) = ipc_closed w" "term_closed (w\<lparr>w_sess := s\<rparr>) = term_closed w"
  "screen_left en (w\<lparr>w_sess := s\<rparr>) = screen_left en w" "screen_left en (w\<lparr>w_tty := tty\<rparr>) = screen_left en w"
  "dirs_left en h r (w\<lparr>w_sess := s\<rparr>) = dirs_left en h r w"
  by (simp_all add: sess_closed_def ipc_closed_def term_closed_def screen_left_def dirs_left_def Let_def split: option.split)

text \<open>The results of the part after the PID file was written.\<close>

definition not_refused :: "share_error option \<Rightarrow> bool" where
  "not_refused r \<longleftrightarrow> (case r of Some (SessionRefused e) \<Rightarrow> False | Some (WritingPIDFile e) \<Rightarrow> False | _ \<Rightarrow> True)"

lemma not_refused_case:
  "not_refused r \<Longrightarrow> (case r of Some (SessionRefused e) \<Rightarrow> a | Some (WritingPIDFile e) \<Rightarrow> b | _ \<Rightarrow> c) = c"
  by (simp add: not_refused_def split: option.splits share_error.splits)

definition same_files :: "host \<Rightarrow> host \<Rightarrow> bool" where
  "same_files h h' \<longleftrightarrow> h_tmp h' = h_tmp h \<and> mget (h_files h') = mget (h_files h)"

text \<open>A closed bar stays as it is as long as nothing draws.\<close>

lemma nothing_drawn_step:
  assumes "\<not> may_draw ev" "sb_revertTimer (pb_bar (lv_probe lv)) = None"
  shows "pb_bar (lv_probe (live_step L kdf ev lv)) = pb_bar (lv_probe lv)"
  using assms
  by (cases ev) (auto simp: may_draw_def live_step_def on_bar_def told_def sharer_heartbeat_def sharer_call_def
      sharer_send_def status_events_def status_event_def split: option.split)

lemma nothing_drawn:
  "list_all (\<lambda>ev. \<not> may_draw ev) evs \<Longrightarrow> sb_revertTimer (pb_bar (lv_probe lv)) = None \<Longrightarrow>
     pb_bar (lv_probe (live_run L kdf evs lv)) = pb_bar (lv_probe lv)"
proof (induction evs arbitrary: lv)
  case (Cons ev evs)
  from nothing_drawn_step [of ev lv L kdf] Cons.prems
  have "pb_bar (lv_probe (live_step L kdf ev lv)) = pb_bar (lv_probe lv)" by simp
  with Cons.IH [of "live_step L kdf ev lv"] Cons.prems show ?case by (simp add: live_run_def)
qed (simp add: live_run_def)

lemma outlasting_bar:
  "nothing_draws en \<Longrightarrow>
     pb_bar (lv_probe (outlasting L kdf en s lv)) = bar_Close (pb_bar (lv_probe (lingering L kdf en s lv)))"
  unfolding outlasting_def by (subst nothing_drawn) (simp_all add: on_bar_def bar_Close_def)

definition late_bar :: "share_env \<Rightarrow> share_world \<Rightarrow> bool" where
  "late_bar en w \<longleftrightarrow> w_late w = None \<or> (nothing_draws en \<longrightarrow> w_late w = map_option bar_Close (w_bar w))"

lemma share_NewServer_cases:
  assumes "share_NewServer en h = (srv, h1)"
  obtains (failed) e where "srv = Inl e" "same_files h h1"
      "h_dirs h1 = (if se_mkdir_err en = None then List.insert (SocketDir (h_tmp h) (se_pid en)) (h_dirs h) else h_dirs h)"
    | (listening) v where "srv = Inr v" "sr_listening v" "mget (h_files h) (SocketPath (h_tmp h) (se_pid en)) = None"
      "h1 = os_mkdir (SocketDir (h_tmp h) (se_pid en)) h\<lparr>h_files := mput (SocketPath (h_tmp h) (se_pid en)) [] (h_files h)\<rparr>"
proof (cases "se_mkdir_err en")
  case None
  show ?thesis
  proof (cases "mget (h_files h) (SocketPath (h_tmp h) (se_pid en)) = None \<and> se_listen_err en = None")
    case True
    with None assms show ?thesis
      by (intro listening [of "\<lparr>sr_listening = True, sr_socket = True, sr_done = False\<rparr>"])
        (simp_all add: share_NewServer_def NewIpcServer_def Let_def os_mkdir_def)
  next
    case False
    then obtain e where "(if mget (h_files h) (SocketPath (h_tmp h) (se_pid en)) \<noteq> None
        then Some ''address already in use'' else se_listen_err en) = Some e"
      by (cases "mget (h_files h) (SocketPath (h_tmp h) (se_pid en))"; cases "se_listen_err en") simp_all
    with None assms show ?thesis
      by (intro failed [of "''listening on socket: '' @ e"])
        (auto simp: share_NewServer_def NewIpcServer_def Let_def os_mkdir_def same_files_def)
  qed
next
  case (Some e)
  with assms show ?thesis
    by (intro failed [of "''creating socket directory: '' @ e"])
      (auto simp: share_NewServer_def NewIpcServer_def Let_def same_files_def)
qed

text \<open>Opening and closing the control socket leaves the host as it was but for the directory.\<close>

lemma socket_closed:
  assumes "mget (h_files h) (SocketPath (h_tmp h) pid) = None"
    and "h1 = os_mkdir (SocketDir (h_tmp h) pid) h\<lparr>h_files := mput (SocketPath (h_tmp h) pid) [] (h_files h)\<rparr>"
    and "h2 = os_rmdir (SocketDir (h_tmp h1) pid) (os_remove (SocketPath (h_tmp h1) pid) h1)"
  shows "same_files h h2" "set (h_dirs h2) = (if occupied (SocketDir (h_tmp h) pid) h
      then insert (SocketDir (h_tmp h) pid) (set (h_dirs h)) else set (h_dirs h) - {SocketDir (h_tmp h) pid})"
proof -
  let ?dir = "SocketDir (h_tmp h) pid" and ?path = "SocketPath (h_tmp h) pid"
  have get: "mget (mdel ?path (mput ?path [] (h_files h))) = mget (h_files h)"
    using assms(1) by (auto simp: fun_eq_iff)
  have "occupied ?dir (os_remove ?path h1) = occupied ?dir h"
    using assms(1) not_below_itself [of ?dir]
    by (intro occupied_cong) (auto simp: assms(2) os_remove_def os_mkdir_def)
  with get show "same_files h h2" "set (h_dirs h2) = (if occupied ?dir h
      then insert ?dir (set (h_dirs h)) else set (h_dirs h) - {?dir})"
    by (auto simp: assms(2,3) os_rmdir_def os_mkdir_def os_remove_def same_files_def)
qed

lemma share_control_leaves:
  assumes "share_control L kdf en evs sess code z term probe w = Some (r, w')"
    and "w_ipc w = None" "w_late w = None"
  shows "not_refused r \<and> ipc_closed w' \<and> same_files (w_host w) (w_host w') \<and> dirs_left en (w_host w) r w'
    \<and> late_bar en w' \<and> w_tty w' = w_tty w \<and> w_conn w' = w_conn w
    \<and> w_screen w' = w_screen w \<and> w_dials w' = w_dials w
    \<and> (w_term w \<noteq> None \<longrightarrow> w_term w' \<noteq> None) \<and> (w_bar w \<noteq> None \<longrightarrow> w_bar w' \<noteq> None)
    \<and> (w_sess w \<noteq> None \<longrightarrow> w_sess w' \<noteq> None)"
proof -
  obtain srv h where new: "share_NewServer en (w_host w) = (srv, h)" by fastforce
  then show ?thesis
  proof (cases rule: share_NewServer_cases)
    case (failed e)
    with new assms show ?thesis
      by (auto simp: share_control_def dirs_left_def late_bar_def Let_def ipc_closed_def not_refused_def)
  next
    case (listening v)
    let ?pid = "se_pid en"
    from assms(1) new listening(1) obtain s lv where r: "not_refused r" and w': "w' = close_ipc en
        (w\<lparr>w_host := h, w_ipc := Some v, w_sess := Some (sh_sess (lv_sharer (outlasting L kdf en s lv))),
          w_term := Some (lv_term (outlasting L kdf en s lv)), w_bar := Some (pb_bar (lv_probe (lingering L kdf en s lv))),
          w_late := Some (pb_bar (lv_probe (outlasting L kdf en s lv)))\<rparr>)"
      by (auto simp: share_control_def Let_def deferred_Some not_refused_def split: option.splits)
    have "w_host w' = os_rmdir (SocketDir (h_tmp h) ?pid) (os_remove (SocketPath (h_tmp h) ?pid) h)"
      using listening(2) by (simp add: w' close_ipc_def Let_def)
    from socket_closed [OF listening(3,4) this]
    have host: "same_files (w_host w) (w_host w')" "dirs_left en (w_host w) r w'"
      by (simp_all add: dirs_left_def Let_def) (simp_all add: w' close_ipc_def Let_def)
    have "ipc_closed w'" "late_bar en w'"
      using listening(2) outlasting_bar [of en L kdf s lv]
      by (auto simp: w' close_ipc_def Let_def ipc_closed_def Server_Close_def late_bar_def)
    with r host show ?thesis by (simp add: w' close_ipc_def Let_def)
  qed
qed

lemma share_shell_leaves:
  assumes "share_shell L kdf en evs sess code z probe w = Some (r, w')"
    and "w_ipc w = None" "w_late w = None" and "w_term w = None"
  shows "not_refused r \<and> ipc_closed w' \<and> term_closed w' \<and> same_files (w_host w) (w_host w')
    \<and> dirs_left en (w_host w) r w' \<and> late_bar en w' \<and> w_tty w' = w_tty w
    \<and> w_conn w' = w_conn w \<and> w_screen w' = w_screen w \<and> w_dials w' = w_dials w
    \<and> (w_bar w \<noteq> None \<longrightarrow> w_bar w' \<noteq> None) \<and> (w_sess w \<noteq> None \<longrightarrow> w_sess w' \<noteq> None)"
proof (cases "Start [if se_shell en = [] then ascii ''/bin/sh'' else se_shell en] z (se_start en)")
  case (Inl e)
  with assms show ?thesis
    by (auto simp: share_shell_def Let_def ipc_closed_def term_closed_def same_files_def dirs_left_def late_bar_def
        not_refused_def)
next
  case (Inr t)
  with assms(1) obtain w1 where w1: "share_control L kdf en evs sess code z t probe (w\<lparr>w_term := Some t\<rparr>) = Some (r, w1)"
    and w': "w' = close_term en w1"
    by (auto simp: share_shell_def Let_def deferred_Some)
  from share_control_leaves [OF w1] assms(2,3) have "w_term w1 \<noteq> None" and l: "not_refused r" "ipc_closed w1"
    "same_files (w_host w) (w_host w1)" "dirs_left en (w_host w) r w1" "late_bar en w1"
    "w_tty w1 = w_tty w" "w_conn w1 = w_conn w" "w_screen w1 = w_screen w"
    "w_dials w1 = w_dials w" "w_bar w \<noteq> None \<longrightarrow> w_bar w1 \<noteq> None" "w_sess w \<noteq> None \<longrightarrow> w_sess w1 \<noteq> None"
    by simp_all
  then obtain t1 where "w_term w1 = Some t1" by blast
  with w' l show ?thesis
    by (simp add: close_term_def Let_def term_closed_def ipc_closed_def dirs_left_def late_bar_def pty_Close_def
        waitForExit_def pty_call_def)
qed

text \<open>What the deferred function leaves on the screen.\<close>

lemma leave_bar_screen:
  assumes "late_bar en w" "w_bar w = Some b" "rows = snd (outer_size (se_winsize en))"
  shows "screen_left en (leave_bar rows w)"
proof -
  define b1 where "b1 = (case w_late w of None \<Rightarrow> bar_Close b | Some b' \<Rightarrow> b')"
  define drawn where "drawn = drop (length (sb_out (bar_Close b))) (sb_out b1)"
  have bar: "w_bar (leave_bar rows w) = Some b1"
    and screen: "w_screen (leave_bar rows w) = (w_screen w @ sb_out b)
      @ [BarOut resetScrollRegion, BarOut (clearLine (snd (outer_size (se_winsize en))))] @ drawn"
    using assms(2,3) by (simp_all add: leave_bar_def Let_def b1_def drawn_def)
  have "b1 = bar_Close b" if "nothing_draws en"
    using assms(1,2) that by (auto simp: late_bar_def b1_def)
  then have "nothing_draws en \<longrightarrow> drawn = [] \<and> sb_revertTimer b1 = None"
    by (simp add: drawn_def bar_Close_def)
  with screen show ?thesis
    unfolding screen_left_def bar option.case by blast
qed

lemma leave_bar_keeps [simp]:
  "w_host (leave_bar rows w) = w_host w" "w_conn (leave_bar rows w) = w_conn w" "w_dials (leave_bar rows w) = w_dials w"
  "w_sess (leave_bar rows w) = w_sess w" "w_ipc (leave_bar rows w) = w_ipc w" "w_term (leave_bar rows w) = w_term w"
  "w_tty (leave_bar rows w) = w_tty w"
  by (simp_all add: leave_bar_def Let_def split: option.split)

text \<open>A setting of the terminal that is put back at the end.\<close>

abbreviation tty_back :: "share_env \<Rightarrow> 32 word termios \<Rightarrow> share_world \<Rightarrow> bool" where
  "tty_back en tty w \<equiv> se_restore_err en = None \<longrightarrow> w_tty w = tty"

lemma share_terminal_leaves:
  assumes "share_terminal L kdf en evs url code sess w = Some (r, w')"
    and "w_ipc w = None" "w_late w = None" "w_term w = None" "w_bar w = None"
  shows "not_refused r \<and> ipc_closed w' \<and> term_closed w' \<and> screen_left en w' \<and> tty_back en (w_tty w) w'
    \<and> same_files (w_host w) (w_host w') \<and> dirs_left en (w_host w) r w' \<and> w_conn w' = w_conn w \<and> w_dials w' = w_dials w
    \<and> (w_sess w \<noteq> None \<longrightarrow> w_sess w' \<noteq> None)"
proof (cases "setRawMode (se_consts en) (se_get_err en) (se_set_err en) (w_tty w)")
  case (Pair x tty)
  show ?thesis
  proof (cases x)
    case (Inl e)
    then have "tty = w_tty w" using Pair linux_terminal.enter_fails by blast
    with assms Pair Inl show ?thesis
      by (auto simp: share_terminal_def Let_def ipc_closed_def term_closed_def screen_left_def same_files_def
          dirs_left_def not_refused_def split: prod.splits)
  next
    case (Inr old)
    then have old: "old = w_tty w" using Pair linux_terminal.enter_saves by blast
    obtain cols rows where size: "outer_size (se_winsize en) = (cols, rows)" by fastforce
    from assms(1) Pair Inr size obtain probe z b scr w1 where
      w1: "share_shell L kdf en evs sess (code_bytes code) z probe (w\<lparr>w_tty := tty, w_screen := scr, w_bar := Some b\<rparr>) = Some (r, w1)"
      and w': "w' = leave_bar rows w1\<lparr>w_tty := restoreTerminal (se_restore_err en) old (w_tty (leave_bar rows w1))\<rparr>"
      unfolding share_terminal_def Let_def by (force simp: deferred_Some)
    from share_shell_leaves [OF w1] assms(2-5) have l: "not_refused r" "ipc_closed w1" "term_closed w1"
      "same_files (w_host w) (w_host w1)" "dirs_left en (w_host w) r w1" "late_bar en w1" "w_conn w1 = w_conn w"
      "w_dials w1 = w_dials w" "w_bar w1 \<noteq> None" "w_sess w \<noteq> None \<longrightarrow> w_sess w1 \<noteq> None"
      by simp_all
    then obtain b1 where "w_bar w1 = Some b1" by blast
    from leave_bar_screen [OF l(6) this, of rows] size have "screen_left en w'"
      by (simp add: w')
    with l old show ?thesis
      by (simp add: w' restoreTerminal_def ipc_closed_def term_closed_def dirs_left_def)
  qed
qed

lemma share_relay_leaves:
  assumes "share_relay L kdf en evs url ins code sess w = Some (r, w')"
    and "w_ipc w = None" "w_late w = None" "w_term w = None" "w_bar w = None" "\<not> w_conn w"
  shows "not_refused r \<and> ipc_closed w' \<and> term_closed w' \<and> screen_left en w' \<and> tty_back en (w_tty w) w'
    \<and> same_files (w_host w) (w_host w') \<and> dirs_left en (w_host w) r w' \<and> \<not> w_conn w'
    \<and> (w_sess w \<noteq> None \<longrightarrow> w_sess w' \<noteq> None)"
proof (cases "se_dial en (url @ ascii ''/api/share/'' @ SessionID sess) ins")
  case None
  with assms(1) obtain w1 dials where
    w1: "share_terminal L kdf en evs url code sess (w\<lparr>w_dials := dials, w_conn := True\<rparr>) = Some (r, w1)"
    and w': "w' = w1\<lparr>w_conn := False\<rparr>"
    by (auto simp: share_relay_def Let_def deferred_Some)
  from share_terminal_leaves [OF w1] assms(2-5) w' show ?thesis by simp
next
  case (Some e)
  with assms show ?thesis
    by (auto simp: share_relay_def Let_def not_refused_def ipc_closed_def term_closed_def screen_left_def same_files_def
        dirs_left_def)
qed

lemma share_session_leaves:
  assumes "share_session L kdf en evs url ins w = Some (r, w')"
    and "w_ipc w = None" "w_late w = None" "w_term w = None" "w_bar w = None" "\<not> w_conn w" "w_sess w = None"
  shows "not_refused r \<and> sess_closed w' \<and> ipc_closed w' \<and> term_closed w' \<and> screen_left en w' \<and> tty_back en (w_tty w) w'
    \<and> same_files (w_host w) (w_host w') \<and> dirs_left en (w_host w) r w' \<and> \<not> w_conn w'"
proof (cases "\<exists>code sess. Generate (se_code_rand en) = Inr code
    \<and> NewSession (se_argon2 en) (code_bytes code) (se_key_rand en) = Inr sess")
  case True
  then obtain code sess where "Generate (se_code_rand en) = Inr code"
    "NewSession (se_argon2 en) (code_bytes code) (se_key_rand en) = Inr sess" by blast
  with assms(1) obtain w1 where
    w1: "share_relay L kdf en evs url ins code sess (w\<lparr>w_sess := Some sess\<rparr>) = Some (r, w1)"
    and w': "w' = w1\<lparr>w_sess := map_option Close (w_sess w1)\<rparr>"
    by (auto simp: share_session_def deferred_Some)
  have "s_closed (Close s)" for s by (simp add: Close_def)
  with share_relay_leaves [OF w1] assms(2-6) w' show ?thesis
    by (auto simp: sess_closed_def)
next
  case False
  with assms show ?thesis
    by (auto simp: share_session_def not_refused_def ipc_closed_def term_closed_def screen_left_def same_files_def
        dirs_left_def sess_closed_def split: sum.splits)
qed

lemma checkExistingSession_files:
  "checkExistingSession h = (None, h1) \<Longrightarrow> h_tmp h1 = h_tmp h \<and> pidFilePath h1 = pidFilePath h \<and> h_dirs h1 = h_dirs h
    \<and> mget (h_files h1) = (mget (h_files h))(pidFilePath h := None)"
  "checkExistingSession h = (Some e, h1) \<Longrightarrow> h1 = h"
  by (auto simp: checkExistingSession_def os_remove_def pidFilePath_def fun_eq_iff split: option.splits if_splits)

text \<open>The PID file is not in the directory of the socket.\<close>

lemma occupied_pid:
  assumes "h_tmp h1 = h_tmp h" "h_dirs h1 = h_dirs h" "mget (h_files h1) = (mget (h_files h))(pidFilePath h := x)"
  shows "occupied (SocketDir (h_tmp h) pid) h1 = occupied (SocketDir (h_tmp h) pid) h"
  using assms pid_not_below [of "h_tmp h" pid]
  by (intro occupied_cong) (auto simp: pidFilePath_def)

text \<open>
  C12. \<open>lw share\<close> cleans up, however it ends. When it returns, with or without an error, from the first
  refusal to the end of the session: the terminal has its attributes back, unless setting them back fails,
  which the command ignores; the connection is closed, the shell has ended, the control socket is gone and
  the session is closed. On the screen the scroll region is reset and the line cleared that was the last at the start; only a goroutine
  that the command does not wait for, a change of the window, a revocation or a callback of the bar under way,
  can draw after that, and nothing is drawn and no timer is left when there is none. The files are as before
  except that there is no PID file, unless another session is active, in which case nothing was touched, or
  writing the PID file failed after it was created: then it stays, with as much as was written. The
  directories are as before except for that of the socket, which is removed at the end of a session when
  nothing else is in it, but stays behind when it was made and listening failed.
\<close>

theorem share_cleans_up:
  assumes "runShare L kdf en evs relayURL insecure (new_world h tty) = Some (r, w)"
  shows "(se_restore_err en = None \<longrightarrow> w_tty w = tty) \<and> \<not> w_conn w \<and> sess_closed w \<and> term_closed w \<and> ipc_closed w
    \<and> screen_left en w
    \<and> h_tmp (w_host w) = h_tmp h
    \<and> mget (h_files (w_host w)) =
        (case r of Some (SessionRefused e) \<Rightarrow> mget (h_files h)
         | Some (WritingPIDFile e) \<Rightarrow> (mget (h_files h))(pidFilePath h :=
             (case se_write en of WrittenPartly e' n \<Rightarrow> Some (take n (Itoa (se_pid en))) | _ \<Rightarrow> None))
         | _ \<Rightarrow> (mget (h_files h))(pidFilePath h := None))
    \<and> dirs_left en h r w"
proof -
  obtain e0 h1 where c: "checkExistingSession h = (e0, h1)" by fastforce
  have fresh: "w_tty w1 = tty \<and> \<not> w_conn w1 \<and> sess_closed w1 \<and> term_closed w1 \<and> ipc_closed w1 \<and> screen_left en w1
      \<and> w_ipc w1 = None"
    if "w1 = new_world h tty\<lparr>w_host := h2\<rparr>" for w1 h2
    using that by (simp add: new_world_def sess_closed_def term_closed_def ipc_closed_def screen_left_def)
  show ?thesis
  proof (cases e0)
    case (Some e)
    with c checkExistingSession_files(2) have "h1 = h" by blast
    with assms c Some have "r = Some (SessionRefused e)" "w = new_world h tty\<lparr>w_host := h\<rparr>"
      by (auto simp: runShare_def new_world_def)
    with fresh show ?thesis by (simp add: dirs_left_def)
  next
    case None
    note files = checkExistingSession_files(1) [OF c [unfolded None]]
    obtain e h2 where wr: "writePIDFile (se_write en) (se_pid en) h1 = (e, h2)" by fastforce
    show ?thesis
    proof (cases e)
      case (Some x)
      with assms c None wr have r: "r = Some (WritingPIDFile x)" and w: "w = new_world h tty\<lparr>w_host := h2\<rparr>"
        by (auto simp: runShare_def new_world_def)
      have "h_tmp h2 = h_tmp h" "h_dirs h2 = h_dirs h" "mget (h_files h2) = (mget (h_files h))(pidFilePath h :=
             (case se_write en of WrittenPartly e' n \<Rightarrow> Some (take n (Itoa (se_pid en))) | _ \<Rightarrow> None))"
        using wr Some files by (auto simp: writePIDFile_def pidFilePath_def split: write_result.splits)
      with fresh [OF w] show ?thesis by (simp add: r dirs_left_def) (simp add: w)
    next
      case no_err: None
      have h2: "h_tmp h2 = h_tmp h" "h_dirs h2 = h_dirs h"
        "mget (h_files h2) = (mget (h_files h))(pidFilePath h := Some (Itoa (se_pid en)))"
        using wr no_err files by (auto simp: writePIDFile_def pidFilePath_def split: write_result.splits)
      from assms c None no_err wr obtain w1 where
        w1: "share_session L kdf en evs relayURL insecure (new_world h tty\<lparr>w_host := h2\<rparr>) = Some (r, w1)"
        and w: "w = w1\<lparr>w_host := removePIDFile (w_host w1)\<rparr>"
        by (auto simp: runShare_def deferred_Some new_world_def)
      from share_session_leaves [OF w1]
      have l: "not_refused r" "sess_closed w1" "ipc_closed w1" "term_closed w1" "screen_left en w1" "tty_back en tty w1"
        "same_files h2 (w_host w1)" "dirs_left en h2 r w1" "\<not> w_conn w1" by (simp_all add: new_world_def)
      have "h_tmp (w_host w) = h_tmp h
          \<and> mget (h_files (w_host w)) = (mget (h_files h))(pidFilePath h := None)"
        using l(7) h2 unfolding w by (auto simp: same_files_def removePIDFile_def os_remove_def pidFilePath_def fun_eq_iff)
      moreover have "dirs_left en h r w"
        using l(8) h2(1,2) unfolding dirs_left_def h2(1,2) Let_def occupied_pid [OF h2]
        by (simp add: w removePIDFile_def os_remove_def)
      moreover have "\<not> w_conn w" "sess_closed w" "term_closed w" "ipc_closed w" "screen_left en w" "tty_back en tty w"
        using l unfolding w by simp_all
      ultimately show ?thesis unfolding not_refused_case [OF l(1)] by blast
    qed
  qed
qed

end
