(* ===== verification/Share_Props.thy ===== *)
theory Share_Props
  imports Share Sharer_Inv
begin

text \<open>
  What holds while \<open>lw share\<close> runs, in every interleaving of its goroutines: the sizes that the shell, the
  viewers and the status bar work with, the ends of a session, and the keys it leaves behind.
\<close>

section \<open>Sizes\<close>

text \<open>
  The terminal-size frames that a sharer has sent, in order, and what such a frame says to a viewer with the
  stream key \<open>k\<close>: it opens to the two numbers.
\<close>

definition is_size :: "bytes \<Rightarrow> bool" where
  "is_size m \<longleftrightarrow> m \<noteq> [] \<and> hd m = MsgTypeTermSize"

definition size_frames :: "'sp Sharer \<Rightarrow> bytes list" where
  "size_frames s = filter is_size (sh_sent s)"


text \<open>The size that the sharer remembers, with the frames it has sent.\<close>

definition announced :: "'sp Sharer \<Rightarrow> (u16 \<times> u16) \<times> bytes list" where
  "announced s = ((sh_termCols s, sh_termRows s), size_frames s)"

lemma announced_simps [simp]:
  "announced (sharer_call p s) = announced s" "announced (set_hs r hs s) = announced s"
  "announced (s\<lparr>sh_sess := ss\<rparr>) = announced s" "announced (s\<lparr>sh_joining := j\<rparr>) = announced s"
  "announced (s\<lparr>sh_viewerIDMap := m\<rparr>) = announced s" "announced (s\<lparr>sh_handshakes := hm\<rparr>) = announced s"
  "announced (s\<lparr>sh_dropped := d\<rparr>) = announced s"
  "announced (s\<lparr>sh_termCols := c, sh_termRows := r'\<rparr>) = ((c, r'), snd (announced s))"
  by (simp_all add: announced_def size_frames_def set_hs_def sharer_call_def)

lemma announced_send [simp]:
  "\<not> is_size msg \<Longrightarrow> announced (snd (sharer_send err msg s)) = announced s"
  "announced (snd (sendUnicast err r p s)) = announced s"
  by (auto simp: announced_def size_frames_def is_size_def sharer_send_def sendUnicast_def unicast_msg_def
      split: option.split)

lemma announced_eqs:
  "sharer_send err msg s = (e, s') \<Longrightarrow> \<not> is_size msg \<Longrightarrow> announced s' = announced s"
  "sendUnicast err r p s = (e, s') \<Longrightarrow> announced s' = announced s"
  using announced_send(1) [of msg err s] announced_send(2) [of err r p s] by simp_all

lemma announced_cleanup [simp]: "announced (cleanupHandshake L r s) = announced s"
  by (simp add: cleanupHandshake_def announced_def size_frames_def split: option.split)






lemma announced_register: "announced (snd (confirm_register L kdf rand now err r p hs s)) = announced s"
  by (auto simp: confirm_register_def Let_def split: option.split sum.split prod.split dest: announced_eqs)

lemma announced_handle [simp]: "announced (snd (handleSPAKE2 L kdf en r p s)) = announced s"
proof -
  have g: "announced (snd (get_handshake L r p s)) = announced s"
    by (simp add: get_handshake_def Let_def split: option.split sum.split)
  have i: "announced (snd (wait_init L err r hs s1)) = announced s1" for err hs s1
    by (auto simp: wait_init_def split: option.split sum.split prod.split dest: announced_eqs)
  have b: "announced (snd (wait_msg_b L err r p hs s1)) = announced s1" for err hs s1
    by (auto simp: wait_msg_b_def split: option.split sum.split prod.split dest: announced_eqs)
  show ?thesis
    using g by (cases "get_handshake L r p s")
      (auto simp: handleSPAKE2_def i b announced_register split: sum.split handshakeState.split)
qed

lemma announced_disconnect [simp]: "announced (handleViewerDisconnect r ord s) = announced s"
  by (simp add: handleViewerDisconnect_def announced_def size_frames_def sharer_call_def split: option.split)






text \<open>What the steps of the process do to the sharer, and to the size of the bar.\<close>

definition bar_dims :: "'p statusBar \<Rightarrow> u16 \<times> u16" where
  "bar_dims b = (sb_cols b, sb_totalRows b)"

definition live_sizes :: "'sp live \<Rightarrow> pty_size \<times> pty_size \<times> (u16 \<times> u16) \<times> (u16 \<times> u16)" where
  "live_sizes lv = (t_kernel (lv_term lv), t_size (lv_term lv), fst (announced (lv_sharer lv)),
     bar_dims (pb_bar (lv_probe lv)))"

lemma bar_dims_simps [simp]:
  "bar_dims (drawLocked p b) = bar_dims b" "bar_dims (Draw p b) = bar_dims b" "bar_dims (timer_fires b) = bar_dims b"
  "bar_dims (revert_callback p b) = bar_dims b" "bar_dims (ShowEvent now msg p b) = bar_dims b"
  "bar_dims (bar_Resize c r p b) = (c, r)" "bar_dims (bar_print s b) = bar_dims b"
  "bar_dims (SetScrollRegion b) = bar_dims b"
  by (simp_all add: bar_dims_def Draw_def timer_fires_def revert_callback_def ShowEvent_def bar_Resize_def
      SetScrollRegion_def)

lemma bar_dims_status: "bar_dims (pb_bar (status_event now call p)) = bar_dims (pb_bar p)"
  by (simp add: status_event_def show_event_def split: sharer_probe.split)

lemma bar_dims_events [simp]: "bar_dims (pb_bar (status_events calls p)) = bar_dims (pb_bar p)"
  by (induction calls arbitrary: p) (auto simp: status_events_def bar_dims_status)

lemma told_simps [simp]:
  "lv_sharer (told now s lv) = s" "lv_outer (told now s lv) = lv_outer lv" "lv_inner (told now s lv) = lv_inner lv"
  "lv_term (told now s lv) = lv_term lv" "lv_relay (told now s lv) = lv_relay lv"
  "lv_output (told now s lv) = lv_output lv" "lv_ends (told now s lv) = lv_ends lv"
  "lv_writer (told now s lv) = lv_writer lv"
  "bar_dims (pb_bar (lv_probe (told now s lv))) = bar_dims (pb_bar (lv_probe lv))"
  by (simp_all add: told_def)



lemma bar_Write_dims: "bar_Write wr now data p bw b = (x, bw', b') \<Longrightarrow> bar_dims b' = bar_dims b"
  by (auto simp: bar_Write_def Let_def bar_dims_def Draw_def split: if_splits)

lemma tee_Read_sizes: "tee_Read data re wr now lv = (x, lv1) \<Longrightarrow> live_sizes lv1 = live_sizes lv
    \<and> lv_sharer lv1 = lv_sharer lv \<and> lv_inner lv1 = lv_inner lv \<and> lv_outer lv1 = lv_outer lv
    \<and> lv_relay lv1 = lv_relay lv \<and> lv_output lv1 = lv_output lv \<and> lv_ends lv1 = lv_ends lv
    \<and> t_open (lv_term lv1) = t_open (lv_term lv)"
  by (auto simp: tee_Read_def Let_def live_sizes_def pty_Read_def bar_Write_dims split: if_splits prod.splits)

lemma live_sizes_ends [simp]:
  "live_sizes (lv\<lparr>lv_output := o1, lv_ends := es\<rparr>) = live_sizes lv"
  by (simp add: live_sizes_def)












lemma live_run_simps [simp]:
  "live_run L kdf [] lv = lv" "live_run L kdf (ev # evs) lv = live_run L kdf evs (live_step L kdf ev lv)"
  by (simp_all add: live_run_def)





section \<open>How a session ends\<close>

lemma Run_end_nil: "\<exists>s'. Run_end L cx first s = ((None, context_cancel cx), s')"
  by (simp add: Run_end_def context_cancel_def)

lemma Run_result_nil:
  "Run_result L lv = Some (e, s) \<Longrightarrow> e = None \<and> sh_sess s = sh_sess (lv_sharer lv)"
  using Run_end_nil [of L "lv_inner lv" "hd (lv_ends lv)" "lv_sharer lv"]
  by (auto simp: Run_result_def Run_end_fields split: if_splits prod.splits) (metis Run_end_fields(1) snd_conv)

fun is_output :: "share_event \<Rightarrow> bool" where
  "is_output (ShellPrints now data re wr se) \<longleftrightarrow> True"
| "is_output ev \<longleftrightarrow> False"

text \<open>The relay loop has returned, the output loop has not, and nobody has cancelled the session.\<close>

definition relay_lost :: "'sp live \<Rightarrow> bool" where
  "relay_lost lv \<longleftrightarrow> \<not> lv_relay lv \<and> lv_output lv \<and> length (lv_ends lv) = 1 \<and> \<not> cx_cancelled (lv_outer lv)"

lemma relay_lost_step:
  assumes "relay_lost lv" "\<not> is_output ev" "ev \<noteq> Cancelled"
  shows "relay_lost (live_step L kdf ev lv) \<and> t_open (lv_term (live_step L kdf ev lv)) = t_open (lv_term lv)"
  using assms
  by (cases ev) (auto simp: live_step_def relay_lost_def relay_step_def sigwinch_def Let_def on_bar_def pty_Write_def
      pty_Resize_def waitForExit_def split: option.split)

lemma relay_lost_run:
  assumes "relay_lost lv" "list_all (\<lambda>ev. \<not> is_output ev \<and> ev \<noteq> Cancelled) evs"
  shows "relay_lost (live_run L kdf evs lv) \<and> t_open (lv_term (live_run L kdf evs lv)) = t_open (lv_term lv)"
  using assms by (induction evs arbitrary: lv) (simp_all add: relay_lost_step)

lemma relay_fails:
  assumes "lv_relay lv" "sh_joining (lv_sharer lv) = None"
  shows "lv_relay (relay_step L kdf now en ord (Inl e) lv) = False
    \<and> lv_output (relay_step L kdf now en ord (Inl e) lv) = lv_output lv
    \<and> lv_outer (relay_step L kdf now en ord (Inl e) lv) = lv_outer lv
    \<and> lv_inner (relay_step L kdf now en ord (Inl e) lv) = lv_inner lv
    \<and> lv_term (relay_step L kdf now en ord (Inl e) lv) = lv_term lv
    \<and> lv_ends (relay_step L kdf now en ord (Inl e) lv) = lv_ends lv @ [if cx_cancelled (lv_inner lv) then None else Some (ReadingRelay e)]"
  using assms by (simp add: relay_step_def relay_turn_def)

text \<open>A read that fails, or after which the frame cannot be sent, ends the output loop.\<close>

lemma output_fails:
  assumes "lv_output lv" "re = Some x \<or> (data \<noteq> [] \<and> wr = (length data, None) \<and> se \<noteq> None)"
  shows "\<exists>e. lv_output (output_step kdf now data re wr se lv) = False
    \<and> lv_relay (output_step kdf now data re wr se lv) = lv_relay lv
    \<and> lv_inner (output_step kdf now data re wr se lv) = lv_inner lv
    \<and> lv_outer (output_step kdf now data re wr se lv) = lv_outer lv
    \<and> t_open (lv_term (output_step kdf now data re wr se lv)) = t_open (lv_term lv)
    \<and> lv_ends (output_step kdf now data re wr se lv) = lv_ends lv @ [e]"
proof -
  obtain got err lv1 where tee: "tee_Read data re wr now lv = ((got, err), lv1)" by (metis surj_pair)
  note keeps = tee_Read_sizes [OF tee]
  let ?c = "cx_cancelled (lv_inner lv)"
  have "err \<noteq> None \<or> got \<noteq> [] \<and> se \<noteq> None"
    using assms(2) tee by (auto simp: tee_Read_def Let_def bar_Write_def split: if_splits prod.splits option.splits)
  then have "\<exists>e s. output_turn kdf now se ?c got err ?c (lv_sharer lv1) = (Ended e, s)"
    by (auto simp: output_turn_def Let_def sharer_send_def split: option.split sum.split prod.split)
  then obtain e s where "output_turn kdf now se ?c got err ?c (lv_sharer lv1) = (Ended e, s)" by blast
  with assms(1) tee keeps show ?thesis by (simp add: output_step_def)
qed

text \<open>
  Kept by all steps: the loops that have returned have sent their errors, a half-joined viewer has the
  relay loop waiting, and a cancelled session is cancelled for \<open>Run\<close>, too.
\<close>

definition live_inv :: "'sp live \<Rightarrow> bool" where
  "live_inv lv \<longleftrightarrow> length (lv_ends lv) = (if lv_relay lv then 0 else 1) + (if lv_output lv then 0 else 1)
     \<and> (\<not> lv_relay lv \<longrightarrow> sh_joining (lv_sharer lv) = None)
     \<and> (cx_cancelled (lv_outer lv) \<longrightarrow> cx_cancelled (lv_inner lv))"

lemma joining_steps:
  "sh_joining (snd (output_turn kdf now se sd data re rd s)) = sh_joining s"
  "sh_joining (snd (sharer_heartbeat err s)) = sh_joining s"
  "sh_joining (snd (SetTermSize kdf now err c r s)) = sh_joining s"
  using quiet_output quiet_heartbeat quiet_size by (metis quiet_def)+

lemma joining_finish: "sh_joining s = None \<Longrightarrow> confirm_finish L kdf now err s = s"
  by (simp add: confirm_finish_def)

lemma joining_rekeys: "sh_joining (snd (deliver_rekeys errs rs s)) = sh_joining s"
proof (induction errs rs s rule: deliver_rekeys.induct)
  case (2 errs sid enc rs s)
  then show ?case by (auto simp: comp_def split: option.split prod.split dest: sendUnicast_fields)
qed simp

lemma joining_Revoke: "sh_joining (snd (Revoke errs i rand ord ord' s)) = sh_joining s"
proof -
  have "sh_joining s2 = sh_joining s"
    if "deliver_rekeys errs rs (s\<lparr>sh_sess := ss, sh_viewerIDMap := m\<rparr>) = (e, s2)" for rs e s2 ss m
    using joining_rekeys [of errs rs "s\<lparr>sh_sess := ss, sh_viewerIDMap := m\<rparr>"] that by simp
  then show ?thesis
    by (auto simp: Revoke_def sharer_call_def split: sum.split prod.split option.split)
qed

lemma relay_turn_joining:
  "relay_turn L kdf en ord r s = (Ended e, s') \<Longrightarrow> s' = s"
  by (auto simp: relay_turn_def Let_def split: recv_result.splits if_splits prod.splits option.splits)

lemma output_step_live:
  "lv_relay (output_step kdf now data re wr se lv) = lv_relay lv"
  "lv_outer (output_step kdf now data re wr se lv) = lv_outer lv"
  "lv_inner (output_step kdf now data re wr se lv) = lv_inner lv"
  "t_open (lv_term (output_step kdf now data re wr se lv)) = t_open (lv_term lv)"
  "sh_joining (lv_sharer (output_step kdf now data re wr se lv)) = sh_joining (lv_sharer lv)"
  "length (lv_ends (output_step kdf now data re wr se lv)) + (if lv_output (output_step kdf now data re wr se lv) then 1 else 0)
     = length (lv_ends lv) + (if lv_output lv then 1 else 0)"
proof -
  let ?o = "output_step kdf now data re wr se lv"
  have "lv_relay ?o = lv_relay lv \<and> lv_outer ?o = lv_outer lv \<and> lv_inner ?o = lv_inner lv
    \<and> t_open (lv_term ?o) = t_open (lv_term lv) \<and> sh_joining (lv_sharer ?o) = sh_joining (lv_sharer lv)
    \<and> length (lv_ends ?o) + (if lv_output ?o then 1 else 0) = length (lv_ends lv) + (if lv_output lv then 1 else 0)"
  proof (cases "lv_output lv")
    case True
    obtain got err lv1 where tee: "tee_Read data re wr now lv = ((got, err), lv1)" by (metis surj_pair)
    note keeps = tee_Read_sizes [OF tee]
    let ?c = "cx_cancelled (lv_inner lv)"
    obtain turn s where o: "output_turn kdf now se ?c got err ?c (lv_sharer lv1) = (turn, s)" by fastforce
    with joining_steps(1) [of kdf now se ?c got err ?c "lv_sharer lv1"] keeps True tee show ?thesis
      by (cases turn) (simp_all add: output_step_def)
  qed (simp add: output_step_def)
  then show "lv_relay ?o = lv_relay lv" "lv_outer ?o = lv_outer lv" "lv_inner ?o = lv_inner lv"
    "t_open (lv_term ?o) = t_open (lv_term lv)" "sh_joining (lv_sharer ?o) = sh_joining (lv_sharer lv)"
    "length (lv_ends ?o) + (if lv_output ?o then 1 else 0) = length (lv_ends lv) + (if lv_output lv then 1 else 0)"
    by simp_all
qed

lemma live_inv_told:
  "live_inv lv \<Longrightarrow> sh_joining s = sh_joining (lv_sharer lv) \<or> sh_joining s = None \<Longrightarrow> live_inv (told now s lv)"
  by (auto simp: live_inv_def)

lemma live_inv_relay:
  assumes "live_inv lv"
  shows "live_inv (relay_step L kdf now en ord r lv)"
proof (cases "lv_relay lv \<and> sh_joining (lv_sharer lv) = None")
  case True
  let ?r = "case r of Inl e \<Rightarrow> RecvFailed e (cx_cancelled (lv_inner lv)) | Inr data \<Rightarrow> Got data"
  obtain turn s where t: "relay_turn L kdf en ord ?r (lv_sharer lv) = (turn, s)" by fastforce
  show ?thesis
  proof (cases turn)
    case Going
    with t True assms show ?thesis by (simp add: relay_step_def live_inv_def)
  next
    case (Ended e)
    with t relay_turn_joining [of L kdf en ord ?r "lv_sharer lv"] True assms show ?thesis
      by (auto simp: relay_step_def live_inv_def)
  qed
next
  case False
  then show ?thesis using assms by (auto simp: relay_step_def)
qed

lemma live_inv_step:
  assumes "live_inv lv"
  shows "live_inv (live_step L kdf ev lv)"
proof (cases ev)
  case (RelaySends now en ord r)
  then show ?thesis using live_inv_relay [OF assms] by (simp add: live_step_def)
next
  case (JoinFinishes now t err)
  have "sh_joining (confirm_finish L kdf t err s) = sh_joining s \<or> sh_joining (confirm_finish L kdf t err s) = None" for s
    by (auto simp: confirm_finish_def Let_def split: option.split prod.split)
  with JoinFinishes assms show ?thesis by (simp add: live_step_def live_inv_told)
next
  case (ShellPrints now data re wr se)
  then show ?thesis
    using assms output_step_live [of kdf now data re wr se lv]
    by (auto simp: live_step_def live_inv_def split: if_splits)
next
  case (WindowChanges ws err now se)
  then show ?thesis
    using assms by (auto simp: live_step_def sigwinch_def live_inv_def Let_def joining_steps split: option.split)
next
  case (RevokeAsked now errs i rand ord ord')
  then show ?thesis using assms by (simp add: live_step_def live_inv_told joining_Revoke)
next
  case (HeartbeatDue now err)
  then show ?thesis using assms by (simp add: live_step_def live_inv_told joining_steps)
next
  case FirstErrorTaken
  then show ?thesis using assms by (cases "lv_output lv") (auto simp: live_step_def live_inv_def context_cancel_def)
qed (use assms in \<open>simp_all add: live_step_def live_inv_def on_bar_def context_cancel_def\<close>)

lemma live_inv_run: "live_inv lv \<Longrightarrow> live_inv (live_run L kdf evs lv)"
  by (induction evs arbitrary: lv) (simp_all add: live_inv_step)

lemma live_inv_start: "live_inv (start_live kdf en sess code z term probe)"
  by (simp add: start_live_def new_live_def Let_def live_inv_def joining_steps NewSharer_def)

text \<open>
  C38. A lost relay is not noticed until the shell prints. When receiving from the relay fails, \<open>Run\<close>
  waits for the output loop, which waits for the shell, and nobody closes the terminal: whatever
  else happens, short of a stop, \<open>lw share\<close> goes on. The next output that cannot be sent ends it, as if
  nothing had gone wrong: the error is lost.
\<close>

theorem lost_relay_waits_for_the_shell:
  assumes "lv_relay lv" "lv_output lv" "lv_ends lv = []" "sh_joining (lv_sharer lv) = None"
    and "\<not> cx_cancelled (lv_outer lv)"
    and "list_all (\<lambda>ev. \<not> is_output ev \<and> ev \<noteq> Cancelled) evs" and "data \<noteq> []"
  shows "let lv1 = live_run L kdf (RelaySends now en ord (Inl e) # evs) lv;
      lv2 = live_run L kdf [ShellPrints now' data None (length data, None) (Some e'), FirstErrorTaken] lv1
    in Run_result L lv1 = None \<and> t_open (lv_term lv1) = t_open (lv_term lv)
      \<and> (\<exists>s. Run_result L lv2 = Some (None, s))"
proof -
  let ?lv0 = "relay_step L kdf now en ord (Inl e) lv"
  let ?lv1 = "live_run L kdf evs ?lv0"
  have "relay_lost ?lv0"
    using relay_fails [OF assms(1,4)] assms(2,3,5) by (simp add: relay_lost_def)
  from relay_lost_run [OF this assms(6), of L kdf]
  have lost: "relay_lost ?lv1" and "t_open (lv_term ?lv1) = t_open (lv_term lv)"
    using relay_fails [OF assms(1,4), of L kdf now en ord e] by simp_all
  moreover from lost have "Run_result L ?lv1 = None" by (simp add: relay_lost_def Run_result_def)
  moreover have "\<exists>s. Run_result L (live_step L kdf FirstErrorTaken
      (output_step kdf now' data None (length data, None) (Some e') ?lv1)) = Some (None, s)"
    using output_fails [of ?lv1 None _ data "(length data, None)" "Some e'" kdf now'] lost assms(7)
    by (auto simp: relay_lost_def live_step_def Run_result_def Run_end_def context_cancel_def Let_def)
  ultimately show ?thesis by (simp add: live_step_def Let_def)
qed

lemma stopped_run_returns:
  assumes "lv = live_run L kdf (before @ Cancelled # after) (start_live kdf en0 sess code z term probe)"
    and "sh_joining (lv_sharer lv) = None"
  shows "let lv' = live_run L kdf [TermCloses, RelaySends now en ord (Inl e), ShellPrints now' data (Some err) wr se] lv
    in \<not> t_open (lv_term lv') \<and> (\<exists>s. Run_result L lv' = Some (None, s))"
proof -
  let ?lv0 = "start_live kdf en0 sess code z term probe"
  let ?lv1 = "live_step L kdf Cancelled (live_run L kdf before ?lv0)"
  have stays: "cx_cancelled (lv_outer (live_run L kdf evs lv'))" if "cx_cancelled (lv_outer lv')" for evs lv'
    using that
  proof (induction evs arbitrary: lv')
    case (Cons ev evs)
    have "cx_cancelled (lv_outer (live_step L kdf ev lv'))"
      using Cons(2) by (cases ev) (auto simp: live_step_def relay_step_def output_step_live sigwinch_def Let_def on_bar_def
          context_cancel_def split: option.split prod.split sharer_turn.split)
    with Cons(1) show ?case by simp
  qed simp
  have "cx_cancelled (lv_outer ?lv1)" by (simp add: live_step_def context_cancel_def)
  from stays [OF this, of after] have outer: "cx_cancelled (lv_outer lv)"
    unfolding assms(1) by (simp add: live_run_def)
  have inv: "live_inv lv" unfolding assms(1) by (rule live_inv_run [OF live_inv_start])
  let ?a = "lv\<lparr>lv_term := snd (pty_Close (lv_term lv))\<rparr>"
  let ?b = "relay_step L kdf now en ord (Inl e) ?a"
  let ?c = "output_step kdf now' data (Some err) wr se ?b"
  have b: "\<not> lv_relay ?b \<and> lv_outer ?b = lv_outer lv \<and> lv_inner ?b = lv_inner lv \<and> t_open (lv_term ?b) = False
    \<and> lv_output ?b = lv_output lv"
    using relay_fails [of ?a L kdf now en ord e] assms(2)
    by (cases "lv_relay lv") (simp_all add: pty_Close_def relay_step_def)
  have "live_inv ?a" using inv by (simp add: live_inv_def)
  then have "live_inv ?b" by (rule live_inv_relay)
  have c: "\<not> lv_relay ?c \<and> \<not> lv_output ?c \<and> lv_inner ?c = lv_inner lv \<and> t_open (lv_term ?c) = False"
    using output_fails [of ?b "Some err" err data wr se kdf now'] b
    by (cases "lv_output lv") (auto simp: output_step_live, simp add: output_step_def)
  have "live_inv ?c"
    using live_inv_step [OF \<open>live_inv ?b\<close>, of L kdf "ShellPrints now' data (Some err) wr se"] by (simp add: live_step_def)
  with c inv outer have "length (lv_ends ?c) = 2" "cx_cancelled (lv_inner ?c)" by (simp_all add: live_inv_def)
  then have "\<exists>s. Run_result L ?c = Some (None, s)"
    by (simp add: Run_result_def Run_end_def context_cancel_def)
  with c outer show ?thesis by (simp add: live_step_def Let_def)
qed

text \<open>
  C36. A stop ends the session. Once \<open>lw stop\<close> or a signal has cancelled a session, whatever happened before
  and whatever happens after, the terminal is closed and \<open>Run\<close> returns without an error as soon as
  the calls that were waiting have failed, the connection because of the context and the read because
  of the closed terminal (unless they had ended the loops before), and no handshake is under way.
\<close>

theorem stop_ends_the_session:
  assumes "lv = live_run L kdf (before @ Cancelled # after) (start_live kdf en0 sess code z term probe)"
    and "sh_joining (lv_sharer lv) = None"
  shows "let lv' = live_run L kdf [TermCloses, RelaySends now en ord (Inl e), ShellPrints now' data (Some err) wr se] lv
    in \<not> t_open (lv_term lv') \<and> (\<exists>s. Run_result L lv' = Some (None, s))"
  using assms by (rule stopped_run_returns)

section \<open>The process is a run of the sharer\<close>

text \<open>The step of the sharer in an event, if it has one.\<close>

definition event_act :: "share_event \<Rightarrow> 'sp live \<Rightarrow> sharer_action option" where
  "event_act ev lv =
     (case ev of
        RelaySends now en ord r \<Rightarrow>
          if \<not> lv_relay lv \<or> sh_joining (lv_sharer lv) \<noteq> None then None
          else Some (OnRelay en ord (case r of Inl e \<Rightarrow> RecvFailed e (cx_cancelled (lv_inner lv)) | Inr data \<Rightarrow> Got data))
      | JoinFinishes now t err \<Rightarrow> Some (FinishJoin t err)
      | ShellPrints now data read_err written send_err \<Rightarrow>
          if \<not> lv_output lv then None
          else (case tee_Read data read_err written now lv of
            ((got, err), lv1) \<Rightarrow> Some (OnOutput now send_err (cx_cancelled (lv_inner lv)) got err (cx_cancelled (lv_inner lv))))
      | HeartbeatDue now err \<Rightarrow> Some (OnHeartbeat err)
      | RevokeAsked now errs i rand ord ord' \<Rightarrow> Some (OnRevoke errs i rand ord ord')
      | WindowChanges (Some (c, r)) resize_err now send_err \<Rightarrow> Some (OnSize now send_err c (ptyRows r))
      | _ \<Rightarrow> None)"

text \<open>The inputs that the events assume are those of the steps.\<close>

fun events_ok :: "'sp spake_lib \<Rightarrow> kdf \<Rightarrow> share_event list \<Rightarrow> 'sp live \<Rightarrow> bool" where
  "events_ok L kdf [] lv \<longleftrightarrow> True"
| "events_ok L kdf (ev # evs) lv \<longleftrightarrow>
     (case event_act ev lv of None \<Rightarrow> True | Some a \<Rightarrow> inputs_ok a (lv_sharer lv))
     \<and> events_ok L kdf evs (live_step L kdf ev lv)"

fun live_acts :: "'sp spake_lib \<Rightarrow> kdf \<Rightarrow> share_event list \<Rightarrow> 'sp live \<Rightarrow> sharer_action list" where
  "live_acts L kdf [] lv = []"
| "live_acts L kdf (ev # evs) lv =
     (case event_act ev lv of None \<Rightarrow> [] | Some a \<Rightarrow> [a]) @ live_acts L kdf evs (live_step L kdf ev lv)"

lemma live_step_sharer:
  "lv_sharer (live_step L kdf ev lv) =
     (case event_act ev lv of None \<Rightarrow> lv_sharer lv | Some a \<Rightarrow> sharer_act L kdf a (lv_sharer lv))"
proof (cases ev)
  case (RelaySends now en ord r)
  then show ?thesis
    by (auto simp: live_step_def event_act_def relay_step_def split: prod.split sharer_turn.split)
next
  case (ShellPrints now data re wr se)
  obtain got err lv1 where tee: "tee_Read data re wr now lv = ((got, err), lv1)" by (metis surj_pair)
  note keeps = tee_Read_sizes [OF tee]
  let ?c = "cx_cancelled (lv_inner lv)"
  obtain turn s where o: "output_turn kdf now se ?c got err ?c (lv_sharer lv) = (turn, s)" by fastforce
  with ShellPrints tee keeps show ?thesis
    by (cases turn) (auto simp: live_step_def event_act_def output_step_def)
next
  case (WindowChanges ws err now se)
  then show ?thesis
    by (auto simp: live_step_def event_act_def sigwinch_def Let_def split: option.split)
qed (simp_all add: live_step_def event_act_def on_bar_def)

lemma live_runs:
  "events_ok L kdf evs lv \<Longrightarrow> sharer_runs L kdf (live_acts L kdf evs lv) (lv_sharer lv) = Some (lv_sharer (live_run L kdf evs lv))"
proof (induction evs arbitrary: lv)
  case (Cons ev evs)
  then have "sharer_runs L kdf (live_acts L kdf evs (live_step L kdf ev lv)) (lv_sharer (live_step L kdf ev lv))
      = Some (lv_sharer (live_run L kdf evs (live_step L kdf ev lv)))" by simp
  with Cons(2) live_step_sharer [of L kdf ev lv] show ?case by (cases "event_act ev lv") simp_all
qed simp

lemma start_live_sharer:
  "lv_sharer (start_live kdf en sess code z term probe) =
     sharer_act L kdf (OnSize (se_size_now en) (se_size_err en) (sz_Cols z) (sz_Rows z)) (NewSharer sess code)"
  by (simp add: start_live_def new_live_def Let_def)

lemma live_sharer_runs:
  assumes "events_ok L kdf evs (start_live kdf en sess code z term probe)"
  shows "sharer_runs L kdf
      (OnSize (se_size_now en) (se_size_err en) (sz_Cols z) (sz_Rows z)
        # live_acts L kdf evs (start_live kdf en sess code z term probe)) (NewSharer sess code)
    = Some (lv_sharer (live_run L kdf evs (start_live kdf en sess code z term probe)))"
  using live_runs [OF assms] start_live_sharer [of kdf en sess code z "term" probe L] by simp

section \<open>The keys a session leaves\<close>

text \<open>The process as the command starts it, when everything up to there succeeds.\<close>

definition share_probe0 :: "share_env \<Rightarrow> gotext \<Rightarrow> statusBarSharerProbe" where
  "share_probe0 en code =
     (let (cols, rows) = outer_size (se_winsize en); probe = newSharerProbe cols rows code
      in probe\<lparr>pb_bar := bar_print (esc ''['' @ decimal bannerLines @ runes '';1H'')
                            (Draw 0 (SetScrollRegion (pb_bar probe)))\<rparr>)"

definition share_start :: "kdf \<Rightarrow> share_env \<Rightarrow> 'sp live option" where
  "share_start kdf en =
     (case Generate (se_code_rand en) of
        Inl e \<Rightarrow> None
      | Inr code \<Rightarrow>
          (case NewSession (se_argon2 en) (code_bytes code) (se_key_rand en) of
             Inl e \<Rightarrow> None
           | Inr sess \<Rightarrow>
               (let (cols, rows) = outer_size (se_winsize en);
                    z = \<lparr>sz_Cols = cols, sz_Rows = ptyRows rows\<rparr>
                in case Start [if se_shell en = [] then ascii ''/bin/sh'' else se_shell en] z (se_start en) of
                     Inl e \<Rightarrow> None
                   | Inr term \<Rightarrow> Some (start_live kdf en sess (code_bytes code) z term (share_probe0 en code)))))"

lemma share_control_sess:
  assumes "share_control L kdf en evs sess code z term probe w = Some (r, w')"
  shows "w_sess w' = w_sess w \<or> (\<exists>e s. Run_result L (live_run L kdf evs (start_live kdf en sess code z term probe)) = Some (e, s)
    \<and> r = map_option RunFailed e \<and> w_sess w' = Some (sh_sess (lv_sharer (outlasting L kdf en s (live_run L kdf evs (start_live kdf en sess code z term probe))))))"
  using assms
  by (auto simp: share_control_def Let_def deferred_Some close_ipc_def split: prod.splits sum.splits option.splits)

lemma share_shell_sess:
  assumes "share_shell L kdf en evs sess code z probe w = Some (r, w')"
  shows "w_sess w' = w_sess w \<or> (\<exists>t e s. Start [if se_shell en = [] then ascii ''/bin/sh'' else se_shell en] z (se_start en) = Inr t
    \<and> Run_result L (live_run L kdf evs (start_live kdf en sess code z t probe)) = Some (e, s)
    \<and> r = map_option RunFailed e \<and> w_sess w' = Some (sh_sess (lv_sharer (outlasting L kdf en s (live_run L kdf evs (start_live kdf en sess code z t probe))))))"
proof (cases "Start [if se_shell en = [] then ascii ''/bin/sh'' else se_shell en] z (se_start en)")
  case (Inl e)
  then show ?thesis using assms by (auto simp: share_shell_def Let_def)
next
  case (Inr t)
  with assms obtain w1 where w1: "share_control L kdf en evs sess code z t probe (w\<lparr>w_term := Some t\<rparr>) = Some (r, w1)"
    and w': "w' = close_term en w1"
    by (auto simp: share_shell_def Let_def deferred_Some)
  have "w_sess w' = w_sess w1" by (simp add: w' close_term_def Let_def split: option.split)
  with share_control_sess [OF w1] Inr show ?thesis by auto
qed

lemma share_terminal_sess:
  assumes "share_terminal L kdf en evs url code sess w = Some (r, w')"
    and "Generate (se_code_rand en) = Inr code" and "NewSession (se_argon2 en) (code_bytes code) (se_key_rand en) = Inr sess"
  shows "w_sess w' = w_sess w \<or> (\<exists>lv e s. share_start kdf en = Some lv \<and> Run_result L (live_run L kdf evs lv) = Some (e, s)
    \<and> r = map_option RunFailed e \<and> w_sess w' = Some (sh_sess (lv_sharer (outlasting L kdf en s (live_run L kdf evs lv)))))"
proof -
  obtain cols rows where size: "outer_size (se_winsize en) = (cols, rows)" by fastforce
  let ?z = "\<lparr>sz_Cols = cols, sz_Rows = ptyRows rows\<rparr>"
  show ?thesis
  proof (cases "w_sess w' = w_sess w")
    case False
    then obtain tty scr b w1 where
      w1: "share_shell L kdf en evs sess (code_bytes code) ?z (share_probe0 en code)
             (w\<lparr>w_tty := tty, w_screen := scr, w_bar := b\<rparr>) = Some (r, w1)" and s: "w_sess w' = w_sess w1"
      using assms(1) size
      by (auto simp: share_terminal_def share_probe0_def Let_def deferred_Some leave_bar_def split: prod.splits sum.splits option.splits)
    from share_shell_sess [OF w1] False s assms(2,3) size show ?thesis
      by (auto simp: share_start_def Let_def)
  qed simp
qed

lemma runShare_sess:
  assumes "runShare L kdf en evs url ins (new_world h tty) = Some (r, w)"
  shows "w_sess w = None \<or> (\<exists>code sess. NewSession (se_argon2 en) code (se_key_rand en) = Inr sess \<and> w_sess w = Some (Close sess))
    \<or> (\<exists>lv e s. share_start kdf en = Some lv \<and> Run_result L (live_run L kdf evs lv) = Some (e, s)
        \<and> r = map_option RunFailed e \<and> w_sess w = Some (Close (sh_sess (lv_sharer (outlasting L kdf en s (live_run L kdf evs lv))))))"
proof (cases "w_sess w = None")
  case False
  from assms obtain h1 w1 where
    w1: "share_session L kdf en evs url ins (new_world h tty\<lparr>w_host := h1\<rparr>) = Some (r, w1)" and s1: "w_sess w = w_sess w1"
    using False by (auto simp: runShare_def new_world_def deferred_Some split: prod.splits option.splits)
  then obtain code sess w2 where g: "Generate (se_code_rand en) = Inr code"
      "NewSession (se_argon2 en) (code_bytes code) (se_key_rand en) = Inr sess"
    and w2: "share_relay L kdf en evs url ins code sess (new_world h tty\<lparr>w_host := h1, w_sess := Some sess\<rparr>) = Some (r, w2)"
    and s2: "w_sess w1 = map_option Close (w_sess w2)"
    using False s1 by (auto simp: share_session_def new_world_def deferred_Some split: sum.splits)
  show ?thesis
  proof (cases "se_dial en (url @ ascii ''/api/share/'' @ SessionID sess) ins")
    case None
    then obtain w3 w0 where
      w3: "share_terminal L kdf en evs url code sess w0 = Some (r, w3)" "w_sess w0 = Some sess" "w_sess w2 = w_sess w3"
      using w2 by (auto simp: share_relay_def Let_def new_world_def deferred_Some)
    have s: "w_sess w = map_option Close (w_sess w3)" using s1 s2 w3(3) by simp
    from share_terminal_sess [OF w3(1) g] show ?thesis
    proof
      assume "w_sess w3 = w_sess w0"
      then have "w_sess w = Some (Close sess)" using s w3(2) by simp
      with g(2) show ?thesis by blast
    next
      assume "\<exists>lv e s. share_start kdf en = Some lv \<and> Run_result L (live_run L kdf evs lv) = Some (e, s)
        \<and> r = map_option RunFailed e \<and> w_sess w3 = Some (sh_sess (lv_sharer (outlasting L kdf en s (live_run L kdf evs lv))))"
      then show ?thesis using s by (metis option.simps(9))
    qed
  next
    case (Some e)
    with w2 s1 s2 have "w_sess w = Some (Close sess)" by (auto simp: share_relay_def Let_def)
    with g(2) show ?thesis by blast
  qed
qed simp

text \<open>
  What is kept by the goroutines that are left: the loops have ended, no viewer joins any more, and the keys
  of the session are accounted for.
\<close>

definition left_inv :: "'sp live \<Rightarrow> bool" where
  "left_inv lv \<longleftrightarrow> \<not> lv_relay lv \<and> \<not> lv_output lv \<and> sh_joining (lv_sharer lv) = None
     \<and> sess_wf (sh_sess (lv_sharer lv)) \<and> sess_clean (sh_sess (lv_sharer lv))"

lemma Revoke_sess: "sh_sess (snd (Revoke errs i rand ord ord' s)) = snd (RevokeViewer (sh_sess s) i rand ord)"
proof -
  have "sh_sess (snd (deliver_rekeys errs rs t)) = sh_sess t" for rs and t :: "'a Sharer"
    using deliver_rekeys_fields [of errs rs t] by (cases "deliver_rekeys errs rs t") simp
  then show ?thesis by (simp add: Revoke_def split_beta split: option.split sum.split)
qed

lemma left_inv_step:
  assumes "left_inv lv" "case event_act ev lv of None \<Rightarrow> True | Some a \<Rightarrow> inputs_ok a (lv_sharer lv)"
  shows "left_inv (live_step L kdf ev lv)"
proof (cases ev)
  case (RevokeAsked now errs i rand ord ord')
  with assms show ?thesis
    by (simp add: left_inv_def live_step_def event_act_def joining_Revoke Revoke_sess sess_wf_RevokeViewer sess_clean_RevokeViewer)
next
  case (WindowChanges ws re now se)
  have "sh_sess (snd (SetTermSize kdf now se c r s)) = sh_sess s
      \<or> (\<exists>p. sh_sess (snd (SetTermSize kdf now se c r s)) = snd (EncryptFrame kdf (sh_sess s) p now))"
    for c r and s :: "'a Sharer"
    by (auto simp: SetTermSize_def broadcast_fields)
  then have "sess_wf (sh_sess (snd (SetTermSize kdf now se c r (lv_sharer lv))))
      \<and> sess_clean (sh_sess (snd (SetTermSize kdf now se c r (lv_sharer lv))))" for c r
    using assms(1) unfolding left_inv_def by (metis sess_wf_EncryptFrame sess_clean_EncryptFrame)
  with WindowChanges assms(1) show ?thesis
    by (simp add: left_inv_def live_step_def sigwinch_def Let_def joining_steps split: option.split)
next
  case (HeartbeatDue now err)
  then show ?thesis
    using assms(1) by (simp add: left_inv_def live_step_def joining_steps)
      (simp add: sharer_heartbeat_def sharer_send_def sharer_call_def split: option.split)
qed (use assms(1) in \<open>simp_all add: left_inv_def live_step_def relay_step_def output_step_def joining_finish on_bar_def\<close>)

lemma left_inv_run: "events_ok L kdf evs lv \<Longrightarrow> left_inv lv \<Longrightarrow> left_inv (live_run L kdf evs lv)"
  by (induction evs arbitrary: lv) (simp_all add: left_inv_step)

text \<open>
  The inputs of all events of a session, those before \<open>Run\<close> returns and those of the goroutines that are
  left then, are those of the sharer's steps.
\<close>

definition session_inputs_ok :: "'sp spake_lib \<Rightarrow> kdf \<Rightarrow> share_env \<Rightarrow> share_event list \<Rightarrow> 'sp live \<Rightarrow> bool" where
  "session_inputs_ok L kdf en evs lv \<longleftrightarrow>
     events_ok L kdf evs lv
     \<and> (let lv1 = live_run L kdf evs lv
        in case Run_result L lv1 of
             None \<Rightarrow> True
           | Some (e, s) \<Rightarrow> events_ok L kdf (se_late en) (lv1\<lparr>lv_sharer := s\<rparr>)
               \<and> events_ok L kdf (se_later en) (on_bar bar_Close (lingering L kdf en s lv1)))"

lemma outlasting_ok:
  assumes "session_inputs_ok L kdf en evs lv" "Run_result L (live_run L kdf evs lv) = Some (e, s)"
    and "sharer_ok L (lv_sharer (live_run L kdf evs lv))" "live_inv (live_run L kdf evs lv)"
  shows "left_inv (outlasting L kdf en s (live_run L kdf evs lv))"
proof -
  let ?lv = "live_run L kdf evs lv"
  have two: "2 \<le> length (lv_ends ?lv)" using assms(2) by (simp add: Run_result_def split: if_splits)
  have "s = snd (Run_end L (lv_inner ?lv) (hd (lv_ends ?lv)) (lv_sharer ?lv))"
    using assms(2) by (auto simp: Run_result_def split: if_splits prod.splits)
  then have s: "sh_sess s = sh_sess (lv_sharer ?lv)" "sh_joining s = sh_joining (lv_sharer ?lv)"
    by (simp_all add: Run_end_def Let_def destroyPendingHandshakes_eq sharer_call_def)
  from two assms(4) have "\<not> lv_relay ?lv" "\<not> lv_output ?lv" "sh_joining (lv_sharer ?lv) = None"
    by (auto simp: live_inv_def split: if_splits)
  with s have "left_inv (?lv\<lparr>lv_sharer := s\<rparr>)"
    using sharer_ok_wf [OF assms(3)] sharer_ok_clean [OF assms(3)] by (simp add: left_inv_def joining_buf_None)
  moreover have late: "events_ok L kdf (se_late en) (?lv\<lparr>lv_sharer := s\<rparr>)"
    "events_ok L kdf (se_later en) (on_bar bar_Close (lingering L kdf en s ?lv))"
    using assms(1,2) by (simp_all add: session_inputs_ok_def Let_def)
  ultimately have "left_inv (lingering L kdf en s ?lv)" unfolding lingering_def by (intro left_inv_run)
  then have "left_inv (on_bar bar_Close (lingering L kdf en s ?lv))" by (simp add: left_inv_def on_bar_def)
  with late(2) show ?thesis unfolding outlasting_def by (rule left_inv_run)
qed

text \<open>
  C14. \<open>lw share\<close> leaves no key behind. Whatever happens while it shares, and after \<open>Run\<close> has returned, when
  the command returns, every buffer of the session that ever held a key is zero, provided that the viewer
  IDs drawn were unused, and that the SPAKE2 package wipes its states.
\<close>

theorem share_leaves_no_key:
  fixes L :: "'sp spake_lib"
  assumes "runShare L kdf en evs relayURL insecure (new_world h tty) = Some (r, w)"
    and "case (share_start kdf en :: 'sp live option) of None \<Rightarrow> True | Some lv \<Rightarrow> session_inputs_ok L kdf en evs lv"
    and "wiping_lib L"
  shows "case w_sess w of None \<Rightarrow> True | Some sess \<Rightarrow> list_all all_zero (s_mem sess)"
proof -
  have wiped: "list_all all_zero (s_mem (Close s))" if "sess_wf s" "clean_but {} s" for s
    using that closing.wipe_leaves_nothing [of s] by (simp add: clean_but_def)
  from runShare_sess [OF assms(1)] consider (none) "w_sess w = None"
    | (early) code sess where "NewSession (se_argon2 en) code (se_key_rand en) = Inr sess" "w_sess w = Some (Close sess)"
    | (run) lv e s where "(share_start kdf en :: 'sp live option) = Some lv"
        "Run_result L (live_run L kdf evs lv) = Some (e, s)"
        "w_sess w = Some (Close (sh_sess (lv_sharer (outlasting L kdf en s (live_run L kdf evs lv)))))"
    by (elim disjE exE conjE) metis+
  then show ?thesis
  proof cases
    case early
    with wiped [of sess] sess_wf_NewSession [OF early(1)] show ?thesis by simp
  next
    case (run lv e s)
    let ?lv = "live_run L kdf evs lv"
    from run(1) obtain sess c z t p where lv: "lv = start_live kdf en sess c z t p"
      and new: "NewSession (se_argon2 en) c (se_key_rand en) = Inr sess"
      by (auto simp: share_start_def Let_def split: sum.splits prod.splits)
    have inputs: "session_inputs_ok L kdf en evs lv" using assms(2) run(1) by simp
    then have "events_ok L kdf evs lv" by (simp add: session_inputs_ok_def)
    from sharer_runs_reachable [OF live_sharer_runs [OF this [unfolded lv]] sharer_reachable.created [OF new]]
    have ok: "sharer_ok L (lv_sharer ?lv)"
      unfolding lv by (rule sharer_reachable_ok [OF _ assms(3)])
    have "live_inv ?lv" unfolding lv by (rule live_inv_run [OF live_inv_start])
    with outlasting_ok [OF inputs run(2) ok] wiped run(3) show ?thesis by (simp add: left_inv_def)
  qed simp
qed

text \<open>A whole session: when everything succeeds, the command returns once \<open>Run\<close> does.\<close>

definition calls_succeed :: "share_env \<Rightarrow> bool" where
  "calls_succeed en \<longleftrightarrow> se_write en = Written \<and> (\<forall>url ins. se_dial en url ins = None) \<and> se_get_err en = None
     \<and> se_set_err en = None \<and> se_mkdir_err en = None \<and> se_listen_err en = None"

lemma deferred_keeps:
  assumes "\<exists>w'. x = Some (r, w') \<and> P w'" and "\<And>w'. P w' \<Longrightarrow> P (f w')"
  shows "\<exists>w'. deferred f x = Some (r, w') \<and> P w'"
  using assms by (auto simp: deferred_def)

lemma share_succeeds:
  assumes "calls_succeed en" and "checkExistingSession h = (None, h1)"
    and "mget (h_files h) (SocketPath (h_tmp h) (se_pid en)) = None"
    and "Generate (se_code_rand en) = Inr code" "NewSession (se_argon2 en) (code_bytes code) (se_key_rand en) = Inr sess"
    and "share_start kdf en = Some lv" and "Run_result L (live_run L kdf evs lv) = Some (e, s)"
  shows "\<exists>w. runShare L kdf en evs url ins (new_world h tty) = Some (map_option RunFailed e, w)
    \<and> w_dials w = [(url @ ascii ''/api/share/'' @ SessionID sess, ins)]
    \<and> w_sess w = Some (Close (sh_sess (lv_sharer (outlasting L kdf en s (live_run L kdf evs lv)))))"
proof -
  let ?sess = "sh_sess (lv_sharer (outlasting L kdf en s (live_run L kdf evs lv)))"
  obtain cols rows where size: "outer_size (se_winsize en) = (cols, rows)" by fastforce
  let ?z = "\<lparr>sz_Cols = cols, sz_Rows = ptyRows rows\<rparr>"
  from assms(4-6) size obtain t where t: "Start [if se_shell en = [] then ascii ''/bin/sh'' else se_shell en] ?z (se_start en) = Inr t"
    and lv: "lv = start_live kdf en sess (code_bytes code) ?z t (share_probe0 en code)"
    by (auto simp: share_start_def Let_def split: sum.splits)
  have files: "mget (mput (pidFilePath h1) (Itoa (se_pid en)) (h_files h1)) (SocketPath (h_tmp h1) (se_pid en)) = None"
    using checkExistingSession_files(1) [OF assms(2)] assms(3) paths_distinct [of "h_tmp h" "se_pid en"]
    by (simp add: pidFilePath_def)
  have control: "\<exists>w'. share_control L kdf en evs sess (code_bytes code) ?z t (share_probe0 en code) w = Some (map_option RunFailed e, w')
      \<and> w_dials w' = w_dials w \<and> w_sess w' = Some ?sess"
    if "w_host w = h1\<lparr>h_files := mput (pidFilePath h1) (Itoa (se_pid en)) (h_files h1)\<rparr>" for w
    using that files assms(1,7) lv
    by (simp add: share_control_def share_NewServer_def NewIpcServer_def Let_def calls_succeed_def deferred_def close_ipc_def)
  have shell: "\<exists>w'. share_shell L kdf en evs sess (code_bytes code) ?z (share_probe0 en code) w = Some (map_option RunFailed e, w')
      \<and> w_dials w' = w_dials w \<and> w_sess w' = Some ?sess"
    if "w_host w = h1\<lparr>h_files := mput (pidFilePath h1) (Itoa (se_pid en)) (h_files h1)\<rparr>" for w
  proof -
    from control [of "w\<lparr>w_term := Some t\<rparr>"] that
    have "\<exists>w'. share_control L kdf en evs sess (code_bytes code) ?z t (share_probe0 en code) (w\<lparr>w_term := Some t\<rparr>)
        = Some (map_option RunFailed e, w') \<and> w_dials w' = w_dials w \<and> w_sess w' = Some ?sess" by simp
    from deferred_keeps [OF this, of "close_term en"] t show ?thesis
      by (simp add: share_shell_def Let_def close_term_def split: option.split)
  qed
  have "\<exists>w'. share_terminal L kdf en evs url code sess w = Some (map_option RunFailed e, w')
      \<and> w_dials w' = w_dials w \<and> w_sess w' = Some ?sess"
    if host: "w_host w = h1\<lparr>h_files := mput (pidFilePath h1) (Itoa (se_pid en)) (h_files h1)\<rparr>" for w
  proof -
    obtain tty' where raw: "setRawMode (se_consts en) (se_get_err en) (se_set_err en) (w_tty w) = (Inr (w_tty w), tty')"
      using assms(1) by (simp add: setRawMode_def calls_succeed_def Let_def)
    have "\<exists>w'. share_shell L kdf en evs sess (code_bytes code) ?z (share_probe0 en code)
          (w\<lparr>w_tty := tty', w_screen := scr, w_bar := Some b\<rparr>)
        = Some (map_option RunFailed e, w') \<and> w_dials w' = w_dials w \<and> w_sess w' = Some ?sess" for scr b
      using shell [of "w\<lparr>w_tty := tty', w_screen := scr, w_bar := Some b\<rparr>"] host by simp
    from deferred_keeps [OF deferred_keeps [OF this, of "leave_bar rows"],
        of "\<lambda>w1. w1\<lparr>w_tty := restoreTerminal (se_restore_err en) (w_tty w) (w_tty w1)\<rparr>"]
    show ?thesis
      using raw size by (simp add: share_terminal_def share_probe0_def Let_def leave_bar_def split: option.split)
  qed
  from this [of "(new_world h tty)\<lparr>w_host := h1\<lparr>h_files := mput (pidFilePath h1) (Itoa (se_pid en)) (h_files h1)\<rparr>, w_sess := Some sess,
      w_dials := [(url @ ascii ''/api/share/'' @ SessionID sess, ins)], w_conn := True\<rparr>"]
  show ?thesis
    using assms(1,2,4,5)
    by (auto simp: runShare_def share_session_def share_relay_def Let_def deferred_def new_world_def writePIDFile_def calls_succeed_def)
qed

section \<open>A concrete session\<close>

definition ex_share :: share_env where
  "ex_share =
     \<lparr>se_pid = 42, se_write = Written, se_code_rand = replicate 6 (Some 0), se_argon2 = ex_argon,
      se_key_rand = Some (replicate 32 7), se_dial = (\<lambda>_ _. None), se_shell = [], se_winsize = Some (100, 30),
      se_consts = linux_consts, se_get_err = None, se_set_err = None, se_restore_err = None, se_start = Inr 77,
      se_exit = None, se_mkdir_err = None, se_listen_err = None, se_size_now = 0, se_size_err = None,
      se_late = [], se_later = []\<rparr>"

definition ex_share_host :: host where
  "ex_share_host = \<lparr>h_tmp = runes ''/tmp'', h_files = [(runes ''/tmp/notes'', [])], h_dirs = [], h_alive = (\<lambda>_. False)\<rparr>"

definition ex_en :: spake_env where
  "ex_en = \<lparr>en_rand = [], en_now = 0, en_send = None\<rparr>"

text \<open>A session that is stopped at once.\<close>

definition ex_stop :: "share_event list" where
  "ex_stop = [Cancelled, TermCloses, RelaySends 0 ex_en [] (Inl ''cancelled''),
     ShellPrints 0 [] (Some (Some ''closed'')) (0, None) None]"

lemma start_live_facts:
  "lv_relay (start_live kdf en sess code z term probe)" "lv_output (start_live kdf en sess code z term probe)"
  "lv_ends (start_live kdf en sess code z term probe) = []"
  "sh_joining (lv_sharer (start_live kdf en sess code z term probe)) = None"
  "\<not> cx_cancelled (lv_outer (start_live kdf en sess code z term probe))"
  "sh_viewerIDMap (lv_sharer (start_live kdf en sess code z term probe)) = []"
  by (simp_all add: start_live_def new_live_def Let_def joining_steps NewSharer_def
      quiet_size [unfolded quiet_def, THEN conjunct1])

lemma ex_stop_ok: "events_ok L ex_kdf ex_stop (start_live ex_kdf en sess code z t p)"
proof -
  have "fresh_id s []" for s by (simp add: fresh_id_def GenerateViewerID_def numeral_eq_Suc split: sum.split)
  then show ?thesis
    by (simp add: ex_stop_def event_act_def ex_en_def range_order_def live_step_def start_live_facts
        split: prod.split)
qed

lemma ex_share_starts:
  "\<exists>code sess lv. Generate (se_code_rand ex_share) = Inr code
    \<and> NewSession (se_argon2 ex_share) (code_bytes code) (se_key_rand ex_share) = Inr sess \<and> s_viewers sess = []
    \<and> share_start ex_kdf ex_share = Some (lv :: bytes live)
    \<and> (\<exists>z t p. lv = start_live ex_kdf ex_share sess (code_bytes code) z t p)"
  using ex_code
  by (simp add: share_start_def ex_share_def NewSession_def GenerateStreamKey_cases outer_size_def Let_def Start_def) blast

lemma ex_stop_returns:
  "\<exists>s. Run_result ex_spake (live_run ex_spake ex_kdf ex_stop (start_live ex_kdf ex_share sess code z t p)) = Some (None, s)"
proof -
  let ?lv = "start_live ex_kdf ex_share sess code z t p :: bytes live"
  have "sh_joining (lv_sharer (live_run ex_spake ex_kdf ([] @ Cancelled # []) ?lv)) = None"
    by (simp add: live_step_def start_live_facts)
  from stopped_run_returns [OF refl this, of 0 ex_en "[]" "''cancelled''" 0 "[]" "Some ''closed''" "(0, None)" None]
  show ?thesis by (simp add: ex_stop_def Let_def)
qed

lemma ex_share_returns:
  "\<exists>w. runShare ex_spake ex_kdf ex_share ex_stop (ascii ''wss://relay.example'') False (new_world ex_share_host cooked_tty)
      = Some (None, w) \<and> w_sess w \<noteq> None \<and> w_dials w \<noteq> []"
proof -
  from ex_share_starts obtain code sess lv where *: "Generate (se_code_rand ex_share) = Inr code"
    "NewSession (se_argon2 ex_share) (code_bytes code) (se_key_rand ex_share) = Inr sess"
    "share_start ex_kdf ex_share = Some (lv :: bytes live)"
    and lv: "\<exists>z t p. lv = start_live ex_kdf ex_share sess (code_bytes code) z t p" by blast
  from lv ex_stop_returns obtain s where "Run_result ex_spake (live_run ex_spake ex_kdf ex_stop lv) = Some (None, s)" by blast
  moreover have "calls_succeed ex_share" by (simp add: calls_succeed_def ex_share_def)
  moreover have "mget (h_files ex_share_host) (SocketPath (h_tmp ex_share_host) (se_pid ex_share)) = None"
    "checkExistingSession ex_share_host = (None, ex_share_host)"
    by (simp_all add: ex_share_host_def SocketPath_lw checkExistingSession_def pidFilePath_def runes_def)
  ultimately show ?thesis
    using share_succeeds [of ex_share ex_share_host ex_share_host code sess ex_kdf lv ex_spake ex_stop None s] * by force
qed

theorem share_cleans_up_witness:
  "\<exists>w. runShare ex_spake ex_kdf ex_share ex_stop (ascii ''wss://relay.example'') False (new_world ex_share_host cooked_tty)
      = Some (None, w) \<and> w_tty w = cooked_tty \<and> w_sess w \<noteq> None \<and> sess_closed w \<and> term_closed w \<and> ipc_closed w
    \<and> mget (h_files (w_host w)) = (mget (h_files ex_share_host))(pidFilePath ex_share_host := None)"
proof -
  from ex_share_returns obtain w where w:
    "runShare ex_spake ex_kdf ex_share ex_stop (ascii ''wss://relay.example'') False (new_world ex_share_host cooked_tty) = Some (None, w)"
    "w_sess w \<noteq> None" by blast
  moreover have "se_restore_err ex_share = None" by (simp add: ex_share_def)
  ultimately show ?thesis using share_cleans_up [OF w(1)] by auto
qed

theorem share_leaves_no_key_witness:
  "\<exists>w sess. runShare ex_spake ex_kdf ex_share ex_stop (ascii ''wss://relay.example'') False (new_world ex_share_host cooked_tty)
      = Some (None, w) \<and> w_sess w = Some sess \<and> list_all all_zero (s_mem sess)"
proof -
  from ex_share_returns obtain w sess where w:
    "runShare ex_spake ex_kdf ex_share ex_stop (ascii ''wss://relay.example'') False (new_world ex_share_host cooked_tty) = Some (None, w)"
    "w_sess w = Some sess" by blast
  from ex_share_starts obtain code s0 lv z t p where lv: "share_start ex_kdf ex_share = Some (lv :: bytes live)"
    "lv = start_live ex_kdf ex_share s0 (code_bytes code) z t p" by blast
  have "events_ok ex_spake ex_kdf ex_stop lv" unfolding lv(2) by (rule ex_stop_ok)
  then have "session_inputs_ok ex_spake ex_kdf ex_share ex_stop lv"
    by (simp add: session_inputs_ok_def ex_share_def Let_def split: option.split)
  with share_leaves_no_key [OF w(1) _ ex_wiping] lv(1) w show ?thesis by auto
qed


theorem lost_relay_waits_for_the_shell_witness:
  "let lv1 = live_run ex_spake ex_kdf [RelaySends 0 ex_en [] (Inl ''gone''), HeartbeatDue 1 (Some ''gone''), FirstErrorTaken]
        (start_live ex_kdf ex_share ex_sess0 [1] \<lparr>sz_Cols = 100, sz_Rows = 29\<rparr>
          (case Start [[1]] \<lparr>sz_Cols = 100, sz_Rows = 29\<rparr> (Inr 77) of Inr t \<Rightarrow> t) (newSharerProbe 100 30 [49]));
      lv2 = live_run ex_spake ex_kdf [ShellPrints 2 [104, 105] None (2, None) (Some ''gone''), FirstErrorTaken] lv1
    in Run_result ex_spake lv1 = None \<and> t_open (lv_term lv1) \<and> (\<exists>s. Run_result ex_spake lv2 = Some (None, s))"
proof -
  let ?t = "case Start [[1]] \<lparr>sz_Cols = 100, sz_Rows = 29\<rparr> (Inr 77) of Inr t \<Rightarrow> t"
  let ?lv = "start_live ex_kdf ex_share ex_sess0 [1] \<lparr>sz_Cols = 100, sz_Rows = 29\<rparr> ?t (newSharerProbe 100 30 [49]) :: bytes live"
  have "t_open (lv_term ?lv)" by (simp add: start_live_def new_live_def Let_def Start_def)
  with lost_relay_waits_for_the_shell [of ?lv "[HeartbeatDue 1 (Some ''gone''), FirstErrorTaken]" "[104, 105]" ex_spake ex_kdf
      0 ex_en "[]" "''gone''" 2 "''gone''"]
  show ?thesis by (simp add: start_live_facts Let_def numeral_2_eq_2)
qed

theorem stop_ends_the_session_witness:
  "let lv = live_run ex_spake ex_kdf [ShellPrints 0 [36] None (1, None) None, Cancelled, KeysTyped (1, None)]
        (start_live ex_kdf ex_share ex_sess0 [1] \<lparr>sz_Cols = 100, sz_Rows = 29\<rparr>
          (case Start [[1]] \<lparr>sz_Cols = 100, sz_Rows = 29\<rparr> (Inr 77) of Inr t \<Rightarrow> t) (newSharerProbe 100 30 [49]));
      lv' = live_run ex_spake ex_kdf [TermCloses, RelaySends 1 ex_en [] (Inl ''cancelled''), ShellPrints 1 [] (Some (Some ''closed'')) (0, None) None] lv
    in \<not> t_open (lv_term lv') \<and> (\<exists>s. Run_result ex_spake lv' = Some (None, s))"
proof -
  let ?lv0 = "start_live ex_kdf ex_share ex_sess0 [1] \<lparr>sz_Cols = 100, sz_Rows = 29\<rparr>
          (case Start [[1]] \<lparr>sz_Cols = 100, sz_Rows = 29\<rparr> (Inr 77) of Inr t \<Rightarrow> t) (newSharerProbe 100 30 [49]) :: bytes live"
  let ?lv = "live_run ex_spake ex_kdf ([ShellPrints 0 [36] None (1, None) None] @ Cancelled # [KeysTyped (1, None)]) ?lv0"
  have "sh_joining (lv_sharer ?lv) = None"
    by (simp add: live_step_def output_step_live start_live_facts)
  from stop_ends_the_session [OF refl this, of 1 ex_en "[]" "''cancelled''" 1 "[]" "Some ''closed''" "(0, None)" None]
  show ?thesis by (simp add: Let_def)
qed

end
