(* ===== verification/Join.thy ===== *)
theory Join
  imports Viewer_Props Relay Share_Props
begin

text \<open>
  \<open>cmd/lw/join.go\<close>, \<open>cmd/lw/joinprobe.go\<close> and \<open>cmd/lw/main.go\<close>: the command \<open>lw join\<close>, from the code
  that the user types to the exit status. What the command and its bar print is a log, in order; what the
  viewer writes to the same terminal is kept apart, because the viewer's model has a log of its own.
\<close>

section \<open>The status bar of a viewer\<close>

definition join_content :: "gotext \<Rightarrow> gotext \<Rightarrow> gotext" where
  "join_content normalized sfx =
     runes ''lw | watching '' @ bold normalized @ sfx @ runes '' | Ctrl+C to quit''"

text \<open>The bar and \<open>sizeSuffix\<close>, which its content shows.\<close>

record join_ui =
  ju_bar :: "gotext statusBar"
  ju_suffix :: gotext

definition newJoinBar :: "u16 \<Rightarrow> u16 \<Rightarrow> gotext \<Rightarrow> join_ui" where
  "newJoinBar cols totalRows normalized =
     \<lparr>ju_bar = newStatusBar \<lparr>cfg_cols = cols, cfg_totalRows = totalRows, cfg_color = colorWarningAmber,
                            cfg_content = join_content normalized\<rparr>,
      ju_suffix = []\<rparr>"

definition tryResizeTerminal :: "u16 \<Rightarrow> u16 \<Rightarrow> gotext" where
  "tryResizeTerminal cols rows =
     esc ''[8;'' @ decimal (unat rows) @ runes '';'' @ decimal (unat cols) @ runes ''t''"

text \<open>The resize handler; \<open>ws\<close> is the size that the terminal has 50 ms after it was asked to resize.\<close>

definition join_resize :: "u16 \<Rightarrow> (u16 \<times> u16) option \<Rightarrow> u16 \<Rightarrow> u16 \<Rightarrow> join_ui \<Rightarrow> join_ui" where
  "join_resize outerRows ws cols rows ui =
     (let ui1 = ui\<lparr>ju_bar := bar_print (tryResizeTerminal cols outerRows) (ju_bar ui)\<rparr>
      in case ws of
           None \<Rightarrow> ui1
         | Some (wcols, wrows) \<Rightarrow>
             (let sfx = (if wcols \<noteq> cols then runes '' [resize to '' @ decimal (unat cols) @ runes '' cols]'' else [])
              in ui1\<lparr>ju_suffix := sfx, ju_bar := bar_Resize wcols wrows sfx (ju_bar ui1)\<rparr>))"

text \<open>
  The methods of \<open>viewerStatusBarProbe\<close>. The resize handler is called right after the probe is told of
  the new size, so it is part of that call here.
\<close>

definition join_event :: "u16 \<Rightarrow> (u16 \<times> u16) option \<Rightarrow> viewer_probe \<Rightarrow> join_ui \<Rightarrow> join_ui" where
  "join_event outerRows ws call ui =
     (case call of
        HandshakeCompleted viewerID \<Rightarrow> ui\<lparr>ju_bar := bar_print (13 # esc ''[K'') (ju_bar ui)\<rparr>
      | FrameDecrypted epoch n \<Rightarrow> ui\<lparr>ju_bar := Draw (ju_suffix ui) (ju_bar ui)\<rparr>
      | TerminalResized cols rows \<Rightarrow> join_resize outerRows ws cols rows ui
      | _ \<Rightarrow> ui)"

text \<open>The calls of a viewer in order; \<open>sizes\<close> gives the terminal's size at each.\<close>

fun join_events :: "u16 \<Rightarrow> (nat \<Rightarrow> (u16 \<times> u16) option) \<Rightarrow> viewer_probe list \<Rightarrow> join_ui \<Rightarrow> join_ui" where
  "join_events outerRows sizes [] ui = ui"
| "join_events outerRows sizes (call # calls) ui =
     join_events outerRows (sizes \<circ> Suc) calls (join_event outerRows (sizes 0) call ui)"

section \<open>The command\<close>

datatype join_error =
    JoinBadRelay url_error
  | InvalidCode code_error
  | JoinNoRelay bytes
  | JoinRawMode string
  | ViewerFailed viewer_error

record join_env =
  je_low :: "rune \<Rightarrow> rune"
  je_argon2 :: argon2
  je_dial :: "bytes \<Rightarrow> bool \<Rightarrow> string option"
  je_winsize :: "(u16 \<times> u16) option"
  je_sizes :: "nat \<Rightarrow> (u16 \<times> u16) option"
  je_consts :: "32 word tty_consts"
  je_get_err :: "string option"
  je_set_err :: "string option"
  je_restore_err :: "string option"
  je_send_errs :: "nat \<Rightarrow> string option"

record join_world =
  jw_tty :: "32 word termios"
  jw_stdout :: "terminal_write list"
  jw_stderr :: gotext
  jw_dials :: "(bytes \<times> bool) list"
  jw_conn :: bool
  jw_ui :: "join_ui option"
  jw_viewer :: "Viewer option"

definition new_join_world :: "32 word termios \<Rightarrow> join_world" where
  "new_join_world tty =
     \<lparr>jw_tty = tty, jw_stdout = [], jw_stderr = [], jw_dials = [], jw_conn = False, jw_ui = None, jw_viewer = None\<rparr>"

definition eprint :: "gotext \<Rightarrow> join_world \<Rightarrow> join_world" where
  "eprint s w = w\<lparr>jw_stderr := jw_stderr w @ s\<rparr>"

definition oprint :: "gotext \<Rightarrow> join_world \<Rightarrow> join_world" where
  "oprint s w = w\<lparr>jw_stdout := jw_stdout w @ [BarOut s]\<rparr>"

definition join_leave_bar :: "u16 \<Rightarrow> join_world \<Rightarrow> join_world" where
  "join_leave_bar outerRows w =
     oprint (clearLine outerRows) (oprint resetScrollRegion
       (w\<lparr>jw_ui := map_option (\<lambda>ui. ui\<lparr>ju_bar := bar_Close (ju_bar ui)\<rparr>) (jw_ui w)\<rparr>))"

text \<open>The end of the command: what it prints for each error of \<open>Run\<close>, and what it returns.\<close>

definition join_outcome :: "viewer_error option \<Rightarrow> join_world \<Rightarrow> join_error option \<times> join_world" where
  "join_outcome err w =
     (case err of
        None \<Rightarrow> (None, w)
      | Some ErrSessionNotFound \<Rightarrow> (Some (ViewerFailed ErrSessionNotFound), eprint (runes ''error: session not found'' @ [10]) w)
      | Some ErrHandshakeTimeout \<Rightarrow> (Some (ViewerFailed ErrHandshakeTimeout), eprint (runes ''error: handshake timed out'' @ [10]) w)
      | Some ErrSessionEnded \<Rightarrow> (None, oprint (runes ''session ended by sharer'' @ [10]) w)
      | Some ErrConnectionLost \<Rightarrow> (Some (ViewerFailed ErrConnectionLost), eprint (runes ''session lost (connection dropped)'' @ [10]) w)
      | Some ErrAccessRevoked \<Rightarrow> (Some (ViewerFailed ErrAccessRevoked), eprint (runes ''access revoked'' @ [10]) w)
      | Some e \<Rightarrow> (Some (ViewerFailed e), w))"

text \<open>
  While the terminal is raw: the bar, then the viewer with the messages \<open>ins\<close>, then the end. \<open>old\<close>
  are the attributes to go back to; the deferred calls restore and clear once more.
\<close>

definition join_view ::
  "'sp spake_lib \<Rightarrow> kdf \<Rightarrow> join_env \<Rightarrow> (time \<times> recv_result) list \<Rightarrow> gotext \<Rightarrow> u16 \<times> u16 \<Rightarrow> 32 word termios
    \<Rightarrow> join_world \<Rightarrow> (join_error option \<times> join_world) option" where
  "join_view L kdf en ins normalized outer old w =
     (let (outerCols, outerRows) = outer;
          ui0 = newJoinBar outerCols outerRows normalized;
          ui = ui0\<lparr>ju_bar := Draw [] (SetScrollRegion (ju_bar ui0))\<rparr>;
          w1 = oprint (esc ''[2J'' @ esc ''[H'') w;
          v = SetResizeHandler (NewViewer (code_bytes normalized) ClientByteCLI)
      in deferred (join_leave_bar outerRows)
           (case Run L kdf (je_send_errs en) ins v of
              Some (Returned err, v1) \<Rightarrow>
                (let ui1 = join_events outerRows (je_sizes en) (vw_probes v1) ui;
                     w2 = w1\<lparr>jw_ui := Some ui1, jw_viewer := Some v1, jw_stdout := jw_stdout w1 @ sb_out (ju_bar ui1),
                             jw_tty := restoreTerminal (je_restore_err en) old (jw_tty w1)\<rparr>
                 in Some (join_outcome err (oprint (clearLine outerRows) (oprint resetScrollRegion w2))))
            | _ \<Rightarrow> None))"

definition runJoin ::
  "'sp spake_lib \<Rightarrow> kdf \<Rightarrow> join_env \<Rightarrow> (time \<times> recv_result) list \<Rightarrow> gotext \<Rightarrow> bytes \<Rightarrow> bool \<Rightarrow> join_world
    \<Rightarrow> (join_error option \<times> join_world) option" where
  "runJoin L kdf en ins rawCode relayURL insecure w =
     (case Normalize (je_low en) rawCode of
        Inl e \<Rightarrow> Some (Some (InvalidCode e), w)
      | Inr normalized \<Rightarrow>
          (let sessionID = DeriveSessionID (je_argon2 en) (code_bytes normalized);
               watchURL = relayURL @ ascii ''/api/watch/'' @ sessionID;
               w1 = (eprint (runes ''connecting'' @ [0x2026]) w)\<lparr>jw_dials := jw_dials w @ [(watchURL, insecure)]\<rparr>
           in case dialRelay (je_dial en) watchURL insecure of
                Some e \<Rightarrow> Some (Some (JoinNoRelay relayURL), eprint [10] w1)
              | None \<Rightarrow>
                  deferred (\<lambda>w. w\<lparr>jw_conn := False\<rparr>)
                    (case setRawMode (je_consts en) (je_get_err en) (je_set_err en) (jw_tty w1) of
                       (Inl e, tty) \<Rightarrow> Some (Some (JoinRawMode e), w1\<lparr>jw_conn := True, jw_tty := tty\<rparr>)
                     | (Inr old, tty) \<Rightarrow>
                         deferred (\<lambda>w. w\<lparr>jw_tty := restoreTerminal (je_restore_err en) old (jw_tty w)\<rparr>)
                           (join_view L kdf en ins normalized (outer_size (je_winsize en)) old
                              (w1\<lparr>jw_conn := True, jw_tty := tty\<rparr>)))))"

definition newJoinCmd ::
  "'sp spake_lib \<Rightarrow> kdf \<Rightarrow> join_env \<Rightarrow> (time \<times> recv_result) list \<Rightarrow> gotext \<Rightarrow> bytes \<Rightarrow> bool \<Rightarrow> join_world
    \<Rightarrow> (join_error option \<times> join_world) option" where
  "newJoinCmd L kdf en ins rawCode relayURL insecure w =
     (case check_relay insecure relayURL of
        Some e \<Rightarrow> Some (Some (JoinBadRelay e), w)
      | None \<Rightarrow> runJoin L kdf en ins rawCode relayURL insecure w)"

text \<open>
  \<open>main\<close>: the error of the command is printed and makes the exit status 1. \<open>text\<close> is the text of
  the error.
\<close>

definition main_end :: "'e option \<Rightarrow> ('e \<Rightarrow> gotext) \<Rightarrow> gotext \<Rightarrow> nat \<times> gotext" where
  "main_end err text stderr =
     (case err of
        None \<Rightarrow> (0, stderr)
      | Some e \<Rightarrow> (1, stderr @ runes ''error: '' @ text e @ [10]))"

section \<open>Cleaning up\<close>

lemma print_simps [simp]:
  "jw_tty (eprint s w) = jw_tty w" "jw_conn (eprint s w) = jw_conn w" "jw_viewer (eprint s w) = jw_viewer w"
  "jw_ui (eprint s w) = jw_ui w" "jw_stdout (eprint s w) = jw_stdout w" "jw_dials (eprint s w) = jw_dials w"
  "jw_stderr (eprint s w) = jw_stderr w @ s"
  "jw_tty (oprint s w) = jw_tty w" "jw_conn (oprint s w) = jw_conn w" "jw_viewer (oprint s w) = jw_viewer w"
  "jw_ui (oprint s w) = jw_ui w" "jw_stderr (oprint s w) = jw_stderr w" "jw_dials (oprint s w) = jw_dials w"
  "jw_stdout (oprint s w) = jw_stdout w @ [BarOut s]"
  by (simp_all add: eprint_def oprint_def)

lemma outcome_simps [simp]:
  "jw_tty (snd (join_outcome err w)) = jw_tty w" "jw_conn (snd (join_outcome err w)) = jw_conn w"
  "jw_viewer (snd (join_outcome err w)) = jw_viewer w" "jw_ui (snd (join_outcome err w)) = jw_ui w"
  "jw_dials (snd (join_outcome err w)) = jw_dials w"
  "fst (join_outcome err w) = (if err = None \<or> err = Some ErrSessionEnded then None else map_option ViewerFailed err)"
  by (simp_all add: join_outcome_def split: option.split viewer_error.split)

lemma leave_simps [simp]:
  "jw_tty (join_leave_bar r w) = jw_tty w" "jw_conn (join_leave_bar r w) = jw_conn w"
  "jw_viewer (join_leave_bar r w) = jw_viewer w" "jw_dials (join_leave_bar r w) = jw_dials w"
  "jw_stderr (join_leave_bar r w) = jw_stderr w"
  "jw_stdout (join_leave_bar r w) = jw_stdout w @ [BarOut resetScrollRegion, BarOut (clearLine r)]"
  by (simp_all add: join_leave_bar_def)

text \<open>How \<open>join_view\<close> ends, when it does.\<close>

lemma join_view_cases:
  assumes "join_view L kdf en ins normalized outer old w = Some (r, w')"
  obtains err v w2 w3 where
    "Run L kdf (je_send_errs en) ins (SetResizeHandler (NewViewer (code_bytes normalized) ClientByteCLI)) = Some (Returned err, v)"
    "join_outcome err w2 = (r, w3)" "w' = join_leave_bar (snd outer) w3"
    "jw_tty w2 = restoreTerminal (je_restore_err en) old (jw_tty w)" "jw_viewer w2 = Some v"
    "jw_stderr w2 = jw_stderr w" "jw_dials w2 = jw_dials w"
proof -
  let ?v0 = "SetResizeHandler (NewViewer (code_bytes normalized) ClientByteCLI)"
  from assms obtain err v where run: "Run L kdf (je_send_errs en) ins ?v0 = Some (Returned err, v)"
    by (auto simp: join_view_def Let_def deferred_def split: prod.splits option.splits loop_end.splits)
  from assms run have "\<exists>w2 w3. join_outcome err w2 = (r, w3) \<and> w' = join_leave_bar (snd outer) w3
      \<and> jw_tty w2 = restoreTerminal (je_restore_err en) old (jw_tty w) \<and> jw_viewer w2 = Some v
      \<and> jw_stderr w2 = jw_stderr w \<and> jw_dials w2 = jw_dials w"
    by (cases outer) (simp add: join_view_def Let_def deferred_Some, elim exE conjE, intro exI conjI, assumption, simp_all)
  with run that show ?thesis by blast
qed

text \<open>The states in which \<open>runJoin\<close> may return.\<close>

lemma runJoin_cases:
  assumes "runJoin L kdf en ins rawCode url secure (new_join_world tty) = Some (r, w)"
  obtains
    (code) e where "Normalize (je_low en) rawCode = Inl e" "r = Some (InvalidCode e)" "w = new_join_world tty"
  | (early) normalized where "Normalize (je_low en) rawCode = Inr normalized"
      "(\<exists>e. r = Some (JoinNoRelay e)) \<or> (\<exists>e. r = Some (JoinRawMode e))" "jw_tty w = tty" "\<not> jw_conn w" "jw_viewer w = None"
      "jw_dials w = [(url @ ascii ''/api/watch/'' @ DeriveSessionID (je_argon2 en) (code_bytes normalized), secure)]"
  | (viewed) normalized err v w2 where "Normalize (je_low en) rawCode = Inr normalized"
      "Run L kdf (je_send_errs en) ins (SetResizeHandler (NewViewer (code_bytes normalized) ClientByteCLI)) = Some (Returned err, v)"
      "r = fst (join_outcome err w2)" "jw_stderr w = jw_stderr (snd (join_outcome err w2))"
      "jw_stderr w2 = runes ''connecting'' @ [0x2026]"
      "je_restore_err en = None \<Longrightarrow> jw_tty w = tty" "\<not> jw_conn w" "jw_viewer w = Some v"
      "jw_dials w = [(url @ ascii ''/api/watch/'' @ DeriveSessionID (je_argon2 en) (code_bytes normalized), secure)]"
proof (cases "Normalize (je_low en) rawCode")
  case (Inl e)
  then show ?thesis using assms by (intro code) (auto simp: runJoin_def)
next
  case (Inr normalized)
  let ?url = "url @ ascii ''/api/watch/'' @ DeriveSessionID (je_argon2 en) (code_bytes normalized)"
  let ?w1 = "(eprint (runes ''connecting'' @ [0x2026]) (new_join_world tty))\<lparr>jw_dials := [(?url, secure)]\<rparr>"
  show ?thesis
  proof (cases "je_dial en ?url secure")
    case (Some e)
    with assms Inr show ?thesis
      by (intro early [OF Inr]) (auto simp: runJoin_def Let_def new_join_world_def eprint_def)
  next
    case None
    obtain x tty' where raw: "setRawMode (je_consts en) (je_get_err en) (je_set_err en) tty = (x, tty')" by fastforce
    show ?thesis
    proof (cases x)
      case (Inl e)
      then have "tty' = tty" using raw linux_terminal.enter_fails by blast
      with assms Inr None raw Inl show ?thesis
        by (intro early [OF Inr]) (auto simp: runJoin_def Let_def new_join_world_def eprint_def deferred_Some)
    next
      case old: (Inr old)
      then have o: "old = tty" using raw linux_terminal.enter_saves by blast
      from assms Inr None raw old obtain w0 where
        w0: "join_view L kdf en ins normalized (outer_size (je_winsize en)) old (?w1\<lparr>jw_conn := True, jw_tty := tty'\<rparr>) = Some (r, w0)"
        and w: "w = w0\<lparr>jw_tty := restoreTerminal (je_restore_err en) old (jw_tty w0), jw_conn := False\<rparr>"
        by (auto simp: runJoin_def Let_def new_join_world_def eprint_def deferred_Some)
      show ?thesis
        using w0
      proof (cases rule: join_view_cases)
        case (1 err v w2 w3)
        have "r = fst (join_outcome err w2)" "w3 = snd (join_outcome err w2)" using 1(2) by simp_all
        with 1 w o show ?thesis
          by (intro viewed [OF Inr 1(1)]) (auto simp: restoreTerminal_def new_join_world_def)
      qed
    qed
  qed
qed


text \<open>
  C13. \<open>lw join\<close> cleans up, however it ends. When it returns, the connection is closed and the terminal has its
  attributes back, unless setting them back fails after they had been changed, which the command ignores. When
  it returns before there is a viewer, the exit status is 1. Otherwise the viewer was the one that the
  command made for the code in its canonical form, its \<open>Run\<close> has returned, every key buffer of it is zero, and
  the exit status is 0 when \<open>Run\<close> returned no error or that the sharer ended the session, else 1.
\<close>

theorem join_cleans_up:
  assumes "runJoin L kdf en ins rawCode relayURL insecure (new_join_world tty) = Some (r, w)"
  shows "\<not> jw_conn w \<and> (jw_viewer w = None \<or> je_restore_err en = None \<longrightarrow> jw_tty w = tty)
    \<and> (case jw_viewer w of
         None \<Rightarrow> fst (main_end r text (jw_stderr w)) = 1
       | Some v \<Rightarrow>
           \<exists>normalized err. Normalize (je_low en) rawCode = Inr normalized
             \<and> Run L kdf (je_send_errs en) ins (SetResizeHandler (NewViewer (code_bytes normalized) ClientByteCLI))
                 = Some (Returned err, v)
             \<and> list_all all_zero (vw_mem v)
             \<and> fst (main_end r text (jw_stderr w)) = (if err = None \<or> err = Some ErrSessionEnded then 0 else 1))"
  using assms(1)
proof (cases rule: runJoin_cases)
  case (viewed normalized err v w2)
  have "list_all all_zero (vw_mem v)"
    using Run_wipes [OF viewed(2) keyless_SetResizeHandler] .
  moreover have "fst (main_end r text (jw_stderr w)) = (if err = None \<or> err = Some ErrSessionEnded then 0 else 1)"
    unfolding viewed(3) by (cases err) (auto simp: main_end_def)
  ultimately show ?thesis using viewed by auto
qed (auto simp: new_join_world_def main_end_def)

section \<open>What the user reads\<close>

text \<open>The texts of the errors; those of the viewer that are not values of \<open>errors.New\<close> are \<open>detail\<close>.\<close>

definition join_error_text :: "(code_error \<Rightarrow> gotext) \<Rightarrow> (viewer_error \<Rightarrow> gotext) \<Rightarrow> join_error \<Rightarrow> gotext" where
  "join_error_text code_text detail e =
     (case e of
        JoinBadRelay u \<Rightarrow> url_error_text u
      | InvalidCode c \<Rightarrow> runes ''invalid code: '' @ code_text c
      | JoinNoRelay url \<Rightarrow>
          runes ''could not reach relay at '' @ go_string url @ [32, 0x2014] @ runes '' check your connection''
      | JoinRawMode t \<Rightarrow> runes ''setting raw mode: '' @ runes t
      | ViewerFailed ErrSessionNotFound \<Rightarrow> runes ''session not found''
      | ViewerFailed ErrSessionFull \<Rightarrow> runes ''session full''
      | ViewerFailed ErrHandshakeTimeout \<Rightarrow> runes ''handshake timed out''
      | ViewerFailed ErrSessionEnded \<Rightarrow> runes ''session ended by sharer''
      | ViewerFailed ErrConnectionLost \<Rightarrow> runes ''session lost (connection dropped)''
      | ViewerFailed ErrAccessRevoked \<Rightarrow> runes ''access revoked''
      | ViewerFailed ErrEpochExpired \<Rightarrow> runes ''epoch grace period expired''
      | ViewerFailed e \<Rightarrow> detail e)"

text \<open>
  The usual failures are reported twice. When the session is not found, the handshake times out,
  the connection is lost or the access revoked, \<open>lw join\<close> prints a message and returns the error, which
  \<open>main\<close> prints again: after \<open>connecting\<close> the standard error has both lines.
\<close>

theorem join_reports_twice:
  assumes "runJoin L kdf en ins rawCode relayURL insecure (new_join_world tty) = Some (r, w)"
    and "r = Some (ViewerFailed e)"
    and "e \<in> {ErrSessionNotFound, ErrHandshakeTimeout, ErrConnectionLost, ErrAccessRevoked}"
  shows "\<exists>pre. (pre = [] \<or> pre = runes ''error: '') \<and>
    main_end r (join_error_text code_text detail) (jw_stderr w) =
      (1, runes ''connecting'' @ [0x2026]
          @ pre @ join_error_text code_text detail (ViewerFailed e) @ [10]
          @ runes ''error: '' @ join_error_text code_text detail (ViewerFailed e) @ [10])"
  using assms(1)
proof (cases rule: runJoin_cases)
  case (viewed normalized err v w2)
  then have err: "err = Some e" using assms(2) by (auto split: if_splits option.splits)
  have split: "runes ''error: session not found'' = runes ''error: '' @ runes ''session not found''"
    "runes ''error: handshake timed out'' = runes ''error: '' @ runes ''handshake timed out''"
    by (simp_all add: runes_def)
  have printed: "jw_stderr w = runes ''connecting'' @ [0x2026] @ pre @ join_error_text code_text detail (ViewerFailed e) @ [10]
      \<Longrightarrow> ?thesis" if "pre = [] \<or> pre = runes ''error: ''" for pre
    using that assms(2) by (intro exI [of _ pre]) (simp add: main_end_def)
  from assms(3) consider "e = ErrSessionNotFound" | "e = ErrHandshakeTimeout" | "e = ErrConnectionLost" | "e = ErrAccessRevoked"
    by blast
  then show ?thesis
    by cases (rule printed [of "runes ''error: ''"] printed [of "[]"];
      simp add: viewed(4,5) err join_outcome_def join_error_text_def split)+
qed (use assms(2) in auto)

section \<open>Sharer and viewer meet\<close>

text \<open>
  The relay accepts every session ID that a sharer can have, if Argon2 returns as many bytes as it is asked
  for; and sharer and viewer derive the same one from the same code.
\<close>

theorem session_id_is_accepted:
  assumes "\<And>pw salt t m p n. length (argon2 pw salt t m p n) = n" and "NewSession argon2 code rand = Inr s"
  shows "validSessionID (SessionID s) \<and> SessionID s = DeriveSessionID argon2 code"
proof -
  have id: "SessionID s = DeriveSessionID argon2 code"
    using assms(2) by (auto simp: NewSession_def SessionID_def split: prod.splits sum.splits)
  have "hex_decodes (DeriveSessionID argon2 code)" "length (DeriveSessionID argon2 code) = 32"
    using hex_encode_digits assms(1) by (simp_all add: DeriveSessionID_def hex_decodes_def)
  with id show ?thesis by (simp add: validSessionID_def)
qed


lemma share_terminal_dials:
  assumes "share_terminal L kdf en evs url code sess w = Some (r, w')" and "w_ipc w = None" "w_late w = None" "w_term w = None"
  shows "w_dials w' = w_dials w"
proof -
  obtain cols rows where size: "outer_size (se_winsize en) = (cols, rows)" by fastforce
  let ?z = "\<lparr>sz_Cols = cols, sz_Rows = ptyRows rows\<rparr>"
  show ?thesis
  proof (cases "setRawMode (se_consts en) (se_get_err en) (se_set_err en) (w_tty w)")
    case (Pair x tty)
    show ?thesis
    proof (cases x)
      case (Inl e)
      with assms(1) Pair size show ?thesis by (auto simp: share_terminal_def Let_def)
    next
      case (Inr old)
      with assms(1) Pair size obtain scr b w1 where
        w1: "share_shell L kdf en evs sess (code_bytes code) ?z (share_probe0 en code)
               (w\<lparr>w_tty := tty, w_screen := scr, w_bar := b\<rparr>) = Some (r, w1)" and s: "w_dials w' = w_dials w1"
        by (auto simp: share_terminal_def share_probe0_def Let_def deferred_Some leave_bar_def split: option.splits)
      from share_shell_leaves [OF w1] assms(2-4) s show ?thesis by simp
    qed
  qed
qed

lemma runShare_dials:
  assumes "runShare L kdf en evs url ins (new_world h tty) = Some (r, w)" and "w_dials w \<noteq> []"
  obtains code sess where "Generate (se_code_rand en) = Inr code"
    "NewSession (se_argon2 en) (code_bytes code) (se_key_rand en) = Inr sess"
    "w_dials w = [(url @ ascii ''/api/share/'' @ SessionID sess, ins)]"
proof -
  from assms obtain h1 w1 where
    w1: "share_session L kdf en evs url ins (new_world h tty\<lparr>w_host := h1\<rparr>) = Some (r, w1)" and d1: "w_dials w = w_dials w1"
    by (auto simp: runShare_def new_world_def deferred_Some split: prod.splits option.splits)
  with assms(2) obtain code sess w2 where g: "Generate (se_code_rand en) = Inr code"
      "NewSession (se_argon2 en) (code_bytes code) (se_key_rand en) = Inr sess"
    and w2: "share_relay L kdf en evs url ins code sess (new_world h tty\<lparr>w_host := h1, w_sess := Some sess\<rparr>) = Some (r, w2)"
    and d2: "w_dials w1 = w_dials w2"
    by (auto simp: share_session_def new_world_def deferred_Some split: sum.splits)
  have "w_dials w2 = [(url @ ascii ''/api/share/'' @ SessionID sess, ins)]"
  proof (cases "se_dial en (url @ ascii ''/api/share/'' @ SessionID sess) ins")
    case None
    let ?w = "new_world h tty\<lparr>w_host := h1, w_sess := Some sess,
      w_dials := [(url @ ascii ''/api/share/'' @ SessionID sess, ins)], w_conn := True\<rparr>"
    from w2 None obtain w3 where
      w3: "share_terminal L kdf en evs url code sess ?w = Some (r, w3)" "w_dials w2 = w_dials w3"
      by (auto simp: share_relay_def Let_def new_world_def deferred_Some)
    from share_terminal_dials [OF w3(1)] w3(2) show ?thesis by (simp add: new_world_def)
  next
    case (Some e)
    with w2 show ?thesis by (auto simp: share_relay_def Let_def new_world_def)
  qed
  with that g d1 d2 show ?thesis by simp
qed

text \<open>
  C11. The code leads to the session. When \<open>lw share\<close> has dialled the relay, the code that it
  generated, typed into \<open>lw join\<close> in any spelling and with the same relay, makes the viewer dial
  the session of that sharer and no other: both addresses end in the same ID, which the relay accepts.
\<close>

theorem join_reaches_the_share:
  assumes "runShare L kdf en evs relayURL insecure (new_world h tty) = Some (r, w)" and "w_dials w \<noteq> []"
    and "Generate (se_code_rand en) = Inr code" and "spelling code lead parts"
    and "runJoin L' kdf' je ins (spell lead parts) relayURL insecure' (new_join_world tty') = Some (r', w')"
    and "je_argon2 je = se_argon2 en" and "\<And>pw salt t m p n. length (se_argon2 en pw salt t m p n) = n"
  shows "\<exists>sessionID. validSessionID sessionID
    \<and> w_dials w = [(relayURL @ ascii ''/api/share/'' @ sessionID, insecure)]
    \<and> jw_dials w' = [(relayURL @ ascii ''/api/watch/'' @ sessionID, insecure')]"
proof -
  from runShare_dials [OF assms(1,2)] assms(3) obtain sess where
    sess: "NewSession (se_argon2 en) (code_bytes code) (se_key_rand en) = Inr sess"
    and d: "w_dials w = [(relayURL @ ascii ''/api/share/'' @ SessionID sess, insecure)]"
    by (metis sum.inject(2))
  from Generate_words [OF assms(3)] assms(4) Normalize_spelling
  have n: "Normalize (je_low je) (spell lead parts) = Inr code" by blast
  note id = session_id_is_accepted [OF assms(7) sess, folded assms(6)]
  from assms(5) have "jw_dials w' = [(relayURL @ ascii ''/api/watch/'' @ SessionID sess, insecure')]"
    by (cases rule: runJoin_cases) (use n id in auto)
  with d id show ?thesis by blast
qed

section \<open>Addresses that are dialled\<close>

text \<open>A relay that is named with the scheme \<open>wss\<close> and a host, and an address below it that is dialled with verification.\<close>

definition names_tls_host :: "bytes \<Rightarrow> bool" where
  "names_tls_host url \<longleftrightarrow>
     (case Parse url of None \<Rightarrow> False | Some u \<Rightarrow> u_Scheme u = ascii ''wss'' \<and> u_Host u \<noteq> [])"

definition dialled_over_tls :: "bytes \<Rightarrow> bytes \<times> bool \<Rightarrow> bool" where
  "dialled_over_tls url d \<longleftrightarrow> \<not> snd d \<and> names_tls_host url \<and> (\<exists>path. fst d = url @ path)
     \<and> (\<exists>s r. fst d = s @ [58, 47, 47] @ r \<and> map lower_byte s = ascii ''wss'' \<and> r \<noteq> [] \<and> hd r \<notin> {35, 47, 63})"

lemma accepted_iff: "check_relay False url = None \<longleftrightarrow> names_tls_host url"
proof (cases "url = []")
  case True
  have "\<not> names_tls_host []" by code_simp
  with True show ?thesis by (simp add: check_relay_def validateRelayURL_def)
qed (simp add: check_relay_def validateRelayURL_def names_tls_host_def split: option.split)

lemma accepted_dialled_over_tls:
  assumes "check_relay False url = None"
  shows "dialled_over_tls url (url @ x, False)"
proof -
  from assms have "validateRelayURL url = None" by (simp add: check_relay_def)
  from accepted_relay_is_tls [OF this] obtain s r where "url = s @ [58, 47, 47] @ r" "map lower_byte s = ascii ''wss''"
    "r \<noteq> []" "hd r \<notin> {35, 47, 63}" by blast
  then have "\<exists>s r. url @ x = s @ [58, 47, 47] @ r \<and> map lower_byte s = ascii ''wss'' \<and> r \<noteq> [] \<and> hd r \<notin> {35, 47, 63}"
    by (intro exI [of _ s] exI [of _ "r @ x"]) simp
  with assms show ?thesis unfolding dialled_over_tls_def accepted_iff by simp
qed

lemma newShareCmd_dials:
  assumes "newShareCmd L kdf en evs url insecure (new_world h tty) = Some (r, w)" and "w_dials w \<noteq> []"
  shows "check_relay insecure url = None \<and> (\<exists>x. w_dials w = [(url @ x, insecure)])"
proof (cases "check_relay insecure url")
  case None
  with assms(1) have "runShare L kdf en evs url insecure (new_world h tty) = Some (r, w)" by (simp add: newShareCmd_def)
  from runShare_dials [OF this assms(2)] None show ?thesis by blast
next
  case (Some e)
  with assms show ?thesis by (auto simp: newShareCmd_def new_world_def)
qed

lemma newJoinCmd_dials:
  assumes "newJoinCmd L kdf en ins rawCode url insecure (new_join_world tty) = Some (r, w)" and "jw_dials w \<noteq> []"
  shows "check_relay insecure url = None \<and> (\<exists>x. jw_dials w = [(url @ x, insecure)])"
proof (cases "check_relay insecure url")
  case None
  with assms(1) have "runJoin L kdf en ins rawCode url insecure (new_join_world tty) = Some (r, w)"
    by (simp add: newJoinCmd_def)
  then show ?thesis by (cases rule: runJoin_cases) (use None assms(2) in \<open>auto simp: new_join_world_def\<close>)
next
  case (Some e)
  with assms show ?thesis by (auto simp: newJoinCmd_def new_join_world_def)
qed

text \<open>
  C18. Without \<open>--relay-insecure\<close> the relay is reached over TLS only. Every address that \<open>lw share\<close> or
  \<open>lw join\<close> dials without the flag is the relay's with a path behind it, dialled with verification; it begins
  with the scheme \<open>wss\<close>, in any case of letters, and two slashes, and the relay's URL parses to that scheme
  and a host that is not empty. With a URL that does not, the command is refused with the error for the relay
  and does nothing: no file, no terminal setting, no output and no connection has changed.
\<close>

theorem commands_dial_over_tls:
  assumes "newShareCmd L kdf en evs url False (new_world h tty) = Some (r, w)"
    and "newJoinCmd L' kdf' je ins rawCode url' False (new_join_world tty') = Some (r', w')"
  shows "list_all (dialled_over_tls url) (w_dials w) \<and> list_all (dialled_over_tls url') (jw_dials w')
    \<and> (\<not> names_tls_host url \<longrightarrow> (\<exists>e. r = Some (BadRelay e)) \<and> w = new_world h tty)
    \<and> (\<not> names_tls_host url' \<longrightarrow> (\<exists>e. r' = Some (JoinBadRelay e)) \<and> w' = new_join_world tty')"
proof -
  have "list_all (dialled_over_tls url) (w_dials w)"
    using newShareCmd_dials [OF assms(1)] accepted_dialled_over_tls by (cases "w_dials w = []") auto
  moreover have "list_all (dialled_over_tls url') (jw_dials w')"
    using newJoinCmd_dials [OF assms(2)] accepted_dialled_over_tls by (cases "jw_dials w' = []") auto
  moreover have "\<not> names_tls_host url \<Longrightarrow> (\<exists>e. r = Some (BadRelay e)) \<and> w = new_world h tty"
    using assms(1) accepted_iff [of url] by (auto simp: newShareCmd_def split: option.splits)
  moreover have "\<not> names_tls_host url' \<Longrightarrow> (\<exists>e. r' = Some (JoinBadRelay e)) \<and> w' = new_join_world tty'"
    using assms(2) accepted_iff [of url'] by (auto simp: newJoinCmd_def split: option.splits)
  ultimately show ?thesis by blast
qed

section \<open>A viewer that finds no session\<close>

definition ex_join :: join_env where
  "ex_join =
     \<lparr>je_low = (\<lambda>r. r), je_argon2 = ex_argon, je_dial = (\<lambda>_ _. None), je_winsize = None, je_sizes = (\<lambda>_. None),
      je_consts = linux_consts, je_get_err = None, je_set_err = None, je_restore_err = None, je_send_errs = (\<lambda>_. None)\<rparr>"

definition ex_not_found :: "(time \<times> recv_result) list" where
  "ex_not_found = [(0, Got [MsgTypeControl, CtrlSessionNotFound])]"

lemma ex_join_runs:
  "\<exists>w. runJoin ex_spake ex_kdf ex_join ex_not_found (Join (replicate 6 (runes ''abandon'')) [45]) url ins (new_join_world tty)
     = Some (Some (ViewerFailed ErrSessionNotFound), w) \<and> jw_viewer w \<noteq> None"
proof -
  have code: "Normalize (\<lambda>r. r) (Join (replicate 6 (runes ''abandon'')) [45]) = Inr (Join (replicate 6 (runes ''abandon'')) [45])"
    using Generate_words [OF ex_code] Normalize_code by metis
  have "\<exists>v. Run ex_spake ex_kdf (\<lambda>_. None) ex_not_found v0 = Some (Returned (Some ErrSessionNotFound), v)" for v0
    by (simp add: Run_def handshake_def ex_not_found_def)
  then obtain v where "Run ex_spake ex_kdf (\<lambda>_. None) ex_not_found
      (SetResizeHandler (NewViewer (code_bytes (Join (replicate 6 (runes ''abandon'')) [45])) ClientByteCLI))
    = Some (Returned (Some ErrSessionNotFound), v)" by blast
  then show ?thesis
    by (simp add: runJoin_def code Let_def ex_join_def setRawMode_def outer_size_def join_view_def deferred_def
        join_outcome_def)
qed


theorem join_cleans_up_witness:
  "\<exists>w v. runJoin ex_spake ex_kdf ex_join ex_not_found (Join (replicate 6 (runes ''abandon'')) [45])
      (ascii ''wss://relay.example'') False (new_join_world cooked_tty) = Some (Some (ViewerFailed ErrSessionNotFound), w)
    \<and> jw_tty w = cooked_tty \<and> \<not> jw_conn w \<and> jw_viewer w = Some v \<and> list_all all_zero (vw_mem v)"
proof -
  from ex_join_runs obtain w v where w: "runJoin ex_spake ex_kdf ex_join ex_not_found (Join (replicate 6 (runes ''abandon'')) [45])
      (ascii ''wss://relay.example'') False (new_join_world cooked_tty) = Some (Some (ViewerFailed ErrSessionNotFound), w)"
    "jw_viewer w = Some v" by blast
  moreover have "je_restore_err ex_join = None" by (simp add: ex_join_def)
  ultimately show ?thesis using join_cleans_up [OF w(1)] by auto
qed

theorem join_reports_twice_witness:
  "\<exists>w pre. runJoin ex_spake ex_kdf ex_join ex_not_found (Join (replicate 6 (runes ''abandon'')) [45])
      (ascii ''wss://relay.example'') False (new_join_world cooked_tty) = Some (Some (ViewerFailed ErrSessionNotFound), w)
    \<and> main_end (Some (ViewerFailed ErrSessionNotFound)) (join_error_text (\<lambda>_. []) (\<lambda>_. [])) (jw_stderr w) =
      (1, runes ''connecting'' @ [0x2026] @ pre @ runes ''session not found'' @ [10]
          @ runes ''error: '' @ runes ''session not found'' @ [10])"
proof -
  from ex_join_runs obtain w where w: "runJoin ex_spake ex_kdf ex_join ex_not_found (Join (replicate 6 (runes ''abandon'')) [45])
      (ascii ''wss://relay.example'') False (new_join_world cooked_tty) = Some (Some (ViewerFailed ErrSessionNotFound), w)" by blast
  from join_reports_twice [OF w refl, of "\<lambda>_. []" "\<lambda>_. []"] w show ?thesis
    by (auto simp: join_error_text_def)
qed

theorem join_reaches_the_share_witness:
  "\<exists>w w' sessionID. runShare ex_spake ex_kdf ex_share ex_stop (ascii ''wss://relay.example'') False (new_world ex_share_host cooked_tty)
      = Some (None, w)
    \<and> runJoin ex_spake ex_kdf ex_join ex_not_found (Join (replicate 6 (runes ''abandon'')) [45])
      (ascii ''wss://relay.example'') False (new_join_world cooked_tty) = Some (Some (ViewerFailed ErrSessionNotFound), w')
    \<and> validSessionID sessionID
    \<and> w_dials w = [(ascii ''wss://relay.example'' @ ascii ''/api/share/'' @ sessionID, False)]
    \<and> jw_dials w' = [(ascii ''wss://relay.example'' @ ascii ''/api/watch/'' @ sessionID, False)]"
proof -
  from ex_share_returns obtain w where w: "runShare ex_spake ex_kdf ex_share ex_stop (ascii ''wss://relay.example'') False
      (new_world ex_share_host cooked_tty) = Some (None, w)" "w_dials w \<noteq> []" by blast
  let ?code = "Join (replicate 6 (runes ''abandon'')) [45]"
  have gen: "Generate (se_code_rand ex_share) = Inr ?code" using ex_code by (simp add: ex_share_def)
  then obtain ws where ws: "code_words ws" "?code = Join ws [45]" using Generate_words by blast
  have s: "spelling ?code [] (plain_parts ws)" "?code = spell [] (plain_parts ws)"
    unfolding ws(2) using canonical_spelling [OF ws(1)] spell_plain_parts by simp_all
  from ex_join_runs obtain w' where w': "runJoin ex_spake ex_kdf ex_join ex_not_found ?code (ascii ''wss://relay.example'') False
      (new_join_world cooked_tty) = Some (Some (ViewerFailed ErrSessionNotFound), w')" by blast
  have "je_argon2 ex_join = se_argon2 ex_share" "\<And>pw salt t m p n. length (se_argon2 ex_share pw salt t m p n) = n"
    by (simp_all add: ex_join_def ex_share_def ex_argon_def)
  from join_reaches_the_share [OF w gen s(1) w' [unfolded s(2)] this] w(1) w' show ?thesis by blast
qed

theorem commands_dial_over_tls_witness:
  "\<exists>r w r' w'. newShareCmd ex_spake ex_kdf ex_share ex_stop (ascii ''wss://relay.example'') False (new_world ex_share_host cooked_tty)
      = Some (r, w)
    \<and> newJoinCmd ex_spake ex_kdf ex_join ex_not_found (Join (replicate 6 (runes ''abandon'')) [45])
      (ascii ''wss://relay.example'') False (new_join_world cooked_tty) = Some (r', w')
    \<and> w_dials w \<noteq> [] \<and> list_all (dialled_over_tls (ascii ''wss://relay.example'')) (w_dials w @ jw_dials w')"
proof -
  have "check_relay False (ascii ''wss://relay.example'') = None" by code_simp
  then obtain w r' w' where "newShareCmd ex_spake ex_kdf ex_share ex_stop (ascii ''wss://relay.example'') False (new_world ex_share_host cooked_tty)
      = Some (None, w)" "w_dials w \<noteq> []"
    "newJoinCmd ex_spake ex_kdf ex_join ex_not_found (Join (replicate 6 (runes ''abandon'')) [45])
      (ascii ''wss://relay.example'') False (new_join_world cooked_tty) = Some (r', w')"
    using ex_share_returns ex_join_runs [of "ascii ''wss://relay.example''" False cooked_tty]
    by (auto simp: newShareCmd_def newJoinCmd_def)
  with commands_dial_over_tls [OF this(1,3)] show ?thesis by auto
qed

end
