(* ===== verification/Commands.thy ===== *)
theory Commands
  imports Join
begin

text \<open>
  \<open>cmd/lw/list.go\<close>, \<open>cmd/lw/revoke.go\<close> and \<open>cmd/lw/stop.go\<close>: the commands that find the running session
  on the host, talk to it over the control socket, and print what they learn. \<open>socks\<close> says what
  connecting to a path gives, \<open>H\<close> is the handler of the session behind it.
\<close>

section \<open>The commands\<close>

datatype command_error =
    NoSession
  | NoSuchViewer
  | RevokingFailed client_error
  | StoppingFailed client_error

text \<open>
  The age of a viewer. The methods of \<open>Duration\<close> return floating-point numbers; cut to integers they are
  exact up to 4096 hours (above, the last nanosecond of an hour may count as the next one).
\<close>

definition formatDuration :: "duration \<Rightarrow> gotext" where
  "formatDuration d =
     (if d < 60 * second then Itoa (max 1 (d div second)) @ runes ''s ago''
      else if d < 3600 * second then Itoa (d div (60 * second)) @ runes ''m ago''
      else Itoa (d div (3600 * second)) @ runes ''h ago'')"

text \<open>\<open>%-7s\<close>.\<close>

definition pad7 :: "gotext \<Rightarrow> gotext" where
  "pad7 s = s @ replicate (7 - length s) 32"

definition viewer_line :: "time \<Rightarrow> ipc_viewer \<Rightarrow> gotext" where
  "viewer_line now v =
     go_string (iv_ID v) @ runes ''  '' @ pad7 (go_string (iv_ClientType v)) @ runes ''  joined ''
       @ formatDuration (time_sub now (iv_JoinTime v)) @ [10]"

definition runList ::
  "time_codec \<Rightarrow> bytes \<Rightarrow> (gotext \<Rightarrow> socket_io) \<Rightarrow> 's session_handler \<Rightarrow> time \<Rightarrow> host \<Rightarrow> 's
    \<Rightarrow> (command_error option \<times> gotext) \<times> 's" where
  "runList T bt socks H now h s =
     (case resolveSocketPath h of
        Inl e \<Rightarrow> ((Some NoSession, []), s)
      | Inr path \<Rightarrow>
          (case ClientList T bt (socks path) H s of
             (Inl e, s1) \<Rightarrow> ((Some NoSession, []), s1)
           | (Inr viewers, s1) \<Rightarrow>
               ((None, if viewers = [] then runes ''no viewers connected'' @ [10]
                       else concat (map (viewer_line now) viewers)), s1)))"

definition runRevoke ::
  "time_codec \<Rightarrow> bytes \<Rightarrow> (gotext \<Rightarrow> socket_io) \<Rightarrow> 's session_handler \<Rightarrow> bytes \<Rightarrow> host \<Rightarrow> 's
    \<Rightarrow> (command_error option \<times> gotext) \<times> 's" where
  "runRevoke T bt socks H viewerID h s =
     (case resolveSocketPath h of
        Inl e \<Rightarrow> ((Some NoSession, []), s)
      | Inr path \<Rightarrow>
          (case ClientRevoke T bt (socks path) H viewerID s of
             (Some e, s1) \<Rightarrow>
               ((Some (if e = Replied (ascii ''viewer not found'') then NoSuchViewer else RevokingFailed e), []), s1)
           | (None, s1) \<Rightarrow> ((None, runes ''revoked '' @ go_string viewerID @ [10]), s1)))"

definition runStop ::
  "time_codec \<Rightarrow> bytes \<Rightarrow> (gotext \<Rightarrow> socket_io) \<Rightarrow> 's session_handler \<Rightarrow> host \<Rightarrow> 's
    \<Rightarrow> (command_error option \<times> gotext) \<times> 's" where
  "runStop T bt socks H h s =
     (case resolveSocketPath h of
        Inl e \<Rightarrow> ((Some NoSession, []), s)
      | Inr path \<Rightarrow>
          (case ClientStop T bt (socks path) H s of
             (Some e, s1) \<Rightarrow> ((Some (StoppingFailed e), []), s1)
           | (None, s1) \<Rightarrow> ((None, runes ''session stopped'' @ [10]), s1)))"

section \<open>The host of a running session\<close>

text \<open>
  The host while \<open>lw share\<close> runs as process \<open>se_pid\<close>: its PID file and its control socket are there.
\<close>

definition sharing_host :: "share_env \<Rightarrow> host \<Rightarrow> bool" where
  "sharing_host en h \<longleftrightarrow>
     (\<exists>h0 h1 v. writePIDFile Written (se_pid en) h0 = (None, h1) \<and> share_NewServer en h1 = (Inr v, h))"

lemma share_NewServer_Inr:
  assumes "share_NewServer en h1 = (Inr v, h)"
  shows "h = os_mkdir (SocketDir (h_tmp h1) (se_pid en)) h1\<lparr>h_files := mput (SocketPath (h_tmp h1) (se_pid en)) [] (h_files h1)\<rparr>"
  using assms by (rule share_NewServer_cases) simp_all

lemma sharing_host_found:
  assumes "sharing_host en h" "0 \<le> se_pid en" "se_pid en < 2 ^ 63"
  shows "resolveSocketPath h = Inr (SocketPath (h_tmp h) (se_pid en))"
proof -
  from assms(1) obtain h0 h1 where
    h1: "h1 = h0\<lparr>h_files := mput (pidFilePath h0) (Itoa (se_pid en)) (h_files h0)\<rparr>"
    and h: "h = os_mkdir (SocketDir (h_tmp h1) (se_pid en)) h1\<lparr>h_files := mput (SocketPath (h_tmp h1) (se_pid en)) [] (h_files h1)\<rparr>"
    unfolding sharing_host_def writePIDFile_def by (auto dest: share_NewServer_Inr)
  have "pidFilePath h = pidFilePath h0" "h_tmp h = h_tmp h0" by (simp_all add: h h1 pidFilePath_def os_mkdir_def)
  then show ?thesis
    using read_pid [OF assms(2,3)] paths_distinct [of "h_tmp h0" "se_pid en"]
    by (simp add: resolveSocketPath_def Let_def h h1 pidFilePath_def os_mkdir_def)
qed


section \<open>What the commands do and print\<close>

text \<open>
  \<open>lw list\<close> prints the viewers of the session. On the host of a running session whose socket works, it
  finds the session, prints one line for each listed viewer, with the client type and the age recorded
  at registration (or that there are none), and changes nothing in the sharer.
\<close>

theorem list_prints_the_viewers:
  assumes "sharing_host sen h" and "0 \<le> se_pid sen" and "se_pid sen < 2 ^ 63"
    and "io_ok (socks (SocketPath (h_tmp h) (se_pid sen)))" and "codec_ok T" and "process_ok en p"
  shows "\<exists>vs. runList T bt socks (ipcSessionAdapter detail stop en) now h p =
      ((None, if vs = [] then runes ''no viewers connected'' @ [10] else concat (map (viewer_line now) vs)), p)
    \<and> distinct (map iv_ID vs) \<and> set (map iv_ID vs) = listed (sp_sharer p)
    \<and> list_all (\<lambda>v. \<exists>w. mget (s_viewers (sh_sess (sp_sharer p))) (iv_ID v) = Some w
         \<and> iv_ClientType v = ascii (v_clientType w) \<and> iv_JoinTime v = v_joinTime w) vs"
proof -
  let ?found = "\<lambda>vs. distinct (map iv_ID vs) \<and> set (map iv_ID vs) = listed (sp_sharer p)
    \<and> list_all (\<lambda>v. \<exists>w. mget (s_viewers (sh_sess (sp_sharer p))) (iv_ID v) = Some w
         \<and> iv_ClientType v = ascii (v_clientType w) \<and> iv_JoinTime v = v_joinTime w) vs"
  from list_reports_the_viewers [OF assms(6,5,4), of bt detail stop] obtain vs where
    reply: "ClientList T bt (socks (SocketPath (h_tmp h) (se_pid sen))) (ipcSessionAdapter detail stop en) p = (Inr vs, p)"
    and vs: "?found vs" by blast
  have "runList T bt socks (ipcSessionAdapter detail stop en) now h p =
      ((None, if vs = [] then runes ''no viewers connected'' @ [10] else concat (map (viewer_line now) vs)), p)"
    by (simp only: runList_def sharing_host_found [OF assms(1-3)] reply sum.case prod.case)
  with vs show ?thesis by blast
qed

text \<open>
  C34. \<open>lw revoke\<close> reports success exactly for a viewer that was there. On the host of a running session
  whose socket, random source and sends work: for a listed viewer it says so and leaves the sharer as a
  revocation does, the viewer unlisted, the stream key replaced, every other viewer still listed. For any
  other name it fails with \<open>viewer not found\<close>, and the sharer is as before.
\<close>

theorem revoke_removes_and_says_so:
  assumes "sharing_host sen h" and "0 \<le> se_pid sen" and "se_pid sen < 2 ^ 63"
    and "io_ok (socks (SocketPath (h_tmp h) (se_pid sen)))" and "codec_ok T" and "process_ok en p"
    and "ce_rand en = Some bs" and "\<And>n. ce_errs en n = None"
    and "range_order (mdel i (s_viewers (sh_sess (sp_sharer p)))) (ce_order en)"
    and "range_order (mdel i (s_viewers (sh_sess (sp_sharer p)))) (ce_rekey_order en)"
    and "utf8_text i"
  shows "case runRevoke T bt socks (ipcSessionAdapter detail stop en) i h p of (result, p') \<Rightarrow>
    if i \<in> listed (sp_sharer p)
    then result = (None, runes ''revoked '' @ go_string i @ [10])
      \<and> listed (sp_sharer p') = listed (sp_sharer p) - {i}
      \<and> stream_key (sh_sess (sp_sharer p')) = go_copy 32 bs
      \<and> sh_probes (sp_sharer p') = sh_probes (sp_sharer p) @ [ViewerRevoked i] \<and> sp_ctx p' = sp_ctx p
    else result = (Some NoSuchViewer, []) \<and> p' = p"
proof -
  obtain r p' where reply: "ClientRevoke T bt (socks (SocketPath (h_tmp h) (se_pid sen))) (ipcSessionAdapter detail stop en) i p = (r, p')"
    by fastforce
  note revoked = revoke_command_revokes [OF assms(6,5,4,7-11), of bt detail stop, unfolded reply prod.case]
  show ?thesis
  proof (cases "i \<in> listed (sp_sharer p)")
    case True
    with revoked have "r = None" by simp
    with True revoked reply show ?thesis by (simp add: runRevoke_def sharing_host_found [OF assms(1-3)])
  next
    case False
    with revoked reply show ?thesis by (simp add: runRevoke_def sharing_host_found [OF assms(1-3)])
  qed
qed

text \<open>
  \<open>lw stop\<close> on that host cancels the context of the sharer's process, and says that the session stopped.
\<close>

lemma stop_cancels_and_says_so:
  assumes "sharing_host sen h" "0 \<le> se_pid sen" "se_pid sen < 2 ^ 63"
    and "io_ok (socks (SocketPath (h_tmp h) (se_pid sen)))" "codec_ok T"
  shows "runStop T bt socks (ipcSessionAdapter detail (Some cancel_process) en) h p =
    ((None, runes ''session stopped'' @ [10]), cancel_process p)"
  using assms(4,5)
  by (simp add: runStop_def sharing_host_found [OF assms(1-3)] ClientStop_def ipc_steps decode_response_json
      zero_response_def ipcSessionAdapter_def adapter_StopSession_def io_ok_def)

section \<open>A running session\<close>

definition ex_sharing :: host where
  "ex_sharing = (let h1 = snd (writePIDFile Written 42 ex_share_host) in snd (share_NewServer ex_share h1))"

lemma ex_sharing_host: "sharing_host ex_share ex_sharing" "h_tmp ex_sharing = runes ''/tmp''"
proof -
  have new: "share_NewServer ex_share (snd (writePIDFile Written 42 ex_share_host))
      = (Inr \<lparr>sr_listening = True, sr_socket = True, sr_done = False\<rparr>, ex_sharing)"
  proof (rule prod_eqI)
    show "fst (share_NewServer ex_share (snd (writePIDFile Written 42 ex_share_host))) =
        fst (Inr \<lparr>sr_listening = True, sr_socket = True, sr_done = False\<rparr>, ex_sharing)"
      by (simp add: share_NewServer_def Let_def NewIpcServer_def writePIDFile_def ex_share_def
          ex_share_host_def pidFilePath_def SocketPath_lw runes_def)
  qed (simp add: ex_sharing_def Let_def)
  have "writePIDFile Written (se_pid ex_share) ex_share_host = (None, snd (writePIDFile Written 42 ex_share_host))"
    by (simp add: writePIDFile_def ex_share_def)
  with new show "sharing_host ex_share ex_sharing" unfolding sharing_host_def by blast
  show "h_tmp ex_sharing = runes ''/tmp''"
    by (subst share_NewServer_Inr [OF new]) (simp add: writePIDFile_def ex_share_host_def os_mkdir_def)
qed

definition ex_socks :: "gotext \<Rightarrow> socket_io" where
  "ex_socks path = (if path = SocketPath (runes ''/tmp'') 42 then ex_io else \<lparr>io_dial = False, io_write = False, io_read = False\<rparr>)"

lemma ex_socks_ok: "io_ok (ex_socks (SocketPath (h_tmp ex_sharing) (se_pid ex_share)))"
  using ex_io_ok by (simp add: ex_socks_def ex_sharing_host ex_share_def)

lemma ex_pid: "0 \<le> se_pid ex_share" "se_pid ex_share < 2 ^ 63"
  by (simp_all add: ex_share_def)

theorem list_prints_the_viewers_witness:
  "\<exists>vs. runList ex_codec [] ex_socks (ipcSessionAdapter (\<lambda>_. []) None (ex_control (\<lambda>_. None))) 0 ex_sharing ex_process =
      ((None, concat (map (viewer_line 0) vs)), ex_process)
    \<and> distinct (map iv_ID vs) \<and> set (map iv_ID vs) = {replicate 6 97, replicate 6 98}"
proof -
  from list_prints_the_viewers [where socks = ex_socks, OF ex_sharing_host(1) ex_pid ex_socks_ok ex_codec_ok ex_process_ok, of "[]" "\<lambda>_. []" None "\<lambda>_. None" 0]
  obtain vs where vs: "runList ex_codec [] ex_socks (ipcSessionAdapter (\<lambda>_. []) None (ex_control (\<lambda>_. None))) 0 ex_sharing ex_process =
      ((None, if vs = [] then runes ''no viewers connected'' @ [10] else concat (map (viewer_line 0) vs)), ex_process)"
    "distinct (map iv_ID vs)" "set (map iv_ID vs) = listed (sp_sharer ex_process)" by blast
  moreover have "vs \<noteq> []" using vs(3) by (auto simp: ex_listed)
  ultimately show ?thesis by (auto simp: ex_listed)
qed

theorem revoke_removes_and_says_so_witness:
  "case runRevoke ex_codec [] ex_socks (ipcSessionAdapter (\<lambda>_. []) None (ex_control (\<lambda>_. None))) (replicate 6 97) ex_sharing ex_process of
    (result, p') \<Rightarrow> result = (None, runes ''revoked aaaaaa'' @ [10]) \<and> listed (sp_sharer p') = {replicate 6 98}
      \<and> stream_key (sh_sess (sp_sharer p')) = go_copy 32 [5]"
proof -
  have "utf8_text (replicate 6 97)" by (rule plain_utf8) simp
  moreover have "go_string (replicate 6 97) = runes ''aaaaaa''"
    by (subst go_string_ascii) (simp_all add: runes_def ex_replicate)
  moreover have "runes ''revoked '' @ runes ''aaaaaa'' = runes ''revoked aaaaaa''" by (simp add: runes_def)
  ultimately show ?thesis
    using revoke_removes_and_says_so [where socks = ex_socks, OF ex_sharing_host(1) ex_pid ex_socks_ok ex_codec_ok ex_process_ok, of "\<lambda>_. None" "[5]" "replicate 6 97" "[]" "\<lambda>_. []" None]
    by (simp add: ex_listed ex_others ex_control_def split_beta insert_Diff_if flip: append_assoc)
qed

end
