(* ===== verification/Net_Addr.thy ===== *)
theory Net_Addr
  imports Prelude Go_Strings
begin

text \<open>
  What the relay uses of Go's \<open>net\<close> and \<open>net/netip\<close>: \<open>SplitHostPort\<close>, \<open>ParseIP\<close>, \<open>ParseCIDR\<close> and
  \<open>IPNet.Contains\<close>, on texts as bytes. A \<open>net.IP\<close> is a list of 4 or 16 bytes, \<open>None\<close> for nil.
  Error values carry no information that the relay looks at, so a failure is \<open>None\<close>.
\<close>

section \<open>Texts\<close>

definition is_digit_byte :: "byte \<Rightarrow> bool" where
  "is_digit_byte c \<longleftrightarrow> 48 \<le> c \<and> c \<le> 57"

definition number :: "bytes \<Rightarrow> nat" where
  "number ds = of_digits (map (\<lambda>c. unat (c - 48)) ds)"

definition byte_decimal :: "nat \<Rightarrow> bytes" where
  "byte_decimal n = map (\<lambda>d. 48 + of_nat d) (digits n)"

definition is_hex_digit :: "byte \<Rightarrow> bool" where
  "is_hex_digit c \<longleftrightarrow> is_digit_byte c \<or> 97 \<le> c \<and> c \<le> 102 \<or> 65 \<le> c \<and> c \<le> 70"

definition hex_digit_value :: "byte \<Rightarrow> u16" where
  "hex_digit_value c =
     (if is_digit_byte c then ucast c - 48 else if 97 \<le> c then ucast c - 87 else ucast c - 55)"

section \<open>SplitHostPort\<close>

text \<open>
  The port starts after the last colon. A host in brackets must be followed by that colon at once;
  otherwise the host has no colon. Brackets are allowed nowhere else.
\<close>

definition SplitHostPort :: "bytes \<Rightarrow> (bytes \<times> bytes) option" where
  "SplitHostPort s =
     (if 58 \<notin> set s then None
      else
        let port = rev (takeWhile (\<lambda>c. c \<noteq> 58) (rev s));
            i = length s - length port - 1
        in if hd s = 91 then
             (let end = length (takeWhile (\<lambda>c. c \<noteq> 93) s)
              in if 93 \<notin> set s \<or> end + 1 \<noteq> i then None
                 else if 91 \<in> set (drop 1 s) \<or> 93 \<in> set (drop (end + 1) s) then None
                 else Some (drop 1 (take end s), port))
           else
             (let host = take i s
              in if 58 \<in> set host then None
                 else if 91 \<in> set s \<or> 93 \<in> set s then None
                 else Some (host, port)))"

section \<open>Addresses\<close>

definition octet :: "bytes \<Rightarrow> byte option" where
  "octet ds =
     (if ds = [] \<or> \<not> list_all is_digit_byte ds then None
      else if 1 < length ds \<and> hd ds = 48 then None
      else if 255 < number ds then None
      else Some (of_nat (number ds)))"

definition parseIPv4 :: "bytes \<Rightarrow> bytes option" where
  "parseIPv4 s =
     (let parts = Split 46 s in if length parts = 4 then those (map octet parts) else None)"

text \<open>
  The loop of \<open>parseIPv6\<close>, for \<open>n\<close> groups that still fit: the rest of the text, the bytes so far
  and the place of the ellipsis.
\<close>

definition group_value :: "bytes \<Rightarrow> u16" where
  "group_value hex = foldl (\<lambda>acc c. push_bit 4 acc + hex_digit_value c) 0 hex"

fun v6_loop :: "nat \<Rightarrow> bytes \<Rightarrow> bytes \<Rightarrow> nat option \<Rightarrow> (bytes \<times> bytes \<times> nat option) option" where
  "v6_loop 0 s ip ellipsis = Some (s, ip, ellipsis)"
| "v6_loop (Suc n) s ip ellipsis =
     (let hex = takeWhile is_hex_digit s;
          rest = drop (length hex) s;
          ip1 = ip @ put_be 2 (group_value hex)
      in if hex = [] \<or> 4 < length hex then None
         else (case rest of
           [] \<Rightarrow> Some ([], ip1, ellipsis)
         | c # rest1 \<Rightarrow>
             if c = 46 then
               (if ellipsis = None \<and> length ip \<noteq> 12 \<or> 12 < length ip then None
                else map_option (\<lambda>v4. ([], ip @ v4, ellipsis)) (parseIPv4 s))
             else if c \<noteq> 58 then None
             else (case rest1 of
               [] \<Rightarrow> None
             | d # rest2 \<Rightarrow>
                 if d \<noteq> 58 then v6_loop n rest1 ip1 ellipsis
                 else if ellipsis \<noteq> None then None
                 else if rest2 = [] then Some ([], ip1, Some (length ip1))
                 else v6_loop n rest2 ip1 (Some (length ip1)))))"

definition parseIPv6 :: "bytes \<Rightarrow> bytes option" where
  "parseIPv6 s =
     (let (s1, ell) = (if take 2 s = [58, 58] then (drop 2 s, Some 0) else (s, None))
      in if ell = Some 0 \<and> s1 = [] then Some (zeros 16)
         else case v6_loop 8 s1 [] ell of
           None \<Rightarrow> None
         | Some (s2, ip, ell1) \<Rightarrow>
             if s2 \<noteq> [] then None
             else (case ell1 of
               None \<Rightarrow> if length ip < 16 then None else Some ip
             | Some e \<Rightarrow> if length ip < 16 then Some (take e ip @ zeros (16 - length ip) @ drop e ip)
                        else None))"

text \<open>
  \<open>netip.ParseAddr\<close> decides by the first dot, colon or percent sign. An address with a zone is
  refused by both callers, so a percent sign anywhere is a failure here.
\<close>

definition ParseAddr :: "bytes \<Rightarrow> bytes option" where
  "ParseAddr s =
     (if 37 \<in> set s then None
      else case List.find (\<lambda>c. c = 46 \<or> c = 58) s of
        None \<Rightarrow> None
      | Some c \<Rightarrow> if c = 46 then parseIPv4 s else parseIPv6 s)"

definition v4InV6Prefix :: bytes where
  "v4InV6Prefix = zeros 10 @ [255, 255]"

definition As16 :: "bytes \<Rightarrow> bytes" where
  "As16 a = (if length a = 4 then v4InV6Prefix @ a else a)"

definition ParseIP :: "bytes \<Rightarrow> bytes option" where
  "ParseIP s = map_option As16 (ParseAddr s)"

definition To4 :: "bytes \<Rightarrow> bytes option" where
  "To4 ip =
     (if length ip = 4 then Some ip
      else if length ip = 16 \<and> take 12 ip = v4InV6Prefix then Some (drop 12 ip)
      else None)"

section \<open>Networks\<close>

record IPNet =
  net_IP :: bytes
  net_Mask :: bytes

primrec CIDRMask :: "nat \<Rightarrow> nat \<Rightarrow> bytes" where
  "CIDRMask ones 0 = []"
| "CIDRMask ones (Suc len) =
     (if 8 \<le> ones then 255 # CIDRMask (ones - 8) len
      else NOT (drop_bit ones 255) # CIDRMask 0 len)"

definition ParseCIDR :: "bytes \<Rightarrow> IPNet option" where
  "ParseCIDR s =
     (if 47 \<notin> set s then None
      else
        let addr = takeWhile (\<lambda>c. c \<noteq> 47) s;
            mask = drop (Suc (length addr)) s
        in case ParseAddr addr of
             None \<Rightarrow> None
           | Some a \<Rightarrow>
               if mask = [] \<or> \<not> list_all is_digit_byte mask \<or> 8 * length a < number mask then None
               else
                 let m = CIDRMask (number mask) (length a)
                 in Some \<lparr>net_IP = map2 (AND) a m, net_Mask = m\<rparr>)"

definition networkNumberAndMask :: "IPNet \<Rightarrow> (bytes \<times> bytes) option" where
  "networkNumberAndMask n =
     (let m = net_Mask n
      in case To4 (net_IP n) of
           Some ip \<Rightarrow>
             if length m = 4 then Some (ip, m)
             else if length m = 16 then Some (ip, drop 12 m)
             else None
         | None \<Rightarrow>
             if length (net_IP n) \<noteq> 16 then None
             else if length m = 16 then Some (net_IP n, m)
             else None)"

definition Contains :: "IPNet \<Rightarrow> bytes \<Rightarrow> bool" where
  "Contains n ip =
     (case networkNumberAndMask n of
        None \<Rightarrow> False
      | Some (nn, m) \<Rightarrow>
          (let x = (case To4 ip of Some v4 \<Rightarrow> v4 | None \<Rightarrow> ip)
           in length x = length nn \<and> map2 (AND) nn m = map2 (AND) x m))"

section \<open>IPv4 texts\<close>

definition ipv4_text :: "bytes \<Rightarrow> bytes" where
  "ipv4_text a = Join (map (\<lambda>b. byte_decimal (unat b)) a) [46]"

lemma digit_bytes: "d < 10 \<Longrightarrow> unat (48 + of_nat d - 48 :: byte) = d \<and> is_digit_byte (48 + of_nat d)"
  by (simp add: is_digit_byte_def word_le_nat_alt unat_word_ariths unat_of_nat)

lemma byte_decimal_digits: "list_all is_digit_byte (byte_decimal n)"
  using digits_less [of n] by (auto simp: byte_decimal_def list_all_iff digit_bytes)

lemma number_byte_decimal [simp]: "number (byte_decimal n) = n"
proof -
  have "map (\<lambda>c. unat (c - 48)) (byte_decimal n) = digits n"
    using digits_less [of n] by (auto simp: byte_decimal_def list_all_iff digit_bytes unat_of_nat intro!: map_idI)
  then show ?thesis by (simp add: number_def)
qed

lemma byte_decimal_not_Nil [simp]: "byte_decimal n \<noteq> []"
  by (simp add: byte_decimal_def)

lemma hd_byte_decimal: "1 < length (byte_decimal n) \<Longrightarrow> hd (byte_decimal n) \<noteq> 48"
proof -
  assume "1 < length (byte_decimal n)"
  then have "10 \<le> n" by (cases "n < 10") (auto simp: byte_decimal_def digits.simps [of n])
  then have "hd (digits n) \<noteq> 0" by (rule hd_digits)
  moreover have "hd (digits n) < 10" using digits_less [of n] by (simp add: list_all_iff)
  ultimately have "unat (of_nat (hd (digits n)) :: byte) \<noteq> 0" by (simp add: unat_of_nat)
  then have "(of_nat (hd (digits n)) :: byte) \<noteq> 0" by auto
  then show "hd (byte_decimal n) \<noteq> 48" by (simp add: byte_decimal_def hd_map)
qed

lemma octet_decimal: "octet (byte_decimal (unat (b :: byte))) = Some b"
proof -
  have "unat b < 2 ^ LENGTH(8)" by (rule unsigned_less)
  with hd_byte_decimal [of "unat b"] show ?thesis by (auto simp: octet_def byte_decimal_digits)
qed

lemma octets_decimal: "those (map octet (map (\<lambda>b. byte_decimal (unat b)) a)) = Some a"
  by (induction a) (simp_all add: octet_decimal)

lemma digit_no_punct: "list_all is_digit_byte w \<Longrightarrow> \<not> is_digit_byte c \<Longrightarrow> c \<notin> set w"
  by (auto simp: list_all_iff)

lemma punct [simp]:
  "\<not> is_digit_byte 37" "\<not> is_digit_byte 44" "\<not> is_digit_byte 46" "\<not> is_digit_byte 47" "\<not> is_digit_byte 58"
  "\<not> is_digit_byte 91" "\<not> is_digit_byte 93"
  by (simp_all add: is_digit_byte_def)

lemma set_ipv4_text: "\<not> is_digit_byte c \<Longrightarrow> c \<noteq> 46 \<Longrightarrow> c \<notin> set (ipv4_text a)"
proof -
  assume c: "\<not> is_digit_byte c" "c \<noteq> 46"
  have "c \<notin> set (Join ws [46])" if "list_all (list_all is_digit_byte) ws" for ws
    using that c by (induction ws "[46 :: byte]" rule: Join.induct) (auto simp: digit_no_punct)
  then show ?thesis by (simp add: ipv4_text_def list_all_iff byte_decimal_digits [unfolded list_all_iff])
qed

lemma parseIPv4_text: "length a = 4 \<Longrightarrow> parseIPv4 (ipv4_text a) = Some a"
proof -
  assume len: "length a = 4"
  then have "Split 46 (ipv4_text a) = map (\<lambda>b. byte_decimal (unat b)) a"
    unfolding ipv4_text_def
    by (intro Split_Join) (auto simp: list_all_iff digit_no_punct [OF byte_decimal_digits])
  with len show ?thesis by (simp add: parseIPv4_def octets_decimal del: map_map)
qed

lemma find_first: "c \<in> set s \<Longrightarrow> d \<notin> set s \<Longrightarrow> List.find (\<lambda>x. x = c \<or> x = d) s = Some c"
  by (induction s) auto

lemma ParseAddr_text:
  assumes "length a = 4"
  shows "ParseAddr (ipv4_text a) = Some a"
proof -
  obtain b c bs where a: "a = b # c # bs" using assms by (cases a; cases "tl a") auto
  then have "46 \<in> set (ipv4_text a)" by (cases bs) (auto simp: ipv4_text_def)
  then have "List.find (\<lambda>c. c = 46 \<or> c = 58) (ipv4_text a) = Some 46"
    using set_ipv4_text [of 58 a] by (simp add: find_first)
  then show ?thesis
    using assms set_ipv4_text [of 37 a] by (simp add: ParseAddr_def parseIPv4_text)
qed

lemma SplitHostPort_text:
  assumes "58 \<notin> set host" "91 \<notin> set host" "93 \<notin> set host" "host \<noteq> []"
    and "58 \<notin> set port" "91 \<notin> set port" "93 \<notin> set port"
  shows "SplitHostPort (host @ 58 # port) = Some (host, port)"
proof -
  have "takeWhile (\<lambda>c. c \<noteq> 58) (rev port @ 58 # rev host) = rev port"
    using assms(5) by (auto simp: takeWhile_append)
  moreover have "hd (host @ 58 # port) \<noteq> 91" using assms(2,4) by (cases host) auto
  ultimately show ?thesis using assms by (simp add: SplitHostPort_def)
qed

section \<open>Prefixes\<close>

text \<open>The bits of an address, most significant first: a network is a prefix of them.\<close>

definition byte_bits :: "byte \<Rightarrow> bool list" where
  "byte_bits b = map (bit b) [7, 6, 5, 4, 3, 2, 1, 0]"

definition addr_bits :: "bytes \<Rightarrow> bool list" where
  "addr_bits a = concat (map byte_bits a)"

definition in_prefix :: "nat \<Rightarrow> bytes \<Rightarrow> bytes \<Rightarrow> bool" where
  "in_prefix k net a \<longleftrightarrow> take k (addr_bits a) = take k (addr_bits net)"

lemma length_byte_bits [simp]: "length (byte_bits b) = 8"
  by (simp add: byte_bits_def)

lemma byte_bits_inject: "byte_bits x = byte_bits y \<longleftrightarrow> x = y"
proof
  assume "byte_bits x = byte_bits y"
  then have "bit x j = bit y j" if "j < 8" for j
    using that less_Suc_eq [of j] by (auto simp: byte_bits_def numeral_eq_Suc less_Suc_eq)
  then show "x = y" by (intro bit_word_eqI) simp
qed simp

lemma all_ones: "(255 :: byte) = - 1"
  by transfer (simp add: take_bit_minus_one_eq_mask mask_eq_exp_minus_1)

lemma masked_byte:
  assumes "k < 8"
  shows "x AND NOT (drop_bit k (255 :: byte)) = y AND NOT (drop_bit k 255)
    \<longleftrightarrow> take k (byte_bits x) = take k (byte_bits y)"
proof -
  have "k = 0 \<or> k = 1 \<or> k = 2 \<or> k = 3 \<or> k = 4 \<or> k = 5 \<or> k = 6 \<or> k = 7" using assms by auto
  then show ?thesis
    unfolding all_ones
    by (elim disjE) (simp_all add: byte_bits_inject [symmetric] byte_bits_def bit_simps)
qed

lemma masked_prefix:
  "length x = length y \<Longrightarrow> map2 (AND) x (CIDRMask k (length x)) = map2 (AND) y (CIDRMask k (length x))
    \<longleftrightarrow> take k (addr_bits x) = take k (addr_bits y)"
proof (induction x y arbitrary: k rule: list_induct2)
  case Nil
  then show ?case by simp
next
  case (Cons x xs y ys)
  show ?case
  proof (cases "8 \<le> k")
    case True
    have "x AND 255 = x" for x :: byte
      unfolding all_ones by (rule and.right_neutral)
    with True Cons.IH [of "k - 8"] show ?thesis
      by (auto simp: addr_bits_def byte_bits_inject)
  next
    case False
    with Cons.IH [of 0] masked_byte [of k x y] show ?thesis
      by (auto simp: addr_bits_def)
  qed
qed

lemma length_CIDRMask [simp]: "length (CIDRMask k n) = n"
  by (induction n arbitrary: k) auto

lemma To4_As16: "length a = 4 \<Longrightarrow> To4 (As16 a) = Some a"
  by (simp add: To4_def As16_def v4InV6Prefix_def)

lemma ParseIP_text: "length a = 4 \<Longrightarrow> ParseIP (ipv4_text a) = Some (As16 a)"
  by (simp add: ParseIP_def ParseAddr_text)

text \<open>The network of a CIDR text.\<close>

definition cidr_text :: "bytes \<times> nat \<Rightarrow> bytes" where
  "cidr_text c = ipv4_text (fst c) @ 47 # byte_decimal (snd c)"

definition cidr_net :: "bytes \<times> nat \<Rightarrow> IPNet" where
  "cidr_net c = \<lparr>net_IP = map2 (AND) (fst c) (CIDRMask (snd c) 4), net_Mask = CIDRMask (snd c) 4\<rparr>"

lemma ParseCIDR_text:
  assumes "length (fst c) = 4"
  shows "ParseCIDR (cidr_text c) = (if snd c \<le> 32 then Some (cidr_net c) else None)"
proof -
  have "takeWhile (\<lambda>x. x \<noteq> 47) (cidr_text c) = ipv4_text (fst c)"
    using set_ipv4_text [of 47 "fst c"] by (auto simp: cidr_text_def takeWhile_append)
  then show ?thesis
    using assms by (simp add: ParseCIDR_def ParseAddr_text byte_decimal_digits cidr_net_def Let_def)
      (simp add: cidr_text_def byte_decimal_digits)
qed

lemma masked_twice: "length n = length m \<Longrightarrow> map2 (AND) (map2 (AND) n m) m = map2 (AND) n (m :: bytes)"
  by (induction n m rule: list_induct2) (simp_all add: and.assoc)

lemma Contains_cidr:
  assumes "length (fst c) = 4" "length a = 4"
  shows "Contains (cidr_net c) (As16 a) \<longleftrightarrow> in_prefix (snd c) (fst c) a"
proof -
  let ?n = "fst c" and ?m = "CIDRMask (snd c) 4"
  have "To4 (map2 (AND) ?n ?m) = Some (map2 (AND) ?n ?m)"
    using assms by (simp add: To4_def)
  then have "networkNumberAndMask (cidr_net c) = Some (map2 (AND) ?n ?m, ?m)"
    by (simp add: networkNumberAndMask_def cidr_net_def Let_def)
  then have "Contains (cidr_net c) (As16 a) \<longleftrightarrow> map2 (AND) ?n ?m = map2 (AND) a ?m"
    using assms masked_twice [of ?n ?m] by (simp add: Contains_def To4_As16)
  then show ?thesis
    using masked_prefix [of ?n a "snd c"] assms by (auto simp: in_prefix_def)
qed

section \<open>Any range\<close>

text \<open>The lengths of what is parsed.\<close>

lemma length_those: "those xs = Some ys \<Longrightarrow> length ys = length xs"
  by (induction xs arbitrary: ys) (auto split: option.splits)

lemma length_parseIPv4: "parseIPv4 s = Some a \<Longrightarrow> length a = 4"
  by (auto simp: parseIPv4_def Let_def dest: length_those split: if_splits)

lemma length_v6_loop:
  "v6_loop n s ip e = Some (s', ip', e') \<Longrightarrow> length ip + 2 * n \<le> 16 \<Longrightarrow> length ip' \<le> 16"
proof (induction n s ip e rule: v6_loop.induct)
  case (2 n s ip e)
  then show ?case
    by (auto simp: Let_def split: if_splits list.splits dest: length_parseIPv4)
qed simp

lemma length_parseIPv6:
  assumes "parseIPv6 s = Some a"
  shows "length a = 16"
proof -
  obtain s1 ell where se: "(if take 2 s = [58, 58] then (drop 2 s, Some 0) else (s, None)) = (s1, ell :: nat option)"
    by fastforce
  show ?thesis
  proof (cases "v6_loop 8 s1 [] ell")
    case (Some x)
    obtain s2 ip ell1 where x: "x = (s2, ip, ell1)" by (metis prod_cases3)
    have "length ip \<le> 16" using length_v6_loop [OF Some [unfolded x]] by simp
    with assms Some x se show ?thesis
      by (auto simp: parseIPv6_def Let_def split: if_splits option.splits)
  qed (use assms se in \<open>auto simp: parseIPv6_def Let_def split: if_splits\<close>)
qed

lemma length_ParseAddr: "ParseAddr s = Some a \<Longrightarrow> length a = 4 \<or> length a = 16"
  by (auto simp: ParseAddr_def dest: length_parseIPv4 length_parseIPv6 split: if_splits option.splits)

lemma CIDRMask_append: "CIDRMask k (m + n) = CIDRMask k m @ CIDRMask (k - 8 * m) n"
  by (induction m arbitrary: k) (auto simp: diff_diff_left)

lemma CIDRMask_full: "8 * n \<le> k \<Longrightarrow> CIDRMask k n = replicate n 255"
  by (induction n arbitrary: k) auto

lemma CIDRMask_cut: "k < 8 * n \<Longrightarrow> \<exists>b. last (CIDRMask k n) = b \<and> b \<noteq> 255"
proof (induction n arbitrary: k)
  case (Suc n)
  have short: "NOT (drop_bit k 255) \<noteq> (255 :: byte)" if "k < 8"
  proof -
    have "k = 0 \<or> k = 1 \<or> k = 2 \<or> k = 3 \<or> k = 4 \<or> k = 5 \<or> k = 6 \<or> k = 7" using that by auto
    then show ?thesis by (elim disjE) simp_all
  qed
  show ?case
  proof (cases "n = 0")
    case True
    with Suc.prems short show ?thesis by simp
  next
    case False
    then have "CIDRMask j n \<noteq> []" for j by (metis length_CIDRMask length_0_conv)
    with Suc False show ?thesis by simp
  qed
qed simp

text \<open>
  What a CIDR text says, if it says anything: an address of 4 or 16 bytes and the length of a prefix. It covers
  an IPv4 address when the prefix does, and so does the prefix of an IPv4 address written as IPv6.
\<close>

definition range_of :: "bytes \<Rightarrow> (bytes \<times> nat) option" where
  "range_of t =
     (let addr = takeWhile (\<lambda>c. c \<noteq> 47) t; len = drop (Suc (length addr)) t
      in if len = [] \<or> \<not> list_all is_digit_byte len then None
         else map_option (\<lambda>b. (b, number len)) (ParseAddr addr))"

definition covers :: "bytes \<times> nat \<Rightarrow> bytes \<Rightarrow> bool" where
  "covers r a \<longleftrightarrow>
     (case r of (b, k) \<Rightarrow>
        length b = 4 \<and> k \<le> 32 \<and> in_prefix k b a
        \<or> length b = 16 \<and> take 12 b = v4InV6Prefix \<and> 96 \<le> k \<and> k \<le> 128 \<and> in_prefix (k - 96) (drop 12 b) a)"

definition range_net :: "bytes \<times> nat \<Rightarrow> IPNet" where
  "range_net r = (case r of (b, k) \<Rightarrow>
     \<lparr>net_IP = map2 (AND) b (CIDRMask k (length b)), net_Mask = CIDRMask k (length b)\<rparr>)"

lemma ParseCIDR_range:
  "ParseCIDR t = (case range_of t of None \<Rightarrow> None | Some (b, k) \<Rightarrow> if k \<le> 8 * length b then Some (range_net (b, k)) else None)"
proof (cases "47 \<in> set t")
  case False
  then have "takeWhile (\<lambda>c. c \<noteq> 47) t = t" by (subst takeWhile_eq_all_conv) blast
  then have "range_of t = None" unfolding range_of_def Let_def by (simp only:) simp
  with False show ?thesis by (simp add: ParseCIDR_def)
next
  case True
  then show ?thesis
    by (simp add: ParseCIDR_def range_of_def range_net_def Let_def not_less split: option.split)
qed

lemma map2_replicate: "length xs = n \<Longrightarrow> map2 (AND) xs (replicate n 255) = (xs :: bytes)"
proof (induction xs arbitrary: n)
  case (Cons x xs)
  have "x AND 255 = x" unfolding all_ones by (rule and.right_neutral)
  with Cons show ?case by (cases n) simp_all
qed simp

lemma Contains_range_v6:
  assumes b: "length b = 16" and a: "length a = 4" and k: "k \<le> 128"
  shows "Contains (range_net (b, k)) (As16 a) \<longleftrightarrow> take 12 b = v4InV6Prefix \<and> 96 \<le> k \<and> in_prefix (k - 96) (drop 12 b) a"
proof -
  let ?m = "CIDRMask k 16"
  have m: "?m = CIDRMask k 12 @ CIDRMask (k - 96) 4" using CIDRMask_append [of k 12 4] by simp
  let ?ip = "map2 (AND) b ?m"
  have split: "?ip = map2 (AND) (take 12 b) (CIDRMask k 12) @ map2 (AND) (drop 12 b) (CIDRMask (k - 96) 4)"
    using b zip_append [of "take 12 b" "CIDRMask k 12" "drop 12 b" "CIDRMask (k - 96) 4"] by (simp add: m)
  have len: "length ?ip = 16" using b by simp
  show ?thesis
  proof (cases "96 \<le> k")
    case True
    then have "map2 (AND) (take 12 b) (CIDRMask k 12) = take 12 b"
      using b by (simp add: CIDRMask_full map2_replicate)
    then have tk: "take 12 ?ip = take 12 b" "drop 12 ?ip = map2 (AND) (drop 12 b) (CIDRMask (k - 96) 4)"
      using b by (simp_all add: split)
    show ?thesis
    proof (cases "take 12 b = v4InV6Prefix")
      case p: True
      then have "networkNumberAndMask (range_net (b, k)) = Some (map2 (AND) (drop 12 b) (CIDRMask (k - 96) 4), CIDRMask (k - 96) 4)"
        using tk len b by (simp add: networkNumberAndMask_def range_net_def To4_def Let_def) (simp add: m)
      then have "Contains (range_net (b, k)) (As16 a)
          \<longleftrightarrow> map2 (AND) (drop 12 b) (CIDRMask (k - 96) 4) = map2 (AND) a (CIDRMask (k - 96) 4)"
        using a b masked_twice [of "drop 12 b" "CIDRMask (k - 96) 4"] by (simp add: Contains_def To4_As16)
      then show ?thesis
        using masked_prefix [of "drop 12 b" a "k - 96"] a b p True by (auto simp: in_prefix_def)
    next
      case False
      then have "networkNumberAndMask (range_net (b, k)) = Some (?ip, ?m)"
        using tk len b by (simp add: networkNumberAndMask_def range_net_def To4_def Let_def)
      with False a len show ?thesis by (simp add: Contains_def To4_As16)
    qed
  next
    case False
    then obtain x where x: "last (CIDRMask k 12) = x" "x \<noteq> 255" using CIDRMask_cut [of k 12] by auto
    have "CIDRMask k 12 \<noteq> []" by (metis length_CIDRMask list.size(3) zero_neq_numeral)
    from last_conv_nth [OF this] have nth: "CIDRMask k 12 ! 11 = x" using x(1) by (simp del: CIDRMask.simps)
    have "take 12 ?ip ! 11 = b ! 11 AND x" using b nth by (simp add: m nth_append)
    moreover have "b ! 11 AND x \<noteq> 255"
    proof
      assume "b ! 11 AND x = 255"
      then have "(b ! 11 AND x) OR x = 255 OR x" by simp
      then have "x = 255" unfolding all_ones by (simp add: or.commute)
      with x(2) show False ..
    qed
    moreover have "v4InV6Prefix ! 11 = 255" by (simp add: v4InV6Prefix_def zeros_def nth_append)
    ultimately have "take 12 ?ip \<noteq> v4InV6Prefix" by metis
    then have "networkNumberAndMask (range_net (b, k)) = Some (?ip, ?m)"
      using len b by (simp add: networkNumberAndMask_def range_net_def To4_def Let_def)
    with False a len show ?thesis by (simp add: Contains_def To4_As16)
  qed
qed

lemma Contains_parsed:
  assumes "length a = 4"
  shows "(case ParseCIDR t of None \<Rightarrow> False | Some n \<Rightarrow> Contains n (As16 a))
    \<longleftrightarrow> (case range_of t of None \<Rightarrow> False | Some r \<Rightarrow> covers r a)"
proof (cases "range_of t")
  case (Some r)
  obtain b k where r: "r = (b, k)" by (cases r)
  have "length b = 4 \<or> length b = 16"
    using Some r length_ParseAddr by (auto simp: range_of_def Let_def split: if_splits)
  then show ?thesis
  proof
    assume b: "length b = 4"
    then have "range_net (b, k) = cidr_net (b, k)" by (simp add: range_net_def cidr_net_def)
    with b Contains_cidr [of "(b, k)" a] assms Some r show ?thesis by (simp add: ParseCIDR_range covers_def)
  next
    assume b: "length b = 16"
    with Contains_range_v6 [OF b assms, of k] Some r show ?thesis by (auto simp: ParseCIDR_range covers_def)
  qed
qed (simp add: ParseCIDR_range)

end
