(* ===== verification/Client_Addr.thy ===== *)
theory Client_Addr
  imports Net_Addr Rate_Limit
begin

text \<open>
  \<open>internal/relay/relay.go\<close>: \<open>WithTrustedProxies\<close> and \<open>extractIP\<close>, the address under which the
  relay limits and bans a client.
\<close>

section \<open>Trimming bytes\<close>

text \<open>
  \<open>strings.TrimSpace\<close> on a header value, which need not be valid UTF-8: the encodings of the
  white-space runes are cut off at both ends.
\<close>

definition space_codes :: "bytes list" where
  "space_codes = [[9], [10], [11], [12], [13], [32], [0xC2, 0x85], [0xC2, 0xA0], [0xE1, 0x9A, 0x80],
     [0xE2, 0x80, 0xA8], [0xE2, 0x80, 0xA9], [0xE2, 0x80, 0xAF], [0xE2, 0x81, 0x9F], [0xE3, 0x80, 0x80]]
     @ map (\<lambda>n. [0xE2, 0x80, 0x80 + of_nat n]) [0..<11]"

function trim_left :: "bytes list \<Rightarrow> bytes \<Rightarrow> bytes" where
  "trim_left codes s =
     (case List.find (\<lambda>c. c \<noteq> [] \<and> take (length c) s = c) codes of
        None \<Rightarrow> s
      | Some c \<Rightarrow> trim_left codes (drop (length c) s))"
  by pat_completeness auto
termination
proof (relation "measure (\<lambda>(codes, s). length s)")
  fix codes s c
  assume "List.find (\<lambda>c. c \<noteq> [] \<and> take (length c) s = c) codes = Some (c :: bytes)"
  then have "c \<noteq> []" "take (length c) s = c" by (auto simp: find_Some_iff)
  then show "((codes, drop (length c) s), codes, s) \<in> measure (\<lambda>(codes, s). length s)"
    by (cases c; cases s) auto
qed simp

declare trim_left.simps [simp del]

definition trim_bytes :: "bytes \<Rightarrow> bytes" where
  "trim_bytes s = rev (trim_left (map rev space_codes) (rev (trim_left space_codes s)))"

section \<open>Trusted proxies\<close>

text \<open>The parts of an \<open>http.Request\<close> that are read; a header is the list of its values.\<close>

record http_request =
  rq_RemoteAddr :: bytes
  rq_CFConnectingIP :: "bytes list"
  rq_XForwardedFor :: "bytes list"

definition header_Get :: "bytes list \<Rightarrow> bytes" where
  "header_Get vs = (case vs of [] \<Rightarrow> [] | v # _ \<Rightarrow> v)"

text \<open>The networks the option appends to \<open>trustedProxies\<close>; texts that do not parse are skipped.\<close>

definition WithTrustedProxies :: "bytes list \<Rightarrow> IPNet list" where
  "WithTrustedProxies cidrs = List.map_filter ParseCIDR cidrs"

definition extractIP :: "IPNet list \<Rightarrow> http_request \<Rightarrow> ip" where
  "extractIP trustedProxies r =
     (let host = (case SplitHostPort (rq_RemoteAddr r) of
                    None \<Rightarrow> rq_RemoteAddr r | Some (host, _) \<Rightarrow> host)
      in if 0 < length trustedProxies then
           (case ParseIP host of
              None \<Rightarrow> host
            | Some srcIP \<Rightarrow>
                (case List.find (\<lambda>cidr. Contains cidr srcIP) trustedProxies of
                   None \<Rightarrow> host
                 | Some _ \<Rightarrow>
                     let cfIP = header_Get (rq_CFConnectingIP r); xff = header_Get (rq_XForwardedFor r)
                     in if cfIP \<noteq> [] then cfIP
                        else if xff \<noteq> [] then trim_bytes (hd (Split 44 xff))
                        else host))
         else host)"

section \<open>Trust in terms of prefixes\<close>

lemma WithTrustedProxies_texts:
  "list_all (\<lambda>c. length (fst c) = 4) cs
    \<Longrightarrow> WithTrustedProxies (map cidr_text cs) = map cidr_net (filter (\<lambda>c. snd c \<le> 32) cs)"
  by (induction cs) (simp_all add: WithTrustedProxies_def List.map_filter_simps ParseCIDR_text)

text \<open>The peer is a trusted proxy: it lies in one of the networks.\<close>

definition trusted_peer :: "(bytes \<times> nat) list \<Rightarrow> bytes \<Rightarrow> bool" where
  "trusted_peer cs a \<longleftrightarrow> list_ex (\<lambda>c. snd c \<le> 32 \<and> in_prefix (snd c) (fst c) a) cs"

lemma find_None_ex: "List.find P xs = None \<longleftrightarrow> \<not> list_ex P xs"
  by (induction xs) auto

lemma list_ex_nets:
  assumes "list_all (\<lambda>c. length (fst c) = 4) cs" "length a = 4"
  shows "list_ex (\<lambda>n. Contains n (As16 a)) (map cidr_net (filter (\<lambda>c. snd c \<le> 32) cs)) \<longleftrightarrow> trusted_peer cs a"
  using assms by (induction cs) (auto simp: trusted_peer_def Contains_cidr)

definition forwarded :: "http_request \<Rightarrow> bytes \<Rightarrow> bytes" where
  "forwarded r host =
     (if header_Get (rq_CFConnectingIP r) \<noteq> [] then header_Get (rq_CFConnectingIP r)
      else if header_Get (rq_XForwardedFor r) \<noteq> [] then trim_bytes (hd (Split 44 (header_Get (rq_XForwardedFor r))))
      else host)"

lemma extractIP_host:
  assumes "SplitHostPort (rq_RemoteAddr r) = Some (host, port)" "ParseIP host = Some src"
  shows "extractIP nets r = (if list_ex (\<lambda>n. Contains n src) nets then forwarded r host else host)"
proof (cases "List.find (\<lambda>n. Contains n src) nets")
  case None
  then show ?thesis using assms find_None_ex [THEN iffD1, OF None] by (simp add: extractIP_def Let_def)
next
  case (Some n)
  then have "list_ex (\<lambda>n. Contains n src) nets" "nets \<noteq> []"
    using find_None_ex [of "\<lambda>n. Contains n src" nets] by auto
  then show ?thesis using assms Some by (simp add: extractIP_def Let_def forwarded_def)
qed

lemma extractIP_peer:
  assumes "length a = 4" and "rq_RemoteAddr r = ipv4_text a @ 58 # byte_decimal port"
  shows "extractIP nets r = (if list_ex (\<lambda>n. Contains n (As16 a)) nets then forwarded r (ipv4_text a) else ipv4_text a)"
proof -
  have "ipv4_text a \<noteq> []" using ParseAddr_text [OF assms(1)] by (auto simp: ParseAddr_def)
  then have "SplitHostPort (rq_RemoteAddr r) = Some (ipv4_text a, byte_decimal port)"
    unfolding assms(2)
    by (intro SplitHostPort_text) (simp_all add: set_ipv4_text digit_no_punct [OF byte_decimal_digits])
  from extractIP_host [OF this ParseIP_text [OF assms(1)]] show ?thesis .
qed

lemma extractIP_eq:
  assumes "list_all (\<lambda>c. length (fst c) = 4) cs" "length a = 4"
    and "rq_RemoteAddr r = ipv4_text a @ 58 # byte_decimal port"
  shows "extractIP (WithTrustedProxies (map cidr_text cs)) r
    = (if trusted_peer cs a then forwarded r (ipv4_text a) else ipv4_text a)"
  using extractIP_peer [OF assms(2,3)] list_ex_nets [OF assms(1,2)] by (simp add: WithTrustedProxies_texts [OF assms(1)])

text \<open>The same for arbitrary texts.\<close>

lemma list_ex_parsed:
  assumes "length a = 4"
  shows "list_ex (\<lambda>n. Contains n (As16 a)) (WithTrustedProxies texts)
    \<longleftrightarrow> list_ex (\<lambda>t. case range_of t of None \<Rightarrow> False | Some c \<Rightarrow> covers c a) texts"
proof (induction texts)
  case (Cons t texts)
  with Contains_parsed [OF assms, of t] show ?case
    by (cases "ParseCIDR t") (auto simp: WithTrustedProxies_def List.map_filter_simps)
qed (simp add: WithTrustedProxies_def List.map_filter_simps)

section \<open>Properties\<close>

text \<open>
  C32. Only a trusted proxy can name the client. For a peer with an IPv4 address and any texts given with
  \<open>--trusted-proxy\<close>, the address under which the relay limits and bans is the address of
  the connection itself, unless one of the texts is a range that covers the peer: an IPv4 address whose first
  bits, to the length of the prefix (32 at most), are those of the peer, or such an address written as IPv6
  (\<open>::ffff:a.b.c.d\<close>) with a prefix longer by 96. A text that is no range, and an IPv6 range of another kind, counts for
  nothing. Only then the address is taken from \<open>CF-Connecting-IP\<close>, else from the first entry of
  \<open>X-Forwarded-For\<close>, else it is again the peer. So a client that connects directly cannot forge its address with a header.
\<close>

theorem only_trusted_peers_forward:
  assumes "length a = 4" and "rq_RemoteAddr r = ipv4_text a @ 58 # byte_decimal port"
  shows "extractIP (WithTrustedProxies texts) r
    = (if \<exists>t \<in> set texts. case range_of t of None \<Rightarrow> False
            | Some (b, k) \<Rightarrow>
                length b = 4 \<and> k \<le> 32 \<and> take k (addr_bits a) = take k (addr_bits b)
                \<or> length b = 16 \<and> take 12 b = v4InV6Prefix \<and> 96 \<le> k \<and> k \<le> 128
                  \<and> take (k - 96) (addr_bits a) = take (k - 96) (addr_bits (drop 12 b))
       then if header_Get (rq_CFConnectingIP r) \<noteq> [] then header_Get (rq_CFConnectingIP r)
         else if header_Get (rq_XForwardedFor r) \<noteq> []
         then trim_bytes (hd (Split 44 (header_Get (rq_XForwardedFor r))))
         else ipv4_text a
       else ipv4_text a)"
proof -
  have "extractIP (WithTrustedProxies texts) r
      = (if list_ex (\<lambda>t. case range_of t of None \<Rightarrow> False | Some c \<Rightarrow> covers c a) texts
         then forwarded r (ipv4_text a) else ipv4_text a)"
    using extractIP_peer [OF assms] list_ex_parsed [OF assms(1), of texts] by simp
  then show ?thesis unfolding covers_def in_prefix_def forwarded_def list_ex_iff
    by (simp only: case_prod_unfold)
qed

theorem only_trusted_peers_forward_witness:
  "extractIP (WithTrustedProxies [ascii ''10.0.0.0/8'', ascii ''::ffff:192.168.0.0/112'', ascii ''fe80::/10'', ascii ''office''])
     \<lparr>rq_RemoteAddr = ipv4_text [11, 0, 0, 1] @ 58 # byte_decimal 443, rq_CFConnectingIP = [[49]], rq_XForwardedFor = []\<rparr>
   = ipv4_text [11, 0, 0, 1]"
proof -
  have r: "range_of (ascii ''10.0.0.0/8'') = Some ([10, 0, 0, 0], 8)"
    "range_of (ascii ''::ffff:192.168.0.0/112'') = Some (v4InV6Prefix @ [192, 168, 0, 0], 112)"
    "range_of (ascii ''fe80::/10'') = Some (0xFE # 0x80 # zeros 14, 10)" "range_of (ascii ''office'') = None"
    by code_simp+
  have "take 8 (addr_bits [11, 0, 0, 1]) \<noteq> take 8 (addr_bits [10, 0, 0, 0])"
    "take 16 (addr_bits [11, 0, 0, 1]) \<noteq> take 16 (addr_bits [192, 168, 0, 0])" by code_simp+
  then show ?thesis
    by (subst only_trusted_peers_forward [OF _ http_request.select_convs(1)])
      (simp_all add: r v4InV6Prefix_def)
qed

text \<open>A plain token: visible ASCII bytes without a comma.\<close>

definition token :: "bytes \<Rightarrow> bool" where
  "token x \<longleftrightarrow> x \<noteq> [] \<and> list_all (\<lambda>c. 32 < c \<and> c < 127 \<and> c \<noteq> 44) x"

lemma trim_left_stop: "list_all (\<lambda>c. take (length c) s \<noteq> c) codes \<Longrightarrow> trim_left codes s = s"
  by (subst trim_left.simps) (auto simp: find_None_iff find_Some_iff list_all_iff split: option.split)

lemma space_codes_ends:
  "list_all (\<lambda>c. c \<noteq> [] \<and> (hd c \<le> 32 \<or> 127 \<le> hd c)) space_codes"
  "list_all (\<lambda>c. c \<noteq> [] \<and> (hd c \<le> 32 \<or> 127 \<le> hd c)) (map rev space_codes)"
  by code_simp+

lemma trim_left_visible:
  assumes "s \<noteq> []" "32 < hd s" "hd s < 127"
    and "list_all (\<lambda>c. c \<noteq> [] \<and> (hd c \<le> 32 \<or> 127 \<le> hd c)) codes"
  shows "trim_left codes s = s"
proof (rule trim_left_stop)
  have "take (length c) s \<noteq> c" if "c \<in> set codes" for c
  proof
    assume c: "take (length c) s = c"
    from that assms(4) have "c \<noteq> []" "hd c \<le> 32 \<or> 127 \<le> hd c" by (auto simp: list_all_iff)
    moreover have "hd c = hd s" using c \<open>c \<noteq> []\<close> assms(1) by (cases c; cases s) auto
    ultimately show False using assms(2,3) by auto
  qed
  then show "list_all (\<lambda>c. take (length c) s \<noteq> c) codes" by (simp add: list_all_iff)
qed

lemma trim_token:
  assumes "token x"
  shows "trim_bytes x = x"
proof -
  have x: "x \<noteq> []" "32 < hd x" "hd x < 127" "32 < last x" "last x < 127"
    using assms by (auto simp: token_def list_all_iff)
  then show ?thesis
    using trim_left_visible [of x, OF x(1-3) space_codes_ends(1)]
      trim_left_visible [of "rev x", OF _ _ _ space_codes_ends(2)]
    by (simp add: trim_bytes_def hd_rev)
qed

text \<open>
  A request that a trusted proxy forwards in the usual way: it appends the address of its client
  to the header that the client sent.
\<close>

definition proxied :: "bytes \<Rightarrow> bytes \<Rightarrow> bytes \<Rightarrow> http_request" where
  "proxied proxy client sent =
     \<lparr>rq_RemoteAddr = ipv4_text proxy @ 58 # byte_decimal 443, rq_CFConnectingIP = [],
      rq_XForwardedFor = [sent @ [44, 32] @ ipv4_text client]\<rparr>"

definition limited_as :: "ip \<Rightarrow> EventType \<Rightarrow> time \<Rightarrow> request" where
  "limited_as ip ev t = \<lparr>req_ip = ip, req_event = ev, req_check = t, req_now = t, req_ban = t\<rparr>"

lemma extractIP_proxied:
  assumes "list_all (\<lambda>c. length (fst c) = 4) cs" "length proxy = 4" "trusted_peer cs proxy" "token x"
  shows "extractIP (WithTrustedProxies (map cidr_text cs)) (proxied proxy client x) = x"
proof -
  have "44 \<notin> set x" using assms(4) by (auto simp: token_def list_all_iff)
  then have "hd (Split 44 (x @ 44 # 32 # ipv4_text client)) = x" by (simp add: Split_append)
  then show ?thesis
    using extractIP_eq [OF assms(1,2), of "proxied proxy client x" 443] assms(3,4)
    by (simp add: proxied_def forwarded_def header_Get_def trim_token)
qed

text \<open>The first request of an address is always allowed.\<close>

lemma fresh_allowed:
  assumes "mget (rl_ips rl) ip = None" "rl_config rl = DefaultRateLimitConfig"
    and "ev = EventConnection \<or> ev = EventRegistration"
  shows "fst (rl_step rl (limited_as ip ev t))"
proof -
  have "entry rl ip = new_ipState" using assms by (simp add: entry_def)
  then show ?thesis
    using assms(2,3)
    by (elim disjE) (simp_all add: rl_step_def limited_as_def Allow_entry allow_entry_True count_request_eq
        isBannedLocked_def new_ipState_def DefaultRateLimitConfig_def count_of_def)
qed

lemma fresh_run:
  assumes "distinct xs" "\<forall>x \<in> set xs. mget (rl_ips rl) x = None" "rl_config rl = DefaultRateLimitConfig"
    and ev: "ev = EventConnection \<or> ev = EventRegistration"
  shows "list_all (\<lambda>(r, ok, ps). ok) (fst (rl_run rl (map (\<lambda>x. limited_as x ev (now x)) xs)))"
  using assms(1-3)
proof (induction xs arbitrary: rl)
  case (Cons x xs)
  let ?r = "limited_as x ev (now x)" and ?rl = "snd (snd (rl_step rl (limited_as x ev (now x))))"
  have "y \<noteq> x" if "y \<in> set xs" for y using that Cons.prems(1) by auto
  then have "\<forall>y \<in> set xs. mget (rl_ips ?rl) y = None"
    using Cons.prems(2) by (simp add: rl_step_def limited_as_def Allow_other)
  moreover have "rl_config ?rl = DefaultRateLimitConfig" using Cons.prems by (simp add: rl_step_def)
  ultimately show ?case
    using Cons fresh_allowed [OF _ _ ev, of rl x "now x"] by (simp add: Let_def split_beta)
qed simp

text \<open>
  C33. The limits do not hold behind an appending proxy. The relay takes the first entry of
  \<open>X-Forwarded-For\<close>, which is the client's own when the trusted proxy appends to the header: a
  client that sends a different token with every request is limited under a new address every
  time, so none of its requests is ever refused, however many there are and however fast they
  come.
\<close>

theorem forged_header_evades_limits:
  assumes "list_all (\<lambda>c. length (fst c) = 4) cs" and "length proxy = 4" and "trusted_peer cs proxy"
    and "distinct xs" and "list_all token xs" and "ev = EventConnection \<or> ev = EventRegistration"
  shows "list_all (\<lambda>(r, ok, ps). ok)
    (fst (rl_run (NewRateLimiter DefaultRateLimitConfig)
      (map (\<lambda>x. limited_as (extractIP (WithTrustedProxies (map cidr_text cs)) (proxied proxy client x)) ev (now x)) xs)))"
proof -
  have "map (\<lambda>x. limited_as (extractIP (WithTrustedProxies (map cidr_text cs)) (proxied proxy client x)) ev (now x)) xs
      = map (\<lambda>x. limited_as x ev (now x)) xs"
    by (rule map_cong [OF refl]) (use assms in \<open>simp add: extractIP_proxied list_all_iff\<close>)
  then show ?thesis
    using fresh_run [OF assms(4) _ _ assms(6), of "NewRateLimiter DefaultRateLimitConfig" now]
    by (simp only:) (simp add: NewRateLimiter_def)
qed

theorem forged_header_evades_limits_witness:
  "list_all (\<lambda>(r, ok, ps). ok)
    (fst (rl_run (NewRateLimiter DefaultRateLimitConfig)
      (map (\<lambda>x. limited_as (extractIP (WithTrustedProxies (map cidr_text [([10, 0, 0, 0], 8)]))
          (proxied [10, 0, 0, 7] [9, 9, 9, 9] x)) EventRegistration 0)
        [[49], [50], [51], [52], [53], [54], [55], [56]])))"
  by (rule forged_header_evades_limits)
    (simp_all add: trusted_peer_def in_prefix_def addr_bits_def token_def)

end
