(* ===== verification/Relay_Cmd.thy ===== *)
theory Relay_Cmd
  imports Client_Addr Relay Relay_Url
begin

text \<open>
  The relay as a program: the routes of \<open>NewServer\<close>, \<open>ServeHTTP\<close> and \<open>WithWebAssets\<close> of
  \<open>internal/relay/relay.go\<close>, the command \<open>lw relay\<close> (\<open>cmd/lw/relay.go\<close>), its self-signed certificate
  (\<open>cmd/lw/selfcert.go\<close>) and its log (\<open>cmd/lw/relayprobe.go\<close>). TLS, X.509 and SHA-256 are packages
  that enter through their results.
\<close>

section \<open>Routes\<close>

text \<open>\<open>strings.Replace(s, old, new, 1)\<close> for a non-empty \<open>old\<close>.\<close>

fun replace_first :: "bytes \<Rightarrow> bytes \<Rightarrow> bytes \<Rightarrow> bytes" where
  "replace_first old new [] = []"
| "replace_first old new (c # s) =
     (if take (length old) (c # s) = old then new @ drop (length old) (c # s)
      else c # replace_first old new s)"

text \<open>
  What the patterns of the server match: a \<open>GET\<close> pattern takes \<open>HEAD\<close>, too, and a wildcard takes one
  segment that is not empty, unescaped. The path is the one of the request line, from its first slash on;
  a path that \<open>ServeMux\<close> would redirect (with a double slash or a dot segment) counts as not found.
\<close>

datatype route = ToPage | ToShare bytes | ToWatch bytes | NoRoute nat

definition segments :: "bytes \<Rightarrow> bytes option list" where
  "segments path = map (unescape encodeOther) (Split 47 (tl path))"

definition path_route :: "bytes \<Rightarrow> route option" where
  "path_route path =
     (case segments path of
        [Some s] \<Rightarrow> if s = ascii ''join'' \<or> s = [] then Some ToPage else None
      | [Some a, Some b, Some i] \<Rightarrow>
          if a \<noteq> ascii ''api'' \<or> i = [] then None
          else if b = ascii ''share'' then Some (ToShare i)
          else if b = ascii ''watch'' then Some (ToWatch i)
          else None
      | _ \<Rightarrow> None)"

definition mux_route :: "bytes \<Rightarrow> bytes \<Rightarrow> route" where
  "mux_route verb path =
     (case path_route path of
        None \<Rightarrow> NoRoute 404
      | Some r \<Rightarrow> if verb = ascii ''GET'' \<or> verb = ascii ''HEAD'' then r else NoRoute 405)"

text \<open>\<open>index\<close> is the embedded file \<open>dist/index.html\<close>, if it is there.\<close>

datatype http_reply = Page bytes | Status nat | Handled

definition WithWebAssets :: "bytes option \<Rightarrow> bytes \<Rightarrow> http_reply" where
  "WithWebAssets index version =
     (case index of
        None \<Rightarrow> Status 404
      | Some html \<Rightarrow> Page (replace_first (ascii ''__VERSION__'') version html))"

definition ServeHTTP ::
  "bytes option \<Rightarrow> bytes \<Rightarrow> IPNet list \<Rightarrow> bytes \<Rightarrow> bytes \<Rightarrow> http_request \<Rightarrow> clocks \<Rightarrow> string option \<Rightarrow> relay
    \<Rightarrow> http_reply \<times> relay" where
  "ServeHTTP index version trustedProxies verb path r ck accept_err s =
     (case mux_route verb path of
        NoRoute n \<Rightarrow> (Status n, s)
      | ToPage \<Rightarrow> (WithWebAssets index version, s)
      | ToShare sessionID \<Rightarrow>
          (case rateLimitWrap EventRegistration (extractIP trustedProxies r) ck s of
             (next, s1) \<Rightarrow> (Handled, if next then handleShare sessionID accept_err s1 else s1))
      | ToWatch sessionID \<Rightarrow>
          (case rateLimitWrap EventConnection (extractIP trustedProxies r) ck s of
             (next, s1) \<Rightarrow> (Handled, if next then handleWatch sessionID accept_err s1 else s1)))"

section \<open>The self-signed certificate\<close>

record cert_template =
  tm_CommonName :: bytes
  tm_NotBefore :: time
  tm_NotAfter :: time
  tm_IPAddresses :: "bytes list"
  tm_DNSNames :: "bytes list"

definition IPv6loopback :: bytes where
  "IPv6loopback = zeros 15 @ [1]"

definition cert_hosts :: "bytes \<Rightarrow> bytes list \<times> bytes list" where
  "cert_hosts listenAddr =
     (let host = (case SplitHostPort listenAddr of None \<Rightarrow> [] | Some (host, _) \<Rightarrow> host)
      in if host = [] \<or> host = ascii ''0.0.0.0'' \<or> host = ascii ''::''
         then ([As16 [127, 0, 0, 1], IPv6loopback], [])
         else case ParseIP host of Some ip \<Rightarrow> ([ip], []) | None \<Rightarrow> ([], [host]))"

definition hexU :: "nat \<Rightarrow> byte" where
  "hexU n = (if n < 10 then 48 + of_nat n else 55 + of_nat n)"

definition hex2 :: "byte \<Rightarrow> bytes" where
  "hex2 b = [hexU (unat b div 16), hexU (unat b mod 16)]"

definition certFingerprint :: "(bytes \<Rightarrow> bytes) \<Rightarrow> bytes \<Rightarrow> bytes" where
  "certFingerprint sha256 der = ascii ''SHA256:'' @ Join (map hex2 (sha256 der)) [58]"

datatype cert_error =
    GeneratingKey string
  | GeneratingSerial string
  | CreatingCertificate string
  | MarshalingKey string
  | LoadingKeyPair string

text \<open>
  The packages: a key, a serial number, the DER form of the certificate for a template and of the
  key, the PEM form, and the pair that TLS uses.
\<close>

record ('k, 'c) cert_lib =
  cl_GenerateKey :: "string + 'k"
  cl_serial :: "string + nat"
  cl_CreateCertificate :: "cert_template \<Rightarrow> nat \<Rightarrow> 'k \<Rightarrow> string + bytes"
  cl_MarshalECPrivateKey :: "'k \<Rightarrow> string + bytes"
  cl_EncodeToMemory :: "string \<Rightarrow> bytes \<Rightarrow> bytes"
  cl_X509KeyPair :: "bytes \<Rightarrow> bytes \<Rightarrow> string + 'c"
  cl_sha256 :: "bytes \<Rightarrow> bytes"

definition hour :: duration where
  "hour = 3600 * second"

text \<open>
  The fields of the template that depend on something; the clock is read twice. The serial number is passed
  beside it, and the usages of the key are constants.
\<close>

definition cert_for :: "bytes \<Rightarrow> time \<times> time \<Rightarrow> cert_template" where
  "cert_for listenAddr now =
     \<lparr>tm_CommonName = ascii ''lockwire-relay'', tm_NotBefore = fst now - hour, tm_NotAfter = snd now + 365 * 24 * hour,
      tm_IPAddresses = fst (cert_hosts listenAddr), tm_DNSNames = snd (cert_hosts listenAddr)\<rparr>"

text \<open>The second result: the buffers that held the private key.\<close>

definition generateSelfSignedCert ::
  "('k, 'c) cert_lib \<Rightarrow> bytes \<Rightarrow> time \<times> time \<Rightarrow> (cert_error + 'c \<times> bytes) \<times> bytes list" where
  "generateSelfSignedCert C listenAddr now =
     (case cl_GenerateKey C of
        Inl e \<Rightarrow> (Inl (GeneratingKey e), [])
      | Inr key \<Rightarrow>
     (case cl_serial C of
        Inl e \<Rightarrow> (Inl (GeneratingSerial e), [])
      | Inr serial \<Rightarrow>
     (case cl_CreateCertificate C (cert_for listenAddr now) serial key of
        Inl e \<Rightarrow> (Inl (CreatingCertificate e), [])
      | Inr der \<Rightarrow>
     (case cl_MarshalECPrivateKey C key of
        Inl e \<Rightarrow> (Inl (MarshalingKey e), [])
      | Inr keyDER \<Rightarrow>
          (let certPEM = cl_EncodeToMemory C ''CERTIFICATE'' der;
               keyPEM = cl_EncodeToMemory C ''EC PRIVATE KEY'' keyDER;
               cert = cl_X509KeyPair C certPEM keyPEM;
               buffers = [ZeroBytes keyDER, ZeroBytes keyPEM]
           in case cert of
                Inl e \<Rightarrow> (Inl (LoadingKeyPair e), buffers)
              | Inr c \<Rightarrow> (Inr (c, certFingerprint (cl_sha256 C) der), buffers))))))"

section \<open>The command\<close>

datatype relay_error =
    SelfSignedWithFiles
  | CertAndKeyRequired
  | CertAndKeyTogether
  | LoadingCertificate string
  | LoadingPrivateKey string
  | GeneratingCertificate cert_error
  | CannotListen bytes string
  | ServeFailed string

text \<open>The checks of the flags.\<close>

definition relay_flags :: "bool \<Rightarrow> bytes \<Rightarrow> bytes \<Rightarrow> relay_error option" where
  "relay_flags selfSigned certFile keyFile =
     (if selfSigned \<and> (certFile \<noteq> [] \<or> keyFile \<noteq> []) then Some SelfSignedWithFiles
      else if \<not> selfSigned \<and> certFile = [] \<and> keyFile = [] then Some CertAndKeyRequired
      else if \<not> selfSigned \<and> (certFile = []) \<noteq> (keyFile = []) then Some CertAndKeyTogether
      else None)"

text \<open>
  A relay that listens: the certificate it shows, the lowest version of TLS, its server with the options
  applied, what it logs, and what it printed.
\<close>

record 'c serving =
  sg_addr :: bytes
  sg_cert :: 'c
  sg_MinVersion :: nat
  sg_server :: relay
  sg_trusted :: "IPNet list"
  sg_debug :: bool
  sg_stderr :: "bytes list"

definition VersionTLS12 :: nat where
  "VersionTLS12 = 0x0303"

text \<open>\<open>listening\<close> is the result of \<open>net.Listen\<close>, the address on success.\<close>

definition serveRelay ::
  "string + bytes \<Rightarrow> bytes \<Rightarrow> 'c \<Rightarrow> bytes \<Rightarrow> bytes list \<Rightarrow> bytes \<Rightarrow> relay_error + 'c serving" where
  "serveRelay listening listen cert fingerprint proxyCIDRs logLevel =
     (let proxies_line = (if 0 < length proxyCIDRs
            then [ascii ''trusted proxies: ['' @ Join proxyCIDRs [32] @ ascii '']''] else []);
          rl = NewRateLimiter DefaultRateLimitConfig
      in case listening of
           Inl e \<Rightarrow> Inl (CannotListen listen e)
         | Inr addr \<Rightarrow>
             Inr \<lparr>sg_addr = addr, sg_cert = cert, sg_MinVersion = VersionTLS12, sg_server = NewServer (Some rl),
                  sg_trusted = (if 0 < length proxyCIDRs then WithTrustedProxies proxyCIDRs else []),
                  sg_debug = (logLevel = ascii ''debug''),
                  sg_stderr = proxies_line
                    @ (if fingerprint \<noteq> []
                       then [ascii ''relay listening on '' @ addr @ ascii '' (self-signed; use --relay-insecure to connect)'',
                             ascii ''fingerprint: '' @ fingerprint]
                       else [ascii ''relay listening on '' @ addr])
                    @ [ascii ''web viewer at https://'' @ addr @ ascii ''/join'']\<rparr>)"

definition startRelay ::
  "('k, 'c) cert_lib \<Rightarrow> (bytes \<Rightarrow> string + bytes) \<Rightarrow> string + bytes \<Rightarrow> bytes \<Rightarrow> bytes \<Rightarrow> bytes \<Rightarrow> bytes list \<Rightarrow> bytes
    \<Rightarrow> relay_error + 'c serving" where
  "startRelay C read_file listening listen certFile keyFile proxyCIDRs logLevel =
     (case read_file certFile of
        Inl e \<Rightarrow> Inl (LoadingCertificate e)
      | Inr certPEM \<Rightarrow>
     (case read_file keyFile of
        Inl e \<Rightarrow> Inl (LoadingPrivateKey e)
      | Inr keyPEM \<Rightarrow>
     (case cl_X509KeyPair C certPEM keyPEM of
        Inl e \<Rightarrow> Inl (LoadingCertificate e)
      | Inr cert \<Rightarrow> serveRelay listening listen cert [] proxyCIDRs logLevel)))"

definition startRelaySelfSigned ::
  "('k, 'c) cert_lib \<Rightarrow> time \<times> time \<Rightarrow> string + bytes \<Rightarrow> bytes \<Rightarrow> bytes list \<Rightarrow> bytes \<Rightarrow> relay_error + 'c serving" where
  "startRelaySelfSigned C now listening listen proxyCIDRs logLevel =
     (case fst (generateSelfSignedCert C listen now) of
        Inl e \<Rightarrow> Inl (GeneratingCertificate e)
      | Inr (cert, fingerprint) \<Rightarrow> serveRelay listening listen cert fingerprint proxyCIDRs logLevel)"

definition runRelay ::
  "('k, 'c) cert_lib \<Rightarrow> (bytes \<Rightarrow> string + bytes) \<Rightarrow> time \<times> time \<Rightarrow> string + bytes \<Rightarrow> bytes \<Rightarrow> bool \<Rightarrow> bytes \<Rightarrow> bytes
    \<Rightarrow> bytes list \<Rightarrow> bytes \<Rightarrow> relay_error + 'c serving" where
  "runRelay C read_file now listening listen selfSigned certFile keyFile proxyCIDRs logLevel =
     (case relay_flags selfSigned certFile keyFile of
        Some e \<Rightarrow> Inl e
      | None \<Rightarrow>
          if selfSigned then startRelaySelfSigned C now listening listen proxyCIDRs logLevel
          else startRelay C read_file listening listen certFile keyFile proxyCIDRs logLevel)"

text \<open>The end of \<open>serveRelay\<close>: being shut down is no error.\<close>

datatype serve_end = ServerClosed | ServeError string

definition serve_result :: "serve_end \<Rightarrow> relay_error option" where
  "serve_result e = (case e of ServerClosed \<Rightarrow> None | ServeError t \<Rightarrow> Some (ServeFailed t))"

text \<open>The lines of \<open>logRelayProbe\<close>; \<open>stamp\<close> is the time in RFC 3339.\<close>

definition logRelayProbe :: "bool \<Rightarrow> string \<Rightarrow> probe_event \<Rightarrow> bytes list" where
  "logRelayProbe debug stamp ev =
     (case ev of
        AcceptError handler err \<Rightarrow> [ascii (stamp @ '' [relay] accept error on '' @ handler @ '': '' @ err)]
      | RateLimited ip activity \<Rightarrow>
          [ascii (stamp @ '' [relay] rate limited ip='') @ ip @ ascii ('' activity='' @ activity)]
      | BanTriggered ip activity duration \<Rightarrow>
          [ascii (stamp @ '' [relay] ban triggered ip='') @ ip @ ascii ('' activity='' @ activity @ '' duration='' @ duration)]
      | ConnectionAccepted handler clientIP \<Rightarrow>
          if debug then [ascii (stamp @ '' [relay] connection handler='' @ handler @ '' client='') @ clientIP] else [])"


section \<open>Clients reach their handlers\<close>

lemma hex_plain: "is_hex c \<Longrightarrow> url_letter c \<or> url_digit c"
  unfolding is_hex_def url_letter_def url_digit_def word_le_nat_alt by auto

lemma plain_segment:
  assumes "list_all plain_char s" "47 \<notin> set s"
  shows "map (unescape encodeOther) (Split 47 s) = [Some s]"
  using plain_chars(7) [OF assms(1)] by (simp add: Split_single [OF assms(2)])

lemma api_route:
  assumes "list_all is_hex i" "i \<noteq> []" "b = ascii ''share'' \<or> b = ascii ''watch''"
  shows "plain_path (ascii ''/api/'' @ b @ 47 # i)"
    and "path_route (ascii ''/api/'' @ b @ 47 # i) = Some (if b = ascii ''share'' then ToShare i else ToWatch i)"
proof -
  have plain: "list_all plain_char i"
    using assms(1) hex_plain by (auto simp: list_all_iff plain_char_def)
  show "plain_path (ascii ''/api/'' @ b @ 47 # i)"
    using assms(1,3) hex_plain
    by (auto simp: plain_path_def ascii_def list_all_iff) (auto simp: url_letter_def url_digit_def)
  have no: "47 \<notin> set i" "47 \<notin> set b" "list_all plain_char b"
    using assms(1,3) by (auto simp: list_all_iff is_hex_def ascii_def plain_char_def url_letter_def)
  have "Split 47 (ascii ''api'' @ 47 # b @ 47 # i) = [ascii ''api'', b, i]"
    using no by (simp add: Split_append Split_single ascii_def)
  moreover have "ascii ''/api/'' @ b @ 47 # i = 47 # (ascii ''api'' @ 47 # b @ 47 # i)" by (simp add: ascii_def)
  moreover have "unescape encodeOther (ascii ''api'') = Some (ascii ''api'')"
    by (rule plain_chars(7)) (simp add: ascii_def plain_char_def url_letter_def)
  ultimately have "segments (ascii ''/api/'' @ b @ 47 # i) = [Some (ascii ''api''), Some b, Some i]"
    using plain_chars(7) [OF plain] plain_chars(7) [OF no(3)] by (simp add: segments_def)
  moreover have "ascii ''watch'' \<noteq> ascii ''share''" by (simp add: ascii_def)
  ultimately show "path_route (ascii ''/api/'' @ b @ 47 # i) = Some (if b = ascii ''share'' then ToShare i else ToWatch i)"
    using assms(2,3) by (auto simp: path_route_def)
qed

lemma join_route: "path_route (ascii ''/join'') = Some ToPage" "plain_path (ascii ''/join'')"
proof -
  have "segments (ascii ''/join'') = [Some (ascii ''join'')]"
    using plain_segment [of "ascii ''join''"]
    by (simp add: segments_def ascii_def plain_char_def url_letter_def)
  then show "path_route (ascii ''/join'') = Some ToPage" by (simp add: path_route_def)
qed (simp add: plain_path_def ascii_def url_letter_def)

text \<open>
  C19. What the clients dial, the relay serves. For a relay at a plain host and port, over \<open>wss\<close> or
  \<open>ws\<close>, the address that \<open>lw share\<close> dials for a valid session ID names that host and is routed to the
  share handler with that ID, the one that \<open>lw join\<close> dials to the watch handler with that ID, and the link
  shown to the viewers to the page, with the code in the fragment that is not sent.
\<close>

theorem dialled_addresses_are_served:
  assumes "s = ascii ''wss'' \<or> s = ascii ''ws''" and "plain_host h" and "validOptionalPort p"
    and "validSessionID i" and "relayURL = s @ ascii ''://'' @ h @ p"
  shows "(\<exists>u. Parse (relayURL @ ascii ''/api/share/'' @ i) = Some u \<and> u_Host u = h @ p
      \<and> mux_route (ascii ''GET'') (u_Path u) = ToShare i)
    \<and> (\<exists>u. Parse (relayURL @ ascii ''/api/watch/'' @ i) = Some u \<and> u_Host u = h @ p
      \<and> mux_route (ascii ''GET'') (u_Path u) = ToWatch i)
    \<and> (\<exists>link u. buildWatchURL relayURL code = link @ 35 # code
      \<and> Parse link = Some u \<and> u_Host u = h @ p \<and> mux_route (ascii ''GET'') (u_Path u) = ToPage)"
proof -
  have i: "list_all is_hex i" "i \<noteq> []"
    using assms(4) by (auto simp: validSessionID_def hex_decodes_def SessionIDLen_def split: if_splits)
  have s: "web_scheme s" using assms(1) by (auto simp: web_scheme_def)
  let ?api = "\<lambda>b. ascii ''/api/'' @ b @ 47 # i"
  have dial: "Parse (relayURL @ ?api b) = Some \<lparr>u_Scheme = s, u_Host = h @ p, u_Path = ?api b\<rparr>"
    if "b = ascii ''share'' \<or> b = ascii ''watch''" for b
    using Parse_plain [OF s assms(2,3) api_route(1) [OF i that]] assms(5) by simp
  let ?http = "if s = ascii ''ws'' then ascii ''http'' else ascii ''https''"
  have page: "Parse (?http @ ascii ''://'' @ h @ p @ ascii ''/join'')
      = Some \<lparr>u_Scheme = ?http, u_Host = h @ p, u_Path = ascii ''/join''\<rparr>"
    by (rule Parse_plain [OF _ assms(2,3) join_route(2)]) (simp add: web_scheme_def)
  have "Parse relayURL = Some \<lparr>u_Scheme = s, u_Host = h @ p, u_Path = []\<rparr>"
    using Parse_plain [OF s assms(2,3), of "[]"] assms(5) by (simp add: plain_path_def)
  then have "buildWatchURL relayURL code = (?http @ ascii ''://'' @ h @ p @ ascii ''/join'') @ 35 # code"
    by (simp add: buildWatchURL_def ascii_def)
  moreover have "path_route (?api (ascii ''share'')) = Some (ToShare i)"
    "path_route (?api (ascii ''watch'')) = Some (ToWatch i)"
    using api_route(2) [OF i, of "ascii ''share''"] api_route(2) [OF i, of "ascii ''watch''"]
    by (simp_all add: ascii_def)
  moreover have "ascii ''/api/share/'' @ i = ?api (ascii ''share'')" "ascii ''/api/watch/'' @ i = ?api (ascii ''watch'')"
    by (simp_all add: ascii_def)
  ultimately show ?thesis
    using dial page join_route(1) by (auto simp: mux_route_def)
qed

lemma dialled_addresses_are_served_witness:
  "\<exists>u. Parse (ascii ''wss://relay.example:8443/api/share/00112233445566778899aabbccddeeff'') = Some u
    \<and> u_Host u = ascii ''relay.example:8443''
    \<and> mux_route (ascii ''GET'') (u_Path u) = ToShare (ascii ''00112233445566778899aabbccddeeff'')"
proof -
  have "ascii ''wss'' = ascii ''wss'' \<or> ascii ''wss'' = ascii ''ws''" "plain_host (ascii ''relay.example'')"
    "validOptionalPort (ascii '':8443'')"
    by (simp_all add: plain_host_def validOptionalPort_def ascii_def url_letter_def url_digit_def)
  moreover have "validSessionID (ascii ''00112233445566778899aabbccddeeff'')" by code_simp
  ultimately show ?thesis
    using dialled_addresses_are_served [of "ascii ''wss''" "ascii ''relay.example''" "ascii '':8443''"
        "ascii ''00112233445566778899aabbccddeeff''" "ascii ''wss://relay.example:8443''" "[]"]
    by (simp add: ascii_def)
qed

text \<open>
  C20. A relay that starts is as its flags say. Its certificate is the generated one with
  \<open>--self-signed\<close>, for which the files must not be given, and otherwise the pair of the two files, both
  given and both read; in either case it speaks TLS 1.2 or later, its server is empty and limits its
  clients by the default limits, and it believes the headers of the proxies that were named and readable
  and of nobody else. Its fingerprint is printed exactly when it is self-signed.
\<close>

theorem relay_starts_secured:
  assumes "runRelay C read_file now listening listen selfSigned certFile keyFile proxies logLevel = Inr g"
  shows "sg_MinVersion g = VersionTLS12 \<and> sg_server g = NewServer (Some (NewRateLimiter DefaultRateLimitConfig))
    \<and> sg_trusted g = WithTrustedProxies proxies \<and> listening = Inr (sg_addr g)
    \<and> (if selfSigned
       then certFile = [] \<and> keyFile = []
         \<and> (\<exists>fp. fst (generateSelfSignedCert C listen now) = Inr (sg_cert g, fp)
             \<and> ascii ''fingerprint: '' @ fp \<in> set (sg_stderr g))
       else certFile \<noteq> [] \<and> keyFile \<noteq> []
         \<and> (\<exists>certPEM keyPEM. read_file certFile = Inr certPEM \<and> read_file keyFile = Inr keyPEM
             \<and> cl_X509KeyPair C certPEM keyPEM = Inr (sg_cert g))
         \<and> length (sg_stderr g) = (if proxies = [] then 2 else 3))"
proof -
  have serve: "sg_MinVersion g = VersionTLS12 \<and> sg_server g = NewServer (Some (NewRateLimiter DefaultRateLimitConfig))
      \<and> sg_trusted g = WithTrustedProxies proxies \<and> listening = Inr (sg_addr g) \<and> sg_cert g = cert
      \<and> (fp \<noteq> [] \<longrightarrow> ascii ''fingerprint: '' @ fp \<in> set (sg_stderr g))
      \<and> (fp = [] \<longrightarrow> length (sg_stderr g) = (if proxies = [] then 2 else 3))"
    if "serveRelay listening listen cert fp proxies logLevel = Inr g" for cert fp
    using that by (auto simp: serveRelay_def Let_def WithTrustedProxies_def List.map_filter_simps split: sum.splits)
  show ?thesis
  proof (cases selfSigned)
    case True
    then have flags: "certFile = []" "keyFile = []"
      and self: "startRelaySelfSigned C now listening listen proxies logLevel = Inr g"
      using assms by (auto simp: runRelay_def relay_flags_def split: if_splits)
    then obtain cert fp where gen: "fst (generateSelfSignedCert C listen now) = Inr (cert, fp)"
      and run: "serveRelay listening listen cert fp proxies logLevel = Inr g"
      by (auto simp: startRelaySelfSigned_def split: sum.splits)
    from gen have "fp \<noteq> []"
      by (auto simp: generateSelfSignedCert_def Let_def certFingerprint_def ascii_def split: sum.splits)
    with serve [OF run] gen flags True show ?thesis by auto
  next
    case False
    then have flags: "certFile \<noteq> []" "keyFile \<noteq> []"
      and files: "startRelay C read_file listening listen certFile keyFile proxies logLevel = Inr g"
      using assms by (auto simp: runRelay_def relay_flags_def split: if_splits)
    then obtain certPEM keyPEM cert where "read_file certFile = Inr certPEM" "read_file keyFile = Inr keyPEM"
      "cl_X509KeyPair C certPEM keyPEM = Inr cert"
      and run: "serveRelay listening listen cert [] proxies logLevel = Inr g"
      by (auto simp: startRelay_def split: sum.splits)
    with serve [OF run] flags False show ?thesis by auto
  qed
qed

text \<open>Packages that always answer; a certificate is its two texts.\<close>

definition ex_cert_lib :: "(bytes, bytes \<times> bytes) cert_lib" where
  "ex_cert_lib =
     \<lparr>cl_GenerateKey = Inr [7], cl_serial = Inr 5, cl_CreateCertificate = (\<lambda>t n k. Inr (48 # tm_CommonName t)),
      cl_MarshalECPrivateKey = (\<lambda>k. Inr (48 # k)), cl_EncodeToMemory = (\<lambda>kind der. ascii kind @ der),
      cl_X509KeyPair = (\<lambda>c k. Inr (c, k)), cl_sha256 = take 2\<rparr>"

definition ex_serving :: "bool \<Rightarrow> bytes \<Rightarrow> bytes list \<Rightarrow> relay_error + (bytes \<times> bytes) serving" where
  "ex_serving selfSigned file proxies =
     runRelay ex_cert_lib Inr (0, 0) (Inr (ascii ''[::]:8443'')) (ascii '':8443'') selfSigned file file proxies
       (ascii ''info'')"

lemma ex_serving_starts: "\<exists>g. ex_serving False (ascii ''c'') proxies = Inr g" "\<exists>g. ex_serving True [] proxies = Inr g"
  by (simp_all add: ex_serving_def runRelay_def relay_flags_def startRelay_def startRelaySelfSigned_def serveRelay_def
      generateSelfSignedCert_def ex_cert_lib_def ascii_def Let_def)

lemma relay_starts_secured_witness:
  "(\<exists>g. ex_serving False (ascii ''c'') [] = Inr g \<and> sg_MinVersion g = VersionTLS12
      \<and> sg_trusted g = WithTrustedProxies [])
   \<and> (\<exists>g fp. ex_serving True [] [ascii ''127.0.0.0/8''] = Inr g
      \<and> sg_trusted g = WithTrustedProxies [ascii ''127.0.0.0/8'']
      \<and> ascii ''fingerprint: '' @ fp \<in> set (sg_stderr g))"
proof -
  obtain g g' where "ex_serving False (ascii ''c'') [] = Inr g" "ex_serving True [] [ascii ''127.0.0.0/8''] = Inr g'"
    using ex_serving_starts by blast
  with relay_starts_secured [OF this(1) [unfolded ex_serving_def]]
    relay_starts_secured [OF this(2) [unfolded ex_serving_def]]
  show ?thesis by auto
qed

text \<open>
  A proxy that cannot be trusted is announced as trusted. The line that the relay prints names every
  \<open>--trusted-proxy\<close> as it was given, but an entry that is no network in CIDR notation, such as a plain
  address, is left out without a word: the networks are those of the other entries, and if there is no other
  one, the headers of the proxy are not believed and its clients are limited and banned under its address.
\<close>

theorem bad_proxy_is_announced:
  assumes "runRelay C read_file now listening listen selfSigned certFile keyFile proxies logLevel = Inr g"
    and "c \<in> set proxies" and "ParseCIDR c = None"
  shows "ascii ''trusted proxies: ['' @ Join proxies [32] @ ascii '']'' \<in> set (sg_stderr g)
    \<and> sg_trusted g = WithTrustedProxies (filter (\<lambda>x. x \<noteq> c) proxies)
    \<and> (proxies = [c]
       \<longrightarrow> (\<forall>r. SplitHostPort (rq_RemoteAddr r) = Some (host, port) \<longrightarrow> extractIP (sg_trusted g) r = host))"
proof -
  have "List.map_filter ParseCIDR xs = List.map_filter ParseCIDR (filter (\<lambda>x. x \<noteq> c) xs)" for xs
    using assms(3) by (induction xs) (auto simp: List.map_filter_simps split: option.splits)
  then have "List.map_filter ParseCIDR proxies = List.map_filter ParseCIDR (filter (\<lambda>x. x \<noteq> c) proxies)" .
  moreover obtain cert fp where "serveRelay listening listen cert fp proxies logLevel = Inr g"
    using assms(1)
    by (auto simp: runRelay_def startRelaySelfSigned_def startRelay_def split: option.splits if_splits sum.splits)
  ultimately have "sg_trusted g = WithTrustedProxies (filter (\<lambda>x. x \<noteq> c) proxies)"
    "ascii ''trusted proxies: ['' @ Join proxies [32] @ ascii '']'' \<in> set (sg_stderr g)"
    using assms(2) by (auto simp: serveRelay_def Let_def WithTrustedProxies_def split: sum.splits)
  then show ?thesis
    by (auto simp: WithTrustedProxies_def extractIP_def List.map_filter_simps)
qed

lemma bad_proxy_is_announced_witness:
  "\<exists>g. ex_serving False (ascii ''c'') [ascii ''10.0.0.1''] = Inr g
     \<and> ascii ''trusted proxies: [10.0.0.1]'' \<in> set (sg_stderr g) \<and> sg_trusted g = []"
proof -
  have "ParseCIDR (ascii ''10.0.0.1'') = None" by (simp add: ParseCIDR_def ascii_def)
  moreover from ex_serving_starts(1) obtain g where "ex_serving False (ascii ''c'') [ascii ''10.0.0.1''] = Inr g" ..
  ultimately show ?thesis
    using bad_proxy_is_announced [of ex_cert_lib Inr "(0, 0)" _ _ False _ _ "[ascii ''10.0.0.1'']" _ g "ascii ''10.0.0.1''"]
    by (simp add: ex_serving_def WithTrustedProxies_def List.map_filter_simps ascii_def)
qed

end
