(* ===== verification/Relay_Process.thy ===== *)
theory Relay_Process
  imports Relay_Cmd Sharer
begin

text \<open>
  The life of \<open>lw relay\<close> (\<open>cmd/lw/relay.go\<close>): its flags, who is told the address it listens on, and the
  end of \<open>serveRelay\<close>, where the goroutine that serves and the one that waits for a signal run side by side.
\<close>

section \<open>Flags\<close>

record relay_options =
  ro_listen :: bytes
  ro_certFile :: bytes
  ro_keyFile :: bytes
  ro_selfSigned :: bool
  ro_trustedProxy :: "bytes list"
  ro_logLevel :: bytes

text \<open>The values of the flags that are not given.\<close>

definition relay_defaults :: relay_options where
  "relay_defaults =
     \<lparr>ro_listen = ascii '':8443'', ro_certFile = [], ro_keyFile = [], ro_selfSigned = False, ro_trustedProxy = [],
      ro_logLevel = ascii ''info''\<rparr>"

definition newRelayCmd ::
  "('k, 'c) cert_lib \<Rightarrow> (bytes \<Rightarrow> string + bytes) \<Rightarrow> time \<times> time \<Rightarrow> string + bytes \<Rightarrow> relay_options
    \<Rightarrow> relay_error + 'c serving" where
  "newRelayCmd C read_file now listening ro =
     runRelay C read_file now listening (ro_listen ro) (ro_selfSigned ro) (ro_certFile ro) (ro_keyFile ro)
       (ro_trustedProxy ro) (ro_logLevel ro)"

text \<open>Without flags the relay does not start: there is no insecure mode.\<close>

lemma relay_needs_a_certificate: "newRelayCmd C read_file now listening relay_defaults = Inl CertAndKeyRequired"
  by (simp add: newRelayCmd_def relay_defaults_def runRelay_def relay_flags_def)

section \<open>Serving and shutting down\<close>

text \<open>
  The listener that is told the address is a variable of the package, set under its lock; it is read under
  the lock, too, and called after it, if there is one.
\<close>

definition setRelayAddrNotify ::
  "(bytes \<Rightarrow> 'e list) option \<Rightarrow> (bytes \<Rightarrow> 'e list) option \<Rightarrow> (bytes \<Rightarrow> 'e list) option" where
  "setRelayAddrNotify fn relayAddrNotify = fn"

definition notifyRelayAddr :: "(bytes \<Rightarrow> 'e list) option \<Rightarrow> bytes \<Rightarrow> 'e list" where
  "notifyRelayAddr relayAddrNotify addr = (case relayAddrNotify of None \<Rightarrow> [] | Some fn \<Rightarrow> fn addr)"

text \<open>
  The process from there on: whether its context is done, how far the goroutine with the call of
  \<open>Shutdown\<close> has come, and what \<open>serveRelay\<close> has returned.
\<close>

datatype shutdown_state = NotAsked | Draining | Drained

record relay_process =
  rp_ctx :: context_state
  rp_shutdown :: shutdown_state
  rp_result :: "relay_error option option"

definition new_process :: relay_process where
  "new_process = \<lparr>rp_ctx = \<lparr>cx_cancelled = False\<rparr>, rp_shutdown = NotAsked, rp_result = None\<rparr>"

datatype process_event = SignalArrives | ShutdownCalled | ShutdownReturns | ServeReturns serve_end

text \<open>
  What may happen. \<open>net/http\<close> documents that \<open>Serve\<close> returns \<open>ErrServerClosed\<close> after \<open>Shutdown\<close> was
  called and an error of the listener otherwise, and that \<open>Shutdown\<close> returns when the open requests are
  done or its ten seconds are over. When \<open>serveRelay\<close> has returned, the process ends.
\<close>

fun process_ready :: "process_event \<Rightarrow> relay_process \<Rightarrow> bool" where
  "process_ready SignalArrives p \<longleftrightarrow> rp_result p = None"
| "process_ready ShutdownCalled p \<longleftrightarrow>
     rp_result p = None \<and> cx_cancelled (rp_ctx p) \<and> rp_shutdown p = NotAsked"
| "process_ready ShutdownReturns p \<longleftrightarrow> rp_result p = None \<and> rp_shutdown p = Draining"
| "process_ready (ServeReturns e) p \<longleftrightarrow>
     rp_result p = None \<and> (case e of ServerClosed \<Rightarrow> rp_shutdown p \<noteq> NotAsked | ServeError t \<Rightarrow> rp_shutdown p = NotAsked)"

fun process_step :: "process_event \<Rightarrow> relay_process \<Rightarrow> relay_process" where
  "process_step SignalArrives p = p\<lparr>rp_ctx := context_cancel (rp_ctx p)\<rparr>"
| "process_step ShutdownCalled p = p\<lparr>rp_shutdown := Draining\<rparr>"
| "process_step ShutdownReturns p = p\<lparr>rp_shutdown := Drained\<rparr>"
| "process_step (ServeReturns e) p = p\<lparr>rp_result := Some (serve_result e)\<rparr>"

inductive process_reachable :: "relay_process \<Rightarrow> bool" where
  started: "process_reachable new_process"
| stepped: "process_reachable p \<Longrightarrow> process_ready ev p \<Longrightarrow> process_reachable (process_step ev p)"

inductive_cases process_reachableE: "process_reachable p"

lemma process_shutdown_asked: "process_reachable p \<Longrightarrow> rp_shutdown p \<noteq> NotAsked \<Longrightarrow> cx_cancelled (rp_ctx p)"
proof (induction rule: process_reachable.induct)
  case (stepped p ev)
  then show ?case by (cases ev) (auto simp: context_cancel_def)
qed (simp add: new_process_def)

text \<open>
  The exit status tells whether the relay was asked to stop: \<open>serveRelay\<close> returns without an error only
  after a signal, and with one only when the listener failed first.
\<close>

lemma relay_result_is_true:
  assumes "process_reachable p" "rp_result p = Some r"
  shows "(r = None \<and> cx_cancelled (rp_ctx p) \<and> rp_shutdown p \<noteq> NotAsked)
    \<or> (\<exists>t. r = Some (ServeFailed t) \<and> rp_shutdown p = NotAsked)"
  using assms
proof (induction rule: process_reachable.induct)
  case (stepped p ev)
  then show ?case
    using process_shutdown_asked [OF stepped.hyps(1)]
    by (cases ev) (auto simp: serve_result_def split: serve_end.splits)
qed (simp add: new_process_def)

text \<open>
  The relay does not wait for its own shutdown. From the moment it has called \<open>Shutdown\<close>, \<open>Serve\<close> may
  return, and when it does before \<open>Shutdown\<close> has, the command returns without an error and the process is over:
  nothing can happen any more, so the ten seconds that \<open>Shutdown\<close> may wait for open requests are never used.
\<close>

theorem relay_shutdown_not_awaited:
  assumes "process_reachable p" "rp_shutdown p = Draining" "rp_result p = None"
  shows "process_ready (ServeReturns ServerClosed) p
    \<and> (let p' = process_step (ServeReturns ServerClosed) p
       in process_reachable p' \<and> rp_result p' = Some None \<and> rp_shutdown p' = Draining \<and> cx_cancelled (rp_ctx p')
         \<and> \<not> (\<exists>ev. process_ready ev p'))"
proof -
  let ?p = "process_step (ServeReturns ServerClosed) p"
  have r: "process_ready (ServeReturns ServerClosed) p" using assms(2,3) by simp
  have "\<not> process_ready ev ?p" for ev by (cases ev) simp_all
  moreover have "cx_cancelled (rp_ctx p)" using process_shutdown_asked [OF assms(1)] assms(2) by simp
  ultimately show ?thesis
    using r assms(2) process_reachable.stepped [OF assms(1) r] by (simp add: Let_def serve_result_def)
qed

theorem relay_shutdown_not_awaited_witness:
  "let p = fold process_step [SignalArrives, ShutdownCalled, ServeReturns ServerClosed] new_process
   in rp_result p = Some None \<and> rp_shutdown p = Draining \<and> \<not> (\<exists>ev. process_ready ev p)"
proof -
  let ?p = "process_step ShutdownCalled (process_step SignalArrives new_process)"
  have "process_reachable (process_step SignalArrives new_process)"
    by (rule process_reachable.stepped [OF process_reachable.started]) (simp add: new_process_def)
  then have "process_reachable ?p"
    by (rule process_reachable.stepped) (simp add: new_process_def context_cancel_def)
  from relay_shutdown_not_awaited [OF this] show ?thesis
    by (simp add: Let_def new_process_def serve_result_def)
qed

end
