(* ===== verification/Cli.thy ===== *)
theory Cli
  imports Relay_Process Join
begin

text \<open>
  The command line of \<open>lw\<close> (\<open>newRootCmd\<close> and the constructors of its commands in \<open>cmd/lw\<close>): which commands
  there are and what each declares to the parser. The parser, \<open>cobra\<close>, is a package: what it does with the
  rules for arguments enters as a parameter.
\<close>

section \<open>The commands\<close>

text \<open>A command that declares no rule for its arguments takes any.\<close>

datatype arg_rule = AnyArgs | NoArgs | ExactArgs nat

datatype flag_value = StringFlag bytes | BoolFlag bool | StringSliceFlag "bytes list"

text \<open>\<open>cm_RunE\<close> names the function that the command runs.\<close>

datatype run_function = RunShare | RunJoin | RunList | RunRevoke | RunStop | RunRelay

record command =
  cm_Use :: string
  cm_Aliases :: "string list"
  cm_Short :: string
  cm_Args :: arg_rule
  cm_SilenceUsage :: bool
  cm_RunE :: run_function
  cm_Flags :: "(string \<times> flag_value) list"

definition relay_flag_defaults :: "(string \<times> flag_value) list" where
  "relay_flag_defaults = [(''relay'', StringFlag defaultRelayURL), (''relay-insecure'', BoolFlag False)]"

definition share_command :: command where
  "share_command =
     \<lparr>cm_Use = ''share'', cm_Aliases = [], cm_Short = ''Start a terminal sharing session'', cm_Args = AnyArgs,
      cm_SilenceUsage = True, cm_RunE = RunShare, cm_Flags = relay_flag_defaults\<rparr>"

definition join_command :: command where
  "join_command =
     \<lparr>cm_Use = ''join <code>'', cm_Aliases = [], cm_Short = ''Join a terminal sharing session'', cm_Args = ExactArgs 1,
      cm_SilenceUsage = True, cm_RunE = RunJoin, cm_Flags = relay_flag_defaults\<rparr>"

definition newListCmd :: command where
  "newListCmd =
     \<lparr>cm_Use = ''list'', cm_Aliases = [''viewers''], cm_Short = ''List connected viewers for the active session'',
      cm_Args = AnyArgs, cm_SilenceUsage = True, cm_RunE = RunList, cm_Flags = []\<rparr>"

definition newRevokeCmd :: command where
  "newRevokeCmd =
     \<lparr>cm_Use = ''revoke <viewer-id>'', cm_Aliases = [],
      cm_Short = ''Revoke a viewer'' @ [CHR 0x27] @ ''s access to the active session'', cm_Args = ExactArgs 1,
      cm_SilenceUsage = True, cm_RunE = RunRevoke, cm_Flags = []\<rparr>"

definition newStopCmd :: command where
  "newStopCmd =
     \<lparr>cm_Use = ''stop'', cm_Aliases = [], cm_Short = ''Stop the active sharing session'', cm_Args = NoArgs,
      cm_SilenceUsage = True, cm_RunE = RunStop, cm_Flags = []\<rparr>"

definition relay_command :: command where
  "relay_command =
     \<lparr>cm_Use = ''relay'', cm_Aliases = [], cm_Short = ''Start the relay server'', cm_Args = AnyArgs,
      cm_SilenceUsage = True, cm_RunE = RunRelay,
      cm_Flags =
        [(''listen'', StringFlag (ro_listen relay_defaults)), (''tls-cert'', StringFlag (ro_certFile relay_defaults)),
         (''tls-key'', StringFlag (ro_keyFile relay_defaults)), (''self-signed'', BoolFlag (ro_selfSigned relay_defaults)),
         (''trusted-proxy'', StringSliceFlag (ro_trustedProxy relay_defaults)),
         (''log-level'', StringFlag (ro_logLevel relay_defaults))]\<rparr>"

record root_command =
  rt_Use :: string
  rt_Short :: string
  rt_Version :: string
  rt_VersionTemplate :: string
  rt_SilenceErrors :: bool
  rt_commands :: "command list"

definition newRootCmd :: "string \<Rightarrow> root_command" where
  "newRootCmd ver =
     \<lparr>rt_Use = ''lw'', rt_Short = ''E2E-encrypted terminal sharing'', rt_Version = ver,
      rt_VersionTemplate = ''lw {{.Version}}'' @ [CHR 0x0A], rt_SilenceErrors = True,
      rt_commands = [share_command, join_command, newListCmd, newRevokeCmd, newStopCmd, relay_command]\<rparr>"

section \<open>What is typed names one command\<close>

text \<open>The words a command is called by: the first of its usage line and its aliases.\<close>

definition command_words :: "command \<Rightarrow> string list" where
  "command_words c = takeWhile (\<lambda>ch. ch \<noteq> CHR 0x20) (cm_Use c) # cm_Aliases c"

lemma command_words_distinct: "distinct (concat (map command_words (rt_commands (newRootCmd ver))))"
  by (simp add: newRootCmd_def command_words_def share_command_def join_command_def newListCmd_def newRevokeCmd_def
      newStopCmd_def relay_command_def)

text \<open>How many of its arguments the function of a command reads by their index.\<close>

fun args_read :: "run_function \<Rightarrow> nat" where
  "args_read RunJoin = 1"
| "args_read RunRevoke = 1"
| "args_read _ = 0"

text \<open>No command reads an argument that it was not given, when the parser keeps to the rules declared.\<close>

lemma args_suffice:
  assumes "\<And>n args. accepts (ExactArgs n) args \<Longrightarrow> length args = n"
    and "c \<in> set (rt_commands (newRootCmd ver))" and "accepts (cm_Args c) args"
  shows "args_read (cm_RunE c) \<le> length (args :: bytes list)"
  using assms(2,3) assms(1) [of 1 args]
  by (auto simp: newRootCmd_def share_command_def join_command_def newListCmd_def newRevokeCmd_def newStopCmd_def
      relay_command_def)

end
