(* ===== verification/Spec2Isabelle.thy ===== *)
theory Spec2Isabelle
  imports Membership Session_Spec Sharer_Wire Commands Cli
begin

text \<open>
  Lockwire shares a terminal. A sharer (\<open>lw share\<close>) runs a shell and streams its output, encrypted,
  over a relay (\<open>lw relay\<close>) to viewers (\<open>lw join\<close>); the relay forwards messages it cannot read. Sharer and
  viewer agree on keys with SPAKE2 from a short code; the sharer can list and revoke viewers and stop the
  session from another terminal (\<open>lw list\<close>, \<open>lw revoke\<close>, \<open>lw stop\<close>) over a control socket, and a
  revocation rotates the stream key. This development models the Go code under \<open>src/internal\<close> and
  \<open>src/cmd/lw\<close> that does this and proves what makes it correct. Each theory opens with a description of its part.

  Parts, in the order the calls go.
  \<^item> \<open>Prelude\<close>: bytes and buffers, big-endian integers (\<open>encoding/binary\<close>), Go maps and the order
    in which \<open>range\<close> visits them, times, and what \<open>Recv\<close> returns. \<open>Go_Strings\<close>: texts, runes and what
    the code uses of \<open>strings\<close> and \<open>strconv\<close>. \<open>Net_Addr\<close>: what it uses of \<open>net\<close> and \<open>net/netip\<close>.
  \<^item> \<open>Aes_Gcm\<close>: AES-256 in Galois/Counter mode, defined in full, with the laws the code relies on:
    what was sealed opens, and only what was sealed under the same key and nonce opens.
  \<^item> \<open>Protocol\<close>: \<open>internal/protocol/constants.go\<close>.
  \<^item> \<open>Crypto\<close>: \<open>internal/crypto\<close>. Keys are addresses into a memory of buffers (\<open>mem\<close>), so that
    \<open>ZeroBytes\<close> is an effect; \<open>clean\<close> says that every buffer outside a set was zeroed, and the
    locale \<open>key_owner\<close> is the contract of a component that owns key buffers.
  \<^item> \<open>Wordlist\<close>, \<open>Pairing_Code\<close>: \<open>internal/code\<close>, the word list and the codes.
  \<^item> \<open>Session_State\<close>: \<open>internal/session/session.go\<close>. \<open>sess_wf\<close> and \<open>clean_but\<close> are its invariants;
    a run is any sequence of method calls. \<open>Session_Spec\<close>: the key group that a session promises to its
    members, and the refinement of it by the session.
  \<^item> \<open>Rate_Limit\<close>: \<open>internal/relay/ratelimit.go\<close>, proved against runs of requests.
  \<^item> \<open>Relay\<close>, \<open>Relay_Inv\<close>, \<open>Relay_Props\<close>: \<open>internal/relay/relay.go\<close> as a transition system whose
    steps are the critical sections of its goroutines; \<open>reachable\<close> by rule induction. \<open>Client_Addr\<close>: the
    address under which it limits a client. \<open>Relay_Cmd\<close>: its routes, and the command that starts it
    (\<open>cmd/lw/relay.go\<close>, \<open>selfcert.go\<close>, \<open>relayprobe.go\<close>). \<open>Relay_Process\<close>: its flags, and how serving ends
    after a signal, as a step relation over the two goroutines.
  \<^item> \<open>Viewer\<close>, \<open>Viewer_Props\<close>: \<open>internal/viewer/viewer.go\<close>.
  \<^item> \<open>Sharer\<close>, \<open>Sharer_Inv\<close>, \<open>Sharer_Props\<close>, \<open>Sharer_Wire\<close>: \<open>internal/sharer/sharer.go\<close>, on top of the
    session; a run is any interleaving of its loops and of the calls of \<open>Revoke\<close> and \<open>SetTermSize\<close>.
    \<open>Sharer_Wire\<close> is about the form of the messages it sends.
  \<^item> \<open>Ipc\<close>, \<open>Control\<close>: \<open>internal/ipc/ipc.go\<close> and the adapter (\<open>cmd/lw/ipcadapter.go\<close>) that lets a client
    of the control socket act on a sharer.
  \<^item> \<open>Pty\<close>: \<open>internal/pty/pty.go\<close>. \<open>Tty\<close>: raw mode of the user's terminal (\<open>cmd/lw/terminal_linux.go\<close> and
    \<open>terminal_darwin.go\<close>). \<open>Status_Bar\<close>, \<open>Share_Probe\<close>: \<open>cmd/lw/statusbar.go\<close> with its timer as a step
    relation, and the probe that counts viewers on it.
  \<^item> \<open>Cli_Session\<close>: the PID file and the search for the control socket (\<open>cmd/lw/pidfile.go\<close>, \<open>list.go\<close>).
    \<open>Relay_Url\<close>: the relay addresses that are accepted (\<open>cmd/lw/root.go\<close>) and dialled (\<open>relayclient.go\<close>).
  \<^item> \<open>Share\<close>, \<open>Share_Props\<close>: \<open>lw share\<close> (\<open>cmd/lw/share.go\<close>, \<open>banner.go\<close>). The process is a sharer, a
    terminal, a status bar and two contexts (\<open>live\<close>), which events of every goroutine act on in any order
    (\<open>live_step\<close>); the command around it is a nest of functions, one for each \<open>defer\<close> of the code. The
    goroutines that the code does not wait for go on after \<open>Run\<close> has returned, before and after the status
    bar is closed (\<open>lingering\<close>, \<open>outlasting\<close>); files and directories are as the failing calls leave them.
    \<open>Join\<close>: \<open>lw join\<close> (\<open>cmd/lw/join.go\<close>, \<open>joinprobe.go\<close>, \<open>main.go\<close>). \<open>Commands\<close>: \<open>lw list\<close>, \<open>lw revoke\<close>
    and \<open>lw stop\<close>. \<open>Cli\<close>: the commands with their arguments and flags, as they are declared to the parser.
  \<^item> \<open>End_To_End\<close> and this theory: a viewer followed through a stream, a rekey and a handshake that
    the sharer's own functions produced. \<open>Pipeline\<close>: a run of the relay in between, for the stream and for
    a handshake, whose messages go both ways. \<open>Membership\<close>: the same for a revocation and for a viewer that
    leaves, with the invariant on the IDs by which sharer and relay tell viewers apart.

  Conventions. A Go struct is a record, a \<open>(T, error)\<close> result a sum, a map an association list with
  distinct keys, \<open>uint64\<close> a 64-bit word, a \<open>time.Time\<close> an integer of nanoseconds. What a function
  takes from outside is an argument: readings of the clock, random draws (\<open>None\<close> where the source
  fails), the order of a \<open>range\<close>, results of system calls and of \<open>Send\<close>, messages received. Probe calls,
  messages sent and terminal output are logged in the state. Loops over a stream of messages are recursions
  over the list of messages received, so no fuel is needed; a command that has not returned is \<open>None\<close>.

  Parameters and what is assumed of them. HKDF (\<open>kdf\<close>) and Argon2 (\<open>argon2\<close>) are arbitrary functions;
  that Argon2 returns as many bytes as it is asked for is a hypothesis where it matters. The SPAKE2
  package is a record of its operations (\<open>spake_lib\<close>); \<open>wiping_lib\<close> says that the bytes \<open>SharedKey\<close>
  returns are its own state's, and \<open>spake_agrees\<close> that equal codes lead to equal keys. The text of an
  instant (\<open>time_codec\<close>), lower-casing above ASCII, the numbers of the terminal flags (\<open>tty_consts\<close>), and
  X.509 with the key pairs of TLS (\<open>cert_lib\<close>) are parameters, too. The security of
  the primitives is not modelled: no statement is about what an attacker can compute.

  What the properties show. Of all three together, over any run of the relay: honest ends agree on the keys,
  what the shell prints the viewers see, a revocation that succeeds reaches everybody but the revoked, and a
  viewer that goes is forgotten. Of the sharer: who is admitted, who learns of a revocation, that secrets
  are wiped. Of the session: nonces are never reused, keys are wiped, revocation rekeys the others, and all
  of it is what a key group promises. Of the relay: no goroutine panics, messages are delivered in order to
  whom they are addressed, limits hold and go by the right address, a session ends for everybody, it starts
  only as secured as its flags say. Of the limiter: bounds, isolation. Of the viewer: frames come out in
  order, once and only authentic. Of the codes: what is typed is what was shown. Of the commands: they dial
  over TLS, meet at the relay, find the running session and report what it did; \<open>lw share\<close> and \<open>lw join\<close>
  clean up however they end, and what a failing call or a goroutine that goes on leaves behind is part of the
  statement. Where the code does not do what it should the property states what it does.

  Not modelled. The browser client (TypeScript) and the file that embeds it; what the command line
  parser (\<open>cobra\<close>) does with its tables; the methods of \<open>cmd/lw/relayclient.go\<close>, which pass their calls on to
  the WebSocket package; deadlines and cancellation inside that package; what a terminal shows for the bytes
  written to it; the \<open>PATH\<close> that the shell gets, and the copying of key strokes to it beyond the result of the
  write; the methods that only the tests call. A step of the sharer is a turn of one of its loops: the code
  holds no lock from an encryption to the send that follows, and what comes of two turns that cross there is
  stated by \<open>overtaken_output_is_lost\<close> below, outside the step relation.
\<close>

section \<open>Streams\<close>

text \<open>
  What the sharer's shell prints, the viewers see. The stream loop sends one frame for each
  chunk of output; a viewer that holds the session's stream key and gets any of these frames, in
  the order they were sent (the relay may drop some), writes exactly the corresponding chunks, in
  that order and unchanged, whenever they arrive; it never stops for it.
\<close>

theorem viewers_see_the_stream:
  assumes "sess_wf (sh_sess s)" and "\<not> s_closed (sh_sess s)"
    and "derivable kdf (stream_key (sh_sess s)) xs" and "sorted (epochs_of xs)"
    and "list_all (\<lambda>(now, p). p \<noteq> []) xs"
    and "unat (s_nonce (sh_sess s)) + length xs < 2 ^ 64"
    and "in_step (stream_key (sh_sess s)) (s_nonce (sh_sess s)) (epochs_of xs) v"
    and "length arrivals = length (nths xs delivered)"
  shows "\<exists>frames v'. sh_sent (output_all kdf xs s) = sh_sent s @ frames \<and> length frames = length xs
    \<and> streamLoop kdf (zip arrivals (map Got (nths frames delivered))) v = (Running, v')
    \<and> vw_output v' = vw_output v @ nths (map snd xs) delivered"
proof -
  let ?fs = "stream_frames kdf (sh_sess s) xs"
  have len: "length ?fs = length xs" by (rule length_stream_frames [OF assms(1-3)])
  then have "length arrivals = length (nths ?fs delivered)"
    using assms(8) by (simp add: length_nths)
  from stream_in_step [OF assms(1-4,6,7) this] len output_all_sends [OF assms(5), of kdf s]
  show ?thesis by blast
qed

theorem viewers_see_the_stream_witness:
  "\<exists>frames v'. sh_sent (output_all ex_kdf ex_chunks ex_both) = sh_sent ex_both @ frames
    \<and> length frames = length ex_chunks
    \<and> streamLoop ex_kdf (zip [3, 90 * second] (map Got (nths frames {0, 2}))) ex_watching = (Running, v')
    \<and> vw_output v' = vw_output ex_watching @ nths (map snd ex_chunks) {0, 2}"
proof (rule viewers_see_the_stream [OF ex_both_session(1,2) ex_kdf_derivable])
  show "sorted (epochs_of ex_chunks)"
    by (simp add: ex_chunks_def epochs_of_def epoch_at_def unix_def second_def)
qed (simp_all add: ex_both_session ex_watching_step ex_chunks_def nths_Cons)

text \<open>
  C29. A frame that comes after a later one is never shown. Once a frame of a stream was shown, a frame of the
  same stream that was made before it is refused, at any time and in any epoch. As long as the sharer's clock
  was not set back over an epoch while it made the frames, the same holds of each frame of an earlier epoch:
  the grace period lets none of them be shown. (A clock that is set back gives a frame of an earlier epoch a
  larger nonce; only such a frame can come through in the period.)
\<close>

theorem late_frame_never_shown:
  assumes "unat (s_nonce s) + length xs < 2 ^ 64"
    and "i < length (stream_frames kdf s xs)" and "j < length (stream_frames kdf s xs)"
    and "i < j \<or> sorted (epochs_of xs)
          \<and> frame_epoch (stream_frames kdf s xs ! i) < frame_epoch (stream_frames kdf s xs ! j)"
    and "fst (decryptAndWrite kdf now (stream_frames kdf s xs ! j) v) = None"
  shows "case decryptAndWrite kdf now' (stream_frames kdf s xs ! i)
      (snd (decryptAndWrite kdf now (stream_frames kdf s xs ! j) v)) of (e, v') \<Rightarrow>
    e \<noteq> None \<and> vw_output v' = vw_output (snd (decryptAndWrite kdf now (stream_frames kdf s xs ! j) v))"
proof -
  have "i < j" using assms(4) stream_frames_by_epoch [OF _ assms(2,3)] by blast
  then have "nonce_val (frame_nonce (stream_frames kdf s xs ! i)) < nonce_val (frame_nonce (stream_frames kdf s xs ! j))"
    using stream_frames_sorted [OF assms(1), of kdf] assms(3) by (simp add: sorted_wrt_iff_nth_less)
  from late_frame_fails [OF assms(5) less_imp_le [OF this], of now'] show ?thesis by (simp add: split_beta)
qed

theorem late_frame_never_shown_witness:
  "case decryptAndWrite ex_kdf 2 (stream_frames ex_kdf (sh_sess ex_both) ex_chunks ! 0)
      (snd (decryptAndWrite ex_kdf 1 (stream_frames ex_kdf (sh_sess ex_both) ex_chunks ! 1) ex_watching)) of (e, v') \<Rightarrow>
    e \<noteq> None \<and> vw_output v' = vw_output (snd (decryptAndWrite ex_kdf 1
      (stream_frames ex_kdf (sh_sess ex_both) ex_chunks ! 1) ex_watching))"
proof (rule late_frame_never_shown [OF _ _ _ _ ex_second_frame])
  have "length (stream_frames ex_kdf (sh_sess ex_both) ex_chunks) = 3"
    using length_stream_frames [OF ex_both_session(1,2) ex_kdf_derivable, of ex_chunks] by (simp add: ex_chunks_def)
  then show "0 < length (stream_frames ex_kdf (sh_sess ex_both) ex_chunks)"
    "1 < length (stream_frames ex_kdf (sh_sess ex_both) ex_chunks)" by simp_all
qed (simp_all add: ex_both_session ex_chunks_def)

text \<open>
  C35. Output is lost when a terminal size overtakes it. \<open>streamLoop\<close> and \<open>broadcastTermSize\<close> of the sharer
  encrypt, taking the next nonce, and only then send, on two goroutines. A viewer that gets the two frames in
  the order of their nonces shows the output and notes the size. Sent in the other order, the size is noted and the
  output, whose nonce is now an old one, is never shown, although every frame was delivered.
\<close>

theorem overtaken_output_is_lost:
  assumes "sess_wf s" and "\<not> s_closed s" and "unat (s_nonce s) + 2 < 2 ^ 64"
    and "EncryptFrame kdf s p now = (Inr f, s1)"
    and "EncryptFrame kdf s1 (put_be 2 cols @ put_be 2 rows) now' = (Inr g, s2)"
    and "epoch_at now \<le> epoch_at now'" and "in_step (stream_key s) (s_nonce s) [epoch_at now, epoch_at now'] v"
  shows "let output = Got (buildStreamFrame (f_ciphertext f) (f_nonce f) (f_epoch f));
             size = Got (buildTermSizeFrame (f_ciphertext g) (f_nonce g) (f_epoch g));
             sent = snd (streamLoop kdf [(t, output), (t', size)] v);
             overtaken = snd (streamLoop kdf [(t, size), (t', output)] v)
         in vw_output sent = vw_output v @ [p] \<and> vw_sharerSize sent = \<lparr>Cols = cols, Rows = rows\<rparr>
          \<and> vw_output overtaken = vw_output v \<and> vw_sharerSize overtaken = \<lparr>Cols = cols, Rows = rows\<rparr>"
proof -
  let ?k = "stream_key s" and ?e = "epoch_at now" and ?e' = "epoch_at now'"
  let ?n = "s_nonce s + 1" and ?z = "put_be 2 cols @ put_be 2 rows"
  let ?out = "buildStreamFrame (f_ciphertext f) (f_nonce f) (f_epoch f)"
  let ?size = "buildTermSizeFrame (f_ciphertext g) (f_nonce g) (f_epoch g)"
  obtain ek where ek: "epoch_key kdf ?k ?e = Some ek" "f_epoch f = ?e" "f_nonce f = fst (Next (s_nonce s))"
    "Seal ek (f_nonce f) p = Inr (f_ciphertext f)" "s_nonce s1 = ?n"
    using sealed_frame [OF assms(2,4)] by auto
  have s1: "stream_key s1 = ?k" "\<not> s_closed s1"
    using EncryptFrame_stream_key [OF assms(1,2), of kdf p now] assms(4) by simp_all
  obtain ek' where ek': "epoch_key kdf ?k ?e' = Some ek'" "f_epoch g = ?e'" "f_nonce g = fst (Next ?n)"
    "Seal ek' (f_nonce g) ?z = Inr (f_ciphertext g)"
    using sealed_frame [OF s1(2) assms(5)] s1(1) ek(5) by auto
  note lt = nonce_step [of "s_nonce s" 1] nonce_step [of ?n 0]
  have n: "s_nonce s < ?n" "?n < ?n + 1" using lt assms(3) by simp_all
  have z: "get_be (take 2 ?z) = cols" "get_be (take 2 (drop 2 ?z)) = rows" by simp_all
  obtain v1 where v1: "stream_turn kdf t (Got ?out) v = (Running, v1)" "vw_output v1 = vw_output v @ [p]"
    "in_step ?k ?n [?e'] v1"
    using frame_in_step [OF assms(7) ek(1) n(1) _ _ _ ek(4), of t] assms(6) ek(2,3) by auto
  obtain v2 where v2: "stream_turn kdf t' (Got ?size) v1 = (Running, v2)" "vw_output v2 = vw_output v1"
    "vw_sharerSize v2 = \<lparr>Cols = cols, Rows = rows\<rparr>"
    using size_in_step [OF v1(3) ek'(1) n(2) _ _ _ ek'(4), of t'] ek'(2,3) z by auto
  have "in_step ?k ?n [?e'] v"
    using in_step_skip [OF assms(7), of ?n] n(1) by simp
  then obtain v3 where v3: "stream_turn kdf t (Got ?size) v = (Running, v3)" "vw_output v3 = vw_output v"
    "vw_sharerSize v3 = \<lparr>Cols = cols, Rows = rows\<rparr>" "vw_lastNonce v3 = ?n + 1"
    using size_in_step [OF _ ek'(1) n(2) _ _ _ ek'(4), of "[]" v t] ek'(2,3) z by auto
  have nonce: "length (f_nonce f) = NonceLen" "nonce_val (f_nonce f) = ?n" by (simp_all add: ek(3))
  then have "nonce_val (frame_nonce ?out) \<le> vw_lastNonce v3"
    using v3(4) less_imp_le [OF n(2)] by (simp add: stream_frame.read_back)
  note stale = stale_turn [OF this, of kdf t'] stream_frame.tagged [OF nonce(1), of "f_ciphertext f" "f_epoch f"]
  with v1 v2 v3 show ?thesis
    by (auto simp: Let_def split: prod.splits loop_end.splits)
qed

theorem overtaken_output_is_lost_witness:
  "let s = sh_sess ex_both;
       f = EncryptFrame ex_kdf s [104] 0;
       g = EncryptFrame ex_kdf (snd f) (put_be 2 (100 :: u16) @ put_be 2 (30 :: u16)) 1
   in case (f, g) of ((Inr f, _), (Inr g, _)) \<Rightarrow>
     (let output = Got (buildStreamFrame (f_ciphertext f) (f_nonce f) (f_epoch f));
          size = Got (buildTermSizeFrame (f_ciphertext g) (f_nonce g) (f_epoch g));
          sent = snd (streamLoop ex_kdf [(1, output), (2, size)] ex_watching);
          overtaken = snd (streamLoop ex_kdf [(1, size), (2, output)] ex_watching)
      in vw_output sent = vw_output ex_watching @ [[104]] \<and> vw_sharerSize sent = \<lparr>Cols = 100, Rows = 30\<rparr>
       \<and> vw_output overtaken = vw_output ex_watching \<and> vw_sharerSize overtaken = \<lparr>Cols = 100, Rows = 30\<rparr>) | _ \<Rightarrow> False"
proof -
  let ?s = "sh_sess ex_both"
  obtain f s1 where f: "EncryptFrame ex_kdf ?s [104] 0 = (Inr f, s1)"
    using EncryptFrame_open [OF ex_both_session(2), of ex_kdf "[104]" 0] by (simp add: epoch_key_def ex_kdf_def)
  have "\<not> s_closed s1" using EncryptFrame_stream_key(2) [OF ex_both_session(1,2), of ex_kdf "[104]" 0] f by simp
  then obtain g s2 where g: "EncryptFrame ex_kdf s1 (put_be 2 (100 :: u16) @ put_be 2 (30 :: u16)) 1 = (Inr g, s2)"
    using EncryptFrame_open [of s1 ex_kdf "put_be 2 (100 :: u16) @ put_be 2 (30 :: u16)" 1]
    by (simp add: epoch_key_def ex_kdf_def)
  have "epoch_at 0 \<le> epoch_at 1" by (simp add: epoch_at_def unix_def second_def)
  from overtaken_output_is_lost [OF ex_both_session(1,2) _ f g this, of ex_watching 1 2]
  show ?thesis using f g by (simp add: ex_both_session ex_watching_step Let_def)
qed

end
